(* ===== verification/Geo_Prelude.thy ===== *)
theory Geo_Prelude
  imports Complex_Main
begin

text \<open>
  Shared vocabulary of the development: the named theorem collections, the type synonyms of
  the hub's identifiers and amounts, and generic lemmas on tables of rows (lists of records
  with a key column) and on sums over the rows a predicate selects, which is how the source's
  SQL statements are read.
\<close>

named_theorems ledger_simps "unfolding rules of the ledger primitives"
named_theorems engine_defs "definitions of the payment engine's helper steps"

section \<open>Identifiers and amounts\<close>

text \<open>
  A UUID is its 128-bit number, so that the order of UUIDs is the order of the numbers. A
  finite \<open>Decimal\<close> is the rational number it denotes: sums and differences of the
  \<open>Numeric(20, 8)\<close> values the tables hold stay below the 28 digits of Python's decimal context,
  so the arithmetic of the source is exact. Times are the integer readings of the database
  clock.
\<close>

type_synonym uuid = nat
type_synonym pid = string
type_synonym amount = rat
type_synonym timestamp = int

section \<open>Tables of rows\<close>

text \<open>
  \<open>UPDATE\<close> and \<open>DELETE\<close> of the row with a given key, \<open>SELECT \<dots> scalar_one_or_none\<close>
  and \<open>COALESCE(SUM(f), 0) WHERE P\<close>.
\<close>

definition upd_row :: "('r \<Rightarrow> 'k) \<Rightarrow> 'k \<Rightarrow> ('r \<Rightarrow> 'r) \<Rightarrow> 'r list \<Rightarrow> 'r list" where
  "upd_row key k g rows = map (\<lambda>r. if key r = k then g r else r) rows"

definition del_row :: "('r \<Rightarrow> 'k) \<Rightarrow> 'k \<Rightarrow> 'r list \<Rightarrow> 'r list" where
  "del_row key k rows = filter (\<lambda>r. key r \<noteq> k) rows"

definition sql_sum :: "('r \<Rightarrow> bool) \<Rightarrow> ('r \<Rightarrow> rat) \<Rightarrow> 'r list \<Rightarrow> rat" where
  "sql_sum P f rows = sum_list (map f (filter P rows))"

lemma sql_sum_Nil [simp]: "sql_sum P f [] = 0"
  by (simp add: sql_sum_def)

lemma sql_sum_Cons [simp]:
  "sql_sum P f (r # rows) = (if P r then f r else 0) + sql_sum P f rows"
  by (simp add: sql_sum_def)

lemma sql_sum_append [simp]: "sql_sum P f (xs @ ys) = sql_sum P f xs + sql_sum P f ys"
  by (simp add: sql_sum_def)

lemma sql_sum_nonneg:
  "(\<And>r. r \<in> set rows \<Longrightarrow> P r \<Longrightarrow> 0 \<le> f r) \<Longrightarrow> 0 \<le> sql_sum P f rows"
  by (induction rows) auto

lemma sql_sum_cong:
  "(\<And>r. r \<in> set rows \<Longrightarrow> P r = Q r) \<Longrightarrow> sql_sum P f rows = sql_sum Q f rows"
  by (induction rows) auto

lemma sql_sum_none: "(\<And>r. r \<in> set rows \<Longrightarrow> \<not> P r) \<Longrightarrow> sql_sum P f rows = 0"
  by (induction rows) auto

lemma sql_sum_filter: "sql_sum P f (filter Q rows) = sql_sum (\<lambda>r. Q r \<and> P r) f rows"
  by (induction rows) auto

lemma sql_sum_mono:
  "(\<And>r. r \<in> set rows \<Longrightarrow> P r \<Longrightarrow> Q r) \<Longrightarrow> (\<And>r. r \<in> set rows \<Longrightarrow> Q r \<Longrightarrow> 0 \<le> f r)
    \<Longrightarrow> sql_sum P f rows \<le> sql_sum Q f rows"
  by (induction rows) (auto simp: add_mono add_increasing)

lemma upd_row_simps [simp]:
  "upd_row key k g [] = []"
  "upd_row key k g (r # rows) = (if key r = k then g r else r) # upd_row key k g rows"
  by (simp_all add: upd_row_def)

lemma del_row_simps [simp]:
  "del_row key k [] = []"
  "del_row key k (r # rows) = (if key r = k then del_row key k rows else r # del_row key k rows)"
  by (simp_all add: del_row_def)

lemma upd_row_absent: "k \<notin> key ` set rows \<Longrightarrow> upd_row key k g rows = rows"
  by (induction rows) auto

lemma del_row_absent: "k \<notin> key ` set rows \<Longrightarrow> del_row key k rows = rows"
  by (induction rows) auto

lemma set_del_row [simp]: "set (del_row key k rows) = {r \<in> set rows. key r \<noteq> k}"
  by (auto simp: del_row_def)

lemma set_upd_row: "set (upd_row key k g rows) = (\<lambda>r. if key r = k then g r else r) ` set rows"
  by (simp add: upd_row_def)

lemma map_upd_row: "(\<And>r. h (g r) = h r) \<Longrightarrow> map h (upd_row key k g rows) = map h rows"
  by (induction rows) auto

lemma distinct_map_del_row: "distinct (map h rows) \<Longrightarrow> distinct (map h (del_row key k rows))"
  by (simp add: del_row_def distinct_map_filter)

lemma length_upd_row [simp]: "length (upd_row key k g rows) = length rows"
  by (simp add: upd_row_def)

text \<open>What one changed or deleted row does to a sum, when the key identifies the row.\<close>

lemma sql_sum_upd_row:
  assumes "distinct (map key rows)" and "r \<in> set rows" and "P (g r) = P r"
  shows "sql_sum P f (upd_row key (key r) g rows)
    = sql_sum P f rows + (if P r then f (g r) - f r else 0)"
  using assms
proof (induction rows)
  case (Cons x rows)
  show ?case
  proof (cases "x = r")
    case True
    with Cons.prems have "key r \<notin> key ` set rows" by auto
    then show ?thesis using True Cons.prems(3) by (simp add: upd_row_absent)
  next
    case False
    with Cons.prems have "key x \<noteq> key r" and "r \<in> set rows" by auto
    then show ?thesis using Cons.IH Cons.prems by simp
  qed
qed simp

lemma sql_sum_del_row:
  assumes "distinct (map key rows)" and "r \<in> set rows"
  shows "sql_sum P f (del_row key (key r) rows) = sql_sum P f rows - (if P r then f r else 0)"
  using assms
proof (induction rows)
  case (Cons x rows)
  show ?case
  proof (cases "x = r")
    case True
    with Cons.prems have "key r \<notin> key ` set rows" by auto
    then show ?thesis using True by (simp add: del_row_absent)
  next
    case False
    with Cons.prems have "key x \<noteq> key r" and "r \<in> set rows" by auto
    then show ?thesis using Cons.IH Cons.prems by simp
  qed
qed simp

section \<open>Lookup of one row\<close>

lemma find_SomeD: "find P xs = Some x \<Longrightarrow> x \<in> set xs \<and> P x"
  by (induction xs) (auto split: if_splits)

lemma find_NoneD: "find P xs = None \<Longrightarrow> x \<in> set xs \<Longrightarrow> \<not> P x"
  by (induction xs) (auto split: if_splits)

lemma find_unique:
  "x \<in> set xs \<Longrightarrow> P x \<Longrightarrow> (\<And>y. y \<in> set xs \<Longrightarrow> P y \<Longrightarrow> y = x) \<Longrightarrow> find P xs = Some x"
  by (metis find_SomeD find_NoneD not_None_eq)

lemma find_append:
  "find P (xs @ ys) = (case find P xs of None \<Rightarrow> find P ys | Some x \<Rightarrow> Some x)"
  by (induction xs) auto

lemma find_map_inv: "(\<And>x. P (g x) = P x) \<Longrightarrow> find P (map g xs) = map_option g (find P xs)"
  by (induction xs) auto

lemma distinct_filter_key:
  assumes "distinct (map f xs)" and "x \<in> set xs"
  shows "filter (\<lambda>y. f y = f x) xs = [x]"
  using assms by (induction xs) (auto simp: filter_empty_conv image_iff dest: sym)

lemma distinct_map_unique:
  "distinct (map key xs) \<Longrightarrow> x \<in> set xs \<Longrightarrow> y \<in> set xs \<Longrightarrow> key x = key y \<Longrightarrow> x = y"
  by (auto simp: distinct_map inj_on_def)

section \<open>Sums of a grouped column\<close>

text \<open>
  Summing the per-group totals over every group that occurs gives the total of the column:
  the fact behind every \<open>GROUP BY\<close> total of the source.
\<close>

lemma sum_list_single:
  "distinct ps \<Longrightarrow> p \<in> set ps \<Longrightarrow> sum_list (map (\<lambda>q. if p = q then (x::rat) else 0) ps) = x"
proof (induction ps)
  case (Cons a ps)
  have "q \<notin> set ps \<Longrightarrow> sum_list (map (\<lambda>r. if q = r then x else 0) ps) = 0" for q
    by (induction ps) auto
  then show ?case using Cons by auto
qed simp

lemma sum_list_group:
  assumes "distinct ps" and "g ` {r \<in> set rows. P r} \<subseteq> set ps"
  shows "sum_list (map (\<lambda>p. sql_sum (\<lambda>r. P r \<and> g r = p) f rows) ps) = sql_sum P f rows"
  using assms(2)
proof (induction rows)
  case Nil
  then show ?case by (simp add: sum_list_0)
next
  case (Cons r rows)
  then have IH: "sum_list (map (\<lambda>p. sql_sum (\<lambda>r. P r \<and> g r = p) f rows) ps) = sql_sum P f rows"
    by (auto intro!: Cons.IH)
  show ?case
  proof (cases "P r")
    case True
    with Cons.prems have "g r \<in> set ps" by auto
    with assms(1) have "sum_list (map (\<lambda>p. if g r = p then f r else 0) ps) = f r"
      by (rule sum_list_single)
    then show ?thesis using IH True by (simp add: sum_list_addf)
  next
    case False
    then show ?thesis using IH by simp
  qed
qed

section \<open>Loops that may raise, and dictionaries in insertion order\<close>

text \<open>
  A \<open>for\<close> loop whose body may raise: the first exception ends it. \<open>dict_keys\<close> lists the keys
  of a Python dict filled from a list, in the order of their first occurrence.
\<close>

fun fold_res :: "('a \<Rightarrow> 's \<Rightarrow> 'e + 's) \<Rightarrow> 'a list \<Rightarrow> 's \<Rightarrow> 'e + 's" where
  "fold_res f [] s = Inr s"
| "fold_res f (x # xs) s = (case f x s of Inl e \<Rightarrow> Inl e | Inr s' \<Rightarrow> fold_res f xs s')"

fun map_res :: "('a \<Rightarrow> 'e + 'b) \<Rightarrow> 'a list \<Rightarrow> 'e + 'b list" where
  "map_res f [] = Inr []"
| "map_res f (x # xs) = (case f x of Inl e \<Rightarrow> Inl e
    | Inr y \<Rightarrow> (case map_res f xs of Inl e \<Rightarrow> Inl e | Inr ys \<Rightarrow> Inr (y # ys)))"

definition dict_keys :: "'a list \<Rightarrow> 'a list" where
  "dict_keys xs = rev (remdups (rev xs))"

lemma set_dict_keys [simp]: "set (dict_keys xs) = set xs"
  by (simp add: dict_keys_def)

lemma distinct_dict_keys [simp]: "distinct (dict_keys xs)"
  by (simp add: dict_keys_def)

lemma fold_res_append:
  "fold_res f (xs @ ys) s = (case fold_res f xs s of Inl e \<Rightarrow> Inl e | Inr s' \<Rightarrow> fold_res f ys s')"
  by (induction xs arbitrary: s) (auto split: sum.splits)

lemma fold_res_preserves:
  "fold_res f xs s = Inr s' \<Longrightarrow> (\<And>x s s'. x \<in> set xs \<Longrightarrow> I s \<Longrightarrow> f x s = Inr s' \<Longrightarrow> I s')
    \<Longrightarrow> I s \<Longrightarrow> I s'"
proof (induction xs arbitrary: s)
  case (Cons x xs)
  then obtain s1 where s1: "f x s = Inr s1" and rest: "fold_res f xs s1 = Inr s'"
    by (auto split: sum.splits)
  have "I s1" using Cons.prems(2) [OF _ Cons.prems(3) s1] by simp
  show ?case
    by (rule Cons.IH [OF rest _ \<open>I s1\<close>]) (meson Cons.prems(2) list.set_intros(2))
qed simp

lemma map_res_Inr_iff:
  "map_res f xs = Inr ys \<longleftrightarrow> list_all2 (\<lambda>x y. f x = Inr y) xs ys"
  by (induction xs arbitrary: ys)
    (auto simp: list_all2_Cons1 split: sum.splits, metis sum.inject(2))

lemma map_res_Inl: "map_res f xs = Inl e \<Longrightarrow> \<exists>x \<in> set xs. f x = Inl e"
  by (induction xs) (auto split: sum.splits)

section \<open>Loops that move an additive quantity\<close>

text \<open>
  The contract of a step that, when it succeeds on a good input, keeps an invariant and moves
  every observed quantity by an amount that depends on the input alone; the loop then moves it by
  the sum. A step that is also total on good inputs runs to the end of the list. The payment flows
  are an instance of the first, which may overflow a column, and the router's loops of both.
\<close>

locale additive_run =
  fixes inv :: "'s \<Rightarrow> bool" and ok :: "'f \<Rightarrow> bool" and step :: "'f \<Rightarrow> 's \<Rightarrow> 'x + 's"
    and obs :: "'k \<Rightarrow> 's \<Rightarrow> rat" and delta :: "'f \<Rightarrow> 'k \<Rightarrow> rat"
  assumes step_inv: "inv s \<Longrightarrow> ok f \<Longrightarrow> step f s = Inr s' \<Longrightarrow> inv s'"
    and step_obs: "inv s \<Longrightarrow> ok f \<Longrightarrow> step f s = Inr s' \<Longrightarrow> obs k s' = obs k s + delta f k"
begin

lemma run_effect:
  assumes "inv s" and "list_all ok fs" and "fold_res step fs s = Inr s'"
  shows "inv s' \<and> obs k s' = obs k s + sum_list (map (\<lambda>f. delta f k) fs)"
  using assms
proof (induction fs arbitrary: s)
  case (Cons f fs)
  then obtain s1 where s1: "step f s = Inr s1" and rest: "fold_res step fs s1 = Inr s'"
    by (auto split: sum.splits)
  have "inv s1" and "obs k s1 = obs k s + delta f k"
    using Cons.prems s1 step_inv [of s f s1] step_obs [of s f s1 k] by auto
  then show ?case using Cons.IH [OF _ _ rest] Cons.prems by simp
qed simp

end

locale total_run = additive_run +
  assumes step_total: "inv s \<Longrightarrow> ok f \<Longrightarrow> \<exists>s'. step f s = Inr s'"
begin

lemma run_total: "inv s \<Longrightarrow> list_all ok fs \<Longrightarrow> \<exists>s'. fold_res step fs s = Inr s'"
proof (induction fs arbitrary: s)
  case (Cons f fs)
  then obtain s1 where s1: "step f s = Inr s1" using step_total [of s f] by auto
  then show ?case using Cons step_inv [of s f s1] by simp
qed simp

end

section \<open>Prefix codes\<close>

text \<open>
  A letter-by-letter encoding in which no code word is empty or begins another one can be read
  back, also when a terminator that begins no code word follows. The escapes of a JSON string and
  UTF-8 are instances.
\<close>

locale prefix_code =
  fixes code :: "'a \<Rightarrow> 'b list"
  assumes code_prefix: "code c @ x = code d @ y \<Longrightarrow> c = d"
    and code_ne: "code c \<noteq> []"
begin

lemma code_step: "code c @ x = code d @ y \<longleftrightarrow> c = d \<and> x = y"
  using code_prefix by auto

lemma encode_inj: "concat (map code s) = concat (map code t) \<longleftrightarrow> s = t"
proof (induction s arbitrary: t)
  case Nil
  then show ?case by (cases t) (auto simp: code_ne)
next
  case (Cons c s)
  then show ?case by (cases t) (auto simp: code_ne code_step)
qed

lemma encode_terminated:
  assumes "\<And>c. hd (code c) \<noteq> q"
  shows "concat (map code s) @ q # r = concat (map code t) @ q # u \<longleftrightarrow> s = t \<and> r = u"
proof (induction s arbitrary: t)
  case Nil
  have "q # r \<noteq> code c @ v" for c v using assms [of c] code_ne [of c] by (cases "code c") auto
  then show ?case by (cases t) auto
next
  case (Cons c s)
  have "code c @ v \<noteq> q # u" for v using assms [of c] code_ne [of c] by (cases "code c") auto
  then show ?case using Cons.IH by (cases t) (auto simp: code_step)
qed

end

end
