(* ===== verification/Domain.thy ===== *)
theory Domain
  imports Geo_Prelude "HOL-Library.Char_ord" "HOL-Library.List_Lexorder"
begin

text \<open>
  The data of the hub: the exception hierarchy of \<^verbatim>\<open>app/utils/exceptions.py\<close> with its error codes,
  the tables of \<^verbatim>\<open>app/db/models\<close> as records, and the database as one record of tables and the
  clock that \<open>func.now()\<close> reads. A column that holds free JSON (the effects of a prepare
  lock, a policy, a payload) is a datatype of what the code's parsers distinguish in it.
\<close>

section \<open>Exceptions\<close>

datatype error_code = E001 | E002 | E003 | E004 | E005 | E006 | E007 | E008 | E009 | E010

datatype invariant_name = ZERO_SUM_VIOLATION | TRUST_LIMIT_VIOLATION | DEBT_SYMMETRY_VIOLATION
  | CLEARING_NEUTRALITY_VIOLATION | PAYMENT_DELTA_DRIFT

text \<open>
  A driver error as the classifiers see it: the SQLSTATE, the failing statement and the name
  of the constraint, when the driver reports one.
\<close>

record db_error =
  sqlstate :: "string option"
  statement :: string
  constraint_name :: "string option"

text \<open>
  One constructor per exception class the modelled code raises or catches. The ones from
  \<open>Geo\<close> to \<open>IntegrityViolation\<close> are the subclasses of \<^verbatim>\<open>GeoException\<close>; the rest are SQLAlchemy's, asyncio's and
  Python's own.
\<close>

datatype exc =
    Geo error_code
  | BadRequest
  | Unauthorized
  | NotFound
  | Forbidden
  | Conflict
  | RetryablePaymentConflict
  | TooManyRequests
  | Gone
  | InvalidSignature
  | TimeoutExc
  | Routing bool
  | TrustLineExc bool
  | IntegrityViolation invariant_name
  | EquivalentOwnerPreflightChanged
  | StaleDataError
  | DBAPIError db_error
  | AsyncioTimeout
  | AttributeError
  | TypeError
  | InvalidOperation
  | NoResultFound
  | ValueError
  | RuntimeError
  | CancelledError
  | MultipleResultsFound

definition is_geo_exception :: "exc \<Rightarrow> bool" where
  "is_geo_exception e = (case e of
      EquivalentOwnerPreflightChanged \<Rightarrow> False | StaleDataError \<Rightarrow> False | DBAPIError _ \<Rightarrow> False
    | AsyncioTimeout \<Rightarrow> False | AttributeError \<Rightarrow> False | TypeError \<Rightarrow> False
    | InvalidOperation \<Rightarrow> False | NoResultFound \<Rightarrow> False | ValueError \<Rightarrow> False
    | RuntimeError \<Rightarrow> False | CancelledError \<Rightarrow> False | MultipleResultsFound \<Rightarrow> False | _ \<Rightarrow> True)"

fun exc_code :: "exc \<Rightarrow> error_code" where
  "exc_code (Geo c) = c"
| "exc_code BadRequest = E009"
| "exc_code Unauthorized = E006"
| "exc_code NotFound = E001"
| "exc_code Forbidden = E006"
| "exc_code Conflict = E008"
| "exc_code RetryablePaymentConflict = E008"
| "exc_code TooManyRequests = E009"
| "exc_code Gone = E009"
| "exc_code InvalidSignature = E005"
| "exc_code TimeoutExc = E007"
| "exc_code (Routing insufficient_capacity) = (if insufficient_capacity then E002 else E001)"
| "exc_code (TrustLineExc limit_exceeded) = (if limit_exceeded then E003 else E004)"
| "exc_code (IntegrityViolation _) = E008"
| "exc_code _ = E010"

fun exc_status :: "exc \<Rightarrow> nat" where
  "exc_status (Geo _) = 500"
| "exc_status BadRequest = 400"
| "exc_status Unauthorized = 401"
| "exc_status NotFound = 404"
| "exc_status Forbidden = 403"
| "exc_status Conflict = 409"
| "exc_status RetryablePaymentConflict = 409"
| "exc_status TooManyRequests = 429"
| "exc_status Gone = 410"
| "exc_status InvalidSignature = 400"
| "exc_status TimeoutExc = 504"
| "exc_status (Routing _) = 400"
| "exc_status (TrustLineExc _) = 400"
| "exc_status (IntegrityViolation _) = 409"
| "exc_status _ = 500"

text \<open>
  The textual error codes and their parser: \<open>ErrorCode(str(value))\<close> raises on anything that is
  not a code, and \<open>normalize_error_code\<close> answers E010 then, as it does for a missing value.
\<close>

definition error_code_value :: "error_code \<Rightarrow> string" where
  "error_code_value c = (case c of E001 \<Rightarrow> ''E001'' | E002 \<Rightarrow> ''E002'' | E003 \<Rightarrow> ''E003''
    | E004 \<Rightarrow> ''E004'' | E005 \<Rightarrow> ''E005'' | E006 \<Rightarrow> ''E006'' | E007 \<Rightarrow> ''E007'' | E008 \<Rightarrow> ''E008''
    | E009 \<Rightarrow> ''E009'' | E010 \<Rightarrow> ''E010'')"

definition all_error_codes :: "error_code list" where
  "all_error_codes = [E001, E002, E003, E004, E005, E006, E007, E008, E009, E010]"

definition normalize_error_code :: "string option \<Rightarrow> error_code" where
  "normalize_error_code v = (case v of None \<Rightarrow> E010
    | Some s \<Rightarrow> (case find (\<lambda>c. error_code_value c = s) all_error_codes of None \<Rightarrow> E010 | Some c \<Rightarrow> c))"

definition error_message :: "error_code \<Rightarrow> string" where
  "error_message c = (case c of E001 \<Rightarrow> ''Route not found'' | E002 \<Rightarrow> ''Insufficient capacity''
    | E003 \<Rightarrow> ''Trust line limit exceeded'' | E004 \<Rightarrow> ''Trust line not active''
    | E005 \<Rightarrow> ''Invalid signature'' | E006 \<Rightarrow> ''Insufficient permissions''
    | E007 \<Rightarrow> ''Operation timeout'' | E008 \<Rightarrow> ''State conflict'' | E009 \<Rightarrow> ''Validation error''
    | E010 \<Rightarrow> ''Internal server error'')"

lemma normalize_error_code_value [simp]: "normalize_error_code (Some (error_code_value c)) = c"
  by (cases c) (simp_all add: normalize_error_code_def all_error_codes_def error_code_value_def)

section \<open>Decimals and JSON\<close>

text \<open>A \<^verbatim>\<open>Decimal\<close> as parsed from a string, with the special values.\<close>

datatype pydec = Fin rat | PosInf | NegInf | NaN

text \<open>Decimal addition and \<open><\<close> under the default context: an invalid operation is trapped.\<close>

fun pd_add :: "pydec \<Rightarrow> pydec \<Rightarrow> exc + pydec" where
  "pd_add NaN _ = Inr NaN"
| "pd_add _ NaN = Inr NaN"
| "pd_add (Fin a) (Fin b) = Inr (Fin (a + b))"
| "pd_add (Fin _) y = Inr y"
| "pd_add x (Fin _) = Inr x"
| "pd_add PosInf PosInf = Inr PosInf"
| "pd_add NegInf NegInf = Inr NegInf"
| "pd_add _ _ = Inl InvalidOperation"

fun pd_less :: "pydec \<Rightarrow> pydec \<Rightarrow> exc + bool" where
  "pd_less NaN _ = Inl InvalidOperation"
| "pd_less _ NaN = Inl InvalidOperation"
| "pd_less (Fin a) (Fin b) = Inr (a < b)"
| "pd_less PosInf _ = Inr False"
| "pd_less _ PosInf = Inr True"
| "pd_less NegInf y = Inr (y \<noteq> NegInf)"
| "pd_less (Fin _) NegInf = Inr False"

datatype json = JNull | JBool bool | JNum rat | JStr string | JList "json list"
  | JObj "(string \<times> json) list"

type_synonym policy = "(string \<times> json) list"

text \<open>
  The JSON of \<open>PrepareLock.effects\<close>. A flow that is a dict carries, per key, what
  \<open>UUID(str(\<dots>))\<close> and \<open>Decimal(str(\<dots>))\<close> make of its value: \<open>None\<close> when the key is missing or the
  parser raises.
\<close>

datatype raw_flow =
    RawFlow (rf_equivalent: "uuid option") (rf_from: "uuid option") (rf_to: "uuid option")
      (rf_amount: "pydec option")
  | FlowNotDict

datatype raw_effects =
    EffectsFalsy        \<comment> \<open>not a dict, and false in a boolean context\<close>
  | EffectsNotDict      \<comment> \<open>not a dict, and true in a boolean context\<close>
  | FlowsMissing        \<comment> \<open>a dict without the key\<close>
  | FlowsNotIterable    \<comment> \<open>null, a number or a boolean under the key\<close>
  | FlowsOfStrings      \<comment> \<open>a string or an object under the key: iterating it yields strings\<close>
  | Flows "raw_flow list"

section \<open>Tables\<close>

datatype tl_status_t = Active | Frozen | Closed

datatype tx_state_t = NEW | ROUTED | PREPARE_IN_PROGRESS | PREPARED | COMMITTED | ABORTED
  | PROPOSED | WAITING | REJECTED

datatype tx_type_t = TRUST_LINE_CREATE | TRUST_LINE_UPDATE | TRUST_LINE_CLOSE | PAYMENT
  | CLEARING | COMPENSATION | COMMODITY_REDEMPTION

record participant =
  part_id :: uuid
  part_pid :: pid
  part_public_key :: string
  part_display_name :: string

record equivalent =
  equiv_id :: uuid
  equiv_code :: string

record trust_line =
  tl_id :: uuid
  tl_from :: uuid
  tl_to :: uuid
  tl_equivalent :: uuid
  tl_limit :: amount
  tl_policy :: "policy option"
  tl_status :: tl_status_t
  tl_created_at :: timestamp

record debt =
  debt_id :: uuid
  debtor_id :: uuid
  creditor_id :: uuid
  debt_equivalent :: uuid
  debt_amount :: amount

text \<open>
  The JSON payload of a transaction, by the keys the code reads. An amount is kept as the
  \<^verbatim>\<open>Decimal\<close> its text parses to.
\<close>

record payload =
  pl_from :: "string option"
  pl_to :: "string option"
  pl_amount :: "pydec option"
  pl_equivalent :: "string option"
  pl_routes :: "(pid list \<times> amount) list option"
  pl_fingerprint :: "string option"
  pl_edges :: "(pid \<times> pid) list option"

record error_payload =
  err_code :: "string option"
  err_message :: "string option"
  err_details :: "(string \<times> string) list option"

record transaction =
  tx_id :: string
  tx_type :: tx_type_t
  tx_initiator :: uuid
  tx_payload :: payload
  tx_state :: tx_state_t
  tx_error :: "error_payload option"
  tx_created_at :: timestamp
  tx_updated_at :: timestamp

record prepare_lock =
  lock_id :: uuid
  lock_tx :: string
  lock_participant :: uuid
  lock_effects :: raw_effects
  lock_expires_at :: timestamp

text \<open>
  The text fed to SHA-256 by the integrity checkpoint, line by line, and the digest as the
  function applied to that text.
\<close>

datatype digest_line =
    DebtLine uuid uuid amount
  | TrustLineLine uuid uuid amount tl_status_t

datatype digest = Sha256 (digest_input: "digest_line list")

record audit_entry =
  audit_operation :: tx_type_t
  audit_tx :: "string option"
  audit_equivalent :: uuid
  audit_before :: "digest option"
  audit_after :: "digest option"
  audit_participants :: "pid list"
  audit_passed :: bool

text \<open>
  The database. \<open>next_uuid\<close> stands for \<open>uuid.uuid4()\<close>: the next identifier no row carries yet.
\<close>

record db =
  participants :: "participant list"
  equivalents :: "equivalent list"
  trust_lines :: "trust_line list"
  debts :: "debt list"
  transactions :: "transaction list"
  prepare_locks :: "prepare_lock list"
  audit_log :: "audit_entry list"
  db_now :: timestamp
  next_uuid :: uuid

section \<open>Columns of eight decimals\<close>

text \<open>
  Writing to \<^verbatim>\<open>Numeric(20, 8)\<close>: the value is rounded half away from zero to eight decimals, and
  twelve digits are left for the integer part.
\<close>

definition round8 :: "rat \<Rightarrow> rat" where
  "round8 v = (if 0 \<le> v then of_int \<lfloor>v * 10 ^ 8 + 1 / 2\<rfloor> else - of_int \<lfloor>- v * 10 ^ 8 + 1 / 2\<rfloor>) / 10 ^ 8"

definition numeric_overflow :: "string \<Rightarrow> exc" where
  "numeric_overflow stmt = DBAPIError \<lparr>sqlstate = Some ''22003'', statement = stmt, constraint_name = None\<rparr>"

definition store_numeric :: "string \<Rightarrow> rat \<Rightarrow> exc + rat" where
  "store_numeric stmt v = (if \<bar>round8 v\<bar> \<ge> 10 ^ 12 then Inl (numeric_overflow stmt) else Inr (round8 v))"

text \<open>
  The values that such a column holds: multiples of the last decimal, below the limit of the
  integer part. Writing one of them stores it unchanged.
\<close>

definition on_grid :: "rat \<Rightarrow> bool" where
  "on_grid v \<longleftrightarrow> v * 10 ^ 8 \<in> \<int>"

definition column_value :: "rat \<Rightarrow> bool" where
  "column_value v \<longleftrightarrow> on_grid v \<and> \<bar>v\<bar> < 10 ^ 12"

lemma on_grid_closed [simp, intro]:
  "on_grid 0" "on_grid u \<Longrightarrow> on_grid v \<Longrightarrow> on_grid (u + v)" "on_grid u \<Longrightarrow> on_grid v \<Longrightarrow> on_grid (u - v)"
  "on_grid u \<Longrightarrow> on_grid v \<Longrightarrow> on_grid (max u v)" "on_grid u \<Longrightarrow> on_grid v \<Longrightarrow> on_grid (min u v)"
  by (auto simp: on_grid_def distrib_right left_diff_distrib max_def min_def)

lemma on_grid_uminus [simp]: "on_grid (- v) = on_grid v"
  by (simp add: on_grid_def)

lemma on_grid_sum_list: "(\<And>x. x \<in> set xs \<Longrightarrow> on_grid (f x)) \<Longrightarrow> on_grid (sum_list (map f xs))"
  by (induction xs) auto

lemma on_grid_numeral [simp]: "on_grid (numeral n)" "on_grid 1"
proof -
  have "numeral n * 10 ^ 8 = (of_int (numeral n * 10 ^ 8) :: rat)" by simp
  then show "on_grid (numeral n)" unfolding on_grid_def by (metis Ints_of_int)
  have "1 * 10 ^ 8 = (of_int (10 ^ 8) :: rat)" by simp
  then show "on_grid 1" unfolding on_grid_def by (metis Ints_of_int)
qed

lemma round8_on_grid [simp]: "on_grid (round8 v)"
  by (simp add: round8_def on_grid_def)

lemma round8_grid:
  assumes "on_grid v"
  shows "round8 v = v"
proof -
  obtain k where k: "v * 10 ^ 8 = of_int k" using assms by (auto simp: on_grid_def elim: Ints_cases)
  have up: "\<lfloor>of_int m + 1 / 2 :: rat\<rfloor> = m" for m by (simp add: floor_eq_iff)
  have "- v * 10 ^ 8 = of_int (- k)" using k by simp
  then have "round8 v = of_int k / 10 ^ 8" unfolding round8_def k using up [of k] up [of "- k"] by simp
  then show ?thesis by (simp add: k [symmetric])
qed

lemma store_numeric_grid:
  "on_grid v \<Longrightarrow> store_numeric stmt v = (if \<bar>v\<bar> < 10 ^ 12 then Inr v else Inl (numeric_overflow stmt))"
  by (simp add: store_numeric_def round8_grid)

lemma store_numeric_Inr:
  assumes "store_numeric stmt v = Inr w"
  shows "w = round8 v" and "column_value w"
  using assms by (auto simp: store_numeric_def column_value_def split: if_splits)

lemma column_valueD:
  assumes "column_value v"
  shows "on_grid v" and "v < 10 ^ 12" and "\<bar>v\<bar> < 10 ^ 12"
  using assms by (auto simp: column_value_def)

lemma column_value_between:
  "on_grid v \<Longrightarrow> 0 \<le> v \<Longrightarrow> v \<le> w \<Longrightarrow> column_value w \<Longrightarrow> column_value v"
  by (simp add: column_value_def)

section \<open>Rendering\<close>

text \<open>\<open>str(uuid)\<close>: the 32 hexadecimal digits of the 128-bit number in groups of 8, 4, 4, 4 and 12.\<close>

definition hex_digit :: "nat \<Rightarrow> char" where
  "hex_digit n = ''0123456789abcdef'' ! (n mod 16)"

fun hex_digits :: "nat \<Rightarrow> nat \<Rightarrow> string" where
  "hex_digits 0 n = []"
| "hex_digits (Suc k) n = hex_digits k (n div 16) @ [hex_digit n]"

definition uuid_str :: "uuid \<Rightarrow> string" where
  "uuid_str n = (let h = hex_digits 32 n in take 8 h @ ''-'' @ take 4 (drop 8 h) @ ''-'' @ take 4 (drop 12 h)
     @ ''-'' @ take 4 (drop 16 h) @ ''-'' @ drop 20 h)"

definition pid_or_id :: "db \<Rightarrow> uuid \<Rightarrow> string" where
  "pid_or_id db p = (case find (\<lambda>r. part_id r = p) (participants db) of
      None \<Rightarrow> uuid_str p | Some r \<Rightarrow> part_pid r)"

end
