(* ===== verification/Ledger.thy ===== *)
theory Ledger
  imports Domain "HOL-Library.Product_Lexorder" "HOL-Library.Multiset"
begin

text \<open>
  The debt table and the checks on it: the row operations of the session on \<^verbatim>\<open>debts\<close>
  with the constraints of \<^verbatim>\<open>app/db/models/debt.py\<close>, the \<^verbatim>\<open>InvariantChecker\<close> of
  \<^verbatim>\<open>app/core/invariants.py\<close> and the integrity checkpoint of \<^verbatim>\<open>app/core/integrity.py\<close>. The
  lemmas give the abstract reading of the table, the function \<open>owes\<close> from debtor, creditor
  and equivalent to an amount, and what every row operation does to it and to the net
  positions.
\<close>

section \<open>Row operations\<close>

definition get_debt :: "uuid \<Rightarrow> uuid \<Rightarrow> uuid \<Rightarrow> db \<Rightarrow> debt option" where
  "get_debt debtor creditor e db =
     find (\<lambda>d. debtor_id d = debtor \<and> creditor_id d = creditor \<and> debt_equivalent d = e) (debts db)"

text \<open>
  Every write of an amount passes the column \<^verbatim>\<open>Numeric(20, 8)\<close>: the value is rounded to eight
  decimals, a result of more than twelve integer digits is refused, and the check constraint is on
  the rounded value.
\<close>

definition constraint_error :: "string \<Rightarrow> string \<Rightarrow> string \<Rightarrow> exc" where
  "constraint_error stmt code name =
     DBAPIError \<lparr>sqlstate = Some code, statement = stmt, constraint_name = Some name\<rparr>"

definition store_debt_amount :: "string \<Rightarrow> amount \<Rightarrow> exc + amount" where
  "store_debt_amount stmt v = (case store_numeric stmt v of Inl x \<Rightarrow> Inl x
    | Inr w \<Rightarrow> if \<not> w > 0 then Inl (constraint_error stmt ''23514'' ''chk_debt_amount_positive'') else Inr w)"

definition write_amount :: "debt \<Rightarrow> amount \<Rightarrow> db \<Rightarrow> db" where
  "write_amount d w db =
     db\<lparr>debts := upd_row debt_id (debt_id d) (\<lambda>r. r\<lparr>debt_amount := w\<rparr>) (debts db)\<rparr>"

definition update_debt :: "debt \<Rightarrow> amount \<Rightarrow> db \<Rightarrow> exc + db" where
  "update_debt d v db = (case store_debt_amount ''UPDATE DEBTS'' v of Inl x \<Rightarrow> Inl x
    | Inr w \<Rightarrow> Inr (write_amount d w db))"

definition delete_debt :: "debt \<Rightarrow> db \<Rightarrow> db" where
  "delete_debt d db = db\<lparr>debts := del_row debt_id (debt_id d) (debts db)\<rparr>"

text \<open>
  \<open>if debt.amount == 0: session.delete(debt) else: session.add(debt)\<close>, the step that every
  reduction of a debt ends with. The comparison is on the value in memory, before the column
  rounds it.
\<close>

definition settle_debt :: "debt \<Rightarrow> amount \<Rightarrow> db \<Rightarrow> exc + db" where
  "settle_debt d v db = (if v = 0 then Inr (delete_debt d db) else update_debt d v db)"

text \<open>
  A flushed \<open>INSERT\<close>, with the table's check constraints in the order of their names and its unique
  constraint.
\<close>

definition insert_debt :: "uuid \<Rightarrow> uuid \<Rightarrow> uuid \<Rightarrow> amount \<Rightarrow> db \<Rightarrow> exc + db" where
  "insert_debt debtor creditor e v db = (case store_debt_amount ''INSERT INTO DEBTS'' v of Inl x \<Rightarrow> Inl x
    | Inr w \<Rightarrow>
      if debtor = creditor then Inl (constraint_error ''INSERT INTO DEBTS'' ''23514'' ''chk_debt_no_self_loop'')
      else if get_debt debtor creditor e db \<noteq> None
        then Inl (constraint_error ''INSERT INTO DEBTS'' ''23505'' ''uq_debts_debtor_creditor_equivalent'')
      else Inr (db\<lparr>debts := debts db @ [\<lparr>debt_id = next_uuid db, debtor_id = debtor,
                  creditor_id = creditor, debt_equivalent = e, debt_amount = w\<rparr>],
                next_uuid := Suc (next_uuid db)\<rparr>))"

section \<open>Net positions\<close>

definition credit_total :: "uuid \<Rightarrow> uuid \<Rightarrow> db \<Rightarrow> amount" where
  "credit_total p e db =
     sql_sum (\<lambda>d. creditor_id d = p \<and> debt_equivalent d = e) debt_amount (debts db)"

definition debt_total :: "uuid \<Rightarrow> uuid \<Rightarrow> db \<Rightarrow> amount" where
  "debt_total p e db =
     sql_sum (\<lambda>d. debtor_id d = p \<and> debt_equivalent d = e) debt_amount (debts db)"

definition calculate_net_position :: "uuid \<Rightarrow> uuid \<Rightarrow> db \<Rightarrow> amount" where
  "calculate_net_position p e db = credit_total p e db - debt_total p e db"

section \<open>The invariant checker\<close>

definition compute_imbalance :: "uuid \<Rightarrow> db \<Rightarrow> amount" where
  "compute_imbalance e db =
     (let rows = filter (\<lambda>d. debt_equivalent d = e) (debts db);
          all_participants = remdups (map creditor_id rows @ map debtor_id rows)
      in sum_list (map (\<lambda>p. credit_total p e db - debt_total p e db) all_participants))"

definition check_zero_sum :: "uuid option \<Rightarrow> db \<Rightarrow> exc + unit" where
  "check_zero_sum eq_opt db = (case eq_opt of
      Some e \<Rightarrow>
        (if compute_imbalance e db \<noteq> 0 then Inl (IntegrityViolation ZERO_SUM_VIOLATION) else Inr ())
    | None \<Rightarrow>
        (if filter (\<lambda>e. compute_imbalance e db \<noteq> 0) (remdups (map debt_equivalent (debts db))) \<noteq> []
         then Inl (IntegrityViolation ZERO_SUM_VIOLATION) else Inr ()))"

text \<open>
  The outer join of a debt row with the active trust lines from its creditor to its debtor:
  one joined row per matching line, or one with the limit 0 when there is none.
\<close>

definition controlling_lines :: "debt \<Rightarrow> db \<Rightarrow> trust_line list" where
  "controlling_lines d db = filter (\<lambda>t. tl_from t = creditor_id d \<and> tl_to t = debtor_id d
     \<and> tl_equivalent t = debt_equivalent d \<and> tl_status t = Active) (trust_lines db)"

definition joined_limits :: "debt \<Rightarrow> db \<Rightarrow> amount list" where
  "joined_limits d db =
     (case controlling_lines d db of [] \<Rightarrow> [0] | lines \<Rightarrow> map tl_limit lines)"

text \<open>
  An absent or an empty list of pairs puts no restriction on the rows, as \<open>if participant_pairs:\<close>
  does in the source.
\<close>

definition pair_selected :: "(uuid \<times> uuid) list option \<Rightarrow> uuid \<Rightarrow> uuid \<Rightarrow> bool" where
  "pair_selected pairs debtor creditor = (case pairs of None \<Rightarrow> True
     | Some ps \<Rightarrow> ps = [] \<or> (debtor, creditor) \<in> set ps)"

definition trust_limit_violations ::
    "uuid option \<Rightarrow> (uuid \<times> uuid) list option \<Rightarrow> db \<Rightarrow> (debt \<times> amount) list" where
  "trust_limit_violations eq_opt pairs db =
     concat (map (\<lambda>d. map (\<lambda>l. (d, l)) (filter (\<lambda>l. debt_amount d > l) (joined_limits d db)))
       (filter (\<lambda>d. (case eq_opt of None \<Rightarrow> True | Some e \<Rightarrow> debt_equivalent d = e)
           \<and> pair_selected pairs (debtor_id d) (creditor_id d)) (debts db)))"

definition check_trust_limits ::
    "uuid option \<Rightarrow> (uuid \<times> uuid) list option \<Rightarrow> db \<Rightarrow> exc + unit" where
  "check_trust_limits eq_opt pairs db =
     (if trust_limit_violations eq_opt pairs db \<noteq> []
      then Inl (IntegrityViolation TRUST_LIMIT_VIOLATION) else Inr ())"

definition symmetry_violations ::
    "uuid option \<Rightarrow> (uuid \<times> uuid) list option \<Rightarrow> db \<Rightarrow> (debt \<times> debt) list" where
  "symmetry_violations eq_opt pairs db =
     concat (map (\<lambda>d1. map (\<lambda>d2. (d1, d2)) (filter (\<lambda>d2.
          debtor_id d1 = creditor_id d2 \<and> creditor_id d1 = debtor_id d2
          \<and> debt_equivalent d1 = debt_equivalent d2 \<and> debt_amount d2 > 0) (debts db)))
       (filter (\<lambda>d1. debt_amount d1 > 0 \<and> debtor_id d1 < creditor_id d1
           \<and> (case eq_opt of None \<Rightarrow> True | Some e \<Rightarrow> debt_equivalent d1 = e)
           \<and> (pair_selected pairs (debtor_id d1) (creditor_id d1)
              \<or> pair_selected pairs (creditor_id d1) (debtor_id d1))) (debts db)))"

definition check_debt_symmetry ::
    "uuid option \<Rightarrow> (uuid \<times> uuid) list option \<Rightarrow> db \<Rightarrow> exc + unit" where
  "check_debt_symmetry eq_opt pairs db =
     (if symmetry_violations eq_opt pairs db \<noteq> []
      then Inl (IntegrityViolation DEBT_SYMMETRY_VIOLATION) else Inr ())"

definition verify_clearing_neutrality ::
    "uuid list \<Rightarrow> uuid \<Rightarrow> (uuid \<times> amount) list \<Rightarrow> db \<Rightarrow> exc + bool" where
  "verify_clearing_neutrality cycle_participant_ids e positions_before db =
     (if filter (\<lambda>p. (case map_of positions_before p of None \<Rightarrow> 0 | Some v \<Rightarrow> v)
           \<noteq> calculate_net_position p e db) cycle_participant_ids \<noteq> []
      then Inl (IntegrityViolation CLEARING_NEUTRALITY_VIOLATION) else Inr True)"

section \<open>The integrity checkpoint\<close>

datatype health = Healthy | Warning | Critical

record checkpoint =
  cp_checksum :: digest
  cp_debts_count :: nat
  cp_trustlines_count :: nat
  cp_debts_negative_count :: nat
  cp_zero_sum_passed :: bool
  cp_trust_limits_passed :: bool
  cp_debt_symmetry_passed :: bool
  cp_status :: health
  cp_passed :: bool

definition checkpoint_debts :: "uuid \<Rightarrow> db \<Rightarrow> debt list" where
  "checkpoint_debts e db = sort_key (\<lambda>d. (debtor_id d, creditor_id d))
     (filter (\<lambda>d. debt_equivalent d = e) (debts db))"

definition checkpoint_trust_lines :: "uuid \<Rightarrow> db \<Rightarrow> trust_line list" where
  "checkpoint_trust_lines e db = sort_key (\<lambda>t. (tl_from t, tl_to t, tl_id t))
     (filter (\<lambda>t. tl_equivalent t = e) (trust_lines db))"

definition compute_integrity_checkpoint :: "uuid \<Rightarrow> db \<Rightarrow> checkpoint" where
  "compute_integrity_checkpoint e db =
     (let ds = checkpoint_debts e db;
          ts = checkpoint_trust_lines e db;
          zero_sum = (check_zero_sum (Some e) db = Inr ());
          limits = (check_trust_limits (Some e) None db = Inr ());
          symmetry = (check_debt_symmetry (Some e) None db = Inr ());
          status1 = (if zero_sum then Healthy else Critical);
          status2 = (if limits then status1 else Critical);
          status3 = (if symmetry then status2 else if status2 = Healthy then Warning else status2)
      in \<lparr>cp_checksum = Sha256 (map (\<lambda>d. DebtLine (debtor_id d) (creditor_id d) (debt_amount d)) ds
              @ map (\<lambda>t. TrustLineLine (tl_from t) (tl_to t) (tl_limit t) (tl_status t)) ts),
          cp_debts_count = length ds, cp_trustlines_count = length ts,
          cp_debts_negative_count = length (filter (\<lambda>d. debt_amount d < 0) ds),
          cp_zero_sum_passed = zero_sum, cp_trust_limits_passed = limits,
          cp_debt_symmetry_passed = symmetry, cp_status = status3, cp_passed = (status3 = Healthy)\<rparr>)"

text \<open>
  All equivalents in one transaction: \<open>read i\<close> is what the session sees when it computes the \<open>i\<close>-th
  checkpoint, and \<open>failure\<close> the exception of a query or of the commit, after which nothing is stored.
\<close>

definition compute_and_store_integrity_checkpoints ::
    "(nat \<Rightarrow> db) \<Rightarrow> exc option \<Rightarrow> db \<Rightarrow> (exc + nat) \<times> (uuid \<times> checkpoint) list" where
  "compute_and_store_integrity_checkpoints read failure db =
     (let eqs = map equiv_id (equivalents db) in
      if eqs = [] then (Inr 0, [])
      else case failure of Some x \<Rightarrow> (Inl x, [])
        | None \<Rightarrow> (Inr (length eqs), map (\<lambda>(i, e). (e, compute_integrity_checkpoint e (read i))) (enumerate 0 eqs)))"

section \<open>Well-formed debt tables and what a pair owes\<close>

definition debt_key :: "debt \<Rightarrow> uuid \<times> uuid \<times> uuid" where
  "debt_key d = (debtor_id d, creditor_id d, debt_equivalent d)"

definition debts_wf :: "db \<Rightarrow> bool" where
  "debts_wf db \<longleftrightarrow> distinct (map debt_id (debts db)) \<and> distinct (map debt_key (debts db))
     \<and> (\<forall>d \<in> set (debts db). 0 < debt_amount d \<and> column_value (debt_amount d)
          \<and> debtor_id d \<noteq> creditor_id d \<and> debt_id d < next_uuid db)"

definition owes :: "db \<Rightarrow> uuid \<Rightarrow> uuid \<Rightarrow> uuid \<Rightarrow> amount" where
  "owes db debtor creditor e =
     (case get_debt debtor creditor e db of None \<Rightarrow> 0 | Some d \<Rightarrow> debt_amount d)"

text \<open>
  The row operation without the column: what a settled debt looks like once the value is stored.
  A debt whose new amount is a column value is settled to exactly that amount.
\<close>

definition settled :: "debt \<Rightarrow> amount \<Rightarrow> db \<Rightarrow> db" where
  "settled d w db = (if w = 0 then delete_debt d db else write_amount d w db)"

lemmas row_defs [ledger_simps] = settled_def write_amount_def delete_debt_def

lemma store_debt_amount_exact:
  "on_grid v \<Longrightarrow> 0 < v \<Longrightarrow> store_debt_amount stmt v = (if v < 10 ^ 12 then Inr v else Inl (numeric_overflow stmt))"
  by (simp add: store_debt_amount_def store_numeric_grid)

lemma store_debt_amount_Inr_iff:
  "store_debt_amount stmt v = Inr w \<longleftrightarrow> w = round8 v \<and> column_value w \<and> 0 < w"
  by (auto simp: store_debt_amount_def store_numeric_def column_value_def split: if_splits)

lemma settle_debt_exact: "column_value v \<Longrightarrow> 0 \<le> v \<Longrightarrow> settle_debt d v db = Inr (settled d v db)"
  by (auto simp: settle_debt_def update_debt_def store_debt_amount_exact column_value_def settled_def)

lemma settle_debt_Inr:
  assumes "settle_debt d v db = Inr db'"
  obtains w where "db' = settled d w db" and "column_value w" and "0 \<le> w"
proof (cases "v = 0")
  case True
  then show ?thesis using assms that [of 0] by (simp add: settle_debt_def settled_def column_value_def)
next
  case False
  then obtain w where "store_debt_amount ''UPDATE DEBTS'' v = Inr w" "db' = write_amount d w db"
    using assms by (auto simp: settle_debt_def update_debt_def split: sum.splits)
  then show ?thesis using that [of w] by (auto simp: settled_def store_debt_amount_Inr_iff)
qed

lemma settled_frame [simp]:
  "trust_lines (settled d v db) = trust_lines db"
  "participants (settled d v db) = participants db"
  "equivalents (settled d v db) = equivalents db"
  "transactions (settled d v db) = transactions db"
  "prepare_locks (settled d v db) = prepare_locks db"
  "audit_log (settled d v db) = audit_log db"
  "db_now (settled d v db) = db_now db"
  "next_uuid (settled d v db) = next_uuid db"
  by (simp_all add: ledger_simps)

lemma debts_wfD:
  assumes "debts_wf db" and "d \<in> set (debts db)"
  shows "0 < debt_amount d" and "debtor_id d \<noteq> creditor_id d" and "debt_id d < next_uuid db"
    and "column_value (debt_amount d)"
  using assms by (auto simp: debts_wf_def)

lemma get_debt_iff:
  assumes "debts_wf db"
  shows "get_debt x y e db = Some d \<longleftrightarrow> d \<in> set (debts db) \<and> debt_key d = (x, y, e)"
proof
  assume "get_debt x y e db = Some d"
  then show "d \<in> set (debts db) \<and> debt_key d = (x, y, e)"
    unfolding get_debt_def by (auto dest: find_SomeD simp: debt_key_def)
next
  assume d: "d \<in> set (debts db) \<and> debt_key d = (x, y, e)"
  from assms have dist: "distinct (map debt_key (debts db))" by (simp add: debts_wf_def)
  show "get_debt x y e db = Some d"
    unfolding get_debt_def
  proof (rule find_unique)
    fix r assume "r \<in> set (debts db)"
      and "debtor_id r = x \<and> creditor_id r = y \<and> debt_equivalent r = e"
    with d dist show "r = d" by (auto intro!: distinct_map_unique [OF dist] simp: debt_key_def)
  qed (use d in \<open>auto simp: debt_key_def\<close>)
qed

lemma get_debt_None_iff:
  "get_debt x y e db = None \<longleftrightarrow> (\<forall>d \<in> set (debts db). debt_key d \<noteq> (x, y, e))"
  by (auto simp: get_debt_def find_None_iff debt_key_def)

lemma owes_nonneg: "debts_wf db \<Longrightarrow> 0 \<le> owes db x y e"
  by (auto simp: owes_def get_debt_iff dest: debts_wfD(1) split: option.splits)

lemma owes_column: "debts_wf db \<Longrightarrow> column_value (owes db x y e)"
  by (auto simp: owes_def get_debt_iff column_value_def dest: debts_wfD(4) split: option.splits)

lemmas owes_grid = column_valueD(1) [OF owes_column]
lemmas owes_bound = column_valueD(2) [OF owes_column]

lemma owes_self: "debts_wf db \<Longrightarrow> owes db x x e = 0"
  by (auto simp: owes_def get_debt_iff debt_key_def dest: debts_wfD(2) split: option.splits)

lemma owes_row: "debts_wf db \<Longrightarrow> d \<in> set (debts db) \<Longrightarrow>
   owes db (debtor_id d) (creditor_id d) (debt_equivalent d) = debt_amount d"
  using get_debt_iff [of db "debtor_id d" "creditor_id d" "debt_equivalent d" d]
  by (auto simp: owes_def debt_key_def)

lemma owes_posD:
  assumes "debts_wf db" and "0 < owes db x y e"
  obtains d where "get_debt x y e db = Some d" and "owes db x y e = debt_amount d"
  using assms by (auto simp: owes_def split: option.splits)

subsection \<open>Changing or deleting one row\<close>

lemma set_settled:
  "set (debts (settled d v db)) =
     (if v = 0 then {r \<in> set (debts db). debt_id r \<noteq> debt_id d}
      else (\<lambda>r. if debt_id r = debt_id d then r\<lparr>debt_amount := v\<rparr> else r) ` set (debts db))"
  by (simp add: ledger_simps set_upd_row)

lemma debts_wf_settle:
  assumes wf: "debts_wf db" and v: "0 \<le> v" "column_value v"
  shows "debts_wf (settled d v db)"
proof (cases "v = 0")
  case True
  with wf show ?thesis
    by (auto simp: debts_wf_def ledger_simps intro: distinct_map_del_row)
next
  case False
  have "map debt_id (debts (settled d v db)) = map debt_id (debts db)"
    using False by (simp add: ledger_simps map_upd_row)
  moreover have "map debt_key (debts (settled d v db)) = map debt_key (debts db)"
    using False by (simp add: ledger_simps map_upd_row debt_key_def)
  ultimately show ?thesis
    using wf v False unfolding debts_wf_def by (auto simp: set_settled)
qed

lemma owes_settle:
  assumes wf: "debts_wf db" and d: "get_debt x y e db = Some d" and v: "0 \<le> v" "column_value v"
  shows "owes (settled d v db) x' y' e' =
    (if (x', y', e') = (x, y, e) then v else owes db x' y' e')"
proof -
  from wf d have dm: "d \<in> set (debts db)" and dk: "debt_key d = (x, y, e)"
    by (auto simp: get_debt_iff)
  have id_key: "debt_id r = debt_id d \<longleftrightarrow> debt_key r = (x, y, e)" if "r \<in> set (debts db)" for r
    using wf that dm dk by (auto simp: debts_wf_def dest: distinct_map_unique)
  have wf': "debts_wf (settled d v db)" by (rule debts_wf_settle [OF wf v])
  show ?thesis
  proof (cases "v = 0")
    case True
    have "get_debt x' y' e' (settled d v db) =
        (if (x', y', e') = (x, y, e) then None else get_debt x' y' e' db)"
    proof (cases "(x', y', e') = (x, y, e)")
      case True
      then show ?thesis
        using id_key \<open>v = 0\<close> by (auto simp: get_debt_None_iff set_settled)
    next
      case False
      show ?thesis
      proof (cases "get_debt x' y' e' db")
        case None
        then have "get_debt x' y' e' (settled d v db) = None"
          using \<open>v = 0\<close> by (auto simp: get_debt_None_iff set_settled)
        then show ?thesis using None False by simp
      next
        case (Some r)
        then have "get_debt x' y' e' (settled d v db) = Some r"
          using False \<open>v = 0\<close> id_key wf wf'
          by (auto simp: get_debt_iff set_settled)
        then show ?thesis using Some False by simp
      qed
    qed
    then show ?thesis using True by (auto simp: owes_def)
  next
    case False
    then have eq: "get_debt x' y' e' (settled d v db) =
        map_option (\<lambda>r. if debt_id r = debt_id d then r\<lparr>debt_amount := v\<rparr> else r)
          (get_debt x' y' e' db)"
      unfolding get_debt_def ledger_simps upd_row_def
      by (simp add: find_map_inv)
    show ?thesis
    proof (cases "get_debt x' y' e' db")
      case None
      with d have "(x', y', e') \<noteq> (x, y, e)" by auto
      then show ?thesis using eq None by (auto simp: owes_def)
    next
      case (Some r)
      with wf have r: "r \<in> set (debts db)" "debt_key r = (x', y', e')"
        by (auto simp: get_debt_iff)
      then show ?thesis
        using eq Some id_key [OF r(1)] by (simp add: owes_def)
    qed
  qed
qed

lemma net_settle:
  assumes wf: "debts_wf db" and d: "get_debt x y e db = Some d"
  shows "calculate_net_position p e' (settled d v db) = calculate_net_position p e' db
    + (if e' = e then (if p = y then v - debt_amount d else 0)
        - (if p = x then v - debt_amount d else 0) else 0)"
proof -
  from wf d have dm: "d \<in> set (debts db)"
    and dk: "debtor_id d = x" "creditor_id d = y" "debt_equivalent d = e"
    and dist: "distinct (map debt_id (debts db))"
    by (auto simp: get_debt_iff debt_key_def debts_wf_def)
  have "sql_sum P debt_amount (debts (settled d v db))
      = sql_sum P debt_amount (debts db) + (if P d then v - debt_amount d else 0)"
    if "\<And>r a. P (r\<lparr>debt_amount := a\<rparr>) = P r" for P
    using sql_sum_del_row [OF dist dm, of P debt_amount]
      sql_sum_upd_row [OF dist dm, of P "\<lambda>r. r\<lparr>debt_amount := v\<rparr>" debt_amount] that
    by (auto simp: ledger_simps)
  then show ?thesis
    unfolding calculate_net_position_def credit_total_def debt_total_def
    using dk by simp
qed

subsection \<open>Inserting a row\<close>

lemma insert_debt_Inr_iff:
  "insert_debt x y e v db = Inr db' \<longleftrightarrow> x \<noteq> y \<and> get_debt x y e db = None
     \<and> (\<exists>w. store_debt_amount ''INSERT INTO DEBTS'' v = Inr w
          \<and> db' = db\<lparr>debts := debts db @ [\<lparr>debt_id = next_uuid db, debtor_id = x, creditor_id = y,
               debt_equivalent = e, debt_amount = w\<rparr>], next_uuid := Suc (next_uuid db)\<rparr>)"
  by (auto simp: insert_debt_def split: sum.splits)

lemma insert_debt_exact:
  "x \<noteq> y \<Longrightarrow> on_grid v \<Longrightarrow> 0 < v \<Longrightarrow> get_debt x y e db = None \<Longrightarrow>
   (\<exists>db'. insert_debt x y e v db = Inr db') = (v < 10 ^ 12)
   \<and> (\<not> v < 10 ^ 12 \<longrightarrow> insert_debt x y e v db = Inl (numeric_overflow ''INSERT INTO DEBTS''))"
  by (simp add: insert_debt_def store_debt_amount_exact)

lemma insert_debt_frame:
  assumes "insert_debt x y e v db = Inr db'"
  shows "trust_lines db' = trust_lines db" and "participants db' = participants db"
    and "equivalents db' = equivalents db" and "transactions db' = transactions db"
    and "prepare_locks db' = prepare_locks db" and "audit_log db' = audit_log db"
    and "db_now db' = db_now db" and "next_uuid db' = Suc (next_uuid db)"
  using assms by (auto simp: insert_debt_Inr_iff)

lemma debts_wf_insert:
  assumes wf: "debts_wf db" and ins: "insert_debt x y e v db = Inr db'"
  shows "debts_wf db'"
proof -
  have "next_uuid db \<notin> debt_id ` set (debts db)" using wf by (auto simp: debts_wf_def)
  moreover have "(x, y, e) \<notin> debt_key ` set (debts db)"
    using ins by (auto simp: insert_debt_Inr_iff get_debt_None_iff)
  ultimately show ?thesis
    using wf ins by (auto simp: debts_wf_def insert_debt_Inr_iff debt_key_def store_debt_amount_Inr_iff
        intro: less_SucI)
qed

lemma owes_insert:
  assumes v: "on_grid v" and ins: "insert_debt x y e v db = Inr db'"
  shows "owes db' x' y' e' = (if (x', y', e') = (x, y, e) then v else owes db x' y' e')"
  using ins by (auto simp: insert_debt_Inr_iff owes_def get_debt_def find_append round8_grid [OF v]
      store_debt_amount_Inr_iff split: option.splits)

lemma net_insert:
  assumes v: "on_grid v" and "insert_debt x y e v db = Inr db'"
  shows "calculate_net_position p e' db' = calculate_net_position p e' db
    + (if e' = e then (if p = y then v else 0) - (if p = x then v else 0) else 0)"
  using assms(2)
  by (auto simp: insert_debt_Inr_iff calculate_net_position_def credit_total_def debt_total_def round8_grid [OF v]
      store_debt_amount_Inr_iff)

section \<open>Trust lines that are live\<close>

text \<open>
  The query for the active line of a pair, and the partial unique index over the lines that
  are not closed.
\<close>

definition get_active_line :: "uuid \<Rightarrow> uuid \<Rightarrow> uuid \<Rightarrow> db \<Rightarrow> trust_line option" where
  "get_active_line from_p to_p e db = find (\<lambda>t. tl_from t = from_p \<and> tl_to t = to_p
     \<and> tl_equivalent t = e \<and> tl_status t = Active) (trust_lines db)"

definition active_limit :: "uuid \<Rightarrow> uuid \<Rightarrow> uuid \<Rightarrow> db \<Rightarrow> amount" where
  "active_limit from_p to_p e db =
     (case get_active_line from_p to_p e db of None \<Rightarrow> 0 | Some t \<Rightarrow> tl_limit t)"

definition tl_key :: "trust_line \<Rightarrow> uuid \<times> uuid \<times> uuid" where
  "tl_key t = (tl_from t, tl_to t, tl_equivalent t)"

definition trust_lines_wf :: "db \<Rightarrow> bool" where
  "trust_lines_wf db \<longleftrightarrow> distinct (map tl_id (trust_lines db))
     \<and> distinct (map tl_key (filter (\<lambda>t. tl_status t \<noteq> Closed) (trust_lines db)))
     \<and> (\<forall>t \<in> set (trust_lines db). 0 \<le> tl_limit t \<and> column_value (tl_limit t) \<and> tl_id t < next_uuid db)"

lemma get_active_line_iff:
  assumes "trust_lines_wf db"
  shows "get_active_line x y e db = Some t \<longleftrightarrow>
    t \<in> set (trust_lines db) \<and> tl_key t = (x, y, e) \<and> tl_status t = Active"
proof
  assume "get_active_line x y e db = Some t"
  then show "t \<in> set (trust_lines db) \<and> tl_key t = (x, y, e) \<and> tl_status t = Active"
    unfolding get_active_line_def by (auto dest: find_SomeD simp: tl_key_def)
next
  let ?live = "filter (\<lambda>t. tl_status t \<noteq> Closed) (trust_lines db)"
  assume t: "t \<in> set (trust_lines db) \<and> tl_key t = (x, y, e) \<and> tl_status t = Active"
  from assms have dist: "distinct (map tl_key ?live)" by (simp add: trust_lines_wf_def)
  show "get_active_line x y e db = Some t"
    unfolding get_active_line_def
  proof (rule find_unique)
    fix r assume "r \<in> set (trust_lines db)"
      and r: "tl_from r = x \<and> tl_to r = y \<and> tl_equivalent r = e \<and> tl_status r = Active"
    then have "r \<in> set ?live" and "t \<in> set ?live" and "tl_key r = tl_key t"
      using t by (auto simp: tl_key_def)
    with dist show "r = t" by (rule distinct_map_unique)
  qed (use t in \<open>auto simp: tl_key_def\<close>)
qed

lemma set_joined_limits:
  assumes "trust_lines_wf db"
  shows "set (joined_limits d db) =
    {active_limit (creditor_id d) (debtor_id d) (debt_equivalent d) db}"
proof (cases "get_active_line (creditor_id d) (debtor_id d) (debt_equivalent d) db")
  case None
  then have "controlling_lines d db = []"
    by (auto simp: get_active_line_def find_None_iff controlling_lines_def filter_empty_conv)
  then show ?thesis using None by (simp add: joined_limits_def active_limit_def)
next
  case (Some t)
  have "set (controlling_lines d db) = {t}"
    using Some assms
    by (auto simp: controlling_lines_def get_active_line_iff tl_key_def)
      (metis (mono_tags, lifting) assms get_active_line_iff option.inject tl_key_def)
  then show ?thesis using Some
    by (cases "controlling_lines d db") (auto simp: joined_limits_def active_limit_def)
qed

section \<open>What the checks decide\<close>

definition eq_selected :: "uuid option \<Rightarrow> uuid \<Rightarrow> bool" where
  "eq_selected eq_opt e \<longleftrightarrow> (case eq_opt of None \<Rightarrow> True | Some e' \<Rightarrow> e = e')"

lemma compute_imbalance_zero: "compute_imbalance e db = 0"
proof -
  let ?rows = "filter (\<lambda>d. debt_equivalent d = e) (debts db)"
  let ?ps = "remdups (map creditor_id ?rows @ map debtor_id ?rows)"
  have "sum_list (map (\<lambda>p. credit_total p e db) ?ps)
      = sum_list (map (\<lambda>p. sql_sum (\<lambda>d. debt_equivalent d = e \<and> creditor_id d = p) debt_amount (debts db)) ?ps)"
    by (simp add: credit_total_def conj_commute)
  also have "\<dots> = sql_sum (\<lambda>d. debt_equivalent d = e) debt_amount (debts db)"
    by (rule sum_list_group) auto
  also have "\<dots> = sum_list (map (\<lambda>p. sql_sum (\<lambda>d. debt_equivalent d = e \<and> debtor_id d = p) debt_amount (debts db)) ?ps)"
    by (rule sum_list_group [symmetric]) auto
  also have "\<dots> = sum_list (map (\<lambda>p. debt_total p e db) ?ps)"
    by (simp add: debt_total_def conj_commute)
  finally show ?thesis
    by (simp add: compute_imbalance_def Let_def sum_list_subtractf)
qed

lemma symmetry_check_iff:
  assumes "debts_wf db"
  shows "check_debt_symmetry (Some e) None db = Inr () \<longleftrightarrow>
    (\<forall>x y. \<not> (0 < owes db x y e \<and> 0 < owes db y x e))"
proof -
  have "check_debt_symmetry (Some e) None db = Inr () \<longleftrightarrow>
    (\<forall>d1 \<in> set (debts db). \<forall>d2 \<in> set (debts db). debtor_id d1 < creditor_id d1
       \<longrightarrow> debt_equivalent d1 = e \<longrightarrow> debt_equivalent d2 = e
       \<longrightarrow> \<not> (debtor_id d1 = creditor_id d2 \<and> creditor_id d1 = debtor_id d2))"
    using assms
    by (auto simp: check_debt_symmetry_def symmetry_violations_def pair_selected_def
        filter_empty_conv debts_wf_def) metis+
  also have "\<dots> \<longleftrightarrow> (\<forall>x y. x < y \<longrightarrow> \<not> (0 < owes db x y e \<and> 0 < owes db y x e))"
  proof safe
    fix x y
    assume all: "\<forall>d1 \<in> set (debts db). \<forall>d2 \<in> set (debts db). debtor_id d1 < creditor_id d1
       \<longrightarrow> debt_equivalent d1 = e \<longrightarrow> debt_equivalent d2 = e
       \<longrightarrow> \<not> (debtor_id d1 = creditor_id d2 \<and> creditor_id d1 = debtor_id d2)"
      and "x < y" and "0 < owes db x y e" and "0 < owes db y x e"
    obtain d1 where "get_debt x y e db = Some d1"
      using assms \<open>0 < owes db x y e\<close> by (rule owes_posD)
    moreover obtain d2 where "get_debt y x e db = Some d2"
      using assms \<open>0 < owes db y x e\<close> by (rule owes_posD)
    ultimately show False
      using all \<open>x < y\<close> assms by (auto simp: get_debt_iff debt_key_def)
  next
    fix d1 d2
    assume "d1 \<in> set (debts db)" and "d2 \<in> set (debts db)" and "debtor_id d1 < creditor_id d1"
      and "e = debt_equivalent d1" and "debt_equivalent d2 = debt_equivalent d1"
      and "debtor_id d1 = creditor_id d2" and "creditor_id d1 = debtor_id d2"
      and "\<forall>x y. x < y \<longrightarrow> \<not> (0 < owes db x y (debt_equivalent d1) \<and> 0 < owes db y x (debt_equivalent d1))"
    then show False
      using owes_row [OF assms, of d1] owes_row [OF assms, of d2] debts_wfD(1) [OF assms]
      by metis
  qed
  also have "\<dots> \<longleftrightarrow> (\<forall>x y. \<not> (0 < owes db x y e \<and> 0 < owes db y x e))"
    by (metis assms linorder_neqE_nat order_less_irrefl owes_self)
  finally show ?thesis .
qed

lemma checkpoint_debts_mset:
  assumes "debts_wf db" and "mset (debts db) = mset (debts db')"
  shows "checkpoint_debts e db = checkpoint_debts e db'"
  unfolding checkpoint_debts_def
proof (rule sort_key_eq_sort_key)
  show "mset (filter (\<lambda>d. debt_equivalent d = e) (debts db))
      = mset (filter (\<lambda>d. debt_equivalent d = e) (debts db'))"
    by (simp add: assms(2) mset_filter)
  have "distinct (map debt_key (debts db))" using assms(1) by (simp add: debts_wf_def)
  then show "inj_on (\<lambda>d. (debtor_id d, creditor_id d)) (set (filter (\<lambda>d. debt_equivalent d = e) (debts db)))"
    by (auto simp: inj_on_def debt_key_def dest: distinct_map_unique)
qed

lemma checkpoint_trust_lines_mset:
  assumes "trust_lines_wf db" and "mset (trust_lines db) = mset (trust_lines db')"
  shows "checkpoint_trust_lines e db = checkpoint_trust_lines e db'"
  unfolding checkpoint_trust_lines_def
proof (rule sort_key_eq_sort_key)
  show "mset (filter (\<lambda>t. tl_equivalent t = e) (trust_lines db))
      = mset (filter (\<lambda>t. tl_equivalent t = e) (trust_lines db'))"
    by (simp add: assms(2) mset_filter)
  have "distinct (map tl_id (trust_lines db))" using assms(1) by (simp add: trust_lines_wf_def)
  then show "inj_on (\<lambda>t. (tl_from t, tl_to t, tl_id t)) (set (filter (\<lambda>t. tl_equivalent t = e) (trust_lines db)))"
    by (auto simp: inj_on_def dest: distinct_map_unique)
qed

end
