(* ===== verification/Payment_Engine.thy ===== *)
theory Payment_Engine
  imports Ledger
begin

text \<open>
  The two-phase commit of \<^verbatim>\<open>app/core/payments/engine.py\<close>: the validation of persisted prepare
  locks, the capacity of a segment, \<^verbatim>\<open>prepare\<close>, \<^verbatim>\<open>prepare_routes\<close>, \<^verbatim>\<open>_apply_flow\<close>, \<^verbatim>\<open>commit\<close>
  with its post-checks, and \<^verbatim>\<open>abort\<close>. A unit of work that waits for advisory locks reads the
  database several times; each read has its own snapshot argument, so that whatever other
  sessions commit in between is part of the model.
\<close>

section \<open>Persisted prepare locks\<close>

record flow =
  fl_equivalent :: uuid
  fl_from :: uuid
  fl_to :: uuid
  fl_amount :: amount

record validated_lock =
  vl_lock :: uuid
  vl_flows :: "flow list"

definition parse_flow :: "raw_flow \<Rightarrow> exc + flow" where
  "parse_flow f = (case f of FlowNotDict \<Rightarrow> Inl (Geo E010)
    | RawFlow eq_o from_o to_o amount_o \<Rightarrow>
        (case (eq_o, from_o, to_o, amount_o) of
           (Some e, Some x, Some y, Some (Fin v)) \<Rightarrow>
             (if v \<le> 0 then Inl (Geo E010)
              else Inr \<lparr>fl_equivalent = e, fl_from = x, fl_to = y, fl_amount = v\<rparr>)
         | _ \<Rightarrow> Inl (Geo E010)))"

definition parse_lock :: "prepare_lock \<Rightarrow> exc + validated_lock" where
  "parse_lock l = (case lock_effects l of
      Flows fs \<Rightarrow> (if fs = [] then Inl (Geo E010)
        else (case map_res parse_flow fs of Inl x \<Rightarrow> Inl x
          | Inr flows \<Rightarrow> Inr \<lparr>vl_lock = lock_id l, vl_flows = flows\<rparr>))
    | _ \<Rightarrow> Inl (Geo E010))"

definition parse_persisted_prepare_locks :: "prepare_lock list \<Rightarrow> exc + validated_lock list" where
  "parse_persisted_prepare_locks locks = (case map_res parse_lock locks of Inl x \<Rightarrow> Inl x
    | Inr validated \<Rightarrow>
        (if validated = [] \<or> \<not> (\<exists>v \<in> set validated. vl_flows v \<noteq> []) then Inl (Geo E010)
         else Inr (sort_key vl_lock validated)))"

definition validated_flows :: "validated_lock list \<Rightarrow> flow list" where
  "validated_flows vs = concat (map vl_flows vs)"

text \<open>
  The advisory key of a segment hashes the equivalent and the two participants in sorted
  order; the key is represented by the hashed triple.
\<close>

definition segment_lock_key :: "uuid \<Rightarrow> uuid \<Rightarrow> uuid \<Rightarrow> uuid \<times> uuid \<times> uuid" where
  "segment_lock_key e x y = (e, min x y, max x y)"

definition segment_lock_keys_from_validated_flows ::
    "validated_lock list \<Rightarrow> (uuid \<times> uuid \<times> uuid) set" where
  "segment_lock_keys_from_validated_flows vs =
     (\<lambda>f. segment_lock_key (fl_equivalent f) (fl_from f) (fl_to f)) ` set (validated_flows vs)"

definition load_prepare_locks :: "string \<Rightarrow> db \<Rightarrow> prepare_lock list" where
  "load_prepare_locks tx db = filter (\<lambda>l. lock_tx l = tx) (prepare_locks db)"

definition get_tx :: "string \<Rightarrow> db \<Rightarrow> transaction option" where
  "get_tx tx db = find (\<lambda>t. tx_id t = tx) (transactions db)"

definition update_tx :: "string \<Rightarrow> (transaction \<Rightarrow> transaction) \<Rightarrow> db \<Rightarrow> db" where
  "update_tx tx g db = db\<lparr>transactions := upd_row tx_id tx g (transactions db)\<rparr>"

definition delete_prepare_locks :: "string \<Rightarrow> db \<Rightarrow> db" where
  "delete_prepare_locks tx db = db\<lparr>prepare_locks := del_row lock_tx tx (prepare_locks db)\<rparr>"

text \<open>
  The owner preflight of PostgreSQL: \<open>None\<close> on other backends, otherwise the validated locks
  and whether they were malformed.
\<close>

definition preacquire_equivalent_owner_locks ::
    "bool \<Rightarrow> string \<Rightarrow> bool \<Rightarrow> db \<Rightarrow> exc + (validated_lock list \<times> bool) option" where
  "preacquire_equivalent_owner_locks is_postgres tx allow_malformed db =
     (if \<not> is_postgres then Inr None
      else let locks = load_prepare_locks tx db in
        if locks = [] then Inr (Some ([], False))
        else (case parse_persisted_prepare_locks locks of
            Inl x \<Rightarrow> (if allow_malformed then Inr (Some ([], True)) else Inl x)
          | Inr vs \<Rightarrow> Inr (Some (vs, False))))"

section \<open>Capacity of one segment\<close>

text \<open>
  Iterating \<open>(lock.effects or {}).get("flows", [])\<close>: an effects value without \<open>get\<close> or a value that is not
  iterable raises; items that are not dicts fail inside the loop's \<open>try\<close> and are skipped.
\<close>

definition iter_flows :: "prepare_lock \<Rightarrow> exc + raw_flow list" where
  "iter_flows l = (case lock_effects l of EffectsFalsy \<Rightarrow> Inr [] | EffectsNotDict \<Rightarrow> Inl AttributeError
    | FlowsMissing \<Rightarrow> Inr [] | FlowsNotIterable \<Rightarrow> Inl TypeError | FlowsOfStrings \<Rightarrow> Inr []
    | Flows fs \<Rightarrow> Inr fs)"

definition flow_reservation :: "uuid \<Rightarrow> uuid \<Rightarrow> uuid \<Rightarrow> raw_flow \<Rightarrow> pydec option" where
  "flow_reservation sender receiver e f = (case f of FlowNotDict \<Rightarrow> None
    | RawFlow eq_o from_o to_o amount_o \<Rightarrow>
        (case (eq_o, from_o, to_o, amount_o) of
           (Some e', Some x, Some y, Some v) \<Rightarrow>
             (if e' \<noteq> e then None else if x = sender \<and> y = receiver then Some v else None)
         | _ \<Rightarrow> None))"

definition reserve_flow :: "uuid \<Rightarrow> uuid \<Rightarrow> uuid \<Rightarrow> raw_flow \<Rightarrow> pydec \<Rightarrow> exc + pydec" where
  "reserve_flow sender receiver e f acc = (case flow_reservation sender receiver e f of
      None \<Rightarrow> Inr acc | Some v \<Rightarrow> pd_add acc v)"

definition reserve_lock ::
    "string \<Rightarrow> uuid \<Rightarrow> uuid \<Rightarrow> uuid \<Rightarrow> prepare_lock \<Rightarrow> pydec \<Rightarrow> exc + pydec" where
  "reserve_lock tx sender receiver e l acc = (if lock_tx l = tx then Inr acc
     else (case iter_flows l of Inl x \<Rightarrow> Inl x
       | Inr fs \<Rightarrow> fold_res (reserve_flow sender receiver e) fs acc))"

definition relevant_locks :: "uuid \<Rightarrow> db \<Rightarrow> prepare_lock list" where
  "relevant_locks sender db =
     filter (\<lambda>l. lock_participant l = sender \<and> lock_expires_at l > db_now db) (prepare_locks db)"

definition segment_capacity :: "uuid \<Rightarrow> uuid \<Rightarrow> uuid \<Rightarrow> db \<Rightarrow> amount" where
  "segment_capacity sender receiver e db =
     active_limit receiver sender e db - owes db sender receiver e + owes db receiver sender e"

definition get_segment_capacity_and_reserved_usage ::
    "string \<Rightarrow> uuid \<Rightarrow> uuid \<Rightarrow> uuid \<Rightarrow> db \<Rightarrow> exc + amount \<times> pydec" where
  "get_segment_capacity_and_reserved_usage tx sender receiver e db =
     (case fold_res (reserve_lock tx sender receiver e) (relevant_locks sender db) (Fin 0) of
        Inl x \<Rightarrow> Inl x
      | Inr reserved \<Rightarrow> Inr (segment_capacity sender receiver e db, reserved))"

text \<open>
  \<open>if available_capacity < (amount + reserved_usage): raise RoutingException\<close>.
\<close>

definition check_segment :: "amount \<Rightarrow> pydec \<Rightarrow> amount \<Rightarrow> exc + unit" where
  "check_segment available reserved needed = (case pd_add (Fin needed) reserved of Inl x \<Rightarrow> Inl x
    | Inr required \<Rightarrow> (case pd_less (Fin available) required of Inl x \<Rightarrow> Inl x
        | Inr short \<Rightarrow> (if short then Inl (Routing True) else Inr ())))"

section \<open>Phase 1: prepare\<close>

definition id_of_pid :: "pid \<Rightarrow> db \<Rightarrow> uuid option" where
  "id_of_pid p db = map_option part_id (find (\<lambda>r. part_pid r = p) (participants db))"

definition segments_of :: "'a list \<Rightarrow> ('a \<times> 'a) list" where
  "segments_of path = zip path (tl path)"

definition mk_raw_flow :: "uuid \<Rightarrow> uuid \<Rightarrow> amount \<Rightarrow> uuid \<Rightarrow> raw_flow" where
  "mk_raw_flow sender receiver v e = RawFlow (Some e) (Some sender) (Some receiver) (Some (Fin v))"

text \<open>
  The new lock rows, with identifiers from the supply, and their flush under the unique
  constraint on transaction and participant.
\<close>

fun mk_locks :: "string \<Rightarrow> timestamp \<Rightarrow> uuid \<Rightarrow> (uuid \<times> raw_flow list) list \<Rightarrow> prepare_lock list" where
  "mk_locks tx expires n [] = []"
| "mk_locks tx expires n ((p, fs) # rest) =
     \<lparr>lock_id = n, lock_tx = tx, lock_participant = p, lock_effects = Flows fs,
      lock_expires_at = expires\<rparr> # mk_locks tx expires (Suc n) rest"

definition add_locks :: "string \<Rightarrow> timestamp \<Rightarrow> (uuid \<times> raw_flow list) list \<Rightarrow> db \<Rightarrow> exc + db" where
  "add_locks tx expires entries db =
     (if \<not> distinct (map fst entries)
      then Inl (DBAPIError \<lparr>sqlstate = Some ''23505'', statement = ''INSERT INTO PREPARE_LOCKS'',
             constraint_name = Some ''uq_prepare_locks_tx_participant''\<rparr>)
      else Inr (db\<lparr>prepare_locks := prepare_locks db @ mk_locks tx expires (next_uuid db) entries,
                  next_uuid := next_uuid db + length entries\<rparr>))"

definition mark_prepared :: "string \<Rightarrow> db \<Rightarrow> db" where
  "mark_prepared tx db = update_tx tx (\<lambda>t. t\<lparr>tx_state := PREPARED, tx_updated_at := db_now db\<rparr>) db"

definition prepare_segment ::
    "string \<Rightarrow> uuid \<Rightarrow> amount \<Rightarrow> db \<Rightarrow> uuid \<times> uuid \<Rightarrow> (uuid \<times> raw_flow list) list
      \<Rightarrow> exc + (uuid \<times> raw_flow list) list" where
  "prepare_segment tx e v db seg locks_to_create = (case seg of (sender, receiver) \<Rightarrow>
     (case get_segment_capacity_and_reserved_usage tx sender receiver e db of Inl x \<Rightarrow> Inl x
      | Inr (available, reserved) \<Rightarrow>
          (case check_segment available reserved v of Inl x \<Rightarrow> Inl x
           | Inr _ \<Rightarrow> Inr (locks_to_create @ [(sender, [mk_raw_flow sender receiver v e])]))))"

text \<open>
  \<open>utcnow\<close> is the application's clock, from which the expiry is computed; the expiry is later
  compared with the clock of the database. The reads of a prepare are one snapshot: they follow
  the owner, transaction and segment locks under which every writer of these rows runs.
\<close>

definition prepare :: "timestamp \<Rightarrow> int \<Rightarrow> string \<Rightarrow> pid list \<Rightarrow> amount \<Rightarrow> uuid \<Rightarrow> db \<Rightarrow> exc + db" where
  "prepare utcnow lock_ttl_seconds tx path v e db = (case get_tx tx db of None \<Rightarrow> Inl (Geo E010)
    | Some t \<Rightarrow>
       if tx_state t = COMMITTED then Inr db
       else if tx_state t \<in> {ABORTED, REJECTED} then Inl Conflict
       else if list_ex (\<lambda>p. id_of_pid p db = None) path then Inl (Geo E010)
       else if load_prepare_locks tx db \<noteq> [] then
         (if tx_state t = PREPARED then Inr db else Inl Conflict)
       else (case fold_res (prepare_segment tx e v db)
                    (segments_of (map (\<lambda>p. the (id_of_pid p db)) path)) [] of
               Inl x \<Rightarrow> Inl x
             | Inr entries \<Rightarrow>
                 (case add_locks tx (utcnow + lock_ttl_seconds) entries db of Inl x \<Rightarrow> Inl x
                  | Inr db' \<Rightarrow> Inr (mark_prepared tx db'))))"

subsection \<open>Several routes\<close>

text \<open>
  The loop state: the flows per sending participant, a dict in insertion order, and the
  amounts this call has already reserved per directed segment.
\<close>

type_synonym route_state = "(uuid \<times> raw_flow list) list \<times> (uuid \<times> uuid \<Rightarrow> amount)"

fun append_flow :: "uuid \<Rightarrow> raw_flow \<Rightarrow> (uuid \<times> raw_flow list) list \<Rightarrow> (uuid \<times> raw_flow list) list" where
  "append_flow p f [] = [(p, [f])]"
| "append_flow p f ((q, fs) # rest) = (if q = p then (q, fs @ [f]) # rest else (q, fs) # append_flow p f rest)"

definition prepare_route_segment ::
    "string \<Rightarrow> uuid \<Rightarrow> db \<Rightarrow> uuid \<times> uuid \<times> amount \<Rightarrow> route_state \<Rightarrow> exc + route_state" where
  "prepare_route_segment tx e db seg st = (case seg of (sender, receiver, route_amount) \<Rightarrow>
     (case get_segment_capacity_and_reserved_usage tx sender receiver e db of Inl x \<Rightarrow> Inl x
      | Inr (available, reserved) \<Rightarrow>
          (case pd_add reserved (Fin (snd st (sender, receiver))) of Inl x \<Rightarrow> Inl x
           | Inr reserved' \<Rightarrow>
               (case check_segment available reserved' route_amount of Inl x \<Rightarrow> Inl x
                | Inr _ \<Rightarrow> Inr (append_flow sender (mk_raw_flow sender receiver route_amount e) (fst st),
                    (snd st)((sender, receiver) := snd st (sender, receiver) + route_amount))))))"

definition route_segments :: "db \<Rightarrow> (pid list \<times> amount) list \<Rightarrow> (uuid \<times> uuid \<times> amount) list" where
  "route_segments db routes = concat (map (\<lambda>(path, v).
     map (\<lambda>(s, r). (s, r, v)) (segments_of (map (\<lambda>p. the (id_of_pid p db)) path))) routes)"

definition prepare_routes ::
    "timestamp \<Rightarrow> int \<Rightarrow> string \<Rightarrow> (pid list \<times> amount) list \<Rightarrow> uuid \<Rightarrow> db \<Rightarrow> exc + db" where
  "prepare_routes utcnow lock_ttl_seconds tx routes e db = (case get_tx tx db of None \<Rightarrow> Inl (Geo E010)
    | Some t \<Rightarrow>
       if tx_state t = COMMITTED then Inr db
       else if tx_state t \<in> {ABORTED, REJECTED} then Inl Conflict
       else if load_prepare_locks tx db \<noteq> [] then
         (if tx_state t = PREPARED then Inr db else Inl Conflict)
       else if list_ex (\<lambda>(path, v). v \<le> 0 \<or> length path < 2) routes then Inl (Geo E010)
       else if list_ex (\<lambda>(path, v). list_ex (\<lambda>p. id_of_pid p db = None) path) routes
         then Inl (Geo E010)
       else (case fold_res (prepare_route_segment tx e db) (route_segments db routes) ([], \<lambda>_. 0) of
               Inl x \<Rightarrow> Inl x
             | Inr (flows_by_participant, local_reserved) \<Rightarrow>
                 (case add_locks tx (utcnow + lock_ttl_seconds) flows_by_participant db of
                    Inl x \<Rightarrow> Inl x
                  | Inr db' \<Rightarrow> Inr (mark_prepared tx db'))))"

section \<open>Applying one flow\<close>

text \<open>
  First the receiver's debt to the sender is reduced, then the rest becomes debt of the sender,
  then mutual debts are netted. The sessions do not autoflush and keep one object per row: a row
  whose object the call still holds is read with the value in memory, which the column has
  rounded. The objects held are passed along; between two flows they are gone.
\<close>

definition session_debt :: "debt list \<Rightarrow> uuid \<Rightarrow> uuid \<Rightarrow> uuid \<Rightarrow> db \<Rightarrow> debt option" where
  "session_debt held debtor creditor e db = map_option
     (\<lambda>d. case find (\<lambda>h. debt_id h = debt_id d) held of None \<Rightarrow> d | Some h \<Rightarrow> h) (get_debt debtor creditor e db)"

definition reduce_reverse ::
    "uuid \<Rightarrow> uuid \<Rightarrow> amount \<Rightarrow> uuid \<Rightarrow> db \<Rightarrow> exc + db \<times> amount \<times> debt list" where
  "reduce_reverse from_id to_id v e db = (case get_debt to_id from_id e db of
      Some d \<Rightarrow> (if debt_amount d > 0
        then let reduction = min v (debt_amount d); amount_left = debt_amount d - reduction
             in case settle_debt d amount_left db of Inl x \<Rightarrow> Inl x
                | Inr db' \<Rightarrow> Inr (db', v - reduction, [d\<lparr>debt_amount := amount_left\<rparr>])
        else Inr (db, v, [d]))
    | None \<Rightarrow> Inr (db, v, []))"

definition increase_forward ::
    "uuid \<Rightarrow> uuid \<Rightarrow> amount \<Rightarrow> uuid \<Rightarrow> db \<Rightarrow> exc + db \<times> debt list" where
  "increase_forward from_id to_id remaining e db =
     (if remaining > 0 then (case get_debt from_id to_id e db of
          None \<Rightarrow> (case insert_debt from_id to_id e (0 + remaining) db of Inl x \<Rightarrow> Inl x
            | Inr db' \<Rightarrow> Inr (db', [\<lparr>debt_id = next_uuid db, debtor_id = from_id, creditor_id = to_id,
                debt_equivalent = e, debt_amount = 0 + remaining\<rparr>]))
        | Some d \<Rightarrow> (case update_debt d (debt_amount d + remaining) db of Inl x \<Rightarrow> Inl x
            | Inr db' \<Rightarrow> Inr (db', [d\<lparr>debt_amount := debt_amount d + remaining\<rparr>])))
      else Inr (db, []))"

definition net_mutual :: "debt list \<Rightarrow> uuid \<Rightarrow> uuid \<Rightarrow> uuid \<Rightarrow> db \<Rightarrow> exc + db" where
  "net_mutual held from_id to_id e db =
     (case (session_debt held from_id to_id e db, session_debt held to_id from_id e db) of
        (Some f, Some r) \<Rightarrow>
          (if debt_amount f > 0 \<and> debt_amount r > 0
           then let net = min (debt_amount f) (debt_amount r)
                in case settle_debt f (debt_amount f - net) db of Inl x \<Rightarrow> Inl x
                   | Inr db' \<Rightarrow> settle_debt r (debt_amount r - net) db'
           else Inr db)
      | _ \<Rightarrow> Inr db)"

definition apply_flow :: "uuid \<Rightarrow> uuid \<Rightarrow> amount \<Rightarrow> uuid \<Rightarrow> db \<Rightarrow> exc + db" where
  "apply_flow from_id to_id v e db =
     (case reduce_reverse from_id to_id v e db of Inl x \<Rightarrow> Inl x
      | Inr (db1, remaining, held1) \<Rightarrow>
        (case increase_forward from_id to_id remaining e db1 of Inl x \<Rightarrow> Inl x
         | Inr (db2, held2) \<Rightarrow> net_mutual (held1 @ held2) from_id to_id e db2))"

text \<open>
  The optimistic-lock retries: attempt \<open>i\<close> fails with \<^verbatim>\<open>StaleDataError\<close> when \<open>stale i\<close>, which
  rolls its savepoint back; the third failure is raised.
\<close>

fun apply_flow_attempts ::
    "(nat \<Rightarrow> bool) \<Rightarrow> nat \<Rightarrow> nat \<Rightarrow> uuid \<Rightarrow> uuid \<Rightarrow> amount \<Rightarrow> uuid \<Rightarrow> db \<Rightarrow> exc + db" where
  "apply_flow_attempts stale attempt 0 from_id to_id v e db = Inr db"
| "apply_flow_attempts stale attempt (Suc left) from_id to_id v e db =
     (if stale attempt then
        (if left = 0 then Inl StaleDataError
         else apply_flow_attempts stale (Suc attempt) left from_id to_id v e db)
      else apply_flow from_id to_id v e db)"

definition apply_flow_retry ::
    "(nat \<Rightarrow> bool) \<Rightarrow> uuid \<Rightarrow> uuid \<Rightarrow> amount \<Rightarrow> uuid \<Rightarrow> db \<Rightarrow> exc + db" where
  "apply_flow_retry stale = apply_flow_attempts stale 0 3"

section \<open>The delta check\<close>

definition snapshot_net_positions :: "uuid \<Rightarrow> uuid list \<Rightarrow> db \<Rightarrow> (uuid \<times> amount) list" where
  "snapshot_net_positions e ps db = map (\<lambda>p. (p, credit_total p e db - debt_total p e db)) ps"

definition flow_participants :: "flow list \<Rightarrow> uuid list" where
  "flow_participants flows = dict_keys (concat (map (\<lambda>f. [fl_from f, fl_to f]) flows))"

fun expected_delta :: "flow list \<Rightarrow> (uuid \<Rightarrow> amount) \<Rightarrow> uuid \<Rightarrow> amount" where
  "expected_delta [] m = m"
| "expected_delta (f # flows) m =
     (let m1 = m(fl_from f := m (fl_from f) - fl_amount f);
          m2 = m1(fl_to f := m1 (fl_to f) + fl_amount f)
      in expected_delta flows m2)"

definition lookup0 :: "(uuid \<times> amount) list \<Rightarrow> uuid \<Rightarrow> amount" where
  "lookup0 d p = (case map_of d p of None \<Rightarrow> 0 | Some v \<Rightarrow> v)"

definition check_payment_delta ::
    "uuid \<Rightarrow> flow list \<Rightarrow> (uuid \<times> amount) list \<Rightarrow> db \<Rightarrow> exc + unit" where
  "check_payment_delta e flows net_positions_before db =
     (if flows = [] then Inr ()
      else let expected = expected_delta flows (\<lambda>_. 0);
               ps = flow_participants flows;
               positions_after = snapshot_net_positions e ps db;
               drifts = filter (\<lambda>p. abs ((lookup0 positions_after p - lookup0 net_positions_before p)
                                          - expected p) > 1 / 10 ^ 8) ps
           in if drifts = [] then Inr () else Inl (IntegrityViolation PAYMENT_DELTA_DRIFT))"

section \<open>Abort\<close>

text \<open>
  The snapshots an abort reads: before the owner locks, after the transaction's advisory lock
  and after the segment locks. What it writes, it writes on the last one.
\<close>

record abort_env =
  ab_pre :: db
  ab_tx :: db
  ab_seg :: db

datatype abort_outcome = AbortSuccess | AlreadyAborted | AlreadyCommitted

text \<open>
  The result of a unit of work: what it returns or raises, and the database it leaves behind,
  \<open>None\<close> when nothing it wrote survives.
\<close>

type_synonym 'a uow_result = "(exc + 'a) \<times> db option"

definition truthy :: "string option \<Rightarrow> string option" where
  "truthy v = (case v of None \<Rightarrow> None | Some s \<Rightarrow> (if s = [] then None else Some s))"

definition or_else :: "'a option \<Rightarrow> 'a option \<Rightarrow> 'a option" where
  "or_else a b = (case a of None \<Rightarrow> b | Some _ \<Rightarrow> a)"

definition abort_error_payload ::
    "string \<Rightarrow> string option \<Rightarrow> (string \<times> string) list option \<Rightarrow> error_payload option \<Rightarrow> error_payload" where
  "abort_error_payload reason error_code details existing =
     (let ex = (case existing of None \<Rightarrow> \<lparr>err_code = None, err_message = None, err_details = None\<rparr>
                | Some x \<Rightarrow> x);
          code = normalize_error_code (or_else (truthy error_code) (err_code ex));
          msg = (case or_else (truthy (err_message ex)) (truthy (Some reason)) of
                   None \<Rightarrow> error_message code | Some m \<Rightarrow> m);
          dets = (case or_else details (err_details ex) of None \<Rightarrow> [] | Some ds \<Rightarrow> ds)
      in \<lparr>err_code = Some (error_code_value code), err_message = Some msg, err_details = Some dets\<rparr>)"

text \<open>The validated locks of an abort, \<open>None\<close> when they are malformed.\<close>

definition abort_validated :: "prepare_lock list \<Rightarrow> validated_lock list option" where
  "abort_validated locks = (if locks = [] then Some []
     else (case parse_persisted_prepare_locks locks of Inl _ \<Rightarrow> None | Inr vs \<Rightarrow> Some vs))"

definition tx_state_of :: "transaction option \<Rightarrow> tx_state_t option" where
  "tx_state_of t = map_option tx_state t"

text \<open>
  The comparison with the owner preflight: no locks, malformed locks and valid locks each have
  to be what the preflight saw, unless the transaction is already aborted.
\<close>

definition owner_preflight_changed ::
    "(validated_lock list \<times> bool) option \<Rightarrow> bool \<Rightarrow> prepare_lock list \<Rightarrow> bool" where
  "owner_preflight_changed owner_preflight terminal_aborted initial_locks =
     (case owner_preflight of None \<Rightarrow> False
      | Some (preliminary, malformed) \<Rightarrow> \<not> terminal_aborted \<and>
          (if initial_locks = [] then (preliminary, malformed) \<noteq> ([], False)
           else (case abort_validated initial_locks of
               None \<Rightarrow> (preliminary, malformed) \<noteq> ([], True)
             | Some vs \<Rightarrow> malformed \<or> vs \<noteq> preliminary)))"

definition abort_uow ::
    "bool \<Rightarrow> bool \<Rightarrow> string \<Rightarrow> string \<Rightarrow> string option \<Rightarrow> (string \<times> string) list option
      \<Rightarrow> abort_env \<Rightarrow> abort_outcome uow_result" where
  "abort_uow is_postgres reuse_outer_owner_locks tx reason error_code details env =
     (case (if reuse_outer_owner_locks then Inr None
            else preacquire_equivalent_owner_locks is_postgres tx True (ab_pre env)) of
        Inl x \<Rightarrow> (Inl x, None)
      | Inr owner_preflight \<Rightarrow>
        (let t = get_tx tx (ab_tx env) in
         if tx_state_of t = Some COMMITTED
         then (Inr AlreadyCommitted, Some (delete_prepare_locks tx (ab_tx env)))
         else let initial_locks = load_prepare_locks tx (ab_tx env);
                  terminal_aborted = (tx_state_of t = Some ABORTED)
           in if owner_preflight_changed owner_preflight terminal_aborted initial_locks
              then (Inl EquivalentOwnerPreflightChanged, None)
              else let db = ab_seg env; t' = get_tx tx db in
                if tx_state_of t' = Some COMMITTED
                then (Inr AlreadyCommitted, Some (delete_prepare_locks tx db))
                else let payload = abort_error_payload reason error_code details
                                     (case t' of None \<Rightarrow> None | Some r \<Rightarrow> tx_error r)
                  in if tx_state_of t' = Some ABORTED
                     then (Inr AlreadyAborted,
                           Some (update_tx tx (\<lambda>r. r\<lparr>tx_error := Some payload\<rparr>)
                                  (delete_prepare_locks tx db)))
                     else if abort_validated (load_prepare_locks tx db) \<noteq> abort_validated initial_locks
                     then (Inl (Geo E010), None)
                     else (Inr AbortSuccess,
                           Some (update_tx tx (\<lambda>r. r\<lparr>tx_state := ABORTED, tx_error := Some payload,
                                                     tx_updated_at := db_now db\<rparr>)
                                  (delete_prepare_locks tx db)))))"

section \<open>The retry wrapper\<close>

definition is_debt_insert :: "string \<Rightarrow> bool" where
  "is_debt_insert stmt \<longleftrightarrow> stmt = ''INSERT INTO DEBTS''
     \<or> take 18 stmt = ''INSERT INTO DEBTS '' \<or> take 18 stmt = ''INSERT INTO DEBTS(''"

definition is_retryable_db_error :: "bool \<Rightarrow> string \<Rightarrow> db_error \<Rightarrow> bool" where
  "is_retryable_db_error is_postgres op x \<longleftrightarrow> is_postgres \<and>
     (sqlstate x \<in> {Some ''40P01'', Some ''40001''}
      \<or> sqlstate x = Some ''23505'' \<and> op = ''commit'' \<and> is_debt_insert (statement x)
        \<and> constraint_name x = Some ''uq_debts_debtor_creditor_equivalent'')"

text \<open>
  \<open>fn i\<close> is the unit of work run for the \<open>i\<close>-th time. A raise rolls back the savepoint when
  there is one.
\<close>

definition savepoint :: "bool \<Rightarrow> 'a uow_result \<Rightarrow> 'a uow_result" where
  "savepoint use_savepoint r = (case r of (Inl x, w) \<Rightarrow> (Inl x, if use_savepoint then None else w)
     | (Inr v, w) \<Rightarrow> (Inr v, w))"

function run_uow_from ::
    "bool \<Rightarrow> nat \<Rightarrow> string \<Rightarrow> bool \<Rightarrow> (nat \<Rightarrow> 'a uow_result) \<Rightarrow> nat \<Rightarrow> 'a uow_result" where
  "run_uow_from is_postgres retry_attempts op use_savepoint fn attempt =
     (case savepoint use_savepoint (fn attempt) of
        (Inr v, w) \<Rightarrow> (Inr v, w)
      | (Inl EquivalentOwnerPreflightChanged, w) \<Rightarrow>
          (if use_savepoint \<or> Suc attempt \<ge> retry_attempts
           then (Inl RetryablePaymentConflict, w)
           else run_uow_from is_postgres retry_attempts op use_savepoint fn (Suc attempt))
      | (Inl (DBAPIError x), w) \<Rightarrow>
          (if use_savepoint \<and> sqlstate x \<in> {Some ''40P01'', Some ''40001''}
           then (Inl (DBAPIError x), w)
           else if sqlstate x = Some ''55P03'' then (Inl AsyncioTimeout, w)
           else if Suc attempt \<ge> retry_attempts \<or> \<not> is_retryable_db_error is_postgres op x
           then (Inl (DBAPIError x), w)
           else run_uow_from is_postgres retry_attempts op use_savepoint fn (Suc attempt))
      | (Inl x, w) \<Rightarrow> (Inl x, w))"
  by pat_completeness auto
termination
  by (relation "measure (\<lambda>(_, retry_attempts, _, _, _, attempt). retry_attempts - attempt)") auto

declare run_uow_from.simps [simp del]

definition run_uow_with_retry ::
    "bool \<Rightarrow> nat \<Rightarrow> string \<Rightarrow> bool \<Rightarrow> (nat \<Rightarrow> 'a uow_result) \<Rightarrow> 'a uow_result" where
  "run_uow_with_retry is_postgres retry_attempts op use_savepoint fn =
     run_uow_from is_postgres retry_attempts op use_savepoint fn 0"

text \<open>
  \<^verbatim>\<open>PaymentEngine.abort\<close>: the lock-held flags of the caller are honoured on every attempt under
  a savepoint and on the first attempt otherwise.
\<close>

definition abort ::
    "bool \<Rightarrow> nat \<Rightarrow> bool \<Rightarrow> bool \<Rightarrow> string \<Rightarrow> string \<Rightarrow> string option \<Rightarrow> (string \<times> string) list option
      \<Rightarrow> (nat \<Rightarrow> abort_env) \<Rightarrow> abort_outcome uow_result" where
  "abort is_postgres retry_attempts commit_flag owner_locks_held tx reason error_code details env =
     run_uow_with_retry is_postgres retry_attempts
       (if commit_flag then ''abort'' else ''abort_nocommit'') (\<not> commit_flag)
       (\<lambda>i. abort_uow is_postgres (owner_locks_held \<and> (\<not> commit_flag \<or> i = 0))
              tx reason error_code details (env i))"

section \<open>Phase 2: commit\<close>

record commit_env =
  ce_pre :: db
  ce_tx :: db
  ce_nolock :: db
  ce_seg :: db
  ce_abort :: "nat \<Rightarrow> abort_env"
  ce_stale :: "nat \<Rightarrow> nat \<Rightarrow> bool"

definition flows_of :: "uuid \<Rightarrow> flow list \<Rightarrow> flow list" where
  "flows_of e flows = filter (\<lambda>f. fl_equivalent f = e) flows"

definition affected_pairs :: "flow list \<Rightarrow> (uuid \<times> uuid) list" where
  "affected_pairs flows = concat (map (\<lambda>f. [(fl_from f, fl_to f), (fl_to f, fl_from f)]) flows)"

definition affected_equivalents :: "flow list \<Rightarrow> uuid list" where
  "affected_equivalents flows = dict_keys (map fl_equivalent flows)"

definition apply_flows :: "(nat \<Rightarrow> nat \<Rightarrow> bool) \<Rightarrow> flow list \<Rightarrow> db \<Rightarrow> exc + db" where
  "apply_flows stale flows = fold_res (\<lambda>(i, f).
     apply_flow_retry (stale i) (fl_from f) (fl_to f) (fl_amount f) (fl_equivalent f)) (enumerate 0 flows)"

text \<open>The checks of one affected equivalent, each on the state before (\<open>db0\<close>) and after the flows.\<close>

definition check_equivalent :: "flow list \<Rightarrow> db \<Rightarrow> db \<Rightarrow> uuid \<Rightarrow> exc + unit" where
  "check_equivalent flows db0 db e =
     (let fs = flows_of e flows; pairs = affected_pairs fs in
      case check_trust_limits (Some e) (Some pairs) db of Inl x \<Rightarrow> Inl x
      | Inr _ \<Rightarrow> (case check_zero_sum (Some e) db of Inl x \<Rightarrow> Inl x
      | Inr _ \<Rightarrow> (case check_debt_symmetry (Some e) (Some pairs) db of Inl x \<Rightarrow> Inl x
      | Inr _ \<Rightarrow> check_payment_delta e fs (snapshot_net_positions e (flow_participants fs) db0) db)))"

definition check_flows :: "flow list \<Rightarrow> db \<Rightarrow> db \<Rightarrow> exc + unit" where
  "check_flows flows db0 db =
     fold_res (\<lambda>e _. check_equivalent flows db0 db e) (affected_equivalents flows) ()"

definition payment_pids :: "payload \<Rightarrow> pid list" where
  "payment_pids pl = sort (remdups (filter (\<lambda>p. p \<noteq> [])
     ((case pl_from pl of None \<Rightarrow> [] | Some p \<Rightarrow> [p]) @ (case pl_to pl of None \<Rightarrow> [] | Some p \<Rightarrow> [p])
      @ (case pl_routes pl of None \<Rightarrow> [] | Some rs \<Rightarrow> concat (map fst rs)))))"

definition audit_payment :: "string \<Rightarrow> payload \<Rightarrow> db \<Rightarrow> db \<Rightarrow> uuid \<Rightarrow> audit_entry" where
  "audit_payment tx pl db0 db e =
     (let after = compute_integrity_checkpoint e db in
      \<lparr>audit_operation = PAYMENT, audit_tx = Some tx, audit_equivalent = e,
       audit_before = Some (cp_checksum (compute_integrity_checkpoint e db0)),
       audit_after = Some (cp_checksum after), audit_participants = payment_pids pl,
       audit_passed = cp_passed after\<rparr>)"

definition write_committed :: "string \<Rightarrow> payload \<Rightarrow> flow list \<Rightarrow> db \<Rightarrow> db \<Rightarrow> db" where
  "write_committed tx pl flows db0 db =
     update_tx tx (\<lambda>t. t\<lparr>tx_state := COMMITTED, tx_updated_at := db_now db\<rparr>)
       (delete_prepare_locks tx
         (db\<lparr>audit_log := audit_log db @ map (audit_payment tx pl db0 db) (affected_equivalents flows)\<rparr>))"

text \<open>
  The guard on the transaction's state, read three times: an answer, or \<open>None\<close> to go on.
\<close>

definition commit_state_guard :: "tx_state_t \<Rightarrow> (exc + unit) option" where
  "commit_state_guard st = (if st = COMMITTED then Some (Inr ())
     else if st \<in> {ABORTED, REJECTED} then Some (Inl Conflict)
     else if st \<noteq> PREPARED then Some (Inl Conflict) else None)"

definition violation_details :: "exc \<Rightarrow> (string \<times> string) list option" where
  "violation_details x = (case x of IntegrityViolation n \<Rightarrow> Some [(''invariant'',
     case n of ZERO_SUM_VIOLATION \<Rightarrow> ''ZERO_SUM_VIOLATION''
       | TRUST_LIMIT_VIOLATION \<Rightarrow> ''TRUST_LIMIT_VIOLATION''
       | DEBT_SYMMETRY_VIOLATION \<Rightarrow> ''DEBT_SYMMETRY_VIOLATION''
       | CLEARING_NEUTRALITY_VIOLATION \<Rightarrow> ''CLEARING_NEUTRALITY_VIOLATION''
       | PAYMENT_DELTA_DRIFT \<Rightarrow> ''PAYMENT_DELTA_DRIFT'')] | _ \<Rightarrow> None)"

text \<open>An abort from inside a commit, after which the commit raises.\<close>

definition abort_then_raise :: "abort_outcome uow_result \<Rightarrow> exc \<Rightarrow> unit uow_result" where
  "abort_then_raise r x = (case r of (Inl y, w) \<Rightarrow> (Inl y, w) | (Inr _, w) \<Rightarrow> (Inl x, w))"

definition commit_apply ::
    "bool \<Rightarrow> nat \<Rightarrow> bool \<Rightarrow> string \<Rightarrow> transaction \<Rightarrow> flow list \<Rightarrow> commit_env \<Rightarrow> unit uow_result" where
  "commit_apply is_postgres retry_attempts commit_flag tx t flows env =
     (let db = ce_seg env in
      if list_ex (\<lambda>l. lock_expires_at l \<le> db_now db) (load_prepare_locks tx db)
      then abort_then_raise (abort is_postgres retry_attempts commit_flag True tx
             ''Prepare locks expired before commit'' None None (ce_abort env)) Conflict
      else (case apply_flows (ce_stale env) flows db of Inl x \<Rightarrow> (Inl x, None)
        | Inr db' \<Rightarrow>
            (case check_flows flows db db' of
               Inl x \<Rightarrow> abort_then_raise (abort is_postgres retry_attempts commit_flag (\<not> commit_flag) tx
                  (''Invariant violation: '' @ error_code_value (exc_code x))
                  (Some (error_code_value (exc_code x))) (violation_details x) (ce_abort env)) x
             | Inr _ \<Rightarrow> (Inr (), Some (write_committed tx (tx_payload t) flows db db')))))"

definition commit_uow :: "bool \<Rightarrow> nat \<Rightarrow> bool \<Rightarrow> string \<Rightarrow> commit_env \<Rightarrow> unit uow_result" where
  "commit_uow is_postgres retry_attempts commit_flag tx env =
     (case preacquire_equivalent_owner_locks is_postgres tx False (ce_pre env) of Inl x \<Rightarrow> (Inl x, None)
      | Inr owner_preflight \<Rightarrow>
        (case get_tx tx (ce_tx env) of None \<Rightarrow> (Inl (Geo E010), None)
         | Some t \<Rightarrow>
        (case commit_state_guard (tx_state t) of Some r \<Rightarrow> (r, None)
         | None \<Rightarrow>
        (let locks = load_prepare_locks tx (ce_tx env) in
         if locks = [] then
           (case get_tx tx (ce_nolock env) of None \<Rightarrow> (Inl (Geo E010), None)
            | Some t' \<Rightarrow> (case commit_state_guard (tx_state t') of Some r \<Rightarrow> (r, None)
               | None \<Rightarrow> (Inl (Geo E010), None)))
         else (case parse_persisted_prepare_locks locks of Inl x \<Rightarrow> (Inl x, None)
         | Inr validated \<Rightarrow>
           if (case owner_preflight of None \<Rightarrow> False
               | Some (preliminary, malformed) \<Rightarrow> malformed \<or> validated \<noteq> preliminary)
           then (Inl EquivalentOwnerPreflightChanged, None)
           else (case get_tx tx (ce_seg env) of None \<Rightarrow> (Inl (Geo E010), None)
         | Some t' \<Rightarrow>
        (case commit_state_guard (tx_state t') of Some r \<Rightarrow> (r, None)
         | None \<Rightarrow>
        (let locks' = load_prepare_locks tx (ce_seg env) in
         if locks' = [] then (Inl (Geo E010), None)
         else (case parse_persisted_prepare_locks locks' of Inl x \<Rightarrow> (Inl x, None)
         | Inr refreshed \<Rightarrow>
           if refreshed \<noteq> validated
             \<or> segment_lock_keys_from_validated_flows refreshed
               \<noteq> segment_lock_keys_from_validated_flows validated
           then (Inl (Geo E010), None)
           else commit_apply is_postgres retry_attempts commit_flag tx t'
                  (validated_flows refreshed) env)))))))))"

definition commit_tx ::
    "bool \<Rightarrow> nat \<Rightarrow> bool \<Rightarrow> string \<Rightarrow> (nat \<Rightarrow> commit_env) \<Rightarrow> unit uow_result" where
  "commit_tx is_postgres retry_attempts commit_flag tx env =
     run_uow_with_retry is_postgres retry_attempts
       (if commit_flag then ''commit'' else ''commit_nocommit'') (\<not> commit_flag)
       (\<lambda>i. commit_uow is_postgres retry_attempts commit_flag tx (env i))"

end
