(* ===== verification/Flow_Application.thy ===== *)
theory Flow_Application
  imports Payment_Engine
begin

text \<open>
  What \<^verbatim>\<open>PaymentEngine._apply_flow\<close> and the loop over the flows of a transaction do to the debt
  table: the refinement of the pairwise debts, the net positions, and the outcome of the
  post-checks of a commit. The interface \<open>flow_ledger\<close> states what a client of the debt table
  relies on; its run lemma is used for the flows of a payment.
\<close>

section \<open>Changes confined to the debt table\<close>

definition debts_only :: "db \<Rightarrow> db \<Rightarrow> bool" where
  "debts_only db db' \<longleftrightarrow> db' = db\<lparr>debts := debts db', next_uuid := next_uuid db'\<rparr>
     \<and> next_uuid db \<le> next_uuid db'"

lemma debts_only_refl [simp, intro]: "debts_only db db"
  by (simp add: debts_only_def)

lemma debts_only_trans [trans]: "debts_only a b \<Longrightarrow> debts_only b c \<Longrightarrow> debts_only a c"
  unfolding debts_only_def by (cases a, cases b, cases c) auto

lemma debts_onlyD:
  assumes "debts_only db db'"
  shows "trust_lines db' = trust_lines db" and "participants db' = participants db"
    and "equivalents db' = equivalents db" and "transactions db' = transactions db"
    and "prepare_locks db' = prepare_locks db" and "audit_log db' = audit_log db"
    and "db_now db' = db_now db" and "next_uuid db \<le> next_uuid db'"
  using assms unfolding debts_only_def by (cases db; cases db'; simp)+

lemma debts_only_settled [simp, intro]: "debts_only db (settled d v db)"
  by (cases db) (simp add: debts_only_def ledger_simps)

lemma debts_only_insert: "insert_debt x y e v db = Inr db' \<Longrightarrow> debts_only db db'"
  by (cases db) (auto simp: debts_only_def insert_debt_Inr_iff)

lemma active_limit_debts_only: "debts_only db db' \<Longrightarrow> active_limit x y e db' = active_limit x y e db"
  by (simp add: active_limit_def get_active_line_def debts_onlyD(1))

lemma trust_lines_wf_debts_only: "debts_only db db' \<Longrightarrow> trust_lines_wf db \<Longrightarrow> trust_lines_wf db'"
  using debts_onlyD(1,8) [of db db'] by (fastforce simp: trust_lines_wf_def)

section \<open>One flow\<close>

text \<open>
  The step as a change of the three debts involved. Each part of the step sets the debt of
  one directed pair and moves both net positions accordingly.
\<close>

definition sets_debt :: "uuid \<Rightarrow> uuid \<Rightarrow> uuid \<Rightarrow> amount \<Rightarrow> db \<Rightarrow> db \<Rightarrow> bool" where
  "sets_debt x y e v db db' \<longleftrightarrow> debts_wf db' \<and> debts_only db db'
     \<and> (\<forall>x' y' e'. owes db' x' y' e' = (if (x', y', e') = (x, y, e) then v else owes db x' y' e'))
     \<and> (\<forall>p e'. calculate_net_position p e' db' = calculate_net_position p e' db
          + (if e' = e then (if p = y then v - owes db x y e else 0)
               - (if p = x then v - owes db x y e else 0) else 0))"

lemma sets_debt_settled:
  assumes "debts_wf db" and "get_debt x y e db = Some d" and "0 \<le> v" and "column_value v"
  shows "sets_debt x y e v db (settled d v db)"
  using assms owes_settle [OF assms] net_settle [OF assms(1,2)] debts_wf_settle [OF assms(1,3,4)]
  by (simp add: sets_debt_def owes_def)

lemma sets_debt_insert:
  assumes "debts_wf db" and v: "on_grid v" and ins: "insert_debt x y e v db = Inr db'"
  shows "sets_debt x y e v db db'"
proof -
  have "owes db x y e = 0" using ins by (simp add: insert_debt_Inr_iff owes_def)
  then show ?thesis
    using debts_wf_insert [OF assms(1) ins] debts_only_insert [OF ins] owes_insert [OF v ins] net_insert [OF v ins]
    by (simp add: sets_debt_def)
qed

lemma sets_debt_refl: "debts_wf db \<Longrightarrow> owes db x y e = v \<Longrightarrow> sets_debt x y e v db db"
  by (auto simp: sets_debt_def)

text \<open>
  The objects held by the session carry the stored values; then reading through them is reading
  the table. Eight-decimal amounts keep it so.
\<close>

definition held_current :: "debt list \<Rightarrow> db \<Rightarrow> bool" where
  "held_current held db \<longleftrightarrow> (\<forall>h \<in> set held. \<forall>r \<in> set (debts db). debt_id r = debt_id h \<longrightarrow> r = h)"

lemma session_debt_current:
  assumes "debts_wf db" and "held_current held db"
  shows "session_debt held x y e db = get_debt x y e db"
proof (cases "get_debt x y e db")
  case (Some d)
  then have "d \<in> set (debts db)" using assms(1) by (simp add: get_debt_iff)
  then have "find (\<lambda>h. debt_id h = debt_id d) held = Some h \<Longrightarrow> h = d" for h
    using assms(2) by (fastforce simp: held_current_def dest: find_SomeD)
  then show ?thesis using Some by (auto simp: session_debt_def split: option.splits)
qed (simp add: session_debt_def)

lemma held_current_settled:
  assumes "debts_wf db" and "d \<in> set (debts db)"
  shows "held_current [d\<lparr>debt_amount := v\<rparr>] (settled d v db)"
proof -
  have "r = d" if "r \<in> set (debts db)" "debt_id r = debt_id d" for r
    using assms that by (auto simp: debts_wf_def dest: distinct_map_unique)
  then show ?thesis by (auto simp: held_current_def set_settled)
qed

lemma reduce_reverse_sets:
  assumes wf: "debts_wf db" and v: "0 < v" "on_grid v"
  shows "\<exists>db1 held. reduce_reverse s r v e db = Inr (db1, v - min v (owes db r s e), held)
    \<and> sets_debt r s e (owes db r s e - min v (owes db r s e)) db db1 \<and> held_current held db1"
proof (cases "get_debt r s e db")
  case None
  then show ?thesis using wf v by (auto simp: reduce_reverse_def owes_def held_current_def intro!: sets_debt_refl)
next
  case (Some d)
  let ?left = "debt_amount d - min v (debt_amount d)"
  have d: "d \<in> set (debts db)" "0 < debt_amount d" "column_value (debt_amount d)"
    using Some wf by (auto simp: get_debt_iff dest: debts_wfD)
  have "on_grid ?left" using v(2) column_valueD(1) [OF d(3)] by blast
  then have left: "0 \<le> ?left" "column_value ?left"
    using v(1) d(2) column_value_between [OF _ _ _ d(3), of ?left] by auto
  show ?thesis
    using Some d sets_debt_settled [OF wf Some left] held_current_settled [OF wf d(1), of ?left]
    by (auto simp: reduce_reverse_def owes_def Let_def settle_debt_exact [OF left(2,1)])
qed

lemma increase_forward_sets:
  assumes wf: "debts_wf db" and "s \<noteq> r" and v: "0 \<le> v" "on_grid v"
  shows "if v = 0 \<or> owes db s r e + v < 10 ^ 12
    then \<exists>db' held. increase_forward s r v e db = Inr (db', held) \<and> sets_debt s r e (owes db s r e + v) db db'
      \<and> (v = 0 \<longrightarrow> db' = db \<and> held = [])
    else \<exists>stmt. increase_forward s r v e db = Inl (numeric_overflow stmt)"
proof (cases "0 < v")
  case False
  then show ?thesis using wf v(1) by (auto simp: increase_forward_def intro: sets_debt_refl)
next
  case True
  show ?thesis
  proof (cases "get_debt s r e db")
    case None
    then show ?thesis
      using True insert_debt_exact [OF \<open>s \<noteq> r\<close> v(2) True None] sets_debt_insert [OF wf v(2)]
      by (auto simp: increase_forward_def owes_def)
  next
    case (Some d)
    then have d: "0 < debt_amount d" "column_value (debt_amount d)" using wf by (auto simp: get_debt_iff dest: debts_wfD)
    let ?new = "debt_amount d + v"
    have new: "0 < ?new" "on_grid ?new" using d column_valueD(1) v True by auto
    have up: "update_debt d ?new db = (if ?new < 10 ^ 12 then Inr (settled d ?new db) else Inl (numeric_overflow ''UPDATE DEBTS''))"
      using new by (simp add: update_debt_def store_debt_amount_exact settled_def)
    show ?thesis
    proof (cases "?new < 10 ^ 12")
      case True
      then have "column_value ?new" using new by (simp add: column_value_def)
      then show ?thesis using Some True \<open>0 < v\<close> sets_debt_settled [OF wf Some, of ?new] new
        by (auto simp: increase_forward_def owes_def up)
    next
      case False
      then show ?thesis using Some \<open>0 < v\<close> by (auto simp: increase_forward_def owes_def up)
    qed
  qed
qed

lemma net_mutual_sets:
  fixes e :: uuid
  assumes wf: "debts_wf db" and "s \<noteq> r" and held: "held_current held db"
  defines "n \<equiv> min (owes db s r e) (owes db r s e)"
  shows "\<exists>db1 db2. net_mutual held s r e db = Inr db2 \<and> sets_debt s r e (owes db s r e - n) db db1
    \<and> sets_debt r s e (owes db r s e - n) db1 db2"
proof (cases "get_debt s r e db = None \<or> get_debt r s e db = None")
  case True
  have "owes db s r e = 0 \<or> owes db r s e = 0" using True by (auto simp: owes_def)
  then have "n = 0"
    using owes_nonneg [OF wf, of s r e] owes_nonneg [OF wf, of r s e] by (auto simp: n_def)
  then show ?thesis
    using True wf
    by (auto simp: net_mutual_def session_debt_current [OF wf held] intro!: exI [of _ db] sets_debt_refl split: option.splits)
next
  case False
  then obtain f b where fb: "get_debt s r e db = Some f" "get_debt r s e db = Some b" by auto
  have pos: "0 < debt_amount f" "0 < debt_amount b" and col: "column_value (debt_amount f)" "column_value (debt_amount b)"
    using fb wf by (auto simp: get_debt_iff dest: debts_wfD)
  have n: "n = min (debt_amount f) (debt_amount b)" using fb by (simp add: n_def owes_def)
  have grid: "on_grid (debt_amount f - n)" "on_grid (debt_amount b - n)" using col column_valueD(1) by (auto simp: n)
  have rest: "0 \<le> debt_amount f - n" "column_value (debt_amount f - n)" "0 \<le> debt_amount b - n" "column_value (debt_amount b - n)"
    using column_value_between [OF grid(1) _ _ col(1)] column_value_between [OF grid(2) _ _ col(2)] pos by (auto simp: n)
  let ?db1 = "settled f (debt_amount f - n) db"
  have s1: "sets_debt s r e (debt_amount f - n) db ?db1" by (rule sets_debt_settled [OF wf fb(1) rest(1,2)])
  then have wf1: "debts_wf ?db1" by (simp add: sets_debt_def)
  have "debt_id b \<noteq> debt_id f"
    using fb wf \<open>s \<noteq> r\<close> by (auto simp: get_debt_iff debts_wf_def debt_key_def dest: distinct_map_unique)
  then have "b \<in> set (debts ?db1) \<and> debt_key b = (r, s, e)"
    using fb wf by (force simp: set_settled get_debt_iff)
  then have b1: "get_debt r s e ?db1 = Some b" using wf1 by (simp add: get_debt_iff)
  have "net_mutual held s r e db = Inr (settled b (debt_amount b - n) ?db1)"
    using fb pos settle_debt_exact [OF rest(2,1)] settle_debt_exact [OF rest(4,3)]
    by (simp add: net_mutual_def session_debt_current [OF wf held] Let_def n)
  then show ?thesis using s1 sets_debt_settled [OF wf1 b1 rest(3,4)] fb by (auto simp: owes_def)
qed

text \<open>
  The abstract effect of a flow on the signed balance of a pair: after it, one direction holds
  the positive part and the other the negative part.
\<close>

definition flow_effect :: "uuid \<Rightarrow> uuid \<Rightarrow> amount \<Rightarrow> uuid \<Rightarrow> db \<Rightarrow> db \<Rightarrow> bool" where
  "flow_effect s r v e db db' \<longleftrightarrow> debts_wf db' \<and> debts_only db db'
     \<and> owes db' s r e = max 0 (owes db s r e - owes db r s e + v)
     \<and> owes db' r s e = max 0 (owes db r s e - owes db s r e - v)
     \<and> (\<forall>x y e'. (x, y, e') \<notin> {(s, r, e), (r, s, e)} \<longrightarrow> owes db' x y e' = owes db x y e')
     \<and> (\<forall>p e'. calculate_net_position p e' db' = calculate_net_position p e' db
          + (if e' = e then (if p = r then v else 0) - (if p = s then v else 0) else 0))"

lemma flow_effect_other:
  "flow_effect s r v e db db' \<Longrightarrow> (x, y, e') \<notin> {(s, r, e), (r, s, e)} \<Longrightarrow> owes db' x y e' = owes db x y e'"
  unfolding flow_effect_def by auto

text \<open>
  A part of the debt that is paid back leaves the forward debt alone; only an amount above the
  receiver's debt is written to it, and then no receiver's debt is left to be netted.
\<close>

lemma apply_flow_back:
  assumes wf: "debts_wf db" and "s \<noteq> r" and v: "0 < v" "on_grid v" and le: "v \<le> owes db r s e"
  shows "\<exists>db'. apply_flow s r v e db = Inr db' \<and> flow_effect s r v e db db'"
proof -
  let ?f = "owes db s r e" and ?b = "owes db r s e"
  have pos: "0 \<le> ?f" "0 \<le> ?b" using owes_nonneg [OF wf] by auto
  obtain db1 held where r1: "reduce_reverse s r v e db = Inr (db1, 0, held)"
    and s1: "sets_debt r s e (?b - v) db db1" and held: "held_current held db1"
    using reduce_reverse_sets [OF wf v, of s r e] le by (auto simp: min_def split: if_splits)
  have wf1: "debts_wf db1" using s1 by (simp add: sets_debt_def)
  have o1: "owes db1 s r e = ?f" "owes db1 r s e = ?b - v" using s1 \<open>s \<noteq> r\<close> by (simp_all add: sets_debt_def)
  define n where "n = min ?f (?b - v)"
  obtain db2 db3 where r3: "net_mutual held s r e db1 = Inr db3"
    and s2: "sets_debt s r e (?f - n) db1 db2" and s3: "sets_debt r s e (?b - v - n) db2 db3"
    using net_mutual_sets [OF wf1 \<open>s \<noteq> r\<close> held, of e] o1 n_def by auto
  have run: "apply_flow s r v e db = Inr db3" using r1 r3 by (simp add: apply_flow_def increase_forward_def)
  have "?f - n = max 0 (?f - ?b + v)" "?b - v - n = max 0 (?b - ?f - v)"
    unfolding n_def using pos le by (auto simp: min_def max_def)
  moreover have "debts_only db db3" using s1 s2 s3 unfolding sets_debt_def by (meson debts_only_trans)
  ultimately have "flow_effect s r v e db db3"
    using s1 s2 s3 o1 \<open>s \<noteq> r\<close> unfolding flow_effect_def sets_debt_def by auto
  with run show ?thesis by blast
qed

lemma apply_flow_forward:
  assumes wf: "debts_wf db" and "s \<noteq> r" and v: "0 < v" "on_grid v" and gt: "owes db r s e < v"
  shows "if owes db s r e - owes db r s e + v < 10 ^ 12
    then \<exists>db'. apply_flow s r v e db = Inr db' \<and> flow_effect s r v e db db'
    else \<exists>stmt. apply_flow s r v e db = Inl (numeric_overflow stmt)"
proof -
  let ?f = "owes db s r e" and ?b = "owes db r s e"
  have pos: "0 \<le> ?f" "0 \<le> ?b" using owes_nonneg [OF wf] by auto
  obtain db1 held where r1: "reduce_reverse s r v e db = Inr (db1, v - ?b, held)" and s1: "sets_debt r s e 0 db db1"
    using reduce_reverse_sets [OF wf v, of s r e] gt by (auto simp: min_def split: if_splits)
  have wf1: "debts_wf db1" using s1 by (simp add: sets_debt_def)
  have o1: "owes db1 s r e = ?f" "owes db1 r s e = 0" using s1 \<open>s \<noteq> r\<close> by (simp_all add: sets_debt_def)
  have rem: "0 \<le> v - ?b" "on_grid (v - ?b)" "v - ?b \<noteq> 0" using gt v(2) owes_grid [OF wf] by auto
  have bound: "?f + (v - ?b) = ?f - ?b + v" by simp
  note fwd = increase_forward_sets [OF wf1 \<open>s \<noteq> r\<close> rem(1,2), of e, unfolded o1 bound]
  show ?thesis
  proof (cases "?f - ?b + v < 10 ^ 12")
    case True
    then obtain db2 held2 where r2: "increase_forward s r (v - ?b) e db1 = Inr (db2, held2)"
      and s2: "sets_debt s r e (?f - ?b + v) db1 db2" using fwd by auto
    have "owes db2 r s e = 0" using s2 o1(2) \<open>s \<noteq> r\<close> by (simp add: sets_debt_def)
    moreover have "debts_wf db2" using s2 by (simp add: sets_debt_def)
    ultimately have "get_debt r s e db2 = None"
      by (auto simp: owes_def get_debt_iff dest: debts_wfD(1) split: option.splits)
    then have "apply_flow s r v e db = Inr db2"
      using r1 r2 by (simp add: apply_flow_def net_mutual_def session_debt_def split: option.split)
    moreover have "debts_only db db2" using s1 s2 unfolding sets_debt_def by (meson debts_only_trans)
    then have "flow_effect s r v e db db2"
      using s1 s2 o1 \<open>s \<noteq> r\<close> gt pos unfolding flow_effect_def sets_debt_def by (auto simp: max_def)
    ultimately show ?thesis using True by auto
  next
    case False
    then show ?thesis using fwd r1 rem(3) by (auto simp: apply_flow_def)
  qed
qed

lemma apply_flow_effect:
  assumes wf: "debts_wf db" and "s \<noteq> r" and v: "0 < v" "on_grid v"
  shows "if owes db s r e - owes db r s e + v < 10 ^ 12
    then \<exists>db'. apply_flow s r v e db = Inr db' \<and> flow_effect s r v e db db'
    else \<exists>stmt. apply_flow s r v e db = Inl (numeric_overflow stmt)"
proof (cases "v \<le> owes db r s e")
  case True
  moreover have "owes db s r e < 10 ^ 12" by (rule owes_bound [OF wf])
  ultimately have "owes db s r e - owes db r s e + v < 10 ^ 12" by linarith
  then show ?thesis using apply_flow_back [OF assms True] by simp
next
  case False
  then show ?thesis using apply_flow_forward [OF assms] by simp
qed

lemma apply_flow_self:
  assumes wf: "debts_wf db" and v: "0 < v"
  shows "\<exists>x. apply_flow s s v e db = Inl (DBAPIError x)"
proof -
  have "get_debt s s e db = None"
    using wf by (auto simp: get_debt_None_iff debt_key_def dest: debts_wfD(2))
  then show ?thesis using v
    by (simp add: apply_flow_def reduce_reverse_def increase_forward_def insert_debt_def constraint_error_def
        store_debt_amount_def store_numeric_def numeric_overflow_def)
qed

section \<open>A list of flows\<close>

definition flow_ok :: "flow \<Rightarrow> bool" where
  "flow_ok f \<longleftrightarrow> fl_from f \<noteq> fl_to f \<and> 0 < fl_amount f"

text \<open>A flow whose amount the column stores unchanged: at most eight decimals.\<close>

definition exact_flow :: "flow \<Rightarrow> bool" where
  "exact_flow f \<longleftrightarrow> flow_ok f \<and> on_grid (fl_amount f)"

definition flow_step :: "flow \<Rightarrow> db \<Rightarrow> exc + db" where
  "flow_step f = apply_flow (fl_from f) (fl_to f) (fl_amount f) (fl_equivalent f)"

definition net_delta :: "flow \<Rightarrow> uuid \<times> uuid \<Rightarrow> amount" where
  "net_delta f k = (case k of (p, e) \<Rightarrow> if e = fl_equivalent f
     then (if p = fl_to f then fl_amount f else 0) - (if p = fl_from f then fl_amount f else 0) else 0)"

definition pair_balance :: "uuid \<times> uuid \<times> uuid \<Rightarrow> db \<Rightarrow> amount" where
  "pair_balance k db = (case k of (x, y, e) \<Rightarrow> owes db x y e - owes db y x e)"

definition balance_delta :: "flow \<Rightarrow> uuid \<times> uuid \<times> uuid \<Rightarrow> amount" where
  "balance_delta f k = (if k = (fl_from f, fl_to f, fl_equivalent f) then fl_amount f
     else if k = (fl_to f, fl_from f, fl_equivalent f) then - fl_amount f else 0)"

lemma flow_step_cases:
  assumes "debts_wf db" and "exact_flow f"
  shows "if pair_balance (fl_from f, fl_to f, fl_equivalent f) db + fl_amount f < 10 ^ 12
    then \<exists>db'. flow_step f db = Inr db'
      \<and> flow_effect (fl_from f) (fl_to f) (fl_amount f) (fl_equivalent f) db db'
    else \<exists>stmt. flow_step f db = Inl (numeric_overflow stmt)"
  using apply_flow_effect [OF assms(1), of "fl_from f" "fl_to f" "fl_amount f" "fl_equivalent f"] assms(2)
  by (simp add: exact_flow_def flow_ok_def flow_step_def pair_balance_def)

lemma flow_step_effect:
  assumes "debts_wf db" and "exact_flow f" and "flow_step f db = Inr db'"
  shows "flow_effect (fl_from f) (fl_to f) (fl_amount f) (fl_equivalent f) db db'"
  using flow_step_cases [OF assms(1,2)] assms(3) by (auto split: if_splits)

lemma exact_flow_ok: "exact_flow f \<Longrightarrow> flow_ok f"
  by (simp add: exact_flow_def)

lemma exact_flows_ok: "list_all exact_flow fs \<Longrightarrow> list_all flow_ok fs"
  by (simp add: list_all_iff exact_flow_def)

lemma flow_effect_balance:
  assumes "flow_effect s r v e db db'" and "s \<noteq> r"
  shows "pair_balance k db' = pair_balance k db
    + (if k = (s, r, e) then v else if k = (r, s, e) then - v else 0)"
proof (cases "k = (s, r, e) \<or> k = (r, s, e)")
  case True
  then show ?thesis using assms by (auto simp: flow_effect_def pair_balance_def max_def)
next
  case False
  obtain x y e' where k: "k = (x, y, e')" by (cases k)
  then have "(x, y, e') \<notin> {(s, r, e), (r, s, e)}" "(y, x, e') \<notin> {(s, r, e), (r, s, e)}"
    using False by auto
  then have "owes db' x y e' = owes db x y e'" "owes db' y x e' = owes db y x e'"
    by (auto intro!: flow_effect_other [OF assms(1)] simp del: insert_iff)
  then show ?thesis using k False by (auto simp: pair_balance_def)
qed

text \<open>Whatever its amount, a flow leaves every table but the debts alone.\<close>

definition other_tables :: "db \<Rightarrow> transaction list \<times> participant list \<times> equivalent list \<times> trust_line list" where
  "other_tables db = (transactions db, participants db, equivalents db, trust_lines db)"

lemma settle_debt_tables: "settle_debt d v db = Inr db' \<Longrightarrow> other_tables db' = other_tables db"
  by (erule settle_debt_Inr) (simp add: other_tables_def)

lemma update_debt_tables: "update_debt d v db = Inr db' \<Longrightarrow> other_tables db' = other_tables db"
  by (auto simp: update_debt_def write_amount_def other_tables_def split: sum.splits)

lemma insert_debt_tables: "insert_debt x y e v db = Inr db' \<Longrightarrow> other_tables db' = other_tables db"
  by (auto simp: other_tables_def insert_debt_Inr_iff)

lemma apply_flow_tables:
  assumes "apply_flow x y v e db = Inr db'"
  shows "other_tables db' = other_tables db"
proof -
  obtain db1 rest held1 db2 held2 where one: "reduce_reverse x y v e db = Inr (db1, rest, held1)"
    and two: "increase_forward x y rest e db1 = Inr (db2, held2)"
    and three: "net_mutual (held1 @ held2) x y e db2 = Inr db'"
    using assms by (auto simp: apply_flow_def split: prod.splits sum.splits)
  have "other_tables db1 = other_tables db"
    using one by (auto simp: reduce_reverse_def Let_def dest: settle_debt_tables split: option.splits sum.splits if_splits)
  moreover have "other_tables db2 = other_tables db1"
    using two by (auto simp: increase_forward_def dest: insert_debt_tables update_debt_tables
        split: option.splits sum.splits if_splits)
  moreover have "other_tables db' = other_tables db2"
    using three by (auto simp: net_mutual_def Let_def dest!: settle_debt_tables split: option.splits sum.splits if_splits)
  ultimately show ?thesis by simp
qed

lemma flow_step_frame:
  assumes "flow_step f db = Inr db'"
  shows "transactions db' = transactions db" and "participants db' = participants db" and "equivalents db' = equivalents db"
    and "trust_lines db' = trust_lines db"
  using apply_flow_tables [of "fl_from f" "fl_to f" "fl_amount f" "fl_equivalent f" db db'] assms
  by (simp_all add: flow_step_def other_tables_def)

lemma flows_frame:
  assumes "fold_res flow_step fs db = Inr db'"
  shows "transactions db' = transactions db"
  using assms by (induction fs arbitrary: db) (auto dest: flow_step_frame(1) split: sum.splits)

interpretation net_run: additive_run debts_wf exact_flow flow_step
  "\<lambda>(p, e) db. calculate_net_position p e db" net_delta
proof unfold_locales
  fix s f s' k
  assume "debts_wf s" "exact_flow f" "flow_step f s = Inr s'"
  from flow_step_effect [OF this]
  show "debts_wf s'" and "(case k of (p, e) \<Rightarrow> \<lambda>db. calculate_net_position p e db) s'
      = (case k of (p, e) \<Rightarrow> \<lambda>db. calculate_net_position p e db) s + net_delta f k"
    by (auto simp: flow_effect_def net_delta_def split: prod.split)
qed

interpretation balance_run: additive_run debts_wf exact_flow flow_step pair_balance balance_delta
proof unfold_locales
  fix s f s' k
  assume "debts_wf s" "exact_flow f" "flow_step f s = Inr s'"
  then show "pair_balance k s' = pair_balance k s + balance_delta f k"
    using flow_effect_balance [OF flow_step_effect] by (simp add: balance_delta_def exact_flow_def flow_ok_def)
qed (rule net_run.step_inv)

definition symmetric_pair :: "uuid \<Rightarrow> uuid \<Rightarrow> uuid \<Rightarrow> db \<Rightarrow> bool" where
  "symmetric_pair x y e db \<longleftrightarrow> \<not> (0 < owes db x y e \<and> 0 < owes db y x e)"

lemma symmetric_pair_step:
  assumes "debts_wf db" "exact_flow f" "flow_step f db = Inr db'"
  shows "symmetric_pair (fl_from f) (fl_to f) (fl_equivalent f) db'"
    and "symmetric_pair x y e db \<Longrightarrow> symmetric_pair x y e db'"
proof -
  note eff = flow_step_effect [OF assms]
  show own: "symmetric_pair (fl_from f) (fl_to f) (fl_equivalent f) db'"
    using eff by (auto simp: flow_effect_def symmetric_pair_def max_def split: if_splits)
  assume sym: "symmetric_pair x y e db"
  show "symmetric_pair x y e db'"
  proof (cases "(x, y, e) \<in> {(fl_from f, fl_to f, fl_equivalent f), (fl_to f, fl_from f, fl_equivalent f)}")
    case True
    then show ?thesis using own by (auto simp: symmetric_pair_def)
  next
    case False
    then have "(y, x, e) \<notin> {(fl_from f, fl_to f, fl_equivalent f), (fl_to f, fl_from f, fl_equivalent f)}"
      by auto
    with False have "owes db' x y e = owes db x y e" "owes db' y x e = owes db y x e"
      by (auto intro!: flow_effect_other [OF eff] simp del: insert_iff)
    then show ?thesis using sym by (simp add: symmetric_pair_def)
  qed
qed

lemma flows_symmetric:
  assumes "debts_wf db" and "list_all exact_flow flows" and "fold_res flow_step flows db = Inr db'"
  shows "symmetric_pair x y e db \<Longrightarrow> symmetric_pair x y e db'"
    and "f \<in> set flows \<Longrightarrow> symmetric_pair (fl_from f) (fl_to f) (fl_equivalent f) db'"
proof -
  have keep: "symmetric_pair x y e db \<Longrightarrow> symmetric_pair x y e db'"
    if "debts_wf db" "list_all exact_flow flows" "fold_res flow_step flows db = Inr db'"
    for flows db x y e
    using that
  proof (induction flows arbitrary: db)
    case (Cons g gs)
    then show ?case
      by (auto split: sum.splits dest: symmetric_pair_step(2) net_run.step_inv)
  qed simp
  show "symmetric_pair x y e db \<Longrightarrow> symmetric_pair x y e db'" by (rule keep [OF assms])
  show "f \<in> set flows \<Longrightarrow> symmetric_pair (fl_from f) (fl_to f) (fl_equivalent f) db'"
    using assms
  proof (induction flows arbitrary: db)
    case (Cons g gs)
    then obtain db1 where g: "flow_step g db = Inr db1" and gs: "fold_res flow_step gs db1 = Inr db'"
      by (auto split: sum.splits)
    have wf1: "debts_wf db1" and ok: "exact_flow g" "list_all exact_flow gs"
      using Cons.prems g net_run.step_inv by auto
    show ?case
    proof (cases "f = g")
      case True
      have "symmetric_pair (fl_from g) (fl_to g) (fl_equivalent g) db1"
        using symmetric_pair_step(1) Cons.prems(2) ok(1) g by blast
      then show ?thesis using True keep [OF wf1 ok(2) gs] by simp
    next
      case False
      then show ?thesis using Cons.IH [OF _ wf1 ok(2) gs] Cons.prems(1) by simp
    qed
  qed simp
qed

lemma flows_debts_only:
  assumes "debts_wf db" and "list_all exact_flow flows" and "fold_res flow_step flows db = Inr db'"
  shows "debts_only db db'"
  using assms
proof (induction flows arbitrary: db)
  case (Cons f fs)
  then obtain db1 where f: "flow_step f db = Inr db1" and fs: "fold_res flow_step fs db1 = Inr db'"
    by (auto split: sum.splits)
  have "debts_only db db1"
    using flow_step_effect [OF _ _ f] Cons.prems by (simp add: flow_effect_def)
  also have "debts_only db1 db'"
    using Cons.IH [OF _ _ fs] net_run.step_inv [OF _ _ f] Cons.prems by simp
  finally show ?case .
qed simp

section \<open>The checks after the flows\<close>

lemma apply_flow_retry_eq:
  "apply_flow_retry stale s r v e db =
     (if stale 0 \<and> stale 1 \<and> stale 2 then Inl StaleDataError else apply_flow s r v e db)"
  by (simp add: apply_flow_retry_def numeral_3_eq_3 numeral_2_eq_2)

lemma fold_res_enumerate:
  assumes "fold_res (\<lambda>(i, f) t. if P i then Inl x else g f t) (enumerate n fs) s = Inr s'"
  shows "fold_res g fs s = Inr s'"
  using assms by (induction fs arbitrary: n s) (auto split: if_splits sum.splits)

lemma fold_res_enumerate_ok:
  "(\<And>i. \<not> P i) \<Longrightarrow> fold_res (\<lambda>(i, f) t. if P i then Inl x else g f t) (enumerate n fs) s = fold_res g fs s"
  by (induction fs arbitrary: n s) (auto split: sum.splits)

lemma apply_flows_eq:
  "apply_flows stale flows db = fold_res (\<lambda>(i, f) t.
     if stale i 0 \<and> stale i 1 \<and> stale i 2 then Inl StaleDataError else flow_step f t) (enumerate 0 flows) db"
  unfolding apply_flows_def
  by (rule arg_cong [where f = "\<lambda>h. fold_res h (enumerate 0 flows) db"])
    (auto simp: apply_flow_retry_eq flow_step_def fun_eq_iff)

lemma apply_flows_Inr:
  "apply_flows stale flows db = Inr db' \<Longrightarrow> fold_res flow_step flows db = Inr db'"
  unfolding apply_flows_eq by (rule fold_res_enumerate)

lemma apply_flows_no_stale:
  "(\<And>i. \<not> (stale i 0 \<and> stale i 1 \<and> stale i 2)) \<Longrightarrow>
   apply_flows stale flows db = fold_res flow_step flows db"
  unfolding apply_flows_eq by (rule fold_res_enumerate_ok)

lemma expected_delta_eq:
  "(\<And>f. f \<in> set flows \<Longrightarrow> fl_equivalent f = e) \<Longrightarrow>
   expected_delta flows m p = m p + sum_list (map (\<lambda>f. net_delta f (p, e)) flows)"
  by (induction flows arbitrary: m) (auto simp: net_delta_def)

lemma sum_list_net_delta_flows_of:
  "sum_list (map (\<lambda>f. net_delta f (p, e)) (flows_of e flows))
    = sum_list (map (\<lambda>f. net_delta f (p, e)) flows)"
  by (induction flows) (auto simp: flows_of_def net_delta_def)

lemma map_of_snapshot:
  "lookup0 (snapshot_net_positions e ps db) p = (if p \<in> set ps then calculate_net_position p e db else 0)"
  by (auto simp: lookup0_def snapshot_net_positions_def calculate_net_position_def
      map_of_map_restrict restrict_map_def)

lemma payment_delta_passes:
  assumes "debts_wf db" and "list_all exact_flow flows" and "fold_res flow_step flows db = Inr db'"
  shows "check_payment_delta e (flows_of e flows)
    (snapshot_net_positions e (flow_participants (flows_of e flows)) db) db' = Inr ()"
proof -
  let ?fs = "flows_of e flows"
  have "expected_delta ?fs (\<lambda>_. 0) p = calculate_net_position p e db' - calculate_net_position p e db" for p
    using expected_delta_eq [of ?fs e "\<lambda>_. 0" p] sum_list_net_delta_flows_of [of p e flows]
      net_run.run_effect [OF assms, of "(p, e)"] by (simp add: flows_of_def)
  then show ?thesis
    by (simp add: check_payment_delta_def Let_def map_of_snapshot filter_empty_conv)
qed

lemma symmetry_check_pairs:
  assumes wf: "debts_wf db" and "pairs \<noteq> []"
    and sym: "\<And>x y. (x, y) \<in> set pairs \<Longrightarrow> symmetric_pair x y e db"
  shows "check_debt_symmetry (Some e) (Some pairs) db = Inr ()"
proof -
  have no: "\<not> (debtor_id d1 = creditor_id d2 \<and> creditor_id d1 = debtor_id d2 \<and> debt_equivalent d2 = e)"
    if "d1 \<in> set (debts db)" "d2 \<in> set (debts db)" "debt_equivalent d1 = e"
      "(debtor_id d1, creditor_id d1) \<in> set pairs \<or> (creditor_id d1, debtor_id d1) \<in> set pairs" for d1 d2
  proof
    assume swap: "debtor_id d1 = creditor_id d2 \<and> creditor_id d1 = debtor_id d2 \<and> debt_equivalent d2 = e"
    then have "0 < owes db (debtor_id d1) (creditor_id d1) e" "0 < owes db (creditor_id d1) (debtor_id d1) e"
      using owes_row [OF wf that(1)] owes_row [OF wf that(2)] debts_wfD(1) [OF wf] that by auto
    moreover have "symmetric_pair (debtor_id d1) (creditor_id d1) e db \<or> symmetric_pair (creditor_id d1) (debtor_id d1) e db"
      using that(4) sym by blast
    ultimately show False by (auto simp: symmetric_pair_def)
  qed
  have "filter (\<lambda>d2. debtor_id d1 = creditor_id d2 \<and> creditor_id d1 = debtor_id d2
      \<and> debt_equivalent d1 = debt_equivalent d2 \<and> debt_amount d2 > 0) (debts db) = []"
    if "d1 \<in> set (debts db)" "debt_equivalent d1 = e"
      "(debtor_id d1, creditor_id d1) \<in> set pairs \<or> (creditor_id d1, debtor_id d1) \<in> set pairs" for d1
  proof (rule filter_False, rule ballI)
    fix d2 assume d2: "d2 \<in> set (debts db)"
    show "\<not> (debtor_id d1 = creditor_id d2 \<and> creditor_id d1 = debtor_id d2
        \<and> debt_equivalent d1 = debt_equivalent d2 \<and> debt_amount d2 > 0)"
      using no [OF that(1) d2 that(2,3)] that(2) by auto
  qed
  then show ?thesis
    using \<open>pairs \<noteq> []\<close>
    by (simp add: check_debt_symmetry_def symmetry_violations_def pair_selected_def)
qed

definition within_limit :: "db \<Rightarrow> uuid \<Rightarrow> uuid \<Rightarrow> uuid \<Rightarrow> bool" where
  "within_limit db x y e \<longleftrightarrow> owes db x y e \<le> active_limit y x e db"

lemma active_limit_nonneg: "trust_lines_wf db \<Longrightarrow> 0 \<le> active_limit x y e db"
  by (auto simp: active_limit_def get_active_line_iff trust_lines_wf_def split: option.splits)

lemma trust_limits_pairs:
  assumes wf: "debts_wf db" and tl: "trust_lines_wf db" and "pairs \<noteq> []"
  shows "check_trust_limits (Some e) (Some pairs) db =
    (if \<forall>(x, y) \<in> set pairs. within_limit db x y e then Inr ()
     else Inl (IntegrityViolation TRUST_LIMIT_VIOLATION))"
proof -
  have "trust_limit_violations (Some e) (Some pairs) db = [] \<longleftrightarrow>
    (\<forall>d \<in> set (debts db). debt_equivalent d = e \<and> (debtor_id d, creditor_id d) \<in> set pairs
      \<longrightarrow> debt_amount d \<le> active_limit (creditor_id d) (debtor_id d) e db)"
    using set_joined_limits [OF tl] \<open>pairs \<noteq> []\<close>
    by (auto simp: trust_limit_violations_def pair_selected_def filter_empty_conv not_less)
  also have "\<dots> \<longleftrightarrow> (\<forall>(x, y) \<in> set pairs. within_limit db x y e)"
  proof safe
    fix x y assume all: "\<forall>d \<in> set (debts db). debt_equivalent d = e \<and> (debtor_id d, creditor_id d) \<in> set pairs
      \<longrightarrow> debt_amount d \<le> active_limit (creditor_id d) (debtor_id d) e db" and "(x, y) \<in> set pairs"
    then show "within_limit db x y e"
      using active_limit_nonneg [OF tl] wf
      by (auto simp: within_limit_def owes_def get_debt_iff debt_key_def split: option.splits)
  next
    fix d assume "\<forall>(x, y) \<in> set pairs. within_limit db x y (debt_equivalent d)" "d \<in> set (debts db)"
      "(debtor_id d, creditor_id d) \<in> set pairs"
    then show "debt_amount d \<le> active_limit (creditor_id d) (debtor_id d) (debt_equivalent d) db"
      using owes_row [OF wf, of d] by (auto simp: within_limit_def)
  qed
  finally show ?thesis by (simp add: check_trust_limits_def)
qed

lemma check_equivalent_eq:
  assumes wf: "debts_wf db" and tl: "trust_lines_wf db" and ok: "list_all exact_flow flows"
    and run: "fold_res flow_step flows db = Inr db'" and e: "e \<in> fl_equivalent ` set flows"
  shows "check_equivalent flows db db' e =
    (if \<forall>f \<in> set (flows_of e flows). within_limit db' (fl_from f) (fl_to f) e \<and> within_limit db' (fl_to f) (fl_from f) e
     then Inr () else Inl (IntegrityViolation TRUST_LIMIT_VIOLATION))"
proof -
  let ?pairs = "affected_pairs (flows_of e flows)"
  have ne: "?pairs \<noteq> []" using e by (auto simp: affected_pairs_def flows_of_def filter_empty_conv)
  have wf': "debts_wf db'" using net_run.run_effect [OF wf ok run] by blast
  have tl': "trust_lines_wf db'" using flows_debts_only [OF wf ok run] tl by (rule trust_lines_wf_debts_only)
  have sym: "symmetric_pair x y e db'" if "(x, y) \<in> set ?pairs" for x y
    using that flows_symmetric(2) [OF wf ok run]
    by (auto simp: affected_pairs_def flows_of_def symmetric_pair_def)
  have "(\<forall>(x, y) \<in> set ?pairs. within_limit db' x y e) \<longleftrightarrow> (\<forall>f \<in> set (flows_of e flows).
      within_limit db' (fl_from f) (fl_to f) e \<and> within_limit db' (fl_to f) (fl_from f) e)"
    by (auto simp: affected_pairs_def)
  then show ?thesis
    using trust_limits_pairs [OF wf' tl' ne, of e] symmetry_check_pairs [OF wf' ne sym]
      payment_delta_passes [OF wf ok run, of e]
    by (simp add: check_equivalent_def Let_def check_zero_sum_def compute_imbalance_zero)
qed

lemma fold_res_unit:
  "fold_res (\<lambda>x _. if P x then Inr () else Inl y) xs () = (if \<forall>x \<in> set xs. P x then Inr () else Inl y)"
  by (induction xs) auto

lemma fold_res_cong: "(\<And>x s. x \<in> set xs \<Longrightarrow> f x s = g x s) \<Longrightarrow> fold_res f xs s = fold_res g xs s"
  by (induction xs arbitrary: s) (auto split: sum.splits)

definition flow_within_limits :: "db \<Rightarrow> flow \<Rightarrow> bool" where
  "flow_within_limits db f \<longleftrightarrow> within_limit db (fl_from f) (fl_to f) (fl_equivalent f)
     \<and> within_limit db (fl_to f) (fl_from f) (fl_equivalent f)"

lemma check_flows_eq:
  assumes wf: "debts_wf db" and tl: "trust_lines_wf db" and ok: "list_all exact_flow flows"
    and run: "fold_res flow_step flows db = Inr db'"
  shows "check_flows flows db db' = (if \<forall>f \<in> set flows. flow_within_limits db' f then Inr ()
     else Inl (IntegrityViolation TRUST_LIMIT_VIOLATION))"
proof -
  let ?P = "\<lambda>e. \<forall>f \<in> set (flows_of e flows).
    within_limit db' (fl_from f) (fl_to f) e \<and> within_limit db' (fl_to f) (fl_from f) e"
  have "check_flows flows db db' = fold_res (\<lambda>e _. if ?P e then Inr ()
      else Inl (IntegrityViolation TRUST_LIMIT_VIOLATION)) (affected_equivalents flows) ()"
    unfolding check_flows_def
    by (rule fold_res_cong) (auto simp: check_equivalent_eq [OF wf tl ok run] affected_equivalents_def)
  also have "\<dots> = (if \<forall>e \<in> set (affected_equivalents flows). ?P e then Inr ()
      else Inl (IntegrityViolation TRUST_LIMIT_VIOLATION))"
    by (rule fold_res_unit)
  also have "(\<forall>e \<in> set (affected_equivalents flows). ?P e) \<longleftrightarrow> (\<forall>f \<in> set flows. flow_within_limits db' f)"
    by (auto simp: affected_equivalents_def flows_of_def flow_within_limits_def)
  finally show ?thesis .
qed

end
