(* ===== verification/Reservations.thy ===== *)
theory Reservations
  imports Flow_Application
begin

text \<open>
  The capacity that prepared transactions reserve: what the persisted locks parse to, the
  amount reserved per directed segment by the locks that are still live, and the invariant
  that no segment is promised beyond its capacity. The lemmas show that the scan of
  \<^verbatim>\<open>_get_segment_capacity_and_reserved_usage\<close> computes exactly that amount.
\<close>

section \<open>The flows of a lock\<close>

definition flows_of_lock :: "prepare_lock \<Rightarrow> flow list" where
  "flows_of_lock l = (case parse_lock l of Inl _ \<Rightarrow> [] | Inr v \<Rightarrow> vl_flows v)"

definition lock_wf :: "prepare_lock \<Rightarrow> bool" where
  "lock_wf l \<longleftrightarrow> (case parse_lock l of Inl _ \<Rightarrow> False
     | Inr v \<Rightarrow> list_all (\<lambda>f. flow_ok f \<and> fl_from f = lock_participant l) (vl_flows v))"

definition locks_wf :: "db \<Rightarrow> bool" where
  "locks_wf db \<longleftrightarrow> list_all lock_wf (prepare_locks db) \<and> distinct (map lock_id (prepare_locks db))
     \<and> list_all (\<lambda>l. lock_id l < next_uuid db) (prepare_locks db)"

definition seg_sum :: "uuid \<Rightarrow> uuid \<Rightarrow> uuid \<Rightarrow> flow list \<Rightarrow> amount" where
  "seg_sum s r e = sql_sum (\<lambda>f. fl_from f = s \<and> fl_to f = r \<and> fl_equivalent f = e) fl_amount"

definition live_locks :: "db \<Rightarrow> prepare_lock list" where
  "live_locks db = filter (\<lambda>l. lock_expires_at l > db_now db) (prepare_locks db)"

definition reserved :: "db \<Rightarrow> uuid \<Rightarrow> uuid \<Rightarrow> uuid \<Rightarrow> amount" where
  "reserved db s r e = sum_list (map (\<lambda>l. seg_sum s r e (flows_of_lock l)) (live_locks db))"

definition reservations_ok :: "db \<Rightarrow> bool" where
  "reservations_ok db \<longleftrightarrow> (\<forall>s r e. reserved db s r e \<le> segment_capacity s r e db)"

lemma seg_sum_simps [simp]:
  "seg_sum s r e [] = 0"
  "seg_sum s r e (f # fs) = (if fl_from f = s \<and> fl_to f = r \<and> fl_equivalent f = e then fl_amount f else 0)
     + seg_sum s r e fs"
  "seg_sum s r e (fs @ gs) = seg_sum s r e fs + seg_sum s r e gs"
  by (simp_all add: seg_sum_def)

lemma seg_sum_nonneg: "list_all flow_ok fs \<Longrightarrow> 0 \<le> seg_sum s r e fs"
  unfolding seg_sum_def by (rule sql_sum_nonneg) (auto simp: list_all_iff flow_ok_def order.strict_implies_order)

lemma seg_sum_concat: "seg_sum s r e (concat fss) = sum_list (map (seg_sum s r e) fss)"
  by (induction fss) auto

lemma seg_sum_other: "list_all (\<lambda>f. flow_ok f \<and> fl_from f = p) fs \<Longrightarrow> p \<noteq> s \<Longrightarrow> seg_sum s r e fs = 0"
  by (induction fs) auto

lemma lock_wf_flows: "lock_wf l \<Longrightarrow> list_all (\<lambda>f. flow_ok f \<and> fl_from f = lock_participant l) (flows_of_lock l)"
  by (auto simp: lock_wf_def flows_of_lock_def split: sum.splits)

lemma lock_wf_flows_ok: "lock_wf l \<Longrightarrow> list_all flow_ok (flows_of_lock l)"
  by (drule lock_wf_flows) (auto simp: list_all_iff)

lemma parse_lock_Inr:
  "parse_lock l = Inr v \<longleftrightarrow> (\<exists>raws fs. lock_effects l = Flows raws \<and> raws \<noteq> []
     \<and> list_all2 (\<lambda>x y. parse_flow x = Inr y) raws fs \<and> v = \<lparr>vl_lock = lock_id l, vl_flows = fs\<rparr>)"
  by (auto simp: parse_lock_def map_res_Inr_iff [symmetric] split: raw_effects.splits sum.splits)

lemma lock_wf_parse:
  assumes "lock_wf l"
  shows "parse_lock l = Inr \<lparr>vl_lock = lock_id l, vl_flows = flows_of_lock l\<rparr>"
    and "flows_of_lock l \<noteq> []"
    and "\<exists>raws. lock_effects l = Flows raws \<and> list_all2 (\<lambda>x y. parse_flow x = Inr y) raws (flows_of_lock l)"
proof -
  obtain v where v: "parse_lock l = Inr v" using assms by (auto simp: lock_wf_def split: sum.splits)
  then have fl: "flows_of_lock l = vl_flows v" by (simp add: flows_of_lock_def)
  obtain raws fs where "lock_effects l = Flows raws" "raws \<noteq> []"
    "list_all2 (\<lambda>x y. parse_flow x = Inr y) raws fs" "v = \<lparr>vl_lock = lock_id l, vl_flows = fs\<rparr>"
    using v unfolding parse_lock_Inr by blast
  then show "parse_lock l = Inr \<lparr>vl_lock = lock_id l, vl_flows = flows_of_lock l\<rparr>"
    and "flows_of_lock l \<noteq> []"
    and "\<exists>raws. lock_effects l = Flows raws \<and> list_all2 (\<lambda>x y. parse_flow x = Inr y) raws (flows_of_lock l)"
    using v fl by auto
qed

section \<open>The scan computes the reserved amount\<close>

lemma parse_flow_reservation:
  assumes "parse_flow x = Inr f"
  shows "flow_reservation s r e x =
    (if fl_from f = s \<and> fl_to f = r \<and> fl_equivalent f = e then Some (Fin (fl_amount f)) else None)"
  using assms
  by (auto simp: parse_flow_def flow_reservation_def split: raw_flow.splits option.splits pydec.splits if_splits)

lemma fold_reserve_flow:
  assumes "list_all2 (\<lambda>x y. parse_flow x = Inr y) raws fs"
  shows "fold_res (reserve_flow s r e) raws (Fin a) = Inr (Fin (a + seg_sum s r e fs))"
  using assms
  by (induction arbitrary: a rule: list_all2_induct)
    (auto simp: reserve_flow_def parse_flow_reservation add.assoc)

lemma fold_reserve_lock:
  assumes "list_all lock_wf ls" and "\<forall>l \<in> set ls. lock_tx l \<noteq> tx"
  shows "fold_res (reserve_lock tx s r e) ls (Fin a)
    = Inr (Fin (a + sum_list (map (\<lambda>l. seg_sum s r e (flows_of_lock l)) ls)))"
  using assms
proof (induction ls arbitrary: a)
  case (Cons l ls)
  then obtain raws where "lock_effects l = Flows raws"
    "list_all2 (\<lambda>x y. parse_flow x = Inr y) raws (flows_of_lock l)"
    using lock_wf_parse(3) [of l] by auto
  then have "reserve_lock tx s r e l (Fin a) = Inr (Fin (a + seg_sum s r e (flows_of_lock l)))"
    using Cons.prems by (simp add: reserve_lock_def iter_flows_def fold_reserve_flow)
  then show ?case using Cons by (simp add: add.assoc)
qed simp

lemma sum_list_filter_zero:
  "(\<And>x. x \<in> set xs \<Longrightarrow> \<not> P x \<Longrightarrow> f x = 0) \<Longrightarrow> sum_list (map f (filter P xs)) = sum_list (map (f :: _ \<Rightarrow> rat) xs)"
  by (induction xs) auto

lemma reserved_relevant:
  assumes "locks_wf db"
  shows "sum_list (map (\<lambda>l. seg_sum s r e (flows_of_lock l)) (relevant_locks s db)) = reserved db s r e"
proof -
  have "seg_sum s r e (flows_of_lock l) = 0" if "l \<in> set (live_locks db)" "lock_participant l \<noteq> s" for l
    using that assms by (intro seg_sum_other [OF lock_wf_flows]) (auto simp: live_locks_def locks_wf_def list_all_iff)
  then have "sum_list (map (\<lambda>l. seg_sum s r e (flows_of_lock l)) (filter (\<lambda>l. lock_participant l = s) (live_locks db)))
      = reserved db s r e"
    unfolding reserved_def by (intro sum_list_filter_zero) auto
  then show ?thesis by (simp add: relevant_locks_def live_locks_def conj_commute)
qed

lemma capacity_and_reserved:
  assumes "locks_wf db" and "load_prepare_locks tx db = []"
  shows "get_segment_capacity_and_reserved_usage tx s r e db
    = Inr (segment_capacity s r e db, Fin (reserved db s r e))"
proof -
  have "list_all lock_wf (relevant_locks s db)"
    using assms(1) by (auto simp: relevant_locks_def locks_wf_def list_all_iff)
  moreover have "\<forall>l \<in> set (relevant_locks s db). lock_tx l \<noteq> tx"
    using assms(2) by (auto simp: relevant_locks_def load_prepare_locks_def filter_empty_conv)
  ultimately show ?thesis
    using fold_reserve_lock [of "relevant_locks s db" tx s r e 0] reserved_relevant [OF assms(1)]
    by (simp add: get_segment_capacity_and_reserved_usage_def)
qed

lemma check_segment_Inr [simp]:
  "check_segment c (Fin u) v = (if c < v + u then Inl (Routing True) else Inr ())"
  by (simp add: check_segment_def)

section \<open>Adding and removing locks\<close>

lemma reserved_nonneg: "locks_wf db \<Longrightarrow> 0 \<le> reserved db s r e"
  unfolding reserved_def locks_wf_def
  by (intro sum_list_nonneg) (auto simp: live_locks_def list_all_iff intro!: seg_sum_nonneg [OF lock_wf_flows_ok])

lemma segment_capacity_cong:
  "debts db' = debts db \<Longrightarrow> trust_lines db' = trust_lines db \<Longrightarrow>
   segment_capacity s r e db' = segment_capacity s r e db"
  by (simp add: segment_capacity_def owes_def get_debt_def active_limit_def get_active_line_def)

lemma sum_list_filter_le:
  "(\<And>x. x \<in> set xs \<Longrightarrow> 0 \<le> f x) \<Longrightarrow> sum_list (map (f :: _ \<Rightarrow> rat) (filter P xs)) \<le> sum_list (map f xs)"
  by (induction xs) (auto simp: add_increasing)

definition entry_flows :: "raw_flow list \<Rightarrow> flow list" where
  "entry_flows raws = (case map_res parse_flow raws of Inl _ \<Rightarrow> [] | Inr fs \<Rightarrow> fs)"

text \<open>The new lock rows: what they reserve is what the entries reserve.\<close>

definition entry_ok :: "uuid \<times> raw_flow list \<Rightarrow> bool" where
  "entry_ok entry \<longleftrightarrow> (case entry of (p, raws) \<Rightarrow> raws \<noteq> [] \<and> (case map_res parse_flow raws of Inl _ \<Rightarrow> False
     | Inr fs \<Rightarrow> list_all (\<lambda>f. flow_ok f \<and> fl_from f = p) fs))"

lemma mk_locks_props:
  "l \<in> set (mk_locks tx expires n entries) \<Longrightarrow> lock_tx l = tx \<and> lock_expires_at l = expires
     \<and> n \<le> lock_id l \<and> lock_id l < n + length entries
     \<and> (\<exists>raws. (lock_participant l, raws) \<in> set entries \<and> lock_effects l = Flows raws)"
  by (induction tx expires n entries rule: mk_locks.induct) force+

lemma length_mk_locks [simp]: "length (mk_locks tx expires n entries) = length entries"
  by (induction tx expires n entries rule: mk_locks.induct) auto

lemma mk_locks_nil_iff [simp]: "mk_locks tx expires n entries = [] \<longleftrightarrow> entries = []"
  by (cases entries) auto

lemma distinct_mk_locks: "distinct (map lock_id (mk_locks tx expires n entries))"
  by (induction tx expires n entries rule: mk_locks.induct) (auto dest!: mk_locks_props)

lemma lock_of_entry:
  assumes "lock_effects l = Flows raws" and "entry_ok (lock_participant l, raws)"
  shows "lock_wf l" and "flows_of_lock l = entry_flows raws"
  using assms by (auto simp: lock_wf_def flows_of_lock_def entry_ok_def entry_flows_def parse_lock_def split: sum.splits)

lemma mk_locks_wf:
  assumes "list_all entry_ok entries"
  shows "list_all lock_wf (mk_locks tx expires n entries)"
  unfolding list_all_iff
proof
  fix l assume "l \<in> set (mk_locks tx expires n entries)"
  then obtain raws where "(lock_participant l, raws) \<in> set entries" "lock_effects l = Flows raws"
    using mk_locks_props by blast
  then show "lock_wf l" using assms lock_of_entry(1) by (auto simp: list_all_iff)
qed

lemma mk_locks_flows:
  assumes "list_all entry_ok entries"
  shows "map flows_of_lock (mk_locks tx expires n entries) = map (entry_flows \<circ> snd) entries"
  using assms
  by (induction tx expires n entries rule: mk_locks.induct) (simp_all add: lock_of_entry(2))

end
