(* ===== verification/Two_Phase_Commit.thy ===== *)
theory Two_Phase_Commit
  imports Reservations
begin

text \<open>
  Correctness of the engine's two phases: the invariant that prepared reservations never
  exceed a segment's capacity is kept by \<^verbatim>\<open>prepare\<close>, \<^verbatim>\<open>prepare_routes\<close>, \<^verbatim>\<open>commit\<close> and \<^verbatim>\<open>abort\<close>, and it
  is strong enough for a prepared transaction whose locks are live to commit.
\<close>

section \<open>The engine's invariant\<close>

definition no_self_lines :: "db \<Rightarrow> bool" where
  "no_self_lines db \<longleftrightarrow> list_all (\<lambda>t. tl_from t \<noteq> tl_to t) (trust_lines db)"

definition engine_inv :: "db \<Rightarrow> bool" where
  "engine_inv db \<longleftrightarrow> debts_wf db \<and> trust_lines_wf db \<and> no_self_lines db \<and> locks_wf db \<and> reservations_ok db"

lemma engine_invD:
  assumes "engine_inv db"
  shows "debts_wf db" and "trust_lines_wf db" and "no_self_lines db" and "locks_wf db" and "reservations_ok db"
  using assms by (simp_all add: engine_inv_def)

lemma update_tx_frame [simp]:
  "debts (update_tx tx g db) = debts db" "trust_lines (update_tx tx g db) = trust_lines db"
  "prepare_locks (update_tx tx g db) = prepare_locks db" "db_now (update_tx tx g db) = db_now db"
  "next_uuid (update_tx tx g db) = next_uuid db" "participants (update_tx tx g db) = participants db"
  "equivalents (update_tx tx g db) = equivalents db" "audit_log (update_tx tx g db) = audit_log db"
  by (simp_all add: update_tx_def)

lemma delete_prepare_locks_frame [simp]:
  "debts (delete_prepare_locks tx db) = debts db" "trust_lines (delete_prepare_locks tx db) = trust_lines db"
  "db_now (delete_prepare_locks tx db) = db_now db" "next_uuid (delete_prepare_locks tx db) = next_uuid db"
  "transactions (delete_prepare_locks tx db) = transactions db"
  "participants (delete_prepare_locks tx db) = participants db"
  "equivalents (delete_prepare_locks tx db) = equivalents db"
  "audit_log (delete_prepare_locks tx db) = audit_log db"
  "prepare_locks (delete_prepare_locks tx db) = filter (\<lambda>l. lock_tx l \<noteq> tx) (prepare_locks db)"
  by (simp_all add: delete_prepare_locks_def del_row_def)

lemma load_after_delete [simp]: "load_prepare_locks tx (delete_prepare_locks tx db) = []"
  by (simp add: load_prepare_locks_def filter_empty_conv)

lemma load_update_tx [simp]: "load_prepare_locks tx' (update_tx tx g db) = load_prepare_locks tx' db"
  by (simp add: load_prepare_locks_def)

lemma get_tx_delete [simp]: "get_tx tx' (delete_prepare_locks tx db) = get_tx tx' db"
  by (simp add: get_tx_def)

lemma get_tx_update:
  assumes "\<And>t. tx_id (g t) = tx_id t"
  shows "get_tx tx' (update_tx tx g db) = (if tx' = tx then map_option g (get_tx tx db) else get_tx tx' db)"
proof (cases "tx' = tx")
  case True
  have "find (\<lambda>t. tx_id t = tx) (upd_row tx_id tx g rows) = map_option g (find (\<lambda>t. tx_id t = tx) rows)" for rows
    using assms by (induction rows) auto
  then show ?thesis using True by (simp add: get_tx_def update_tx_def)
next
  case False
  have "find (\<lambda>t. tx_id t = tx') (upd_row tx_id tx g rows) = find (\<lambda>t. tx_id t = tx') rows" for rows
    using assms False by (induction rows) auto
  then show ?thesis using False by (simp add: get_tx_def update_tx_def)
qed

text \<open>The invariant reads the debts, the trust lines, the locks, the clock and the id supply only.\<close>

lemma engine_inv_cong:
  assumes "debts db' = debts db" "trust_lines db' = trust_lines db" "prepare_locks db' = prepare_locks db"
    "db_now db' = db_now db" "next_uuid db' = next_uuid db"
  shows "engine_inv db' = engine_inv db"
  using assms segment_capacity_cong [OF assms(1,2)]
  by (simp add: engine_inv_def debts_wf_def trust_lines_wf_def no_self_lines_def locks_wf_def
      reservations_ok_def reserved_def live_locks_def)

lemma engine_inv_update_tx [simp]: "engine_inv (update_tx tx g db) = engine_inv db"
  by (rule engine_inv_cong) simp_all

text \<open>Dropping locks, or letting time pass, only frees capacity.\<close>

lemma engine_inv_fewer_locks:
  assumes inv: "engine_inv db"
    and db': "db' = db\<lparr>prepare_locks := filter P (prepare_locks db), db_now := n\<rparr>" and n: "db_now db \<le> n"
  shows "engine_inv db'"
proof -
  have wf: "list_all lock_wf (prepare_locks db)" using engine_invD(4) [OF inv] by (simp add: locks_wf_def)
  have "reserved db' s r e \<le> reserved db s r e" for s r e
  proof -
    have "live_locks db' = filter (\<lambda>l. P l \<and> n < lock_expires_at l) (live_locks db)"
      using n by (auto simp: live_locks_def db' intro: filter_cong)
    moreover have "0 \<le> seg_sum s r e (flows_of_lock l)" if "l \<in> set (live_locks db)" for l
      using that wf by (intro seg_sum_nonneg [OF lock_wf_flows_ok]) (auto simp: live_locks_def list_all_iff)
    ultimately show ?thesis unfolding reserved_def by (simp only:) (rule sum_list_filter_le, blast)
  qed
  moreover have "segment_capacity s r e db' = segment_capacity s r e db" for s r e
    by (rule segment_capacity_cong) (simp_all add: db')
  ultimately have "reservations_ok db'"
    using engine_invD(5) [OF inv] unfolding reservations_ok_def by (metis order_trans)
  moreover have "locks_wf db'"
    using engine_invD(4) [OF inv] by (auto simp: locks_wf_def db' list_all_iff distinct_map_filter)
  ultimately show ?thesis
    using engine_invD [OF inv]
    by (simp add: engine_inv_def db' debts_wf_def trust_lines_wf_def no_self_lines_def)
qed

lemma engine_inv_delete_locks: "engine_inv db \<Longrightarrow> engine_inv (delete_prepare_locks tx db)"
  by (rule engine_inv_fewer_locks [where db = db and P = "\<lambda>l. lock_tx l \<noteq> tx" and n = "db_now db"])
    (simp_all add: delete_prepare_locks_def del_row_def)

section \<open>Prepare keeps it\<close>

definition entries_flows :: "(uuid \<times> raw_flow list) list \<Rightarrow> flow list" where
  "entries_flows entries = concat (map (entry_flows \<circ> snd) entries)"

lemma add_locks_wf:
  assumes wf: "locks_wf db" and add: "add_locks tx expires entries db = Inr db'" and ok: "list_all entry_ok entries"
  shows "locks_wf db'"
proof -
  let ?new = "mk_locks tx expires (next_uuid db) entries"
  have db': "db' = db\<lparr>prepare_locks := prepare_locks db @ ?new, next_uuid := next_uuid db + length entries\<rparr>"
    using add by (simp add: add_locks_def split: if_splits)
  have old: "list_all lock_wf (prepare_locks db)" "distinct (map lock_id (prepare_locks db))"
    "\<And>l. l \<in> set (prepare_locks db) \<Longrightarrow> lock_id l < next_uuid db"
    using wf by (auto simp: locks_wf_def list_all_iff)
  have "lock_id ` set (prepare_locks db) \<inter> lock_id ` set ?new = {}"
    using old(3) mk_locks_props by fastforce
  then have "distinct (map lock_id (prepare_locks db @ ?new))"
    using old(2) distinct_mk_locks by simp
  moreover have "lock_id l < next_uuid db + length entries" if "l \<in> set (prepare_locks db @ ?new)" for l
    using that old(3) mk_locks_props by (auto simp: trans_less_add1)
  ultimately show ?thesis
    using old(1) mk_locks_wf [OF ok, of tx expires "next_uuid db"] by (auto simp: locks_wf_def db' list_all_iff)
qed

lemma add_locks_inv:
  assumes inv: "engine_inv db" and add: "add_locks tx expires entries db = Inr db'"
    and ok: "list_all entry_ok entries"
    and fits: "\<And>s r e. reserved db s r e + seg_sum s r e (entries_flows entries) \<le> segment_capacity s r e db"
  shows "engine_inv db'"
proof -
  let ?new = "mk_locks tx expires (next_uuid db) entries"
  have db': "db' = db\<lparr>prepare_locks := prepare_locks db @ ?new, next_uuid := next_uuid db + length entries\<rparr>"
    using add by (simp add: add_locks_def split: if_splits)
  have new_flows: "sum_list (map (\<lambda>l. seg_sum s r e (flows_of_lock l)) ?new) = seg_sum s r e (entries_flows entries)" for s r e
  proof -
    have "sum_list (map (\<lambda>l. seg_sum s r e (flows_of_lock l)) ?new) = sum_list (map (seg_sum s r e) (map flows_of_lock ?new))"
      by (simp add: comp_def)
    then show ?thesis unfolding mk_locks_flows [OF ok] by (simp add: entries_flows_def seg_sum_concat)
  qed
  have new_pos: "0 \<le> seg_sum s r e (flows_of_lock l)" if "l \<in> set ?new" for l s r e
    using that mk_locks_wf [OF ok, of tx expires "next_uuid db"]
    by (intro seg_sum_nonneg [OF lock_wf_flows_ok]) (auto simp: list_all_iff)
  have "reserved db' s r e \<le> reserved db s r e + seg_sum s r e (entries_flows entries)" for s r e
  proof -
    have "reserved db' s r e = reserved db s r e
        + sum_list (map (\<lambda>l. seg_sum s r e (flows_of_lock l)) (filter (\<lambda>l. lock_expires_at l > db_now db) ?new))"
      by (simp add: reserved_def live_locks_def db')
    also have "\<dots> \<le> reserved db s r e + sum_list (map (\<lambda>l. seg_sum s r e (flows_of_lock l)) ?new)"
      by (intro add_left_mono sum_list_filter_le new_pos)
    finally show ?thesis by (simp add: new_flows)
  qed
  moreover have "segment_capacity s r e db' = segment_capacity s r e db" for s r e
    by (rule segment_capacity_cong) (simp_all add: db')
  ultimately have "reservations_ok db'" unfolding reservations_ok_def using fits order_trans by metis
  moreover have "locks_wf db'" by (rule add_locks_wf [OF engine_invD(4) [OF inv] add ok])
  ultimately show ?thesis
    using engine_invD [OF inv] by (auto simp: engine_inv_def db' debts_wf_def trust_lines_wf_def no_self_lines_def)
qed

lemma parse_mk_raw_flow [simp]:
  "0 < v \<Longrightarrow> parse_flow (mk_raw_flow s r v e) = Inr \<lparr>fl_equivalent = e, fl_from = s, fl_to = r, fl_amount = v\<rparr>"
  by (simp add: parse_flow_def mk_raw_flow_def)

lemma segment_positive:
  assumes self: "no_self_lines db" and locks: "locks_wf db"
    and "0 < v" and "v + reserved db s r e \<le> segment_capacity s r e db"
  shows "s \<noteq> r"
proof
  assume "s = r"
  have "get_active_line s s e db = None"
    using self by (auto simp: get_active_line_def find_None_iff no_self_lines_def list_all_iff)
  then have "segment_capacity s r e db = 0"
    using \<open>s = r\<close> by (simp add: segment_capacity_def active_limit_def)
  then show False using assms reserved_nonneg [OF locks, of s r e] by simp
qed

text \<open>One route: what the loop over the segments leaves.\<close>

lemma prepare_segment_eq:
  assumes "locks_wf db" and "load_prepare_locks tx db = []"
  shows "prepare_segment tx e v db (s, r) acc = (if segment_capacity s r e db < v + reserved db s r e
    then Inl (Routing True) else Inr (acc @ [(s, [mk_raw_flow s r v e])]))"
  by (simp add: prepare_segment_def capacity_and_reserved [OF assms])

lemma prepare_segments:
  assumes "locks_wf db" and "load_prepare_locks tx db = []"
    and "fold_res (prepare_segment tx e v db) segs acc = Inr entries"
  shows "entries = acc @ map (\<lambda>(s, r). (s, [mk_raw_flow s r v e])) segs
    \<and> (\<forall>(s, r) \<in> set segs. v + reserved db s r e \<le> segment_capacity s r e db)"
  using assms(3)
proof (induction segs arbitrary: acc)
  case (Cons seg segs)
  obtain s r where seg: "seg = (s, r)" by (cases seg)
  then have fit: "v + reserved db s r e \<le> segment_capacity s r e db"
    and rest: "fold_res (prepare_segment tx e v db) segs (acc @ [(s, [mk_raw_flow s r v e])]) = Inr entries"
    using Cons.prems
    by (auto simp: prepare_segment_eq [OF assms(1,2)] not_less split: if_splits)
  show ?case using Cons.IH [OF rest] fit seg by simp
qed simp

lemma seg_sum_entries:
  assumes "distinct (map fst segs)" and "0 < v"
  shows "seg_sum s r e' (entries_flows (map (\<lambda>(s, r). (s, [mk_raw_flow s r v e])) segs))
    = (if (s, r) \<in> set segs \<and> e' = e then v else 0)"
  using assms
  by (induction segs) (auto simp: entries_flows_def entry_flows_def rev_image_eqI)

lemma prepare_Inr_cases:
  assumes "prepare utcnow ttl tx path v e db = Inr db'"
  obtains (same) "db' = db"
      "load_prepare_locks tx db \<noteq> [] \<or> map_option tx_state (get_tx tx db) = Some COMMITTED"
  | (locked) t entries db1 where "get_tx tx db = Some t" "load_prepare_locks tx db = []"
      "tx_state t \<notin> {COMMITTED, ABORTED, REJECTED}"
      "list_all (\<lambda>p. id_of_pid p db \<noteq> None) path"
      "fold_res (prepare_segment tx e v db) (segments_of (map (\<lambda>p. the (id_of_pid p db)) path)) [] = Inr entries"
      "add_locks tx (utcnow + ttl) entries db = Inr db1" "db' = mark_prepared tx db1"
  using assms that
  by (auto simp: prepare_def list_all_iff list_ex_iff split: option.splits if_splits sum.splits)

lemma prepare_inv:
  assumes inv: "engine_inv db" and v: "0 < v" and prep: "prepare utcnow ttl tx path v e db = Inr db'"
  shows "engine_inv db'"
  using prep
proof (cases rule: prepare_Inr_cases)
  case same
  then show ?thesis using inv by simp
next
  case (locked t entries db1)
  let ?segs = "segments_of (map (\<lambda>p. the (id_of_pid p db)) path)"
  have entries: "entries = map (\<lambda>(s, r). (s, [mk_raw_flow s r v e])) ?segs"
    and fit: "\<forall>(s, r) \<in> set ?segs. v + reserved db s r e \<le> segment_capacity s r e db"
    using prepare_segments [OF engine_invD(4) [OF inv] locked(2,5)] by auto
  have "distinct (map fst entries)" using locked(6) by (simp add: add_locks_def split: if_splits)
  then have dist: "distinct (map fst ?segs)" by (simp add: entries case_prod_beta comp_def)
  have ok: "list_all entry_ok entries"
    using fit segment_positive [OF engine_invD(3,4) [OF inv] v] v by (auto simp: entries entry_ok_def list_all_iff flow_ok_def)
  have "reserved db s r e' + seg_sum s r e' (entries_flows entries) \<le> segment_capacity s r e' db" for s r e'
    using fit engine_invD(5) [OF inv] unfolding entries seg_sum_entries [OF dist v]
    by (auto simp: reservations_ok_def add.commute)
  then have "engine_inv db1" by (intro add_locks_inv [OF inv locked(6) ok]) blast
  then show ?thesis by (simp add: locked(7) mark_prepared_def)
qed

section \<open>Prepare of several routes\<close>

lemma entries_append_flow:
  assumes "list_all entry_ok entries" and "flow_ok f" and "parse_flow raw = Inr f" and "fl_from f = p"
  shows "list_all entry_ok (append_flow p raw entries)"
    and "seg_sum s r e (entries_flows (append_flow p raw entries))
      = seg_sum s r e (entries_flows entries) + seg_sum s r e [f]"
proof -
  have map_res_snoc: "map_res parse_flow (raws @ [raw]) = (case map_res parse_flow raws of Inl x \<Rightarrow> Inl x
      | Inr fs \<Rightarrow> Inr (fs @ [f]))" for raws
    using assms(3) by (induction raws) (auto split: sum.splits)
  show "list_all entry_ok (append_flow p raw entries)"
    using assms(1,2,4)
    by (induction entries) (auto simp: entry_ok_def assms(3) map_res_snoc split: sum.splits)
  show "seg_sum s r e (entries_flows (append_flow p raw entries))
      = seg_sum s r e (entries_flows entries) + seg_sum s r e [f]"
    using assms(1)
    by (induction entries) (auto simp: entries_flows_def entry_flows_def assms(3) map_res_snoc entry_ok_def split: sum.splits)
qed

lemma entry_flows_ok: "entry_ok en \<Longrightarrow> list_all flow_ok (entry_flows (snd en))"
  by (auto simp: entry_ok_def entry_flows_def list_all_iff split: prod.splits sum.splits)

definition routes_inv :: "db \<Rightarrow> uuid \<Rightarrow> route_state \<Rightarrow> bool" where
  "routes_inv db e st \<longleftrightarrow> list_all entry_ok (fst st)
     \<and> (\<forall>s r. seg_sum s r e (entries_flows (fst st)) = snd st (s, r)
          \<and> reserved db s r e + snd st (s, r) \<le> segment_capacity s r e db)
     \<and> (\<forall>s r e'. e' \<noteq> e \<longrightarrow> seg_sum s r e' (entries_flows (fst st)) = 0)"

lemma prepare_route_segment_inv:
  assumes inv: "engine_inv db" and none: "load_prepare_locks tx db = []" and v: "0 < v"
    and st: "routes_inv db e st" and step: "prepare_route_segment tx e db (s, r, v) st = Inr st'"
  shows "routes_inv db e st'"
proof -
  let ?f = "\<lparr>fl_equivalent = e, fl_from = s, fl_to = r, fl_amount = v\<rparr>"
  have fit: "v + (reserved db s r e + snd st (s, r)) \<le> segment_capacity s r e db"
    and st': "st' = (append_flow s (mk_raw_flow s r v e) (fst st), (snd st)((s, r) := snd st (s, r) + v))"
    using step by (auto simp: prepare_route_segment_def capacity_and_reserved [OF engine_invD(4) [OF inv] none]
        not_less split: if_splits)
  have "0 \<le> snd st (s, r)"
  proof -
    have "list_all flow_ok (entries_flows (fst st))"
      using st entry_flows_ok by (fastforce simp: routes_inv_def entries_flows_def list_all_iff)
    then show ?thesis using seg_sum_nonneg [of "entries_flows (fst st)" s r e] st by (simp add: routes_inv_def)
  qed
  then have "s \<noteq> r" using fit by (intro segment_positive [OF engine_invD(3,4) [OF inv] v, of s r e]) simp
  then have ok: "flow_ok ?f" using v by (simp add: flow_ok_def)
  have parse: "parse_flow (mk_raw_flow s r v e) = Inr ?f" using v by simp
  have "list_all entry_ok (fst st)" using st by (simp add: routes_inv_def)
  note app = entries_append_flow [OF this ok parse, of s, simplified]
  show ?thesis
    using st fit app by (auto simp: routes_inv_def st' add.assoc add.commute add.left_commute)
qed

lemma prepare_routes_Inr_cases:
  assumes "prepare_routes utcnow ttl tx routes e db = Inr db'"
  obtains (same) "db' = db"
      "load_prepare_locks tx db \<noteq> [] \<or> map_option tx_state (get_tx tx db) = Some COMMITTED"
  | (locked) t st db1 where "get_tx tx db = Some t" "load_prepare_locks tx db = []"
      "tx_state t \<notin> {COMMITTED, ABORTED, REJECTED}"
      "list_all (\<lambda>(path, v). 0 < v) routes"
      "fold_res (prepare_route_segment tx e db) (route_segments db routes) ([], \<lambda>_. 0) = Inr st"
      "add_locks tx (utcnow + ttl) (fst st) db = Inr db1" "db' = mark_prepared tx db1"
  using assms that
  by (fastforce simp: prepare_routes_def list_all_iff list_ex_iff not_le
      split: option.splits if_splits sum.splits prod.splits)

lemma route_segments_positive:
  "list_all (\<lambda>(path, v). 0 < v) routes \<Longrightarrow> (s, r, v) \<in> set (route_segments db routes) \<Longrightarrow> 0 < v"
  by (auto simp: route_segments_def list_all_iff)

lemma prepare_routes_inv:
  assumes inv: "engine_inv db" and prep: "prepare_routes utcnow ttl tx routes e db = Inr db'"
  shows "engine_inv db'"
  using prep
proof (cases rule: prepare_routes_Inr_cases)
  case same
  then show ?thesis using inv by simp
next
  case (locked t st db1)
  have start: "routes_inv db e ([], \<lambda>_. 0)"
    using engine_invD(5) [OF inv] by (simp add: routes_inv_def entries_flows_def reservations_ok_def)
  have fin: "routes_inv db e st"
  proof (rule fold_res_preserves [where I = "routes_inv db e", OF locked(5) _ start])
    fix x st1 st2
    assume x: "x \<in> set (route_segments db routes)" and st1: "routes_inv db e st1"
      and step: "prepare_route_segment tx e db x st1 = Inr st2"
    obtain s r v where xv: "x = (s, r, v)" by (cases x)
    have "0 < v" using route_segments_positive [OF locked(4)] x xv by blast
    then show "routes_inv db e st2"
      using prepare_route_segment_inv [OF inv locked(2) _ st1] step xv by blast
  qed
  have "reserved db s r e' + seg_sum s r e' (entries_flows (fst st)) \<le> segment_capacity s r e' db" for s r e'
    using fin engine_invD(5) [OF inv]
    by (cases "e' = e") (auto simp: routes_inv_def reservations_ok_def)
  moreover have "list_all entry_ok (fst st)" using fin by (simp add: routes_inv_def)
  ultimately have "engine_inv db1" by (intro add_locks_inv [OF inv locked(6)])
  then show ?thesis by (simp add: locked(7) mark_prepared_def)
qed

section \<open>The flows of a transaction\<close>

definition tx_flows :: "string \<Rightarrow> db \<Rightarrow> flow list" where
  "tx_flows tx db = concat (map flows_of_lock (load_prepare_locks tx db))"

definition validated_of :: "prepare_lock \<Rightarrow> validated_lock" where
  "validated_of l = \<lparr>vl_lock = lock_id l, vl_flows = flows_of_lock l\<rparr>"

lemma parse_locks_wf:
  assumes "list_all lock_wf ls" and "ls \<noteq> []"
  shows "parse_persisted_prepare_locks ls = Inr (sort_key vl_lock (map validated_of ls))"
proof -
  have "map_res parse_lock ls = Inr (map validated_of ls)"
    using assms(1) by (induction ls) (auto simp: lock_wf_parse(1) validated_of_def)
  moreover have "\<exists>v \<in> set (map validated_of ls). vl_flows v \<noteq> []"
    using assms lock_wf_parse(2) by (cases ls) (auto simp: validated_of_def)
  ultimately show ?thesis using assms(2) by (simp add: parse_persisted_prepare_locks_def)
qed

lemma mset_validated_flows:
  "mset (validated_flows (sort_key vl_lock (map validated_of ls))) = mset (concat (map flows_of_lock ls))"
proof -
  have "mset (concat (map vl_flows vs)) = mset (concat (map vl_flows ws))" if "mset vs = mset ws" for vs ws
    using that by (simp add: mset_concat flip: sum_mset_sum_list)
  from this [of "sort_key vl_lock (map validated_of ls)" "map validated_of ls"]
  show ?thesis by (simp add: validated_flows_def validated_of_def comp_def)
qed

lemma seg_sum_mset: "mset fs = mset gs \<Longrightarrow> seg_sum s r e fs = seg_sum s r e gs"
  unfolding seg_sum_def sql_sum_def sum_mset_sum_list [symmetric] mset_map mset_filter by simp

lemma list_all_mset: "mset fs = mset gs \<Longrightarrow> list_all P fs = list_all P gs"
  by (metis list_all_iff set_mset_mset)

lemma tx_flows_ok:
  assumes "locks_wf db"
  shows "list_all flow_ok (tx_flows tx db)"
proof -
  have "list_all flow_ok (flows_of_lock l)" if "l \<in> set (load_prepare_locks tx db)" for l
    using that assms by (intro lock_wf_flows_ok) (auto simp: load_prepare_locks_def locks_wf_def list_all_iff)
  then show ?thesis by (auto simp: tx_flows_def list_all_iff)
qed

text \<open>
  Amounts reserved by prepare locks that have at most eight decimals, like the debts they become.
\<close>

definition grid_locks :: "db \<Rightarrow> bool" where
  "grid_locks db \<longleftrightarrow> (\<forall>l \<in> set (prepare_locks db). \<forall>f \<in> set (flows_of_lock l). on_grid (fl_amount f))"

lemma tx_flows_grid:
  assumes "grid_locks db"
  shows "\<forall>f \<in> set (tx_flows tx db). on_grid (fl_amount f)"
  using assms by (auto simp: tx_flows_def load_prepare_locks_def grid_locks_def)

lemma tx_flows_exact:
  assumes "locks_wf db" and "\<forall>f \<in> set (tx_flows tx db). on_grid (fl_amount f)"
  shows "list_all exact_flow (tx_flows tx db)"
  using tx_flows_ok [OF assms(1), of tx] assms(2) by (simp add: list_all_iff exact_flow_def)

definition locks_live :: "string \<Rightarrow> db \<Rightarrow> bool" where
  "locks_live tx db \<longleftrightarrow> list_all (\<lambda>l. db_now db < lock_expires_at l) (load_prepare_locks tx db)"

text \<open>
  While its locks are live, a transaction's own flows are part of what is reserved; deleting
  the locks frees exactly them.
\<close>

lemma sum_list_split:
  "sum_list (map f xs) = sum_list (map f (filter P xs)) + sum_list (map (f :: _ \<Rightarrow> rat) (filter (\<lambda>x. \<not> P x) xs))"
  by (induction xs) auto

lemma reserved_split:
  assumes "locks_live tx db"
  shows "reserved db s r e = seg_sum s r e (tx_flows tx db) + reserved (delete_prepare_locks tx db) s r e"
proof -
  have own: "filter (\<lambda>l. lock_tx l = tx) (live_locks db) = load_prepare_locks tx db"
    using assms by (auto simp: live_locks_def load_prepare_locks_def locks_live_def list_all_iff intro!: filter_cong)
  have other: "filter (\<lambda>l. lock_tx l \<noteq> tx) (live_locks db) = live_locks (delete_prepare_locks tx db)"
    by (auto simp: live_locks_def intro!: filter_cong)
  show ?thesis
    unfolding reserved_def sum_list_split [of _ "live_locks db" "\<lambda>l. lock_tx l = tx"] own other
    by (simp add: tx_flows_def seg_sum_concat comp_def)
qed

lemma balance_delta_sum:
  "list_all flow_ok fs \<Longrightarrow>
   sum_list (map (\<lambda>f. balance_delta f (x, y, e)) fs) = seg_sum x y e fs - seg_sum y x e fs"
  by (induction fs) (auto simp: balance_delta_def flow_ok_def)

lemma capacity_balance: "segment_capacity s r e db = active_limit r s e db - pair_balance (s, r, e) db"
  by (simp add: segment_capacity_def pair_balance_def)

section \<open>Flows that fit into the column\<close>

text \<open>
  When every pair can take all that is sent over it in one direction, no flow overflows, in whatever
  order the flows come; and an overflow is all that can stop them.
\<close>

definition in_range :: "flow list \<Rightarrow> db \<Rightarrow> bool" where
  "in_range fs db \<longleftrightarrow> list_all (\<lambda>f. pair_balance (fl_from f, fl_to f, fl_equivalent f) db
     + seg_sum (fl_from f) (fl_to f) (fl_equivalent f) fs < 10 ^ 12) fs"

lemma balance_delta_le:
  "exact_flow f \<Longrightarrow> balance_delta f (x, y, e) \<le> seg_sum x y e (f # fs) - seg_sum x y e fs"
  by (auto simp: balance_delta_def exact_flow_def flow_ok_def)

lemma flows_run:
  assumes "debts_wf db" and "list_all exact_flow fs" and "in_range fs db"
  shows "\<exists>db'. fold_res flow_step fs db = Inr db'"
  using assms
proof (induction fs arbitrary: db)
  case (Cons f fs)
  let ?k = "(fl_from f, fl_to f, fl_equivalent f)"
  have ok: "exact_flow f" "list_all exact_flow fs" using Cons.prems(2) by simp_all
  have rest: "0 \<le> seg_sum x y e fs" for x y e by (rule seg_sum_nonneg [OF exact_flows_ok [OF ok(2)]])
  have "pair_balance ?k db + fl_amount f < 10 ^ 12"
    using Cons.prems(3) rest [of "fl_from f" "fl_to f" "fl_equivalent f"] by (simp add: in_range_def)
  then obtain db1 where db1: "flow_step f db = Inr db1" using flow_step_cases [OF Cons.prems(1) ok(1)] by auto
  have "in_range fs db1"
    unfolding in_range_def list_all_iff
  proof
    fix g assume g: "g \<in> set fs"
    let ?j = "(fl_from g, fl_to g, fl_equivalent g)"
    have "pair_balance ?j db + seg_sum (fl_from g) (fl_to g) (fl_equivalent g) (f # fs) < 10 ^ 12"
      using Cons.prems(3) g by (auto simp: in_range_def list_all_iff)
    then show "pair_balance ?j db1 + seg_sum (fl_from g) (fl_to g) (fl_equivalent g) fs < 10 ^ 12"
      using balance_run.step_obs [OF Cons.prems(1) ok(1) db1, of ?j]
        balance_delta_le [OF ok(1), of "fl_from g" "fl_to g" "fl_equivalent g" fs] by linarith
  qed
  then show ?case using Cons.IH [OF net_run.step_inv [OF Cons.prems(1) ok(1) db1] ok(2)] db1 by simp
qed simp

lemma flows_overflow:
  assumes "debts_wf db" and "list_all exact_flow fs" and "fold_res flow_step fs db = Inl x"
  shows "\<exists>stmt. x = numeric_overflow stmt"
  using assms
proof (induction fs arbitrary: db)
  case (Cons f fs)
  then show ?case
    using flow_step_cases [of db f] net_run.step_inv [of db f] by (auto split: sum.splits if_splits)
qed simp

lemma in_range_mset:
  assumes "mset fs = mset gs"
  shows "in_range fs db = in_range gs db"
  using list_all_mset [OF assms] seg_sum_mset [OF assms] by (simp add: in_range_def)

lemma active_limit_column: "trust_lines_wf db \<Longrightarrow> column_value (active_limit x y e db)"
  by (auto simp: active_limit_def get_active_line_def trust_lines_wf_def column_value_def dest!: find_SomeD split: option.splits)

section \<open>A prepared transaction with live locks commits\<close>

lemma reserved_in_range:
  assumes inv: "engine_inv db" and live: "locks_live tx db"
  shows "in_range (tx_flows tx db) db"
proof -
  have "pair_balance (s, r, e) db + seg_sum s r e (tx_flows tx db) < 10 ^ 12" for s r e
  proof -
    have "0 \<le> reserved (delete_prepare_locks tx db) s r e"
      by (rule reserved_nonneg) (use engine_inv_delete_locks [OF inv] engine_invD(4) in blast)
    moreover have "reserved db s r e \<le> active_limit r s e db - pair_balance (s, r, e) db"
      using engine_invD(5) [OF inv] by (simp add: reservations_ok_def capacity_balance)
    ultimately show ?thesis
      using reserved_split [OF live, of s r e] column_valueD(2) [OF active_limit_column [OF engine_invD(2) [OF inv]], of r s e]
      by linarith
  qed
  then show ?thesis by (simp add: in_range_def list_all_iff)
qed

lemma commit_flows_ok:
  assumes inv: "engine_inv db" and live: "locks_live tx db" and fs: "mset fs = mset (tx_flows tx db)"
    and grid: "\<forall>f \<in> set (tx_flows tx db). on_grid (fl_amount f)"
  obtains db1 where "fold_res flow_step fs db = Inr db1" and "debts_only db db1" and "debts_wf db1"
    and "\<And>s r e. reserved (delete_prepare_locks tx db) s r e \<le> segment_capacity s r e db1"
    and "check_flows fs db db1 = Inr ()"
proof -
  note wf = engine_invD(1) [OF inv] and tl = engine_invD(2) [OF inv]
  have ok: "list_all exact_flow fs"
    using list_all_mset [OF fs] tx_flows_exact [OF engine_invD(4) [OF inv] grid] by simp
  obtain db1 where run: "fold_res flow_step fs db = Inr db1"
    using flows_run [OF wf ok] in_range_mset [OF fs] reserved_in_range [OF inv live] by blast
  note only = flows_debts_only [OF wf ok run]
  have wf1: "debts_wf db1" using net_run.run_effect [OF wf ok run] by blast
  have bal: "pair_balance (s, r, e) db1 = pair_balance (s, r, e) db + seg_sum s r e fs - seg_sum r s e fs" for s r e
    using balance_run.run_effect [OF wf ok run, of "(s, r, e)"] balance_delta_sum [OF exact_flows_ok [OF ok]] by simp
  have pos: "0 \<le> seg_sum s r e fs" for s r e by (rule seg_sum_nonneg [OF exact_flows_ok [OF ok]])
  have res: "reserved db s r e = seg_sum s r e fs + reserved (delete_prepare_locks tx db) s r e" for s r e
    using reserved_split [OF live] seg_sum_mset [OF fs] by simp
  have cap: "reserved (delete_prepare_locks tx db) s r e \<le> segment_capacity s r e db1" for s r e
  proof -
    have "reserved db s r e \<le> active_limit r s e db - pair_balance (s, r, e) db"
      using engine_invD(5) [OF inv] by (simp add: reservations_ok_def capacity_balance)
    then show ?thesis
      using res [of s r e] bal [of s r e] pos [of r s e] active_limit_debts_only [OF only, of r s e]
      by (simp add: capacity_balance)
  qed
  have nonneg: "0 \<le> reserved (delete_prepare_locks tx db) s r e" for s r e
    by (rule reserved_nonneg) (use engine_inv_delete_locks [OF inv] engine_invD(4) in blast)
  have within: "within_limit db1 s r e" if "symmetric_pair s r e db1" for s r e
    using that cap [of s r e] nonneg [of s r e] owes_nonneg [OF wf1, of s r e] owes_nonneg [OF wf1, of r s e]
      active_limit_nonneg [OF trust_lines_wf_debts_only [OF only tl], of r s e]
    by (auto simp: within_limit_def symmetric_pair_def segment_capacity_def)
  have "flow_within_limits db1 f" if "f \<in> set fs" for f
    using within flows_symmetric(2) [OF wf ok run that]
    by (auto simp: flow_within_limits_def symmetric_pair_def)
  then have "check_flows fs db db1 = Inr ()" by (simp add: check_flows_eq [OF wf tl ok run])
  then show ?thesis using that [OF run only wf1 cap] by blast
qed

lemma write_committed_frame [simp]:
  "debts (write_committed tx pl fs db0 db) = debts db"
  "trust_lines (write_committed tx pl fs db0 db) = trust_lines db"
  "prepare_locks (write_committed tx pl fs db0 db) = filter (\<lambda>l. lock_tx l \<noteq> tx) (prepare_locks db)"
  "db_now (write_committed tx pl fs db0 db) = db_now db"
  "next_uuid (write_committed tx pl fs db0 db) = next_uuid db"
  "participants (write_committed tx pl fs db0 db) = participants db"
  by (simp_all add: write_committed_def)

lemma commit_flows_inv:
  assumes inv: "engine_inv db" and live: "locks_live tx db" and fs: "mset fs = mset (tx_flows tx db)"
    and grid: "\<forall>f \<in> set (tx_flows tx db). on_grid (fl_amount f)" and run: "fold_res flow_step fs db = Inr db1"
  shows "engine_inv (write_committed tx pl fs db db1)"
proof -
  obtain db2 where db2: "fold_res flow_step fs db = Inr db2" "debts_only db db2" "debts_wf db2"
    "\<And>s r e. reserved (delete_prepare_locks tx db) s r e \<le> segment_capacity s r e db2"
    by (rule commit_flows_ok [OF inv live fs grid]) (rule that)
  have "db2 = db1" using db2(1) run by simp
  then have only: "debts_only db db1" and wf1: "debts_wf db1"
    and cap: "\<And>s r e. reserved (delete_prepare_locks tx db) s r e \<le> segment_capacity s r e db1"
    using db2 by simp_all
  let ?db' = "write_committed tx pl fs db db1"
  have locks: "prepare_locks ?db' = prepare_locks (delete_prepare_locks tx db)" and now: "db_now ?db' = db_now db"
    and lines: "trust_lines ?db' = trust_lines db" and nxt: "next_uuid db \<le> next_uuid ?db'"
    using debts_onlyD [OF only] by simp_all
  have res: "reserved ?db' s r e = reserved (delete_prepare_locks tx db) s r e" for s r e
    unfolding reserved_def live_locks_def locks now by simp
  have "reservations_ok ?db'"
    unfolding reservations_ok_def res using cap segment_capacity_cong [of ?db' db1] by simp
  moreover have "locks_wf ?db'"
    using engine_invD(4) [OF engine_inv_delete_locks [OF inv], of tx] nxt unfolding locks_wf_def locks
    by (auto simp: list_all_iff)
  moreover have "debts_wf ?db'" using wf1 by (simp add: debts_wf_def)
  moreover have "trust_lines_wf ?db'"
    using engine_invD(2) [OF inv] nxt unfolding trust_lines_wf_def lines by auto
  moreover have "no_self_lines ?db'" using engine_invD(3) [OF inv] unfolding no_self_lines_def lines .
  ultimately show ?thesis by (simp add: engine_inv_def)
qed

section \<open>Units of work under the retry wrapper\<close>

text \<open>
  Whatever the wrapper returns or raises is the result of one of at most \<open>retry_attempts\<close> runs
  (one run when the setting is 0), up to the two exceptions it translates.
\<close>

definition reports :: "exc + 'a \<Rightarrow> exc + 'a \<Rightarrow> bool" where
  "reports r' r \<longleftrightarrow> r = r' \<and> r' \<noteq> Inl EquivalentOwnerPreflightChanged
     \<or> r' = Inl EquivalentOwnerPreflightChanged \<and> r = Inl RetryablePaymentConflict
     \<or> (\<exists>x. r' = Inl (DBAPIError x) \<and> r = Inl AsyncioTimeout)"

definition retries :: "bool \<Rightarrow> string \<Rightarrow> bool \<Rightarrow> exc + 'a \<Rightarrow> bool" where
  "retries pg op sp r' \<longleftrightarrow> r' = Inl EquivalentOwnerPreflightChanged \<and> \<not> sp \<or> (\<exists>x. r' = Inl (DBAPIError x)
     \<and> \<not> (sp \<and> sqlstate x \<in> {Some ''40P01'', Some ''40001''}) \<and> sqlstate x \<noteq> Some ''55P03''
     \<and> is_retryable_db_error pg op x)"

lemma run_uow_from_step:
  assumes "savepoint sp (fn i) = (r', w')"
  shows "run_uow_from pg n op sp fn i = (if retries pg op sp r' \<and> Suc i < n
      then run_uow_from pg n op sp fn (Suc i) else run_uow_from pg 0 op sp fn i)"
    and "\<exists>r. run_uow_from pg 0 op sp fn i = (r, w') \<and> reports r' r"
  using assms
  by (subst (1 3) run_uow_from.simps,
      auto simp: retries_def reports_def run_uow_from.simps [of _ 0] split: sum.split exc.split)

lemma run_uow_from_cases:
  assumes "run_uow_from pg n op sp fn i = (r, w)" and "i < max 1 n"
  shows "\<exists>j r'. i \<le> j \<and> j < max 1 n \<and> savepoint sp (fn j) = (r', w) \<and> reports r' r"
  using assms
proof (induction "n - i" arbitrary: i)
  case (Suc k)
  obtain r' w' where fn: "savepoint sp (fn i) = (r', w')" by (cases "savepoint sp (fn i)")
  show ?case
  proof (cases "retries pg op sp r' \<and> Suc i < n")
    case True
    then have "run_uow_from pg n op sp fn (Suc i) = (r, w)" "Suc i < max 1 n" "k = n - Suc i"
      using Suc run_uow_from_step(1) [where fn = fn and i = i, OF fn, of pg n op] by auto
    then have "\<exists>j r'. Suc i \<le> j \<and> j < max 1 n \<and> savepoint sp (fn j) = (r', w) \<and> reports r' r"
      using Suc.hyps(1) by blast
    then show ?thesis by (meson Suc_leD)
  next
    case False
    then show ?thesis
      using Suc.prems run_uow_from_step [where fn = fn and i = i, OF fn, of pg] fn by (metis order_refl prod.inject)
  qed
next
  case 0
  obtain r' w' where fn: "savepoint sp (fn i) = (r', w')" by (cases "savepoint sp (fn i)")
  then show ?case
    using 0 run_uow_from_step [where fn = fn and i = i, OF fn, of pg]
    by (metis diff_is_0_eq not_less_eq_eq order_refl prod.inject Suc_leD nat_less_le)
qed

lemma run_uow_cases:
  assumes "run_uow_with_retry pg n op sp fn = (r, w)"
  obtains j r' where "j < max 1 n" and "savepoint sp (fn j) = (r', w)" and "reports r' r"
proof -
  have "\<exists>j r'. 0 \<le> j \<and> j < max 1 n \<and> savepoint sp (fn j) = (r', w) \<and> reports r' r"
    by (rule run_uow_from_cases) (use assms in \<open>auto simp: run_uow_with_retry_def\<close>)
  then show ?thesis using that by blast
qed

lemma run_uow_first:
  assumes "savepoint sp (fn 0) = (Inr v, w)"
  shows "run_uow_with_retry pg n op sp fn = (Inr v, w)"
  using assms by (simp add: run_uow_with_retry_def run_uow_from.simps)

lemma savepoint_Inr [simp]: "savepoint sp (Inr v, w) = (Inr v, w)"
  by (simp add: savepoint_def)

lemma savepoint_SomeD: "savepoint sp q = (r, Some db') \<Longrightarrow> q = (r, Some db')"
  by (cases q) (auto simp: savepoint_def split: sum.splits if_splits)

lemma savepoint_fst: "savepoint sp q = (r, w) \<Longrightarrow> fst q = r"
  by (cases q) (auto simp: savepoint_def split: sum.splits)

end
