(* ===== verification/Sample_Hub.thy ===== *)
theory Sample_Hub
  imports Two_Phase_Commit
begin

text \<open>
  A small hub on which the witnesses evaluate: participants A, B and C, one equivalent, the
  trust lines along which A pays C through B, one debt of B to A, and one new payment.
\<close>

definition sample_payload :: payload where
  "sample_payload = \<lparr>pl_from = Some ''A'', pl_to = Some ''C'', pl_amount = Some (Fin 10),
     pl_equivalent = Some ''UAH'', pl_routes = Some [([''A'', ''B'', ''C''], 10)],
     pl_fingerprint = None, pl_edges = None\<rparr>"

definition sample_tx :: transaction where
  "sample_tx = \<lparr>tx_id = ''t1'', tx_type = PAYMENT, tx_initiator = 5, tx_payload = sample_payload,
     tx_state = NEW, tx_error = None, tx_created_at = 0, tx_updated_at = 0\<rparr>"

definition sample_line :: "uuid \<Rightarrow> uuid \<Rightarrow> uuid \<Rightarrow> amount \<Rightarrow> trust_line" where
  "sample_line i x y l = \<lparr>tl_id = i, tl_from = x, tl_to = y, tl_equivalent = 9, tl_limit = l,
     tl_policy = None, tl_status = Active, tl_created_at = 0\<rparr>"

definition sample_debt :: debt where
  "sample_debt = \<lparr>debt_id = 20, debtor_id = 6, creditor_id = 5, debt_equivalent = 9, debt_amount = 4\<rparr>"

definition sample_db :: db where
  "sample_db = \<lparr>participants = [\<lparr>part_id = 5, part_pid = ''A'', part_public_key = [], part_display_name = []\<rparr>,
       \<lparr>part_id = 6, part_pid = ''B'', part_public_key = [], part_display_name = []\<rparr>,
       \<lparr>part_id = 7, part_pid = ''C'', part_public_key = [], part_display_name = []\<rparr>],
     equivalents = [\<lparr>equiv_id = 9, equiv_code = ''UAH''\<rparr>],
     trust_lines = [sample_line 10 6 5 100, sample_line 11 7 6 50, sample_line 12 5 6 30],
     debts = [sample_debt], transactions = [sample_tx], prepare_locks = [], audit_log = [],
     db_now = 1000, next_uuid = 100\<rparr>"

lemmas sample_rows = sample_debt_def sample_line_def sample_tx_def sample_payload_def

lemma sample_sel [simp]:
  "participants sample_db = [\<lparr>part_id = 5, part_pid = ''A'', part_public_key = [], part_display_name = []\<rparr>,
     \<lparr>part_id = 6, part_pid = ''B'', part_public_key = [], part_display_name = []\<rparr>, \<lparr>part_id = 7, part_pid = ''C'', part_public_key = [], part_display_name = []\<rparr>]"
  "equivalents sample_db = [\<lparr>equiv_id = 9, equiv_code = ''UAH''\<rparr>]"
  "trust_lines sample_db = [sample_line 10 6 5 100, sample_line 11 7 6 50, sample_line 12 5 6 30]"
  "debts sample_db = [sample_debt]" "transactions sample_db = [sample_tx]" "prepare_locks sample_db = []"
  "audit_log sample_db = []" "db_now sample_db = 1000" "next_uuid sample_db = 100"
  by (simp_all add: sample_db_def)

lemma sample_debts_wf: "debts_wf sample_db"
  by (simp add: debts_wf_def debt_key_def sample_rows column_value_def)

lemma sample_trust_lines_wf: "trust_lines_wf sample_db"
  by (simp add: trust_lines_wf_def tl_key_def sample_rows column_value_def)

lemma sample_locks_wf: "locks_wf sample_db"
  by (simp add: locks_wf_def)

lemma sample_active_limit:
  "active_limit x y e sample_db = (if (x, y, e) = (6, 5, 9) then 100 else if (x, y, e) = (7, 6, 9) then 50
     else if (x, y, e) = (5, 6, 9) then 30 else 0)"
  by (simp add: active_limit_def get_active_line_def sample_rows)

lemma sample_owes: "owes sample_db x y e = (if (x, y, e) = (6, 5, 9) then 4 else 0)"
  by (simp add: owes_def get_debt_def sample_rows)

lemma sample_capacity: "segment_capacity s r e sample_db = (if (s, r, e) = (5, 6, 9) then 104
   else if (s, r, e) = (6, 7, 9) then 50 else if (s, r, e) = (6, 5, 9) then 26 else 0)"
  by (auto simp: segment_capacity_def sample_active_limit sample_owes)

lemma sample_engine_inv: "engine_inv sample_db"
proof -
  have "reservations_ok sample_db"
    by (simp add: reservations_ok_def reserved_def live_locks_def sample_capacity)
  then show ?thesis
    using sample_debts_wf sample_trust_lines_wf sample_locks_wf
    by (simp add: engine_inv_def no_self_lines_def sample_rows)
qed

text \<open>The same hub after the payment is prepared.\<close>

definition sample_lock :: "uuid \<Rightarrow> uuid \<Rightarrow> uuid \<Rightarrow> prepare_lock" where
  "sample_lock i s r = \<lparr>lock_id = i, lock_tx = ''t1'', lock_participant = s,
     lock_effects = Flows [mk_raw_flow s r 10 9], lock_expires_at = 1060\<rparr>"

definition prepared_db :: db where
  "prepared_db = sample_db\<lparr>prepare_locks := [sample_lock 100 5 6, sample_lock 101 6 7],
     transactions := [sample_tx\<lparr>tx_state := PREPARED, tx_updated_at := 1000\<rparr>], next_uuid := 102\<rparr>"

lemma sample_prepares: "prepare 1000 60 ''t1'' [''A'', ''B'', ''C''] 10 9 sample_db = Inr prepared_db"
  unfolding prepared_db_def
  by (simp add: prepare_def get_tx_def id_of_pid_def load_prepare_locks_def segments_of_def
      prepare_segment_eq [OF sample_locks_wf] reserved_def live_locks_def sample_capacity add_locks_def
      mark_prepared_def update_tx_def sample_tx_def sample_lock_def)

lemma prepared_engine_inv: "engine_inv prepared_db"
  by (rule prepare_inv [OF sample_engine_inv _ sample_prepares]) simp

lemma prepared_sel [simp]:
  "load_prepare_locks ''t1'' prepared_db = [sample_lock 100 5 6, sample_lock 101 6 7]"
  "get_tx ''t1'' prepared_db = Some (sample_tx\<lparr>tx_state := PREPARED, tx_updated_at := 1000\<rparr>)"
  "locks_live ''t1'' prepared_db"
  by (simp_all add: prepared_db_def load_prepare_locks_def sample_lock_def get_tx_def sample_tx_def locks_live_def)

lemma prepared_tx_flows:
  "tx_flows ''t1'' prepared_db = [\<lparr>fl_equivalent = 9, fl_from = 5, fl_to = 6, fl_amount = 10\<rparr>,
     \<lparr>fl_equivalent = 9, fl_from = 6, fl_to = 7, fl_amount = 10\<rparr>]"
  by (simp add: tx_flows_def flows_of_lock_def parse_lock_def sample_lock_def)

end
