(* ===== verification/Ledger_Properties.thy ===== *)
theory Ledger_Properties
  imports Sample_Hub
begin

text \<open>
  What the invariant checks and the integrity checkpoint decide, with a witness on the sample
  hub for each statement that has hypotheses.
\<close>

text \<open>
  The checksum of an integrity checkpoint does not depend on the order in which the
  database returns the rows: two states whose debt and trust-line tables hold the same rows,
  in any order, have the same checksum for every equivalent. This is what the tie-breaker on
  the line id in the \<open>ORDER BY\<close> is for.
\<close>

lemma checkpoint_checksum_row_order:
  assumes "debts_wf db" and "trust_lines_wf db"
    and "mset (debts db) = mset (debts db')" and "mset (trust_lines db) = mset (trust_lines db')"
  shows "cp_checksum (compute_integrity_checkpoint e db)
    = cp_checksum (compute_integrity_checkpoint e db')"
  by (simp add: compute_integrity_checkpoint_def Let_def
      checkpoint_debts_mset [OF assms(1,3)] checkpoint_trust_lines_mset [OF assms(2,4)])

lemma limits_check_iff:
  assumes "trust_lines_wf db"
  shows "check_trust_limits (Some e) None db = Inr () \<longleftrightarrow>
    (\<forall>d \<in> set (debts db). debt_equivalent d = e \<longrightarrow>
         debt_amount d \<le> active_limit (creditor_id d) (debtor_id d) e db)"
  using set_joined_limits [OF assms]
  by (auto simp: check_trust_limits_def trust_limit_violations_def pair_selected_def filter_empty_conv not_less)

lemma zero_sum_check: "check_zero_sum eq_opt db = Inr ()"
  by (cases eq_opt) (simp_all add: check_zero_sum_def compute_imbalance_zero)

lemma checkpoint_passed_iff:
  assumes "debts_wf db" and "trust_lines_wf db"
  shows "cp_passed (compute_integrity_checkpoint e db) \<longleftrightarrow>
      (\<forall>d \<in> set (debts db). debt_equivalent d = e \<longrightarrow>
         debt_amount d \<le> active_limit (creditor_id d) (debtor_id d) e db)
      \<and> (\<forall>x y. \<not> (0 < owes db x y e \<and> 0 < owes db y x e))"
  using zero_sum_check [of "Some e" db] limits_check_iff [OF assms(2)] symmetry_check_iff [OF assms(1), of e]
  by (auto simp: compute_integrity_checkpoint_def Let_def)

text \<open>
  C20. On well-formed tables a checkpoint is marked as passed exactly when every debt of the
  equivalent is within the limit of its active line and no two participants owe each other; it
  is critical exactly when a limit is exceeded, whatever the symmetry check says.
\<close>

theorem checkpoint_status:
  assumes "debts_wf db" and "trust_lines_wf db"
  shows "(cp_passed (compute_integrity_checkpoint e db) \<longleftrightarrow>
      (\<forall>d \<in> set (debts db). debt_equivalent d = e \<longrightarrow>
         debt_amount d \<le> active_limit (creditor_id d) (debtor_id d) e db)
      \<and> (\<forall>x y. \<not> (0 < owes db x y e \<and> 0 < owes db y x e)))
    \<and> (cp_status (compute_integrity_checkpoint e db) = Critical \<longleftrightarrow>
      (\<exists>d \<in> set (debts db). debt_equivalent d = e
         \<and> active_limit (creditor_id d) (debtor_id d) e db < debt_amount d))"
proof (rule conjI [OF checkpoint_passed_iff [OF assms]])
  show "cp_status (compute_integrity_checkpoint e db) = Critical \<longleftrightarrow>
      (\<exists>d \<in> set (debts db). debt_equivalent d = e
         \<and> active_limit (creditor_id d) (debtor_id d) e db < debt_amount d)"
    using zero_sum_check [of "Some e" db] limits_check_iff [OF assms(2), of e]
    by (auto simp: compute_integrity_checkpoint_def Let_def not_le)
qed

theorem checkpoint_status_witness:
  "cp_passed (compute_integrity_checkpoint 9 sample_db)
   \<and> cp_status (compute_integrity_checkpoint 9 sample_db) \<noteq> Critical"
  using checkpoint_status [OF sample_debts_wf sample_trust_lines_wf, of 9]
  by (simp add: sample_active_limit sample_owes sample_debt_def)

end
