(* ===== verification/Validation.thy ===== *)
theory Validation
  imports Domain
begin

text \<open>
  The input validators of \<^verbatim>\<open>app/utils/validation.py\<close> and the string functions of Python they and
  the policy readers use. A character is a code point below 256, so the digits the regular
  expressions accept are the ASCII ones.
\<close>

section \<open>Python strings\<close>

definition py_space :: "char \<Rightarrow> bool" where
  "py_space c \<longleftrightarrow> (let n = of_char c :: nat in (9 \<le> n \<and> n \<le> 13) \<or> (28 \<le> n \<and> n \<le> 32) \<or> n = 133 \<or> n = 160)"

definition py_strip :: "string \<Rightarrow> string" where
  "py_strip s = rev (dropWhile py_space (rev (dropWhile py_space s)))"

definition lower_char :: "char \<Rightarrow> char" where
  "lower_char c = (let n = of_char c :: nat in if 65 \<le> n \<and> n \<le> 90 then char_of (n + 32) else c)"

definition py_lower :: "string \<Rightarrow> string" where
  "py_lower s = map lower_char s"

definition char_between :: "char \<Rightarrow> char \<Rightarrow> char \<Rightarrow> bool" where
  "char_between lo hi c \<longleftrightarrow> (of_char lo :: nat) \<le> of_char c \<and> (of_char c :: nat) \<le> of_char hi"

abbreviation is_digit :: "char \<Rightarrow> bool" where
  "is_digit \<equiv> char_between (CHR ''0'') (CHR ''9'')"

section \<open>Codes and identifiers\<close>

definition equivalent_code_char :: "char \<Rightarrow> bool" where
  "equivalent_code_char c \<longleftrightarrow> char_between (CHR ''A'') (CHR ''Z'') c \<or> is_digit c \<or> c = CHR ''_''"

definition validate_equivalent_code :: "string \<Rightarrow> exc + unit" where
  "validate_equivalent_code code =
     (if code = [] \<or> \<not> (list_all equivalent_code_char code \<and> 1 \<le> length code \<and> length code \<le> 16)
      then Inl BadRequest else Inr ())"

definition validate_equivalent_precision :: "int \<Rightarrow> exc + int" where
  "validate_equivalent_precision precision =
     (if precision < 0 \<or> precision > 18 then Inl BadRequest else Inr precision)"

definition validate_idempotency_key :: "string \<Rightarrow> exc + string" where
  "validate_idempotency_key key = (let normalized = py_strip key in
     if normalized = [] then Inl BadRequest
     else if length normalized > 128 then Inl BadRequest
     else Inr normalized)"

definition tx_id_char :: "char \<Rightarrow> bool" where
  "tx_id_char c \<longleftrightarrow> char_between (CHR ''A'') (CHR ''Z'') c \<or> char_between (CHR ''a'') (CHR ''z'') c
     \<or> is_digit c \<or> c \<in> set ''._:-''"

definition validate_tx_id :: "string \<Rightarrow> exc + string" where
  "validate_tx_id tx = (let normalized = py_strip tx in
     if normalized = [] then Inl BadRequest
     else if length normalized > 64 then Inl BadRequest
     else if \<not> (list_all tx_id_char normalized \<and> 1 \<le> length normalized \<and> length normalized \<le> 64)
     then Inl BadRequest
     else Inr normalized)"

end
