(* ===== verification/Router.thy ===== *)
theory Router
  imports Payment_Engine Validation "HOL-Library.AList"
begin

text \<open>
  The payment router of \<^verbatim>\<open>app/core/payments/router.py\<close>: the capacity graph of an equivalent with
  the policies of its edges, its shared cache, the trust-line topology, the search for one path
  and for a set of routes that carry an amount, and the maximum-flow estimate. A Python dict is
  an association list in insertion order: \<open>AList.update\<close> overwrites in place or appends, as
  assignment to a key does.
\<close>

section \<open>The router's state\<close>

type_synonym graph = "(pid \<times> (pid \<times> amount) list) list"

record router =
  rt_graph :: graph
  edge_can_be_intermediate :: "(pid \<times> (pid \<times> bool) list) list"
  edge_blocked_participants :: "(pid \<times> (pid \<times> pid set) list) list"
  rt_pids :: "(uuid \<times> pid) list"
  rt_uuids :: "(pid \<times> uuid) list"
  topology_adj :: "(pid \<times> pid list) list"

definition new_router :: router where
  "new_router = \<lparr>rt_graph = [], edge_can_be_intermediate = [], edge_blocked_participants = [],
     rt_pids = [], rt_uuids = [], topology_adj = []\<rparr>"

text \<open>\<open>m.get(u, {})\<close>, \<open>m.get(u, {}).get(v, x)\<close>, and the assignment \<open>m[u][v] = x\<close> after \<open>m.setdefault(u, {})\<close>.\<close>

definition sub_dict :: "('a \<times> ('b \<times> 'c) list) list \<Rightarrow> 'a \<Rightarrow> ('b \<times> 'c) list" where
  "sub_dict m u = (case map_of m u of None \<Rightarrow> [] | Some d \<Rightarrow> d)"

definition edge_get :: "('a \<times> ('b \<times> 'c) list) list \<Rightarrow> 'a \<Rightarrow> 'b \<Rightarrow> 'c \<Rightarrow> 'c" where
  "edge_get m u v deflt = (case map_of (sub_dict m u) v of None \<Rightarrow> deflt | Some x \<Rightarrow> x)"

definition edge_set :: "'a \<Rightarrow> 'b \<Rightarrow> 'c \<Rightarrow> ('a \<times> ('b \<times> 'c) list) list \<Rightarrow> ('a \<times> ('b \<times> 'c) list) list" where
  "edge_set u v x m = AList.update u (AList.update v x (sub_dict m u)) m"

definition edge_pop :: "'a \<Rightarrow> 'b \<Rightarrow> ('a \<times> ('b \<times> 'c) list) list \<Rightarrow> ('a \<times> ('b \<times> 'c) list) list" where
  "edge_pop u v m = (case map_of m u of None \<Rightarrow> m | Some d \<Rightarrow> AList.update u (AList.delete v d) m)"

definition add_capacity :: "pid \<Rightarrow> pid \<Rightarrow> amount \<Rightarrow> router \<Rightarrow> router" where
  "add_capacity u v x rt = rt\<lparr>rt_graph := edge_set u v (edge_get (rt_graph rt) u v 0 + x) (rt_graph rt)\<rparr>"

definition set_edge_policy :: "pid \<Rightarrow> pid \<Rightarrow> bool \<Rightarrow> router \<Rightarrow> router" where
  "set_edge_policy u v b rt = rt\<lparr>edge_can_be_intermediate := edge_set u v b (edge_can_be_intermediate rt)\<rparr>"

definition set_edge_blocked_participants :: "pid \<Rightarrow> pid \<Rightarrow> pid set \<Rightarrow> router \<Rightarrow> router" where
  "set_edge_blocked_participants u v B rt =
     rt\<lparr>edge_blocked_participants := edge_set u v B (edge_blocked_participants rt)\<rparr>"

definition edge_allows_intermediate :: "router \<Rightarrow> pid \<Rightarrow> pid \<Rightarrow> bool" where
  "edge_allows_intermediate rt u v = edge_get (edge_can_be_intermediate rt) u v True"

definition edge_blocked :: "router \<Rightarrow> pid \<Rightarrow> pid \<Rightarrow> pid set" where
  "edge_blocked rt u v = edge_get (edge_blocked_participants rt) u v {}"

section \<open>Building the capacity graph\<close>

definition json_truthy :: "json \<Rightarrow> bool" where
  "json_truthy j = (case j of JNull \<Rightarrow> False | JBool b \<Rightarrow> b | JNum q \<Rightarrow> q \<noteq> 0 | JStr s \<Rightarrow> s \<noteq> []
    | JList xs \<Rightarrow> xs \<noteq> [] | JObj kvs \<Rightarrow> kvs \<noteq> [])"

text \<open>
  Whether \<open>int(value) == 0\<close>, where a conversion that raises counts as no: a number is truncated
  towards zero, a text is an optional sign and digits with single underscores between them.
\<close>

fun zero_digits :: "string \<Rightarrow> bool" where
  "zero_digits [] = False"
| "zero_digits [c] = (c = CHR ''0'')"
| "zero_digits (c # d # cs) = (c = CHR ''0'' \<and> (if d = CHR ''_'' then zero_digits cs else zero_digits (d # cs)))"

definition int_is_zero :: "json \<Rightarrow> bool" where
  "int_is_zero j = (case j of JBool b \<Rightarrow> \<not> b | JNum q \<Rightarrow> \<bar>q\<bar> < 1
    | JStr s \<Rightarrow> (case py_strip s of [] \<Rightarrow> False
        | c # cs \<Rightarrow> zero_digits (if c = CHR ''+'' \<or> c = CHR ''-'' then cs else c # cs))
    | _ \<Rightarrow> False)"

definition policy_get :: "policy \<Rightarrow> string \<Rightarrow> json \<Rightarrow> json" where
  "policy_get p key deflt = (case map_of p key of None \<Rightarrow> deflt | Some j \<Rightarrow> j)"

definition line_can_be_intermediate :: "trust_line \<Rightarrow> bool" where
  "line_can_be_intermediate l = (case tl_policy l of None \<Rightarrow> True
    | Some p \<Rightarrow> json_truthy (policy_get p ''can_be_intermediate'' (JBool True))
        \<and> \<not> int_is_zero (policy_get p ''max_hop_usage'' (JNum 1)))"

definition line_blocked_participants :: "trust_line \<Rightarrow> pid set" where
  "line_blocked_participants l = (case tl_policy l of None \<Rightarrow> {}
    | Some p \<Rightarrow> (case policy_get p ''blocked_participants'' JNull of
          JList xs \<Rightarrow> set (concat (map (\<lambda>x. case x of JStr s \<Rightarrow> (if s \<noteq> [] then [s] else []) | _ \<Rightarrow> []) xs))
        | _ \<Rightarrow> {}))"

definition live_prepare_locks :: "db \<Rightarrow> prepare_lock list" where
  "live_prepare_locks db = filter (\<lambda>l. db_now db < lock_expires_at l) (prepare_locks db)"

text \<open>The identifiers a flow adds: the second conversion is not reached when the first raises.\<close>

definition flow_ids :: "raw_flow \<Rightarrow> uuid list" where
  "flow_ids f = (case f of FlowNotDict \<Rightarrow> []
    | RawFlow _ from_o to_o _ \<Rightarrow> (case from_o of None \<Rightarrow> []
        | Some x \<Rightarrow> (case to_o of None \<Rightarrow> [x] | Some y \<Rightarrow> [x, y])))"

definition lock_ids :: "prepare_lock \<Rightarrow> exc + uuid list" where
  "lock_ids l = (case iter_flows l of Inl x \<Rightarrow> Inl x
    | Inr fs \<Rightarrow> Inr (lock_participant l # concat (map flow_ids fs)))"

text \<open>\<open>self.pids.get(id)\<close>, with a missing or empty PID as \<open>None\<close>.\<close>

definition pid_of :: "router \<Rightarrow> uuid \<Rightarrow> pid option" where
  "pid_of rt i = (case map_of (rt_pids rt) i of None \<Rightarrow> None | Some p \<Rightarrow> (if p = [] then None else Some p))"

type_synonym reserved_map = "((pid \<times> pid) \<times> pydec) list"

definition reserved_get :: "reserved_map \<Rightarrow> pid \<times> pid \<Rightarrow> pydec" where
  "reserved_get m k = (case map_of m k of None \<Rightarrow> Fin 0 | Some x \<Rightarrow> x)"

definition router_reserve_flow :: "router \<Rightarrow> uuid \<Rightarrow> raw_flow \<Rightarrow> reserved_map \<Rightarrow> exc + reserved_map" where
  "router_reserve_flow rt e f m = (case f of FlowNotDict \<Rightarrow> Inr m
    | RawFlow eq_o from_o to_o amount_o \<Rightarrow>
        (case (eq_o, from_o, to_o, amount_o) of
           (Some e', Some x, Some y, Some v) \<Rightarrow>
             (if e' \<noteq> e then Inr m
              else (case (pid_of rt x, pid_of rt y) of
                 (Some p, Some q) \<Rightarrow> (case pd_add (reserved_get m (p, q)) v of Inl z \<Rightarrow> Inl z
                     | Inr total_v \<Rightarrow> Inr (AList.update (p, q) total_v m))
               | _ \<Rightarrow> Inr m))
         | _ \<Rightarrow> Inr m))"

definition router_reserve_lock :: "router \<Rightarrow> uuid \<Rightarrow> prepare_lock \<Rightarrow> reserved_map \<Rightarrow> exc + reserved_map" where
  "router_reserve_lock rt e l m = (case iter_flows l of Inl x \<Rightarrow> Inl x
    | Inr fs \<Rightarrow> fold_res (router_reserve_flow rt e) fs m)"

text \<open>\<open>debt_map.get((x, y), 0)\<close>: a later row of the same pair overwrites an earlier one.\<close>

definition debt_map_get :: "debt list \<Rightarrow> uuid \<Rightarrow> uuid \<Rightarrow> amount" where
  "debt_map_get ds x y = (case find (\<lambda>d. debtor_id d = x \<and> creditor_id d = y) (rev ds) of
     None \<Rightarrow> 0 | Some d \<Rightarrow> debt_amount d)"

text \<open>
  One trust line's edge from the debtor to the creditor. A reservation of NaN makes the
  comparison \<open>cap > 0\<close> raise and one of Infinity leaves no capacity. A reservation of -Infinity,
  which no prepare writes, would make the capacity infinite; capacities being rational here, it
  raises like NaN.
\<close>

definition add_line :: "debt list \<Rightarrow> reserved_map \<Rightarrow> trust_line \<Rightarrow> router \<Rightarrow> exc + router" where
  "add_line ds reserved_m l rt =
     (case (pid_of rt (tl_from l), pid_of rt (tl_to l)) of
        (Some creditor, Some debtor) \<Rightarrow>
          (let base = (tl_limit l - debt_map_get ds (tl_to l) (tl_from l)) + debt_map_get ds (tl_from l) (tl_to l)
           in case reserved_get reserved_m (debtor, creditor) of
              Fin r \<Rightarrow> (if 0 < base - r
                 then Inr (set_edge_blocked_participants debtor creditor (line_blocked_participants l)
                       (set_edge_policy debtor creditor (line_can_be_intermediate l)
                         (add_capacity debtor creditor (base - r) rt)))
                 else Inr rt)
            | PosInf \<Rightarrow> Inr rt
            | _ \<Rightarrow> Inl InvalidOperation)
      | _ \<Rightarrow> Inr rt)"

definition active_lines_of :: "uuid \<Rightarrow> db \<Rightarrow> trust_line list" where
  "active_lines_of e db = filter (\<lambda>l. tl_equivalent l = e \<and> tl_status l = Active) (trust_lines db)"

definition init_nodes :: "participant list \<Rightarrow> router \<Rightarrow> router" where
  "init_nodes rows rt = (let ps = dict_keys (map part_pid rows) in
     rt\<lparr>rt_pids := map (\<lambda>r. (part_id r, part_pid r)) rows,
        rt_uuids := map (\<lambda>r. (part_pid r, part_id r)) rows,
        rt_graph := map (\<lambda>p. (p, [])) ps,
        edge_can_be_intermediate := map (\<lambda>p. (p, [])) ps,
        edge_blocked_participants := map (\<lambda>p. (p, [])) ps\<rparr>)"

definition build_graph_impl :: "string \<Rightarrow> db \<Rightarrow> router \<Rightarrow> exc + router" where
  "build_graph_impl code db rt = (case find (\<lambda>q. equiv_code q = code) (equivalents db) of
     None \<Rightarrow> Inr (rt\<lparr>rt_graph := []\<rparr>)
   | Some q \<Rightarrow>
      (let e = equiv_id q;
           lines = active_lines_of e db;
           ds = filter (\<lambda>d. debt_equivalent d = e) (debts db);
           active_locks = live_prepare_locks db
       in case map_res lock_ids active_locks of Inl x \<Rightarrow> Inl x
          | Inr lock_idss \<Rightarrow>
             (let ids = concat (map (\<lambda>l. [tl_from l, tl_to l]) lines)
                      @ concat (map (\<lambda>d. [debtor_id d, creditor_id d]) ds) @ concat lock_idss
              in if ids = [] then Inr (rt\<lparr>rt_graph := []\<rparr>)
                 else let rt1 = init_nodes (filter (\<lambda>r. part_id r \<in> set ids) (participants db)) rt
                   in (case fold_res (router_reserve_lock rt1 e) active_locks [] of Inl x \<Rightarrow> Inl x
                       | Inr reserved_m \<Rightarrow> fold_res (add_line ds reserved_m) lines rt1))))"

subsection \<open>The shared cache\<close>

text \<open>
  Class-level caches, keyed by equivalent code: the graph with the time it was stored, and the
  topology. \<open>time_time\<close> is the reading of \<open>time.time()\<close>; entries are copies, which values are anyway.
\<close>

record router_cache =
  graph_cache :: "(string \<times> (timestamp \<times> router)) list"
  topology_cache :: "(string \<times> (pid \<times> pid list) list) list"

definition invalidate_cache :: "string option \<Rightarrow> router_cache \<Rightarrow> router_cache" where
  "invalidate_cache code c = (case code of
      Some k \<Rightarrow> (if k \<noteq> [] then c\<lparr>graph_cache := AList.delete k (graph_cache c),
                     topology_cache := AList.delete k (topology_cache c)\<rparr>
                 else c\<lparr>graph_cache := [], topology_cache := []\<rparr>)
    | None \<Rightarrow> c\<lparr>graph_cache := [], topology_cache := []\<rparr>)"

definition load_graph :: "router \<Rightarrow> router \<Rightarrow> router" where
  "load_graph cached rt = rt\<lparr>rt_graph := rt_graph cached,
     edge_can_be_intermediate := edge_can_be_intermediate cached,
     edge_blocked_participants := edge_blocked_participants cached,
     rt_pids := rt_pids cached, rt_uuids := rt_uuids cached\<rparr>"

text \<open>
  Whether \<open>_build_graph_impl\<close> reaches its end, where it stores the graph; it returns before that
  when the equivalent is unknown or nothing touches it.
\<close>

definition builds_nodes :: "string \<Rightarrow> db \<Rightarrow> bool" where
  "builds_nodes code db = (case find (\<lambda>q. equiv_code q = code) (equivalents db) of None \<Rightarrow> False
    | Some q \<Rightarrow> active_lines_of (equiv_id q) db \<noteq> []
        \<or> filter (\<lambda>d. debt_equivalent d = equiv_id q) (debts db) \<noteq> [] \<or> live_prepare_locks db \<noteq> [])"

definition build_graph ::
    "int \<Rightarrow> bool \<Rightarrow> timestamp \<Rightarrow> string \<Rightarrow> db \<Rightarrow> router_cache \<Rightarrow> router \<Rightarrow> exc + router \<times> router_cache" where
  "build_graph ttl use_shared_cache time_time code db c rt =
     (case validate_equivalent_code code of Inl x \<Rightarrow> Inl x
      | Inr _ \<Rightarrow>
        (let fresh = (case build_graph_impl code db rt of Inl x \<Rightarrow> Inl x
               | Inr rt' \<Rightarrow> Inr (rt', if use_shared_cache \<and> 0 < ttl \<and> builds_nodes code db
                   then c\<lparr>graph_cache := AList.update code (time_time, rt') (graph_cache c)\<rparr> else c))
         in if use_shared_cache \<and> 0 < ttl
            then (case map_of (graph_cache c) code of
                Some (cached_at, cached) \<Rightarrow>
                  (if time_time - cached_at \<le> ttl then Inr (load_graph cached rt, c) else fresh)
              | None \<Rightarrow> fresh)
            else fresh))"

section \<open>Topology\<close>

definition topology_rows :: "string \<Rightarrow> db \<Rightarrow> (pid \<times> pid) list" where
  "topology_rows code db = concat (map (\<lambda>l.
     concat (map (\<lambda>q. concat (map (\<lambda>c. map (\<lambda>d. (part_pid d, part_pid c))
           (filter (\<lambda>d. part_id d = tl_to l) (participants db)))
         (filter (\<lambda>c. part_id c = tl_from l) (participants db))))
       (filter (\<lambda>q. equiv_id q = tl_equivalent l \<and> equiv_code q = code) (equivalents db))))
     (filter (\<lambda>l. tl_status l = Active) (trust_lines db)))"

definition adj_get :: "(pid \<times> pid list) list \<Rightarrow> pid \<Rightarrow> pid list" where
  "adj_get adj u = (case map_of adj u of None \<Rightarrow> [] | Some vs \<Rightarrow> vs)"

definition adj_add :: "pid \<times> pid \<Rightarrow> (pid \<times> pid list) list \<Rightarrow> (pid \<times> pid list) list" where
  "adj_add row adj = (let d = py_strip (fst row); c = py_strip (snd row) in
     if d = [] \<or> c = [] then adj else AList.update d (List.insert c (adj_get adj d)) adj)"

definition build_topology :: "string \<Rightarrow> db \<Rightarrow> router_cache \<Rightarrow> router \<Rightarrow> exc + router \<times> router_cache" where
  "build_topology code db c rt = (case validate_equivalent_code code of Inl x \<Rightarrow> Inl x
    | Inr _ \<Rightarrow> (case map_of (topology_cache c) code of
        Some adj \<Rightarrow> Inr (rt\<lparr>topology_adj := adj\<rparr>, c)
      | None \<Rightarrow> (let adj = fold adj_add (topology_rows code db) [] in
          Inr (rt\<lparr>topology_adj := adj\<rparr>, c\<lparr>topology_cache := AList.update code adj (topology_cache c)\<rparr>))))"

text \<open>
  The inner loop over the neighbours: \<open>None\<close> when the destination is met, otherwise the new
  queue and the new set of seen nodes.
\<close>

fun topology_scan ::
    "pid \<Rightarrow> nat \<Rightarrow> pid list \<Rightarrow> (pid \<times> nat) list \<times> pid list \<Rightarrow> ((pid \<times> nat) list \<times> pid list) option" where
  "topology_scan dst hops [] st = Some st"
| "topology_scan dst hops (nxt # ns) (q, seen) =
     (if nxt = dst then None
      else if nxt \<in> set seen then topology_scan dst hops ns (q, seen)
      else topology_scan dst hops ns (q @ [(nxt, Suc hops)], nxt # seen))"

lemma topology_scan_unseen:
  "topology_scan dst hops ns (q, seen) = Some (q', seen') \<Longrightarrow> set ns \<subseteq> N \<Longrightarrow> finite N
    \<Longrightarrow> length q' + card (N - set seen') \<le> length q + card (N - set seen)"
proof (induction dst hops ns "(q, seen)" arbitrary: q seen rule: topology_scan.induct)
  case (2 dst hops nxt ns q seen)
  show ?case
  proof (cases "nxt \<in> set seen")
    case True
    then show ?thesis using 2 by (auto split: if_splits)
  next
    case False
    then have "N - set (nxt # seen) = (N - set seen) - {nxt}" by auto
    moreover have "card ((N - set seen) - {nxt}) = card (N - set seen) - 1"
      using False 2(4,5) by (simp add: card_Diff_singleton_if)
    moreover have "0 < card (N - set seen)"
      using False 2(4,5) by (auto simp: card_gt_0_iff)
    ultimately show ?thesis using 2(2) [OF _ False] 2(3-5) False by (auto split: if_splits)
  qed
qed simp

definition adj_nodes :: "(pid \<times> pid list) list \<Rightarrow> pid set" where
  "adj_nodes adj = \<Union> (set ` snd ` set adj)"

lemma adj_get_nodes: "set (adj_get adj u) \<subseteq> adj_nodes adj"
proof (cases "map_of adj u")
  case (Some vs)
  then have "(u, vs) \<in> set adj" by (rule map_of_SomeD)
  then show ?thesis using Some by (force simp: adj_get_def adj_nodes_def)
qed (simp add: adj_get_def)

function topology_bfs :: "(pid \<times> pid list) list \<Rightarrow> pid \<Rightarrow> nat \<Rightarrow> (pid \<times> nat) list \<Rightarrow> pid list \<Rightarrow> bool" where
  "topology_bfs adj dst max_hops [] seen = False"
| "topology_bfs adj dst max_hops ((cur, hops) # q) seen =
     (if max_hops \<le> hops then topology_bfs adj dst max_hops q seen
      else (case topology_scan dst hops (adj_get adj cur) (q, seen) of
          None \<Rightarrow> True
        | Some (q', seen') \<Rightarrow> topology_bfs adj dst max_hops q' seen'))"
  by pat_completeness auto
termination
proof (relation "measure (\<lambda>(adj, dst, max_hops, q, seen). length q + card (adj_nodes adj - set seen))", goal_cases)
  case (3 adj dst max_hops cur hops q seen st q' seen')
  have "finite (adj_nodes adj)" by (simp add: adj_nodes_def)
  then have "length q' + card (adj_nodes adj - set seen') \<le> length q + card (adj_nodes adj - set seen)"
    using topology_scan_unseen [OF _ adj_get_nodes] 3 by (metis prod.collapse)
  then show ?case by simp
qed auto

definition has_topology_path :: "router \<Rightarrow> pid \<Rightarrow> pid \<Rightarrow> int \<Rightarrow> bool" where
  "has_topology_path rt from_pid to_pid max_hops =
     (let src = py_strip from_pid; dst = py_strip to_pid in
      if src = [] \<or> dst = [] then False
      else if src = dst then True
      else if max_hops \<le> 0 then False
      else topology_bfs (topology_adj rt) dst (nat max_hops) [(src, 0)] [src])"

end
