(* ===== verification/Route_Search.thy ===== *)
theory Route_Search
  imports Router
begin

text \<open>
  The searches of \<^verbatim>\<open>app/core/payments/router.py\<close> on a built graph: one path by breadth-first
  enumeration of simple paths under the edge policies, a set of routes that together carry an
  amount, the capacity answer, and the maximum-flow estimate.
\<close>

section \<open>One path\<close>

type_synonym queue_item = "pid \<times> pid list \<times> pid set"

text \<open>The body of the loop over the neighbours: the item it enqueues, if no guard skips it.\<close>

definition try_neighbor ::
    "router \<Rightarrow> pid \<Rightarrow> pid \<Rightarrow> amount \<Rightarrow> (pid \<times> pid) set \<Rightarrow> pid set \<Rightarrow> queue_item \<Rightarrow> pid \<times> amount \<Rightarrow> queue_item list" where
  "try_neighbor rt from_pid to_pid v forbidden_edges forbidden_nodes item nc =
     (case item of (current, path, blocked_so_far) \<Rightarrow> (case nc of (neighbor, capacity) \<Rightarrow>
      let blocked = edge_blocked rt current neighbor;
          inner = (neighbor \<noteq> from_pid \<and> neighbor \<noteq> to_pid) in
      if (current, neighbor) \<in> forbidden_edges then []
      else if neighbor \<in> forbidden_nodes then []
      else if capacity \<le> 0 then []
      else if capacity < v then []
      else if neighbor \<in> set path then []
      else if inner \<and> neighbor \<in> blocked_so_far then []
      else if blocked \<noteq> {} \<and> inner \<and> neighbor \<in> blocked then []
      else if blocked \<noteq> {} \<and> 2 < length path \<and> set (butlast (tl path)) \<inter> blocked \<noteq> {} then []
      else if inner \<and> \<not> edge_allows_intermediate rt current neighbor then []
      else [(neighbor, path @ [neighbor], if blocked \<noteq> {} then blocked_so_far \<union> blocked else blocked_so_far)]))"

text \<open>
  \<open>ticks\<close> is the number of readings of \<open>time.perf_counter()\<close> that still lie before the deadline:
  the clock never goes back, so that number decides every check. The remaining ticks are
  returned, for the caller goes on checking the same deadline.
\<close>

fun bfs_loop ::
    "router \<Rightarrow> graph \<Rightarrow> pid \<Rightarrow> pid \<Rightarrow> amount \<Rightarrow> int \<Rightarrow> (pid \<times> pid) set \<Rightarrow> pid set \<Rightarrow> nat \<Rightarrow> queue_item list
      \<Rightarrow> exc + pid list option \<times> nat" where
  "bfs_loop rt g from_pid to_pid v max_hops fe fn ticks [] = Inr (None, ticks)"
| "bfs_loop rt g from_pid to_pid v max_hops fe fn 0 (item # queue) = Inl TimeoutExc"
| "bfs_loop rt g from_pid to_pid v max_hops fe fn (Suc ticks) (item # queue) =
     (if fst item = to_pid then Inr (Some (fst (snd item)), ticks)
      else if max_hops \<le> int (length (fst (snd item))) - 1
      then bfs_loop rt g from_pid to_pid v max_hops fe fn ticks queue
      else bfs_loop rt g from_pid to_pid v max_hops fe fn ticks
             (queue @ concat (map (try_neighbor rt from_pid to_pid v fe fn item) (sub_dict g (fst item)))))"

definition bfs_single_path ::
    "router \<Rightarrow> graph \<Rightarrow> pid \<Rightarrow> pid \<Rightarrow> amount \<Rightarrow> int \<Rightarrow> (pid \<times> pid) set \<Rightarrow> pid set \<Rightarrow> nat
      \<Rightarrow> exc + pid list option \<times> nat" where
  "bfs_single_path rt graph_override from_pid to_pid v max_hops fe fn ticks =
     (let g = (if graph_override = [] then rt_graph rt else graph_override) in
      if map_of g from_pid = None \<or> map_of g to_pid = None then Inr (None, ticks)
      else if from_pid \<in> fn \<or> to_pid \<in> fn then Inr (None, ticks)
      else bfs_loop rt g from_pid to_pid v max_hops fe fn ticks [(from_pid, [from_pid], {})])"

section \<open>Routes for an amount\<close>

text \<open>
  Capacities along a path: \<open>None\<close> stands for \<open>Decimal('Infinity')\<close>, the bottleneck of a path without
  edges.
\<close>

definition cap_min :: "amount option \<Rightarrow> amount \<Rightarrow> amount option" where
  "cap_min b x = (case b of None \<Rightarrow> Some x | Some y \<Rightarrow> Some (min y x))"

definition path_bottleneck :: "graph \<Rightarrow> pid list \<Rightarrow> amount option" where
  "path_bottleneck g path = fold (\<lambda>(u, v) b. cap_min b (edge_get g u v 0)) (segments_of path) None"

definition allocate_edge :: "amount \<Rightarrow> pid \<times> pid \<Rightarrow> graph \<Rightarrow> graph" where
  "allocate_edge alloc uv g = (case uv of (u, v) \<Rightarrow>
     let new_cap = edge_get g u v 0 - alloc in
     if new_cap \<le> 0 then edge_pop u v g else edge_set u v new_cap g)"

definition alloc_of :: "amount \<Rightarrow> amount option \<Rightarrow> amount" where
  "alloc_of remaining bottleneck = (case bottleneck of None \<Rightarrow> remaining | Some b \<Rightarrow> min remaining b)"

type_synonym routes = "(pid list \<times> amount) list"

function flow_loop ::
    "router \<Rightarrow> pid \<Rightarrow> pid \<Rightarrow> int \<Rightarrow> int \<Rightarrow> pid set \<Rightarrow> nat \<Rightarrow> graph \<Rightarrow> amount \<Rightarrow> routes
      \<Rightarrow> exc + routes \<times> amount" where
  "flow_loop rt from_pid to_pid max_hops max_paths fn ticks residual remaining routes =
     (if \<not> (0 < remaining \<and> int (length routes) < max_paths) then Inr (routes, remaining)
      else if ticks = 0 then Inl TimeoutExc
      else (case bfs_single_path rt residual from_pid to_pid 0 max_hops {} fn (ticks - 1) of
          Inl x \<Rightarrow> Inl x
        | Inr (None, _) \<Rightarrow> Inr (routes, remaining)
        | Inr (Some path, ticks') \<Rightarrow>
           (let bottleneck = path_bottleneck residual path in
            if path = [] \<or> (case bottleneck of None \<Rightarrow> False | Some b \<Rightarrow> b \<le> 0) then Inr (routes, remaining)
            else let alloc = alloc_of remaining bottleneck in
              if alloc \<le> 0 then Inr (routes, remaining)
              else flow_loop rt from_pid to_pid max_hops max_paths fn ticks'
                     (fold (allocate_edge alloc) (segments_of path) residual)
                     (remaining - alloc) (routes @ [(path, alloc)]))))"
  by pat_completeness auto
termination
  by (relation "measure (\<lambda>(_, _, _, _, max_paths, _, _, _, _, routes). nat (max_paths - int (length routes)))") auto

declare flow_loop.simps [simp del]

definition forbidden_of :: "pid list option \<Rightarrow> pid set" where
  "forbidden_of avoid = (case avoid of None \<Rightarrow> {} | Some ps \<Rightarrow> set (filter (\<lambda>x. py_strip x \<noteq> []) ps))"

definition find_flow_routes ::
    "router \<Rightarrow> pid \<Rightarrow> pid \<Rightarrow> amount \<Rightarrow> int \<Rightarrow> int \<Rightarrow> pid list option \<Rightarrow> nat \<Rightarrow> exc + routes" where
  "find_flow_routes rt from_pid to_pid v max_hops max_paths avoid ticks =
     (if v \<le> 0 \<or> max_paths \<le> 0 then Inr []
      else (case flow_loop rt from_pid to_pid max_hops max_paths (forbidden_of avoid) ticks (rt_graph rt) v [] of
          Inl x \<Rightarrow> Inl x
        | Inr (routes, remaining) \<Rightarrow> Inr (if 0 < remaining then [] else routes)))"

record capacity_response =
  can_pay :: bool
  max_amount :: amount
  routes_count :: nat
  estimated_hops :: int

definition check_capacity ::
    "int \<Rightarrow> int \<Rightarrow> router \<Rightarrow> pid \<Rightarrow> pid \<Rightarrow> amount \<Rightarrow> nat \<Rightarrow> exc + capacity_response" where
  "check_capacity routing_max_hops routing_max_paths rt from_pid to_pid v ticks =
     (case find_flow_routes rt from_pid to_pid v routing_max_hops routing_max_paths None ticks of
        Inl x \<Rightarrow> Inl x
      | Inr routes \<Rightarrow> (let pays = (0 < length routes) in
          Inr \<lparr>can_pay = pays, max_amount = (if pays then v else 0), routes_count = length routes,
               estimated_hops = (case routes of [] \<Rightarrow> 0 | r # _ \<Rightarrow> int (length (fst r)) - 1)\<rparr>))"

section \<open>Maximum flow\<close>

text \<open>The scan of the neighbours of \<open>u\<close>: unvisited ones with capacity are enqueued.\<close>

fun mf_scan ::
    "pid list \<Rightarrow> amount option \<Rightarrow> (pid \<times> amount) list \<Rightarrow> (pid \<times> pid list \<times> amount option) list \<times> pid list
      \<Rightarrow> (pid \<times> pid list \<times> amount option) list \<times> pid list" where
  "mf_scan path fl [] st = st"
| "mf_scan path fl ((v, cap) # ns) (queue, visited) =
     (if v \<notin> set visited \<and> 0 < cap
      then mf_scan path fl ns (queue @ [(v, path @ [v], cap_min fl cap)], v # visited)
      else mf_scan path fl ns (queue, visited))"

lemma mf_scan_unvisited:
  "mf_scan path fl ns (queue, visited) = (queue', visited') \<Longrightarrow> fst ` set ns \<subseteq> N \<Longrightarrow> finite N
    \<Longrightarrow> length queue' + card (N - set visited') \<le> length queue + card (N - set visited)"
proof (induction path fl ns "(queue, visited)" arbitrary: queue visited rule: mf_scan.induct)
  case (2 path fl v cap ns queue visited)
  show ?case
  proof (cases "v \<notin> set visited \<and> 0 < cap")
    case False
    then show ?thesis using 2 by (auto split: if_splits)
  next
    case True
    then have "N - set (v # visited) = (N - set visited) - {v}" by auto
    moreover have "card ((N - set visited) - {v}) = card (N - set visited) - 1"
      using True 2(4,5) by (simp add: card_Diff_singleton_if)
    moreover have "0 < card (N - set visited)" using True 2(4,5) by (auto simp: card_gt_0_iff)
    ultimately show ?thesis using 2(1) [OF True] 2(3-5) True by (auto split: if_splits)
  qed
qed simp

definition graph_targets :: "graph \<Rightarrow> pid set" where
  "graph_targets g = \<Union> ((\<lambda>d. fst ` set d) ` snd ` set g)"

lemma sub_dict_targets: "fst ` set (sub_dict g u) \<subseteq> graph_targets g"
proof (cases "map_of g u")
  case (Some d)
  then have "(u, d) \<in> set g" by (rule map_of_SomeD)
  then show ?thesis using Some by (force simp: sub_dict_def graph_targets_def)
qed (simp add: sub_dict_def)

lemma finite_graph_targets [simp]: "finite (graph_targets g)"
  by (simp add: graph_targets_def)

function mf_bfs ::
    "nat \<Rightarrow> graph \<Rightarrow> pid \<Rightarrow> (pid \<times> pid list \<times> amount option) list \<Rightarrow> pid list \<Rightarrow> (pid list \<times> amount option) option" where
  "mf_bfs max_hops g to_pid [] visited = None"
| "mf_bfs max_hops g to_pid ((u, path, fl) # queue) visited =
     (if u = to_pid then Some (path, fl)
      else if max_hops < length path then mf_bfs max_hops g to_pid queue visited
      else (case mf_scan path fl (sub_dict g u) (queue, visited) of
          (queue', visited') \<Rightarrow> mf_bfs max_hops g to_pid queue' visited'))"
  by pat_completeness auto
termination
proof (relation "measure (\<lambda>(max_hops, g, to_pid, queue, visited). length queue + card (graph_targets g - set visited))",
    goal_cases)
  case (3 max_hops g to_pid u path fl queue visited queue' visited')
  have "length queue' + card (graph_targets g - set visited') \<le> length queue + card (graph_targets g - set visited)"
    using mf_scan_unvisited [OF _ sub_dict_targets finite_graph_targets] 3 by (metis prod.collapse)
  then show ?case by simp
qed auto

text \<open>
  Updating one edge of the augmenting path: the forward capacity shrinks and is removed at zero,
  the reverse capacity grows.
\<close>

definition augment_edge :: "amount \<Rightarrow> pid \<times> pid \<Rightarrow> graph \<Rightarrow> graph" where
  "augment_edge fl uv g = (case uv of (u, v) \<Rightarrow>
     let c = edge_get g u v 0 - fl;
         g1 = (if c = 0 then edge_pop u v g else edge_set u v c g)
     in edge_set v u (edge_get g1 v u 0 + fl) g1)"

text \<open>
  The outer loop, which ends only when no path is found: not returning is \<open>None\<close>. The result is
  the accumulated flow, \<open>None\<close> for Infinity, and the augmenting paths.
\<close>

definition flow_add :: "amount option \<Rightarrow> amount option \<Rightarrow> amount option" where
  "flow_add x y = (case (x, y) of (Some a, Some b) \<Rightarrow> Some (a + b) | _ \<Rightarrow> None)"

partial_function (option) max_flow_loop ::
    "nat \<Rightarrow> pid \<Rightarrow> pid \<Rightarrow> graph \<Rightarrow> amount option \<Rightarrow> (pid list \<times> amount option) list
      \<Rightarrow> (amount option \<times> (pid list \<times> amount option) list) option" where
  "max_flow_loop max_hops from_pid to_pid g max_flow paths =
     (case mf_bfs max_hops g to_pid [(from_pid, [from_pid], None)] [from_pid] of
        None \<Rightarrow> Some (max_flow, paths)
      | Some (path, fl) \<Rightarrow>
          max_flow_loop max_hops from_pid to_pid
            (case fl of None \<Rightarrow> g | Some x \<Rightarrow> fold (augment_edge x) (segments_of path) g)
            (flow_add max_flow fl) (paths @ [(path, fl)]))"

record max_flow_response =
  mf_max_amount :: "amount option"
  mf_paths :: "(pid list \<times> amount option) list"

definition calculate_max_flow :: "nat \<Rightarrow> bool \<Rightarrow> router \<Rightarrow> pid \<Rightarrow> pid \<Rightarrow> max_flow_response option" where
  "calculate_max_flow max_flow_max_hops include_metadata rt from_pid to_pid =
     (case max_flow_loop max_flow_max_hops from_pid to_pid (rt_graph rt) (Some 0) [] of None \<Rightarrow> None
      | Some (max_flow, paths) \<Rightarrow>
          Some \<lparr>mf_max_amount = max_flow, mf_paths = (if include_metadata then paths else [])\<rparr>)"

end
