(* ===== verification/Route_Graph.thy ===== *)
theory Route_Graph
  imports Route_Search Sample_Hub
begin

text \<open>
  Capacity graphs as functions of two nodes: lookups after the dict operations, the
  well-formedness that makes iteration and lookup agree, and the effect on every edge of
  allocating or augmenting along a path.
\<close>

section \<open>Nested dictionaries\<close>

lemma sub_dict_edge_set: "sub_dict (edge_set u v x m) u' = (if u' = u then AList.update v x (sub_dict m u) else sub_dict m u')"
  by (simp add: sub_dict_def edge_set_def update_conv')

lemma edge_get_edge_set [simp]:
  "edge_get (edge_set u v x m) u' v' d = (if u' = u \<and> v' = v then x else edge_get m u' v' d)"
  by (auto simp: edge_get_def sub_dict_edge_set update_conv')

lemma sub_dict_edge_pop: "sub_dict (edge_pop u v m) u' = (if u' = u then AList.delete v (sub_dict m u) else sub_dict m u')"
  by (auto simp: sub_dict_def edge_pop_def update_conv' split: option.splits)

lemma edge_get_edge_pop [simp]:
  "edge_get (edge_pop u v m) u' v' d = (if u' = u \<and> v' = v then d else edge_get m u' v' d)"
  by (auto simp: edge_get_def sub_dict_edge_pop delete_conv' split: option.splits)

definition graph_wf :: "('a \<times> ('b \<times> 'c) list) list \<Rightarrow> bool" where
  "graph_wf g \<longleftrightarrow> (\<forall>u. distinct (map fst (sub_dict g u)))"

lemma graph_wf_edge_set [intro]: "graph_wf g \<Longrightarrow> graph_wf (edge_set u v x g)"
  by (auto simp: graph_wf_def sub_dict_edge_set intro: distinct_update)

lemma graph_wf_edge_pop [intro]: "graph_wf g \<Longrightarrow> graph_wf (edge_pop u v g)"
  by (auto simp: graph_wf_def sub_dict_edge_pop intro: distinct_delete)

lemma edge_get_member: "graph_wf g \<Longrightarrow> (v, c) \<in> set (sub_dict g u) \<Longrightarrow> edge_get g u v d = c"
  by (auto simp: edge_get_def graph_wf_def)

lemma edge_get_nonzero_member: "edge_get g u v d = c \<Longrightarrow> c \<noteq> d \<Longrightarrow> (v, c) \<in> set (sub_dict g u)"
  by (auto simp: edge_get_def dest: map_of_SomeD split: option.splits)

lemma map_of_edge_set_None [simp]: "map_of (edge_set u v x g) w = None \<longleftrightarrow> w \<noteq> u \<and> map_of g w = None"
  by (auto simp: edge_set_def update_conv')

lemma map_of_edge_pop_None [simp]: "map_of (edge_pop u v g) w = None \<longleftrightarrow> map_of g w = None"
  by (auto simp: edge_pop_def update_conv' split: option.splits)

section \<open>Segments of a path\<close>

lemma segments_of_simps [simp]:
  "segments_of [] = []" "segments_of [x] = []" "segments_of (x # y # xs) = (x, y) # segments_of (y # xs)"
  by (simp_all add: segments_of_def)

lemma segments_of_snoc: "xs \<noteq> [] \<Longrightarrow> segments_of (xs @ [y]) = segments_of xs @ [(last xs, y)]"
proof (induction xs)
  case (Cons x xs)
  then show ?case by (cases xs) auto
qed simp

lemma segments_in: "(u, v) \<in> set (segments_of xs) \<Longrightarrow> u \<in> set xs \<and> v \<in> set xs"
proof (induction xs)
  case (Cons x xs)
  then show ?case by (cases xs) auto
qed simp

lemma segments_tl: "(u, v) \<in> set (segments_of (x # xs)) \<Longrightarrow> v \<in> set xs"
proof (induction xs arbitrary: x)
  case (Cons y xs)
  then show ?case by auto
qed simp

lemma distinct_segments: "distinct xs \<Longrightarrow> distinct (segments_of xs)"
proof (induction xs)
  case (Cons x xs)
  then show ?case by (cases xs) (auto dest: segments_in)
qed simp

lemma distinct_segments_ne: "distinct path \<Longrightarrow> (p, q) \<in> set (segments_of path) \<Longrightarrow> p \<noteq> q"
proof (induction path)
  case (Cons x xs)
  then show ?case by (cases xs) auto
qed simp

lemma segments_of_map: "segments_of (map f xs) = map (\<lambda>(u, v). (f u, f v)) (segments_of xs)"
proof (induction xs)
  case (Cons x xs)
  then show ?case by (cases xs) auto
qed simp

lemma segments_nil_iff: "segments_of xs = [] \<longleftrightarrow> length xs < 2"
proof (cases xs)
  case (Cons x ys)
  then show ?thesis by (cases ys) auto
qed simp

lemma bottleneck_fold:
  "fold (\<lambda>(u, v) b. cap_min b (edge_get g u v 0)) es b0 =
     (if es = [] then b0 else Some (Min ((\<lambda>(u, v). edge_get g u v 0) ` set es \<union> set_option b0)))"
proof (induction es arbitrary: b0)
  case (Cons e es)
  obtain u v where e: "e = (u, v)" by (cases e)
  let ?c = "\<lambda>(u, v). edge_get g u v 0"
  show ?case
  proof (cases b0)
    case None
    then show ?thesis
      using Cons.IH [of "Some (?c e)"] by (cases "es = []") (auto simp: e cap_min_def)
  next
    case (Some b)
    have "Min (?c ` set es \<union> {min b (?c e)}) = Min (?c ` set (e # es) \<union> {b})" if "es \<noteq> []"
      using that by (simp add: Un_commute min.assoc min.left_commute min.commute)
    then show ?thesis
      using Cons.IH [of "Some (min b (?c e))"] Some by (cases "es = []") (auto simp: e cap_min_def min.commute)
  qed
qed simp

lemma path_bottleneck_None: "path_bottleneck g path = None \<longleftrightarrow> segments_of path = []"
  unfolding path_bottleneck_def bottleneck_fold by simp

lemma path_bottleneck_Some:
  assumes "path_bottleneck g path = Some b"
  shows "(u, v) \<in> set (segments_of path) \<Longrightarrow> b \<le> edge_get g u v 0"
    and "\<exists>(u, v) \<in> set (segments_of path). b = edge_get g u v 0"
proof -
  have ne: "segments_of path \<noteq> []" using assms path_bottleneck_None [of g path] by auto
  have b: "b = Min ((\<lambda>(u, v). edge_get g u v 0) ` set (segments_of path))"
    using assms ne unfolding path_bottleneck_def bottleneck_fold by simp
  show "(u, v) \<in> set (segments_of path) \<Longrightarrow> b \<le> edge_get g u v 0"
    unfolding b by (rule Min_le) (auto simp: image_iff split_beta intro: bexI [where x = "(u, v)"])
  have "b \<in> (\<lambda>(u, v). edge_get g u v 0) ` set (segments_of path)" unfolding b using ne by (intro Min_in) auto
  then show "\<exists>(u, v) \<in> set (segments_of path). b = edge_get g u v 0" by auto
qed

section \<open>Allocation along a path\<close>

lemma allocate_edge_get:
  assumes "x \<le> edge_get g u v 0"
  shows "edge_get (allocate_edge x (u, v) g) u' v' 0 = edge_get g u' v' 0 - (if (u', v') = (u, v) then x else 0)"
  using assms by (auto simp: allocate_edge_def Let_def)

lemma allocate_edge_wf: "graph_wf g \<Longrightarrow> graph_wf (allocate_edge x uv g)"
  by (auto simp: allocate_edge_def Let_def split: prod.splits)

lemma allocate_path_get:
  assumes "distinct es" and "\<forall>(u, v) \<in> set es. x \<le> edge_get g u v 0"
  shows "edge_get (fold (allocate_edge x) es g) u v 0 = edge_get g u v 0 - (if (u, v) \<in> set es then x else 0)"
  using assms
proof (induction es arbitrary: g)
  case (Cons e es)
  obtain a b where e: "e = (a, b)" by (cases e)
  have "\<forall>(u, v) \<in> set es. x \<le> edge_get (allocate_edge x e g) u v 0"
    using Cons.prems by (auto simp: e allocate_edge_get)
  then show ?case using Cons by (auto simp: e allocate_edge_get)
qed simp

lemma allocate_path_wf: "graph_wf g \<Longrightarrow> graph_wf (fold (allocate_edge x) es g)"
  by (induction es arbitrary: g) (auto intro: allocate_edge_wf)

section \<open>Augmentation along a path\<close>

text \<open>
  Augmenting moves the capacity of an edge by an amount that depends on the augmented edge
  alone, so a path of augmentations is a run in the sense of \<open>total_run\<close>.
\<close>

definition augment_delta :: "amount \<times> pid \<times> pid \<Rightarrow> pid \<times> pid \<Rightarrow> amount" where
  "augment_delta f k = (case f of (x, u, v) \<Rightarrow> (if k = (v, u) then x else 0) - (if k = (u, v) then x else 0))"

lemma augment_edge_wf: "graph_wf g \<Longrightarrow> graph_wf (augment_edge x uv g)"
  by (cases uv) (simp add: augment_edge_def Let_def graph_wf_edge_set graph_wf_edge_pop)

lemma augment_edge_get:
  assumes "u \<noteq> v"
  shows "edge_get (augment_edge x (u, v) g) a b 0 = edge_get g a b 0 + augment_delta (x, u, v) (a, b)"
  using assms by (auto simp: augment_edge_def augment_delta_def Let_def)

definition augment_step :: "amount \<times> pid \<times> pid \<Rightarrow> graph \<Rightarrow> exc + graph" where
  "augment_step f g = Inr (augment_edge (fst f) (snd f) g)"

interpretation augment_run: total_run graph_wf "\<lambda>f. fst (snd f) \<noteq> snd (snd f)" augment_step
    "\<lambda>k g. edge_get g (fst k) (snd k) 0" augment_delta
proof
  fix g g' :: graph and f :: "amount \<times> pid \<times> pid" and k :: "pid \<times> pid"
  show "\<exists>g'. augment_step f g = Inr g'" by (simp add: augment_step_def)
  assume wf: "graph_wf g" and f: "fst (snd f) \<noteq> snd (snd f)" and step: "augment_step f g = Inr g'"
  have g': "g' = augment_edge (fst f) (fst (snd f), snd (snd f)) g" using step by (simp add: augment_step_def)
  show "graph_wf g'" unfolding g' by (rule augment_edge_wf [OF wf])
  show "edge_get g' (fst k) (snd k) 0 = edge_get g (fst k) (snd k) 0 + augment_delta f k"
    unfolding g' using augment_edge_get [OF f] by simp
qed

lemma fold_augment_step: "fold_res augment_step (map (Pair x) es) g = Inr (fold (augment_edge x) es g)"
  by (induction es arbitrary: g) (auto simp: augment_step_def)

lemma augment_path:
  assumes "graph_wf g" and "\<forall>(u, v) \<in> set es. u \<noteq> v"
  shows "graph_wf (fold (augment_edge x) es g)"
    and "edge_get (fold (augment_edge x) es g) a b 0
      = edge_get g a b 0 + sum_list (map (\<lambda>uv. augment_delta (x, uv) (a, b)) es)"
proof -
  have ok: "list_all (\<lambda>f. fst (snd f) \<noteq> snd (snd f)) (map (Pair x) es)" using assms(2) by (auto simp: list_all_iff)
  from augment_run.run_effect [OF assms(1) ok fold_augment_step, of "(a, b)"]
  show "graph_wf (fold (augment_edge x) es g)"
    and "edge_get (fold (augment_edge x) es g) a b 0
      = edge_get g a b 0 + sum_list (map (\<lambda>uv. augment_delta (x, uv) (a, b)) es)"
    by (simp_all add: comp_def)
qed

end
