(* ===== verification/Path_Search.thy ===== *)
theory Path_Search
  imports Route_Graph
begin

text \<open>
  The breadth-first path search: what makes a path acceptable, that the search enqueues exactly
  the acceptable extensions, and from that soundness, completeness, minimality and a bound on
  the number of steps.
\<close>

section \<open>Acceptable paths\<close>

text \<open>
  The policies of a path's edges: an edge into an intermediate node must allow it, and no edge
  may block an intermediate node of the path other than its own tail.
\<close>

definition respects_policies :: "router \<Rightarrow> pid \<Rightarrow> pid \<Rightarrow> pid list \<Rightarrow> bool" where
  "respects_policies rt src dst path \<longleftrightarrow> (\<forall>(u, v) \<in> set (segments_of path).
     (v \<noteq> src \<and> v \<noteq> dst \<longrightarrow> edge_allows_intermediate rt u v)
     \<and> (\<forall>w \<in> set path. w \<noteq> src \<and> w \<noteq> dst \<and> w \<in> edge_blocked rt u v \<longrightarrow> w = u))"

definition walk_ok ::
    "router \<Rightarrow> graph \<Rightarrow> pid \<Rightarrow> pid \<Rightarrow> amount \<Rightarrow> int \<Rightarrow> (pid \<times> pid) set \<Rightarrow> pid set \<Rightarrow> pid list \<Rightarrow> bool" where
  "walk_ok rt g src dst v max_hops fe fn path \<longleftrightarrow> path \<noteq> [] \<and> hd path = src \<and> distinct path
     \<and> (length path = 1 \<or> int (length path) - 1 \<le> max_hops) \<and> set path \<inter> fn = {}
     \<and> (\<forall>(u, w) \<in> set (segments_of path). 0 < edge_get g u w 0 \<and> v \<le> edge_get g u w 0 \<and> (u, w) \<notin> fe)
     \<and> respects_policies rt src dst path"

definition valid_path ::
    "router \<Rightarrow> graph \<Rightarrow> pid \<Rightarrow> pid \<Rightarrow> amount \<Rightarrow> int \<Rightarrow> (pid \<times> pid) set \<Rightarrow> pid set \<Rightarrow> pid list \<Rightarrow> bool" where
  "valid_path rt g src dst v max_hops fe fn path \<longleftrightarrow>
     walk_ok rt g src dst v max_hops fe fn path \<and> last path = dst"

definition blocked_on :: "router \<Rightarrow> pid list \<Rightarrow> pid set" where
  "blocked_on rt path = (\<Union>(u, v) \<in> set (segments_of path). edge_blocked rt u v)"

definition item_ok ::
    "router \<Rightarrow> graph \<Rightarrow> pid \<Rightarrow> pid \<Rightarrow> amount \<Rightarrow> int \<Rightarrow> (pid \<times> pid) set \<Rightarrow> pid set \<Rightarrow> queue_item \<Rightarrow> bool" where
  "item_ok rt g src dst v max_hops fe fn item \<longleftrightarrow> (case item of (cur, path, blocked) \<Rightarrow>
     walk_ok rt g src dst v max_hops fe fn path \<and> last path = cur \<and> dst \<notin> set (butlast path)
     \<and> blocked = blocked_on rt path)"

lemma inner_nodes:
  assumes "distinct path" and "path \<noteq> []"
  shows "set (butlast (tl path)) = set path - {hd path, last path}"
proof (cases path)
  case (Cons x xs)
  show ?thesis using Cons assms by (cases xs rule: rev_cases) auto
qed (use assms in simp)

lemma not_in_path: "path \<noteq> [] \<Longrightarrow> x \<notin> set (butlast path) \<Longrightarrow> last path \<noteq> x \<Longrightarrow> x \<notin> set path"
  by (cases path rule: rev_cases) auto

lemma respects_snoc:
  assumes ne: "path \<noteq> []" and d: "distinct (path @ [n])" and hd: "hd path = src" and dst: "dst \<notin> set path"
    and path: "respects_policies rt src dst path"
  shows "respects_policies rt src dst (path @ [n]) \<longleftrightarrow>
    (n \<noteq> dst \<longrightarrow> edge_allows_intermediate rt (last path) n)
    \<and> (n \<noteq> dst \<longrightarrow> n \<notin> blocked_on rt path \<and> n \<notin> edge_blocked rt (last path) n)
    \<and> set (butlast (tl path)) \<inter> edge_blocked rt (last path) n = {}"
proof -
  have src: "src \<in> set path" using ne hd hd_in_set by blast
  then have n: "n \<noteq> src" using d by auto
  have inner: "set (butlast (tl path)) = set path - {src, last path}" using inner_nodes [OF _ ne] d hd by auto
  have old: "(\<forall>w \<in> set (path @ [n]). w \<noteq> src \<and> w \<noteq> dst \<and> w \<in> edge_blocked rt u v \<longrightarrow> w = u)
      \<longleftrightarrow> (n \<noteq> dst \<longrightarrow> n \<notin> edge_blocked rt u v)" if "(u, v) \<in> set (segments_of path)" for u v
    using path that n d segments_in [OF that] unfolding respects_policies_def by fastforce
  have new: "(\<forall>w \<in> set (path @ [n]). w \<noteq> src \<and> w \<noteq> dst \<and> w \<in> edge_blocked rt (last path) n \<longrightarrow> w = last path)
      \<longleftrightarrow> (n \<noteq> dst \<longrightarrow> n \<notin> edge_blocked rt (last path) n) \<and> set (butlast (tl path)) \<inter> edge_blocked rt (last path) n = {}"
    using n d dst ne unfolding inner by auto
  have allow: "v \<noteq> src \<and> v \<noteq> dst \<longrightarrow> edge_allows_intermediate rt u v" if "(u, v) \<in> set (segments_of path)" for u v
    using path that unfolding respects_policies_def by auto
  let ?C = "\<lambda>(u, v). (v \<noteq> src \<and> v \<noteq> dst \<longrightarrow> edge_allows_intermediate rt u v)
     \<and> (\<forall>w \<in> set (path @ [n]). w \<noteq> src \<and> w \<noteq> dst \<and> w \<in> edge_blocked rt u v \<longrightarrow> w = u)"
  have "respects_policies rt src dst (path @ [n]) \<longleftrightarrow> (\<forall>e \<in> set (segments_of path). ?C e) \<and> ?C (last path, n)"
    unfolding respects_policies_def segments_of_snoc [OF ne] set_append [of "segments_of path"] ball_Un
    by (simp del: set_append)
  also have "(\<forall>e \<in> set (segments_of path). ?C e)
      \<longleftrightarrow> (\<forall>(u, v) \<in> set (segments_of path). n \<noteq> dst \<longrightarrow> n \<notin> edge_blocked rt u v)"
    by (rule ball_cong [OF refl]) (use old allow in blast)
  also have "?C (last path, n) \<longleftrightarrow> (n \<noteq> dst \<longrightarrow> edge_allows_intermediate rt (last path) n)
      \<and> (n \<noteq> dst \<longrightarrow> n \<notin> edge_blocked rt (last path) n) \<and> set (butlast (tl path)) \<inter> edge_blocked rt (last path) n = {}"
    using new n by simp
  finally show ?thesis by (auto simp: blocked_on_def)
qed

lemma blocked_on_snoc: "path \<noteq> [] \<Longrightarrow> blocked_on rt (path @ [n]) = blocked_on rt path \<union> edge_blocked rt (last path) n"
  by (auto simp: blocked_on_def segments_of_snoc)

text \<open>The search enqueues an extension exactly when the extended path is acceptable.\<close>

lemma try_neighbor_eq:
  assumes wf: "graph_wf g" and item: "item_ok rt g src dst v max_hops fe fn (cur, path, blocked)"
    and cur: "cur \<noteq> dst" and hops: "int (length path) - 1 < max_hops" and n: "(n, c) \<in> set (sub_dict g cur)"
  shows "try_neighbor rt src dst v fe fn (cur, path, blocked) (n, c) =
    (if walk_ok rt g src dst v max_hops fe fn (path @ [n]) then [(n, path @ [n], blocked_on rt (path @ [n]))] else [])"
proof -
  have walk: "walk_ok rt g src dst v max_hops fe fn path" and last: "last path = cur"
    and b: "blocked = blocked_on rt path" and dst: "dst \<notin> set (butlast path)"
    using item by (auto simp: item_ok_def)
  have ne: "path \<noteq> []" and hd: "hd path = src" and d: "distinct path" using walk by (auto simp: walk_ok_def)
  have dst': "dst \<notin> set path" using not_in_path [OF ne dst] cur last by simp
  have src: "src \<in> set path" using ne hd hd_in_set by blast
  have cap: "edge_get g cur n 0 = c" using edge_get_member [OF wf n] .
  have short: "length path \<le> 2 \<Longrightarrow> set (butlast (tl path)) = {}"
    by (cases path; cases "tl path") auto
  show ?thesis
  proof (cases "n \<in> set path")
    case True
    then show ?thesis by (auto simp: try_neighbor_def walk_ok_def Let_def)
  next
    case False
    have walk': "walk_ok rt g src dst v max_hops fe fn (path @ [n]) \<longleftrightarrow>
        n \<notin> fn \<and> 0 < c \<and> v \<le> c \<and> (cur, n) \<notin> fe \<and> respects_policies rt src dst (path @ [n])"
      using walk False hops ne hd d cap last by (auto simp: walk_ok_def segments_of_snoc)
    have pol: "respects_policies rt src dst path" using walk by (simp add: walk_ok_def)
    have d': "distinct (path @ [n])" using False d by simp
    have "try_neighbor rt src dst v fe fn (cur, path, blocked) (n, c) =
       (if n \<notin> fn \<and> 0 < c \<and> v \<le> c \<and> (cur, n) \<notin> fe \<and> respects_policies rt src dst (path @ [n])
        then [(n, path @ [n], blocked_on rt path \<union> edge_blocked rt cur n)] else [])"
      using False src short unfolding try_neighbor_def respects_snoc [OF ne d' hd dst' pol] last b Let_def
      by (cases "length path \<le> 2") (auto simp: not_le not_less)
    then show ?thesis unfolding walk' using blocked_on_snoc [OF ne] last by simp
  qed
qed

section \<open>The search loop\<close>

definition expand ::
    "router \<Rightarrow> graph \<Rightarrow> pid \<Rightarrow> pid \<Rightarrow> amount \<Rightarrow> (pid \<times> pid) set \<Rightarrow> pid set \<Rightarrow> queue_item \<Rightarrow> queue_item list" where
  "expand rt g src dst v fe fn item = concat (map (try_neighbor rt src dst v fe fn item) (sub_dict g (fst item)))"

abbreviation item_path :: "queue_item \<Rightarrow> pid list" where
  "item_path item \<equiv> fst (snd item)"

lemma expand_items:
  assumes wf: "graph_wf g" and item: "item_ok rt g src dst v max_hops fe fn item"
    and cur: "fst item \<noteq> dst" and hops: "int (length (item_path item)) - 1 < max_hops"
    and new: "new \<in> set (expand rt g src dst v fe fn item)"
  shows "item_ok rt g src dst v max_hops fe fn new" and "length (item_path new) = Suc (length (item_path item))"
proof -
  obtain c path b where i: "item = (c, path, b)" by (cases item)
  have dst: "dst \<notin> set path" 
    using item cur not_in_path [of path dst] by (auto simp: i item_ok_def walk_ok_def)
  obtain n x where n: "(n, x) \<in> set (sub_dict g c)" and "new \<in> set (try_neighbor rt src dst v fe fn (c, path, b) (n, x))"
    using new unfolding i expand_def by auto
  with try_neighbor_eq [OF wf item [unfolded i] _ _ n] cur hops i
  have "new = (n, path @ [n], blocked_on rt (path @ [n]))" "walk_ok rt g src dst v max_hops fe fn (path @ [n])"
    by (auto split: if_splits)
  then show "item_ok rt g src dst v max_hops fe fn new" and "length (item_path new) = Suc (length (item_path item))"
    using dst i by (auto simp: item_ok_def)
qed

lemma bfs_loop_step:
  assumes "fst item \<noteq> dst" and "\<not> max_hops \<le> int (length (item_path item)) - 1"
  shows "bfs_loop rt g src dst v max_hops fe fn (Suc ticks) (item # q)
    = bfs_loop rt g src dst v max_hops fe fn ticks (q @ expand rt g src dst v fe fn item)"
  using assms by (simp add: expand_def)

lemma bfs_loop_sound:
  assumes "graph_wf g" and "\<forall>item \<in> set q. item_ok rt g src dst v max_hops fe fn item"
    and "bfs_loop rt g src dst v max_hops fe fn ticks q = Inr (Some path, ticks')"
  shows "valid_path rt g src dst v max_hops fe fn path"
  using assms
proof (induction rt g src dst v max_hops fe fn ticks q rule: bfs_loop.induct)
  case (3 rt g src dst v max_hops fe fn ticks item q)
  show ?case
  proof (cases "fst item = dst")
    case True
    then show ?thesis using 3(4,5) by (auto simp: valid_path_def item_ok_def split: prod.splits)
  next
    case False
    show ?thesis
    proof (cases "max_hops \<le> int (length (item_path item)) - 1")
      case True
      then show ?thesis using 3(1) [OF False True] 3(3-5) False by auto
    next
      case hops: False
      have "\<forall>new \<in> set (expand rt g src dst v fe fn item). item_ok rt g src dst v max_hops fe fn new"
        using expand_items(1) [OF 3(3) _ False] hops 3(4) by auto
      then show ?thesis using 3(2) [OF False hops 3(3)] 3(4,5) False hops by (auto simp: expand_def)
    qed
  qed
qed auto

text \<open>A prefix of a valid path stays in the queue until the search returns a path.\<close>

definition has_prefix :: "queue_item list \<Rightarrow> pid list \<Rightarrow> bool" where
  "has_prefix q path \<longleftrightarrow> (\<exists>item \<in> set q. \<exists>rest. path = item_path item @ rest)"

lemma segments_prefix: "set (segments_of xs) \<subseteq> set (segments_of (xs @ ys))"
proof (induction xs)
  case (Cons x xs)
  then show ?case by (cases xs; cases ys) auto
qed simp

lemma walk_ok_prefix:
  assumes "walk_ok rt g src dst v max_hops fe fn (xs @ ys)" and "xs \<noteq> []"
  shows "walk_ok rt g src dst v max_hops fe fn xs"
proof -
  have pol: "respects_policies rt src dst xs"
    using assms(1) segments_prefix [of xs ys] unfolding walk_ok_def respects_policies_def by fastforce
  have len: "length xs = 1 \<or> int (length xs) - 1 \<le> max_hops"
    using assms by (cases xs) (auto simp: walk_ok_def)
  show ?thesis
    using assms segments_prefix [of xs ys] pol len unfolding walk_ok_def by auto
qed

lemma expand_prefix:
  assumes wf: "graph_wf g" and item: "item_ok rt g src dst v max_hops fe fn item" and cur: "fst item \<noteq> dst"
    and P: "valid_path rt g src dst v max_hops fe fn (item_path item @ rest)"
  shows "int (length (item_path item)) - 1 < max_hops \<and> has_prefix (expand rt g src dst v fe fn item) (item_path item @ rest)"
proof -
  obtain c path b where i: "item = (c, path, b)" by (cases item)
  have path: "path \<noteq> []" "last path = c" using item by (auto simp: i item_ok_def walk_ok_def)
  have "rest \<noteq> []" using P path cur by (auto simp: i valid_path_def)
  then obtain n rest' where rest: "rest = n # rest'" by (cases rest) auto
  have walk: "walk_ok rt g src dst v max_hops fe fn (path @ n # rest')" using P by (simp add: i rest valid_path_def)
  then have hops: "int (length path) - 1 < max_hops" using path(1) by (auto simp: walk_ok_def)
  have walk': "walk_ok rt g src dst v max_hops fe fn (path @ [n])"
    by (rule walk_ok_prefix [where ys = rest']) (use walk in simp_all)
  then have "0 < edge_get g c n 0" using path by (auto simp: walk_ok_def segments_of_snoc)
  then obtain x where n: "(n, x) \<in> set (sub_dict g c)" using edge_get_nonzero_member [of g c n 0] by auto
  have "(n, path @ [n], blocked_on rt (path @ [n])) \<in> set (expand rt g src dst v fe fn item)"
    using try_neighbor_eq [OF wf item [unfolded i] _ hops n] cur walk' n unfolding expand_def i by (auto intro!: bexI)
  then have "has_prefix (expand rt g src dst v fe fn item) (path @ n # rest')"
    unfolding has_prefix_def by (auto intro!: bexI)
  then show ?thesis using hops by (simp add: i rest)
qed

lemma has_prefix_simps [simp]:
  "has_prefix [] path = False"
  "has_prefix (item # q) path \<longleftrightarrow> (\<exists>rest. path = item_path item @ rest) \<or> has_prefix q path"
  "has_prefix (q @ q') path \<longleftrightarrow> has_prefix q path \<or> has_prefix q' path"
  by (auto simp: has_prefix_def)

lemma bfs_loop_complete:
  assumes "graph_wf g" and "\<forall>item \<in> set q. item_ok rt g src dst v max_hops fe fn item"
    and "valid_path rt g src dst v max_hops fe fn P" and "has_prefix q P"
  shows "bfs_loop rt g src dst v max_hops fe fn ticks q \<noteq> Inr (None, ticks')"
  using assms
proof (induction rt g src dst v max_hops fe fn ticks q rule: bfs_loop.induct)
  case (3 rt g src dst v max_hops fe fn ticks item q)
  show ?case
  proof (cases "fst item = dst")
    case False
    have it: "item_ok rt g src dst v max_hops fe fn item" using 3(4) by simp
    have ext: "int (length (item_path item)) - 1 < max_hops \<and> has_prefix (expand rt g src dst v fe fn item) P"
      if "\<exists>rest. P = item_path item @ rest" using expand_prefix [OF 3(3) it False] 3(5) that by auto
    show ?thesis
    proof (cases "max_hops \<le> int (length (item_path item)) - 1")
      case True
      then have "has_prefix q P" using ext 3(6) by auto
      then show ?thesis using 3(1) [OF False True 3(3)] 3(4,5) False True by simp
    next
      case hops: False
      have "\<forall>new \<in> set (expand rt g src dst v fe fn item). item_ok rt g src dst v max_hops fe fn new"
        using expand_items(1) [OF 3(3) it False] hops by auto
      moreover have "has_prefix (q @ expand rt g src dst v fe fn item) P" using ext 3(6) by auto
      ultimately show ?thesis using 3(2) [OF False hops 3(3)] 3(4,5) False hops by (auto simp: expand_def)
    qed
  qed simp
qed simp_all

text \<open>The queue is ordered by path length, so the first path found is a shortest one.\<close>

definition level_queue :: "queue_item list \<Rightarrow> bool" where
  "level_queue q \<longleftrightarrow> sorted (map (length \<circ> item_path) q)
     \<and> (\<forall>item \<in> set q. length (item_path item) \<le> Suc (length (item_path (hd q))))"

lemma level_queue_tl: "level_queue (item # q) \<Longrightarrow> level_queue q"
  by (cases q) (auto simp: level_queue_def)

lemma level_queue_expand:
  assumes "level_queue (item # q)" and "\<forall>new \<in> set news. length (item_path new) = Suc (length (item_path item))"
  shows "level_queue (q @ news)"
proof -
  have "map (length \<circ> item_path) news = replicate (length news) (Suc (length (item_path item)))"
    using assms(2) by (induction news) auto
  then have "sorted (map (length \<circ> item_path) news)" by simp
  moreover have q: "length (item_path item) \<le> length (item_path it) \<and> length (item_path it) \<le> Suc (length (item_path item))"
    if "it \<in> set q" for it using assms(1) that by (simp add: level_queue_def)
  ultimately have sorted: "sorted (map (length \<circ> item_path) (q @ news))"
    using assms by (simp add: level_queue_def sorted_append)
  have "length (item_path it) \<le> Suc (length (item_path (hd (q @ news))))" if "it \<in> set (q @ news)" for it
  proof -
    have "hd (q @ news) \<in> set (q @ news)" using that by (metis empty_iff empty_set hd_in_set)
    then have "length (item_path item) \<le> length (item_path (hd (q @ news)))" using q assms(2) by (metis Un_iff le_SucI order_refl set_append)
    moreover have "length (item_path it) \<le> Suc (length (item_path item))" using that q assms(2) by (metis Un_iff order_refl set_append)
    ultimately show ?thesis by simp
  qed
  with sorted show ?thesis unfolding level_queue_def by blast
qed

lemma bfs_loop_shortest:
  assumes "graph_wf g" and "\<forall>item \<in> set q. item_ok rt g src dst v max_hops fe fn item" and "level_queue q"
    and "valid_path rt g src dst v max_hops fe fn P" and "has_prefix q P"
    and "bfs_loop rt g src dst v max_hops fe fn ticks q = Inr (Some path, ticks')"
  shows "length path \<le> length P"
  using assms
proof (induction rt g src dst v max_hops fe fn ticks q rule: bfs_loop.induct)
  case (3 rt g src dst v max_hops fe fn ticks item q)
  have it: "item_ok rt g src dst v max_hops fe fn item" using 3(4) by simp
  show ?case
  proof (cases "fst item = dst")
    case True
    obtain it' rest where "it' \<in> set (item # q)" "P = item_path it' @ rest"
      using 3(7) unfolding has_prefix_def by blast
    then have "length (item_path item) \<le> length P" using 3(5) by (auto simp: level_queue_def)
    then show ?thesis using 3(8) True by simp
  next
    case False
    have ext: "int (length (item_path item)) - 1 < max_hops \<and> has_prefix (expand rt g src dst v fe fn item) P"
      if "\<exists>rest. P = item_path item @ rest" using expand_prefix [OF 3(3) it False] 3(6) that by auto
    show ?thesis
    proof (cases "max_hops \<le> int (length (item_path item)) - 1")
      case True
      then have "has_prefix q P" using ext 3(7) by auto
      then show ?thesis using 3(1) [OF False True 3(3)] 3(4,6,8) level_queue_tl [OF 3(5)] False True by simp
    next
      case hops: False
      have new: "item_ok rt g src dst v max_hops fe fn new \<and> length (item_path new) = Suc (length (item_path item))"
        if "new \<in> set (expand rt g src dst v fe fn item)" for new
        using expand_items [OF 3(3) it False _ that] hops by auto
      have pre: "has_prefix (q @ expand rt g src dst v fe fn item) P" using ext 3(7) by auto
      have lev: "level_queue (q @ expand rt g src dst v fe fn item)"
        by (rule level_queue_expand [OF 3(5)]) (use new in blast)
      have ok: "\<forall>item \<in> set (q @ expand rt g src dst v fe fn item). item_ok rt g src dst v max_hops fe fn item"
        using 3(4) new by (metis Un_iff list.set_intros(2) set_append)
      show ?thesis
        using 3(2) [OF False hops 3(3), folded expand_def, OF ok lev 3(6) pre] 3(8) bfs_loop_step [OF False hops] by simp
    qed
  qed
qed simp_all

section \<open>A bound on the search\<close>

definition degree_le :: "nat \<Rightarrow> graph \<Rightarrow> bool" where
  "degree_le B g \<longleftrightarrow> (\<forall>u. length (sub_dict g u) \<le> B)"

definition search_cost :: "nat \<Rightarrow> int \<Rightarrow> queue_item list \<Rightarrow> nat" where
  "search_cost B max_hops q = sum_list (map (\<lambda>item. Suc B ^ (Suc (nat max_hops) - length (item_path item))) q)"

lemma search_cost_simps [simp]:
  "search_cost B mh [] = 0"
  "search_cost B mh (item # q) = Suc B ^ (Suc (nat mh) - length (item_path item)) + search_cost B mh q"
  "search_cost B mh (q @ q') = search_cost B mh q + search_cost B mh q'"
  by (simp_all add: search_cost_def)

lemma try_neighbor_cases:
  "try_neighbor rt src dst v fe fn item nc = []
   \<or> (\<exists>b. try_neighbor rt src dst v fe fn item nc = [(fst nc, item_path item @ [fst nc], b)])"
  by (cases item; cases nc) (simp add: try_neighbor_def Let_def)

lemma try_neighbor_shape:
  "length (try_neighbor rt src dst v fe fn item nc) \<le> 1"
  "new \<in> set (try_neighbor rt src dst v fe fn item nc) \<Longrightarrow> length (item_path new) = Suc (length (item_path item))"
  using try_neighbor_cases [of rt src dst v fe fn item nc] by auto

lemma length_expand: "length (expand rt g src dst v fe fn item) \<le> length (sub_dict g (fst item))"
proof -
  have "length (concat (map (try_neighbor rt src dst v fe fn item) ncs)) \<le> length ncs" for ncs
  proof (induction ncs)
    case (Cons nc ncs)
    then show ?case using try_neighbor_shape(1) [of rt src dst v fe fn item nc] by simp
  qed simp
  then show ?thesis by (simp add: expand_def)
qed

lemma search_cost_expand:
  assumes "degree_le B g" and "\<not> max_hops \<le> int (length (item_path item)) - 1"
  shows "search_cost B max_hops (expand rt g src dst v fe fn item)
    < Suc B ^ (Suc (nat max_hops) - length (item_path item))"
proof -
  let ?k = "nat max_hops - length (item_path item)"
  have k: "Suc (nat max_hops) - length (item_path item) = Suc ?k" using assms(2) by auto
  have "search_cost B max_hops news = length news * Suc B ^ ?k"
    if "\<forall>new \<in> set news. length (item_path new) = Suc (length (item_path item))" for news
    using that by (induction news) auto
  then have "search_cost B max_hops (expand rt g src dst v fe fn item)
      = length (expand rt g src dst v fe fn item) * Suc B ^ ?k"
    using try_neighbor_shape(2) by (auto simp: expand_def)
  also have "\<dots> \<le> B * Suc B ^ ?k"
    using length_expand [of rt g src dst v fe fn item] assms(1) by (auto simp: degree_le_def intro: mult_right_mono order_trans)
  also have "\<dots> < Suc B ^ Suc ?k" by simp
  finally show ?thesis unfolding k .
qed

lemma bfs_loop_bound:
  assumes "degree_le B g" and "search_cost B max_hops q \<le> ticks"
  shows "\<exists>r ticks'. bfs_loop rt g src dst v max_hops fe fn ticks q = Inr (r, ticks')
    \<and> ticks \<le> ticks' + search_cost B max_hops q"
  using assms
proof (induction rt g src dst v max_hops fe fn ticks q rule: bfs_loop.induct)
  case (2 rt g src dst v max_hops fe fn item q)
  then show ?case by simp
next
  case (3 rt g src dst v max_hops fe fn ticks item q)
  let ?w = "Suc B ^ (Suc (nat max_hops) - length (item_path item))"
  have pos: "0 < ?w" by simp
  show ?case
  proof (cases "fst item = dst")
    case False
    show ?thesis
    proof (cases "max_hops \<le> int (length (item_path item)) - 1")
      case True
      have "search_cost B max_hops q \<le> ticks" using 3(4) pos unfolding search_cost_simps by linarith
      from 3(1) [OF False True 3(3) this] obtain r ticks' where
        "bfs_loop rt g src dst v max_hops fe fn ticks q = Inr (r, ticks')" "ticks \<le> ticks' + search_cost B max_hops q" by blast
      moreover from this have "Suc ticks \<le> ticks' + (?w + search_cost B max_hops q)" using pos by linarith
      ultimately show ?thesis using False True by auto
    next
      case hops: False
      have "search_cost B max_hops (expand rt g src dst v fe fn item) < ?w" by (rule search_cost_expand [OF 3(3) hops])
      moreover from this have "search_cost B max_hops (q @ expand rt g src dst v fe fn item) \<le> ticks"
        using 3(4) by simp
      ultimately obtain r ticks' where
        "bfs_loop rt g src dst v max_hops fe fn ticks (q @ expand rt g src dst v fe fn item) = Inr (r, ticks')"
        "ticks \<le> ticks' + search_cost B max_hops (q @ expand rt g src dst v fe fn item)"
        "search_cost B max_hops (expand rt g src dst v fe fn item) < ?w"
        using 3(2) [OF False hops 3(3), folded expand_def] by blast
      then show ?thesis using bfs_loop_step [OF False hops] unfolding search_cost_simps by auto
    qed
  qed (simp add: Suc_le_eq)
qed simp

end
