(* ===== verification/Route_Flow.thy ===== *)
theory Route_Flow
  imports Path_Search
begin

text \<open>
  The route search as a whole: one call of the path search, and the loop that allocates the
  amount over several paths, with the invariant that ties the residual graph to what the
  routes found so far use.
\<close>

section \<open>One call of the path search\<close>

lemma start_item_ok:
  assumes "src \<notin> fn"
  shows "item_ok rt g src dst v max_hops fe fn (src, [src], {})"
  using assms by (auto simp: item_ok_def walk_ok_def respects_policies_def blocked_on_def)

lemma bfs_single_path_sound:
  assumes wf: "graph_wf g" and ne: "g = [] \<Longrightarrow> rt_graph rt = []"
    and bfs: "bfs_single_path rt g src dst v max_hops fe fn ticks = Inr (Some path, ticks')"
  shows "valid_path rt g src dst v max_hops fe fn path"
proof -
  have src: "src \<notin> fn" and loop: "bfs_loop rt g src dst v max_hops fe fn ticks [(src, [src], {})] = Inr (Some path, ticks')"
    using bfs ne by (auto simp: bfs_single_path_def Let_def split: if_splits)
  show ?thesis by (rule bfs_loop_sound [OF wf _ loop]) (use start_item_ok [OF src] in simp)
qed

lemma valid_path_known:
  assumes "valid_path rt g src dst v max_hops fe fn path" and "src \<noteq> dst"
  shows "src \<notin> fn" and "dst \<notin> fn" and "map_of g src \<noteq> None"
proof -
  have path: "path \<noteq> []" "hd path = src" "last path = dst" "set path \<inter> fn = {}"
    using assms(1) by (auto simp: valid_path_def walk_ok_def)
  then show "src \<notin> fn" and "dst \<notin> fn" using hd_in_set last_in_set by blast+
  obtain y ys where "path = src # y # ys"
    using path assms(2) by (cases path; cases "tl path") auto
  then have "0 < edge_get g src y 0" using assms(1) by (simp add: valid_path_def walk_ok_def)
  then show "map_of g src \<noteq> None" by (auto simp: edge_get_def sub_dict_def split: option.splits)
qed

text \<open>
  Every node an edge leads to is a key of the graph, as the graph builder and the allocation
  loop keep it.
\<close>

definition graph_closed :: "graph \<Rightarrow> bool" where
  "graph_closed g \<longleftrightarrow> (\<forall>u w. 0 < edge_get g u w 0 \<longrightarrow> map_of g w \<noteq> None)"

lemma valid_path_target:
  assumes "valid_path rt g src dst v max_hops fe fn path" and "src \<noteq> dst" and "graph_closed g"
  shows "map_of g dst \<noteq> None"
proof -
  have path: "path \<noteq> []" "hd path = src" "last path = dst" using assms(1) by (auto simp: valid_path_def walk_ok_def)
  then obtain ys where ys: "path = ys @ [dst]" by (metis append_butlast_last_id)
  with path assms(2) have "ys \<noteq> []" by auto
  then have "(last ys, dst) \<in> set (segments_of path)" by (simp add: ys segments_of_snoc)
  then have "0 < edge_get g (last ys) dst 0" using assms(1) by (auto simp: valid_path_def walk_ok_def)
  then show ?thesis using assms(3) by (auto simp: graph_closed_def)
qed

lemma bfs_single_path_complete:
  assumes wf: "graph_wf g" "graph_closed g" and ne: "src \<noteq> dst"
    and P: "valid_path rt g src dst v max_hops fe fn P"
  shows "bfs_single_path rt g src dst v max_hops fe fn ticks \<noteq> Inr (None, ticks')"
    and "bfs_single_path rt g src dst v max_hops fe fn ticks = Inr (Some path, ticks') \<Longrightarrow> length path \<le> length P"
proof -
  note known = valid_path_known [OF P ne] valid_path_target [OF P ne wf(2)]
  then have eq: "bfs_single_path rt g src dst v max_hops fe fn ticks
      = bfs_loop rt g src dst v max_hops fe fn ticks [(src, [src], {})]"
    by (auto simp: bfs_single_path_def Let_def)
  have items: "\<forall>item \<in> set [(src, [src], {})]. item_ok rt g src dst v max_hops fe fn item"
    using start_item_ok known by simp
  have "P \<noteq> [] \<and> hd P = src" using P by (auto simp: valid_path_def walk_ok_def)
  then have pre: "has_prefix [(src, [src], {})] P" by (cases P) auto
  show "bfs_single_path rt g src dst v max_hops fe fn ticks \<noteq> Inr (None, ticks')"
    unfolding eq by (rule bfs_loop_complete [OF wf(1) items P pre])
  have level: "level_queue [(src, [src], {})]" by (simp add: level_queue_def)
  show "bfs_single_path rt g src dst v max_hops fe fn ticks = Inr (Some path, ticks') \<Longrightarrow> length path \<le> length P"
    unfolding eq by (rule bfs_loop_shortest [OF wf(1) items level P pre])
qed

lemma bfs_single_path_bound:
  assumes "degree_le B g" and "g = [] \<Longrightarrow> rt_graph rt = []" and "Suc B ^ nat max_hops \<le> ticks"
  shows "\<exists>r ticks'. bfs_single_path rt g src dst v max_hops fe fn ticks = Inr (r, ticks')
    \<and> ticks \<le> ticks' + Suc B ^ nat max_hops"
proof (cases "map_of (if g = [] then rt_graph rt else g) src = None \<or> map_of (if g = [] then rt_graph rt else g) dst = None
    \<or> src \<in> fn \<or> dst \<in> fn")
  case True
  then show ?thesis by (auto simp: bfs_single_path_def Let_def)
next
  case False
  then have "g \<noteq> []" using assms(2) by (auto split: if_splits)
  moreover have "search_cost B max_hops [(src, [src], {})] = Suc B ^ nat max_hops" by simp
  ultimately show ?thesis
    using bfs_loop_bound [OF assms(1), of max_hops "[(src, [src], {})]" ticks rt src dst v fe fn] assms(3) False
    by (auto simp: bfs_single_path_def Let_def)
qed

section \<open>The loop over the routes\<close>

definition load :: "routes \<Rightarrow> pid \<Rightarrow> pid \<Rightarrow> amount" where
  "load routes u w = sum_list (map (\<lambda>(path, a). if (u, w) \<in> set (segments_of path) then a else 0) routes)"

lemma load_simps [simp]:
  "load [] u w = 0"
  "load (routes @ routes') u w = load routes u w + load routes' u w"
  "load ((path, a) # routes) u w = (if (u, w) \<in> set (segments_of path) then a else 0) + load routes u w"
  by (simp_all add: load_def)

lemma load_nonneg: "list_all (\<lambda>(path, a). 0 < a) routes \<Longrightarrow> 0 \<le> load routes u w"
  by (induction routes) (auto simp: load_def)

definition routes_ok :: "router \<Rightarrow> pid \<Rightarrow> pid \<Rightarrow> int \<Rightarrow> pid set \<Rightarrow> routes \<Rightarrow> bool" where
  "routes_ok rt src dst max_hops fn routes \<longleftrightarrow>
     list_all (\<lambda>(path, a). 0 < a \<and> valid_path rt (rt_graph rt) src dst 0 max_hops {} fn path) routes
     \<and> (\<forall>u w. load routes u w \<noteq> 0 \<longrightarrow> load routes u w \<le> edge_get (rt_graph rt) u w 0)"

text \<open>
  An amount and capacities of at most eight decimals; then so is whatever is allocated to a path.
\<close>

definition grid_request :: "router \<Rightarrow> amount \<Rightarrow> bool" where
  "grid_request rt v \<longleftrightarrow> on_grid v \<and> (\<forall>u w. on_grid (edge_get (rt_graph rt) u w 0))"

definition grid_routes :: "routes \<Rightarrow> bool" where
  "grid_routes routes \<longleftrightarrow> (\<forall>r \<in> set routes. on_grid (snd r))"

lemma grid_routes_load: "grid_routes routes \<Longrightarrow> on_grid (load routes u w)"
  unfolding load_def by (rule on_grid_sum_list) (auto simp: grid_routes_def)

definition flow_inv :: "router \<Rightarrow> pid \<Rightarrow> pid \<Rightarrow> int \<Rightarrow> int \<Rightarrow> pid set \<Rightarrow> amount \<Rightarrow> graph \<Rightarrow> amount \<Rightarrow> routes \<Rightarrow> bool" where
  "flow_inv rt src dst max_hops max_paths fn v residual remaining routes \<longleftrightarrow>
     graph_wf residual \<and> (residual = [] \<longrightarrow> rt_graph rt = [])
     \<and> (\<forall>u w. edge_get residual u w 0 + load routes u w = edge_get (rt_graph rt) u w 0)
     \<and> 0 \<le> remaining \<and> sum_list (map snd routes) + remaining = v \<and> int (length routes) \<le> max_paths
     \<and> routes_ok rt src dst max_hops fn routes
     \<and> (grid_request rt v \<longrightarrow> on_grid remaining \<and> grid_routes routes)"

lemma allocate_nonempty: "fold (allocate_edge x) es g = [] \<Longrightarrow> g = []"
proof (induction es arbitrary: g)
  case (Cons e es)
  have "allocate_edge x e g = [] \<Longrightarrow> g = []"
    by (cases e; cases g) (auto simp: allocate_edge_def Let_def edge_set_def edge_pop_def split: if_splits option.splits)
  then show ?case using Cons by simp
qed simp

lemma valid_path_mono:
  assumes "valid_path rt g src dst v max_hops fe fn path" and "\<And>u w. edge_get g u w 0 \<le> edge_get g' u w 0"
  shows "valid_path rt g' src dst v max_hops fe fn path"
  using assms(1) unfolding valid_path_def walk_ok_def
  by (auto split: prod.splits intro: order_trans [OF _ assms(2)] less_le_trans [OF _ assms(2)])

lemma flow_inv_step:
  assumes inv: "flow_inv rt src dst max_hops max_paths fn v residual remaining routes" and rem: "0 < remaining"
    and more: "int (length routes) < max_paths"
    and bfs: "bfs_single_path rt residual src dst 0 max_hops {} fn ticks = Inr (Some path, ticks')"
    and pos: "0 < alloc_of remaining (path_bottleneck residual path)"
  shows "flow_inv rt src dst max_hops max_paths fn v
    (fold (allocate_edge (alloc_of remaining (path_bottleneck residual path))) (segments_of path) residual)
    (remaining - alloc_of remaining (path_bottleneck residual path))
    (routes @ [(path, alloc_of remaining (path_bottleneck residual path))])"
proof -
  let ?a = "alloc_of remaining (path_bottleneck residual path)"
  let ?r' = "fold (allocate_edge ?a) (segments_of path) residual"
  have valid: "valid_path rt residual src dst 0 max_hops {} fn path"
    by (rule bfs_single_path_sound [OF _ _ bfs]) (use inv in \<open>auto simp: flow_inv_def\<close>)
  have dist: "distinct (segments_of path)"
    using valid by (auto simp: valid_path_def walk_ok_def intro: distinct_segments)
  have le: "\<forall>(u, w) \<in> set (segments_of path). ?a \<le> edge_get residual u w 0"
  proof (cases "path_bottleneck residual path")
    case None
    then show ?thesis using path_bottleneck_None by (metis empty_iff empty_set)
  next
    case (Some b)
    then show ?thesis using path_bottleneck_Some(1) [OF Some] by (force simp: alloc_of_def)
  qed
  have rem': "?a \<le> remaining" by (auto simp: alloc_of_def split: option.splits)
  have get: "edge_get ?r' u w 0 = edge_get residual u w 0 - (if (u, w) \<in> set (segments_of path) then ?a else 0)" for u w
    by (rule allocate_path_get [OF dist le])
  have nonneg: "0 \<le> load routes u w" for u w
    by (rule load_nonneg) (use inv in \<open>auto simp: flow_inv_def routes_ok_def list_all_iff\<close>)
  have eq: "edge_get residual u w 0 + load routes u w = edge_get (rt_graph rt) u w 0" for u w
    using inv by (simp add: flow_inv_def)
  have mono: "edge_get residual u w 0 \<le> edge_get (rt_graph rt) u w 0" for u w using eq [of u w] nonneg [of u w] by linarith
  have ok: "list_all (\<lambda>(path, a). 0 < a \<and> valid_path rt (rt_graph rt) src dst 0 max_hops {} fn path) (routes @ [(path, ?a)])"
    using inv pos valid_path_mono [OF valid mono] by (simp add: flow_inv_def routes_ok_def)
  have "load (routes @ [(path, ?a)]) u w \<le> edge_get (rt_graph rt) u w 0" if "load (routes @ [(path, ?a)]) u w \<noteq> 0" for u w
  proof (cases "(u, w) \<in> set (segments_of path)")
    case True
    then have "?a \<le> edge_get residual u w 0" using le by auto
    then show ?thesis using True eq [of u w] by simp
  next
    case False
    then show ?thesis using inv that by (auto simp: flow_inv_def routes_ok_def)
  qed
  moreover have "on_grid ?a \<and> on_grid remaining \<and> grid_routes routes" if grid: "grid_request rt v"
  proof -
    have part: "on_grid remaining" "grid_routes routes" using inv grid by (simp_all add: flow_inv_def)
    have "on_grid (edge_get residual u w 0)" for u w
      using on_grid_closed(3) [OF _ grid_routes_load [OF part(2)], of "edge_get (rt_graph rt) u w 0"] grid eq [of u w]
      by (metis add_diff_cancel_right' grid_request_def)
    then have "on_grid b" if "path_bottleneck residual path = Some b" for b
      using path_bottleneck_Some(2) [OF that] by auto
    then have "on_grid ?a" using part(1) by (auto simp: alloc_of_def split: option.splits)
    then show ?thesis using part by blast
  qed
  ultimately show ?thesis
    using inv ok rem' more get eq allocate_nonempty [of ?a "segments_of path" residual]
    by (auto simp: flow_inv_def routes_ok_def grid_routes_def intro: allocate_path_wf)
qed

lemma flow_loop_inv:
  assumes "flow_inv rt src dst max_hops max_paths fn v residual remaining routes"
    and "flow_loop rt src dst max_hops max_paths fn ticks residual remaining routes = Inr (routes', remaining')"
  shows "\<exists>residual'. flow_inv rt src dst max_hops max_paths fn v residual' remaining' routes'"
  using assms
proof (induction rt src dst max_hops max_paths fn ticks residual remaining routes rule: flow_loop.induct)
  case (1 rt src dst max_hops max_paths fn ticks residual remaining routes)
  show ?case
  proof (cases "routes' = routes \<and> remaining' = remaining")
    case True
    then show ?thesis using 1(2) by blast
  next
    case False
    let ?bfs = "bfs_single_path rt residual src dst 0 max_hops {} fn (ticks - 1)"
    have go: "0 < remaining \<and> int (length routes) < max_paths" and t: "ticks \<noteq> 0"
      using 1(3) False by (subst (asm) flow_loop.simps, auto split: if_splits)+
    obtain path ticks' where bfs: "?bfs = Inr (Some path, ticks')"
      using 1(3) False go t
      by (subst (asm) flow_loop.simps) (auto split: sum.splits option.splits prod.splits)
    let ?b = "path_bottleneck residual path" let ?a = "alloc_of remaining ?b"
    have nb: "\<not> (path = [] \<or> (case ?b of None \<Rightarrow> False | Some b \<Rightarrow> b \<le> 0))" and na: "\<not> ?a \<le> 0"
      using 1(3) False go t bfs by (subst (asm) flow_loop.simps, auto simp: Let_def split: if_splits)+
    have rec: "flow_loop rt src dst max_hops max_paths fn ticks' (fold (allocate_edge ?a) (segments_of path) residual)
        (remaining - ?a) (routes @ [(path, ?a)]) = Inr (routes', remaining')"
      using 1(3) go t bfs nb na by (subst (asm) flow_loop.simps) (simp add: Let_def)
    have "flow_inv rt src dst max_hops max_paths fn v (fold (allocate_edge ?a) (segments_of path) residual)
        (remaining - ?a) (routes @ [(path, ?a)])"
      by (rule flow_inv_step [OF 1(2) _ _ bfs]) (use go na in auto)
    from 1(1) [OF _ t bfs refl refl refl nb refl na this rec] go show ?thesis by blast
  qed
qed

lemma find_flow_routes_inv:
  assumes wf: "graph_wf (rt_graph rt)"
    and find: "find_flow_routes rt src dst v max_hops max_paths avoid ticks = Inr routes" and ne: "routes \<noteq> []"
  shows "0 < v \<and> (\<exists>residual. flow_inv rt src dst max_hops max_paths (forbidden_of avoid) v residual 0 routes)"
proof -
  obtain remaining where v: "0 < v" "0 < max_paths"
    and loop: "flow_loop rt src dst max_hops max_paths (forbidden_of avoid) ticks (rt_graph rt) v [] = Inr (routes, remaining)"
    and rem: "\<not> 0 < remaining"
    using find ne by (auto simp: find_flow_routes_def split: if_splits sum.splits prod.splits)
  have "flow_inv rt src dst max_hops max_paths (forbidden_of avoid) v (rt_graph rt) v []"
    using wf v by (auto simp: flow_inv_def routes_ok_def grid_request_def grid_routes_def)
  from flow_loop_inv [OF this loop] obtain residual where
    inv: "flow_inv rt src dst max_hops max_paths (forbidden_of avoid) v residual remaining routes" by blast
  then have "remaining = 0" using rem by (simp add: flow_inv_def)
  then show ?thesis using inv v(1) by blast
qed

lemma find_flow_routes_cases:
  assumes "graph_wf (rt_graph rt)"
    and "find_flow_routes rt src dst v max_hops max_paths avoid ticks = Inr routes" and "routes \<noteq> []"
  shows "0 < v \<and> sum_list (map snd routes) = v \<and> int (length routes) \<le> max_paths
    \<and> routes_ok rt src dst max_hops (forbidden_of avoid) routes"
  using find_flow_routes_inv [OF assms] by (auto simp: flow_inv_def)

lemma find_flow_routes_grid:
  assumes "graph_wf (rt_graph rt)"
    and "find_flow_routes rt src dst v max_hops max_paths avoid ticks = Inr routes" and "routes \<noteq> []"
    and "grid_request rt v"
  shows "grid_routes routes"
  using find_flow_routes_inv [OF assms(1-3)] assms(4) by (auto simp: flow_inv_def)

section \<open>A bound for the whole search\<close>

lemma degree_allocate:
  assumes "0 \<le> x" and "degree_le B g"
  shows "degree_le B (allocate_edge x uv g)"
proof -
  obtain u w where uv: "uv = (u, w)" by (cases uv)
  have "length (AList.delete w d) \<le> length d" for d :: "(pid \<times> amount) list" by (simp add: AList.delete_eq)
  then have pop: "degree_le B (edge_pop u w g)"
    using assms(2) by (auto simp: degree_le_def sub_dict_edge_pop intro: order_trans)
  have "degree_le B (edge_set u w c g)" if "edge_get g u w 0 \<noteq> 0" for c
  proof -
    have "w \<in> fst ` set (sub_dict g u)"
      using edge_get_nonzero_member [OF refl that] by force
    then have "map fst (AList.update w c (sub_dict g u)) = map fst (sub_dict g u)" by (simp add: update_keys)
    then have "length (AList.update w c (sub_dict g u)) = length (sub_dict g u)" by (rule map_eq_imp_length_eq)
    then show ?thesis using assms(2) by (simp add: degree_le_def sub_dict_edge_set)
  qed
  then show ?thesis using pop assms(1) by (auto simp: uv allocate_edge_def Let_def)
qed

lemma degree_allocate_path: "0 \<le> x \<Longrightarrow> degree_le B g \<Longrightarrow> degree_le B (fold (allocate_edge x) es g)"
  by (induction es arbitrary: g) (auto intro: degree_allocate)

lemma flow_loop_bound:
  assumes "degree_le B residual" and "residual = [] \<Longrightarrow> rt_graph rt = []"
    and "nat (max_paths - int (length routes)) * Suc (Suc B ^ nat max_hops) \<le> ticks"
  shows "\<exists>r. flow_loop rt src dst max_hops max_paths fn ticks residual remaining routes = Inr r"
  using assms
proof (induction rt src dst max_hops max_paths fn ticks residual remaining routes rule: flow_loop.induct)
  case (1 rt src dst max_hops max_paths fn ticks residual remaining routes)
  show ?case
  proof (cases "0 < remaining \<and> int (length routes) < max_paths")
    case False
    then show ?thesis by (subst flow_loop.simps) simp
  next
    case go: True
    let ?n = "nat (max_paths - int (length (routes @ [x])))" and ?W = "Suc B ^ nat max_hops"
    have n: "nat (max_paths - int (length routes)) = Suc (nat (max_paths - int (Suc (length routes))))" using go by auto
    have ticks: "Suc ?W + nat (max_paths - int (Suc (length routes))) * Suc ?W \<le> ticks" using 1(4) unfolding n by simp
    then have t: "ticks \<noteq> 0" and w: "?W \<le> ticks - 1" by auto
    obtain r ticks' where bfs: "bfs_single_path rt residual src dst 0 max_hops {} fn (ticks - 1) = Inr (r, ticks')"
      and used: "ticks - 1 \<le> ticks' + ?W"
      using bfs_single_path_bound [OF 1(2,3) w, of src dst 0 "{}" fn] by blast
    show ?thesis
    proof (cases r)
      case None
      then show ?thesis using go t bfs by (subst flow_loop.simps) simp
    next
      case (Some path)
      let ?b = "path_bottleneck residual path" let ?a = "alloc_of remaining ?b"
      show ?thesis
      proof (cases "path = [] \<or> (case ?b of None \<Rightarrow> False | Some b \<Rightarrow> b \<le> 0) \<or> ?a \<le> 0")
        case True
        then show ?thesis using go t bfs Some by (subst flow_loop.simps) (auto simp: Let_def)
      next
        case cont: False
        have deg: "degree_le B (fold (allocate_edge ?a) (segments_of path) residual)"
          using degree_allocate_path 1(2) cont by simp
        have "nat (max_paths - int (length (routes @ [(path, ?a)]))) * Suc ?W \<le> ticks'" using used ticks by simp
        then have "\<exists>r. flow_loop rt src dst max_hops max_paths fn ticks' (fold (allocate_edge ?a) (segments_of path) residual)
            (remaining - ?a) (routes @ [(path, ?a)]) = Inr r"
          using 1(1) [OF _ t bfs [unfolded Some] refl refl refl _ refl _ deg] go cont 1(3) allocate_nonempty by blast
        then show ?thesis using go t bfs Some cont by (subst flow_loop.simps) (simp add: Let_def)
      qed
    qed
  qed
qed

end
