(* ===== verification/Route_Build.thy ===== *)
theory Route_Build
  imports Route_Flow
begin

text \<open>
  What the graph builder computes from a well-formed database: it does not raise, and the
  capacity of an edge is that of the segment less what live locks reserve, for the pairs with an
  active trust line and room left.
\<close>

section \<open>Participants\<close>

definition participants_wf :: "db \<Rightarrow> bool" where
  "participants_wf db \<longleftrightarrow> distinct (map part_id (participants db)) \<and> distinct (map part_pid (participants db))
     \<and> list_all (\<lambda>r. part_pid r \<noteq> []) (participants db)"

definition has_pid :: "db \<Rightarrow> uuid \<Rightarrow> pid \<Rightarrow> bool" where
  "has_pid db i p \<longleftrightarrow> (\<exists>r \<in> set (participants db). part_id r = i \<and> part_pid r = p)"

lemma has_pid_unique:
  assumes "participants_wf db"
  shows "has_pid db i p \<Longrightarrow> has_pid db i p' \<Longrightarrow> p' = p" and "has_pid db i p \<Longrightarrow> has_pid db i' p \<Longrightarrow> i' = i"
  using assms distinct_map_unique [of part_id "participants db"] distinct_map_unique [of part_pid "participants db"]
  by (fastforce simp: participants_wf_def has_pid_def)+

lemma id_of_pid_iff:
  assumes "participants_wf db"
  shows "id_of_pid p db = Some i \<longleftrightarrow> has_pid db i p"
proof
  assume "id_of_pid p db = Some i"
  then show "has_pid db i p" by (auto simp: id_of_pid_def has_pid_def dest: find_SomeD)
next
  assume "has_pid db i p"
  then obtain r where r: "r \<in> set (participants db)" "part_id r = i" "part_pid r = p" by (auto simp: has_pid_def)
  have "find (\<lambda>r. part_pid r = p) (participants db) = Some r"
    by (rule find_unique) (use r assms distinct_map_unique [of part_pid "participants db"] in \<open>auto simp: participants_wf_def\<close>)
  then show "id_of_pid p db = Some i" using r by (simp add: id_of_pid_def)
qed

lemma pid_of_init_nodes:
  assumes wf: "participants_wf db"
  shows "pid_of (init_nodes (filter (\<lambda>r. part_id r \<in> A) (participants db)) rt) i = Some p
    \<longleftrightarrow> i \<in> A \<and> has_pid db i p"
proof -
  let ?rows = "filter (\<lambda>r. part_id r \<in> A) (participants db)"
  have dist: "distinct (map fst (map (\<lambda>r. (part_id r, part_pid r)) ?rows))"
    using wf by (simp add: participants_wf_def comp_def distinct_map_filter)
  have "map_of (map (\<lambda>r. (part_id r, part_pid r)) ?rows) i = Some p \<longleftrightarrow> i \<in> A \<and> has_pid db i p"
    unfolding map_of_eq_Some_iff [OF dist] by (auto simp: has_pid_def)
  moreover have "has_pid db i p \<Longrightarrow> p \<noteq> []" using wf by (auto simp: has_pid_def participants_wf_def list_all_iff)
  ultimately show ?thesis
    by (auto simp: pid_of_def init_nodes_def Let_def split: option.splits if_splits)
qed

section \<open>Reservations by PID\<close>

definition pids_inj :: "router \<Rightarrow> bool" where
  "pids_inj rt \<longleftrightarrow> (\<forall>x y p. pid_of rt x = Some p \<longrightarrow> pid_of rt y = Some p \<longrightarrow> x = y)"

definition reserved_matches :: "router \<Rightarrow> reserved_map \<Rightarrow> (uuid \<Rightarrow> uuid \<Rightarrow> amount) \<Rightarrow> bool" where
  "reserved_matches rt m acc \<longleftrightarrow> (\<forall>x y p q. pid_of rt x = Some p \<longrightarrow> pid_of rt y = Some q
     \<longrightarrow> reserved_get m (p, q) = Fin (acc x y))"

lemma reserve_flow_step:
  assumes inj: "pids_inj rt" and m: "reserved_matches rt m acc" and f: "parse_flow raw = Inr f"
  shows "\<exists>m'. router_reserve_flow rt e raw m = Inr m'
    \<and> reserved_matches rt m' (\<lambda>x y. acc x y + seg_sum x y e [f])"
proof -
  obtain v where raw: "raw = RawFlow (Some (fl_equivalent f)) (Some (fl_from f)) (Some (fl_to f)) (Some (Fin v))"
    and v: "fl_amount f = v"
    using f by (auto simp: parse_flow_def split: raw_flow.splits option.splits pydec.splits if_splits)
  show ?thesis
  proof (cases "fl_equivalent f = e \<and> pid_of rt (fl_from f) \<noteq> None \<and> pid_of rt (fl_to f) \<noteq> None")
    case False
    have "router_reserve_flow rt e raw m = Inr m"
      using False by (auto simp: router_reserve_flow_def raw split: option.splits)
    moreover have "reserved_matches rt m (\<lambda>x y. acc x y + seg_sum x y e [f])"
      using m False unfolding reserved_matches_def by auto
    ultimately show ?thesis by blast
  next
    case True
    then obtain p q where pq: "pid_of rt (fl_from f) = Some p" "pid_of rt (fl_to f) = Some q" by auto
    then have "reserved_get m (p, q) = Fin (acc (fl_from f) (fl_to f))" using m by (simp add: reserved_matches_def)
    then have step: "router_reserve_flow rt e raw m
        = Inr (AList.update (p, q) (Fin (acc (fl_from f) (fl_to f) + v)) m)"
      using True pq by (simp add: router_reserve_flow_def raw)
    have "reserved_matches rt (AList.update (p, q) (Fin (acc (fl_from f) (fl_to f) + v)) m)
        (\<lambda>x y. acc x y + seg_sum x y e [f])"
      unfolding reserved_matches_def
    proof (intro allI impI)
      fix x y p' q' assume xy: "pid_of rt x = Some p'" "pid_of rt y = Some q'"
      have "(p', q') = (p, q) \<longleftrightarrow> fl_from f = x \<and> fl_to f = y"
        using xy pq inj unfolding pids_inj_def by (metis option.inject prod.inject)
      then show "reserved_get (AList.update (p, q) (Fin (acc (fl_from f) (fl_to f) + v)) m) (p', q')
          = Fin (acc x y + seg_sum x y e [f])"
        using m xy True v by (auto simp: reserved_get_def update_conv' reserved_matches_def)
    qed
    with step show ?thesis by blast
  qed
qed

lemma reserve_flows_step:
  assumes inj: "pids_inj rt" and raws: "list_all2 (\<lambda>x y. parse_flow x = Inr y) raws fs" and m: "reserved_matches rt m acc"
  shows "\<exists>m'. fold_res (router_reserve_flow rt e) raws m = Inr m'
    \<and> reserved_matches rt m' (\<lambda>x y. acc x y + seg_sum x y e fs)"
  using raws m
proof (induction raws fs arbitrary: m acc rule: list_all2_induct)
  case Nil
  then show ?case by simp
next
  case (Cons raw raws f fs)
  obtain m1 where m1: "router_reserve_flow rt e raw m = Inr m1"
    "reserved_matches rt m1 (\<lambda>x y. acc x y + seg_sum x y e [f])"
    using reserve_flow_step [OF inj Cons.prems Cons.hyps(1)] by blast
  from Cons.IH [OF m1(2)] m1(1) show ?case by (simp add: add.assoc)
qed

lemma reserve_locks_step:
  assumes inj: "pids_inj rt" and "list_all lock_wf ls" and "reserved_matches rt m acc"
  shows "\<exists>m'. fold_res (router_reserve_lock rt e) ls m = Inr m'
    \<and> reserved_matches rt m' (\<lambda>x y. acc x y + sum_list (map (\<lambda>l. seg_sum x y e (flows_of_lock l)) ls))"
  using assms(2,3)
proof (induction ls arbitrary: m acc)
  case (Cons l ls)
  then obtain raws where raws: "lock_effects l = Flows raws"
    "list_all2 (\<lambda>x y. parse_flow x = Inr y) raws (flows_of_lock l)"
    using lock_wf_parse(3) [of l] by auto
  obtain m1 where m1: "router_reserve_lock rt e l m = Inr m1"
    "reserved_matches rt m1 (\<lambda>x y. acc x y + seg_sum x y e (flows_of_lock l))"
    using reserve_flows_step [OF inj raws(2) Cons.prems(2)] raws(1) by (auto simp: router_reserve_lock_def iter_flows_def)
  from Cons.IH [OF _ m1(2)] Cons.prems m1(1) show ?case by (auto simp: add.assoc)
qed simp

section \<open>Edges from trust lines\<close>

text \<open>The contribution of one line, and the builder's loop as an additive run.\<close>

definition line_capacity :: "uuid \<Rightarrow> db \<Rightarrow> trust_line \<Rightarrow> amount" where
  "line_capacity e db l = tl_limit l - owes db (tl_to l) (tl_from l) e + owes db (tl_from l) (tl_to l) e
     - reserved db (tl_to l) (tl_from l) e"

definition line_edge :: "router \<Rightarrow> trust_line \<Rightarrow> pid \<times> pid \<Rightarrow> bool" where
  "line_edge rt l k \<longleftrightarrow> pid_of rt (tl_to l) = Some (fst k) \<and> pid_of rt (tl_from l) = Some (snd k)"

lemma rt_pids_add [simp]:
  "rt_pids (add_capacity u v x rt) = rt_pids rt" "rt_pids (set_edge_policy u v b rt) = rt_pids rt"
  "rt_pids (set_edge_blocked_participants u v B rt) = rt_pids rt"
  "rt_graph (set_edge_policy u v b rt) = rt_graph rt" "rt_graph (set_edge_blocked_participants u v B rt) = rt_graph rt"
  by (simp_all add: add_capacity_def set_edge_policy_def set_edge_blocked_participants_def)

lemma pid_of_cong: "rt_pids rt' = rt_pids rt \<Longrightarrow> pid_of rt' = pid_of rt"
  by (rule ext) (simp add: pid_of_def)

lemma debt_map_get_eq:
  assumes "debts_wf db"
  shows "debt_map_get (filter (\<lambda>d. debt_equivalent d = e) (debts db)) x y = owes db x y e"
proof (cases "get_debt x y e db")
  case None
  then have "find (\<lambda>d. debtor_id d = x \<and> creditor_id d = y) (rev (filter (\<lambda>d. debt_equivalent d = e) (debts db))) = None"
    by (auto simp: find_None_iff get_debt_None_iff debt_key_def)
  then show ?thesis using None by (simp add: debt_map_get_def owes_def)
next
  case (Some d)
  then have d: "d \<in> set (debts db)" "debt_key d = (x, y, e)" using assms by (auto simp: get_debt_iff)
  have "find (\<lambda>d. debtor_id d = x \<and> creditor_id d = y) (rev (filter (\<lambda>d. debt_equivalent d = e) (debts db))) = Some d"
  proof (rule find_unique)
    fix r assume "r \<in> set (rev (filter (\<lambda>d. debt_equivalent d = e) (debts db)))" "debtor_id r = x \<and> creditor_id r = y"
    then have "get_debt x y e db = Some r" using assms by (simp add: get_debt_iff debt_key_def)
    then show "r = d" using Some by simp
  qed (use d in \<open>simp_all add: debt_key_def\<close>)
  then show ?thesis using Some by (simp add: debt_map_get_def owes_def)
qed

definition lines_inv :: "router \<Rightarrow> router \<Rightarrow> bool" where
  "lines_inv rt0 rt \<longleftrightarrow> rt_pids rt = rt_pids rt0 \<and> graph_wf (rt_graph rt)
     \<and> dom (map_of (rt_graph rt0)) \<subseteq> dom (map_of (rt_graph rt))"

lemma dom_edge_set: "dom (map_of (edge_set u v x g)) = insert u (dom (map_of g))"
  by (auto simp: edge_set_def update_conv')

lemma add_line_step:
  assumes wf: "debts_wf db" and m: "reserved_matches rt0 m (\<lambda>x y. reserved db x y e)" and inv: "lines_inv rt0 rt"
  shows "\<exists>rt'. add_line (filter (\<lambda>d. debt_equivalent d = e) (debts db)) m l rt = Inr rt' \<and> lines_inv rt0 rt'
    \<and> (\<forall>k. edge_get (rt_graph rt') (fst k) (snd k) 0 = edge_get (rt_graph rt) (fst k) (snd k) 0
         + (if line_edge rt0 l k then max 0 (line_capacity e db l) else 0))"
proof (cases "pid_of rt0 (tl_from l) = None \<or> pid_of rt0 (tl_to l) = None")
  case True
  then have "add_line (filter (\<lambda>d. debt_equivalent d = e) (debts db)) m l rt = Inr rt"
    using inv pid_of_cong [of rt rt0] by (auto simp: add_line_def lines_inv_def split: option.splits)
  then show ?thesis using True inv by (auto simp: line_edge_def)
next
  case False
  then obtain c d where cd: "pid_of rt0 (tl_from l) = Some c" "pid_of rt0 (tl_to l) = Some d" by auto
  have res: "reserved_get m (d, c) = Fin (reserved db (tl_to l) (tl_from l) e)"
    using m cd by (simp add: reserved_matches_def)
  have pids: "pid_of rt = pid_of rt0" by (rule pid_of_cong) (use inv in \<open>simp add: lines_inv_def\<close>)
  show ?thesis
  proof (cases "0 < line_capacity e db l")
    case True
    then show ?thesis
      using cd res pids inv
      by (auto simp: add_line_def Let_def debt_map_get_eq [OF wf] line_capacity_def line_edge_def lines_inv_def
          add_capacity_def graph_wf_edge_set dom_edge_set max_def)
  next
    case False
    then show ?thesis
      using cd res pids inv
      by (auto simp: add_line_def Let_def debt_map_get_eq [OF wf] line_capacity_def line_edge_def max_def)
  qed
qed

lemma add_lines_run:
  assumes wf: "debts_wf db" and m: "reserved_matches rt0 m (\<lambda>x y. reserved db x y e)" and inv: "lines_inv rt0 rt"
  shows "\<exists>rt'. fold_res (add_line (filter (\<lambda>d. debt_equivalent d = e) (debts db)) m) ls rt = Inr rt' \<and> lines_inv rt0 rt'
    \<and> (\<forall>k. edge_get (rt_graph rt') (fst k) (snd k) 0 = edge_get (rt_graph rt) (fst k) (snd k) 0
         + sum_list (map (\<lambda>l. if line_edge rt0 l k then max 0 (line_capacity e db l) else 0) ls))"
proof -
  let ?step = "add_line (filter (\<lambda>d. debt_equivalent d = e) (debts db)) m"
  have run: "total_run (lines_inv rt0) (\<lambda>_. True) ?step (\<lambda>k rt. edge_get (rt_graph rt) (fst k) (snd k) 0)
      (\<lambda>l k. if line_edge rt0 l k then max 0 (line_capacity e db l) else 0)"
    by unfold_locales (metis add_line_step [OF wf m] sum.inject(2))+
  show ?thesis
    using total_run.run_total [OF run inv] additive_run.run_effect [OF total_run.axioms(1) [OF run] inv] by (auto simp: list_all_iff) blast
qed

lemma sum_list_if_none:
  "(\<And>x. x \<in> set xs \<Longrightarrow> \<not> P x) \<Longrightarrow> sum_list (map (\<lambda>x. if P x then f x else 0) xs) = (0 :: rat)"
  by (induction xs) auto

lemma sum_list_find:
  assumes "\<And>x y. x \<in> set xs \<Longrightarrow> y \<in> set xs \<Longrightarrow> P x \<Longrightarrow> P y \<Longrightarrow> x = y" and "distinct xs"
  shows "sum_list (map (\<lambda>x. if P x then f x else 0) xs) = (case find P xs of None \<Rightarrow> 0 | Some x \<Rightarrow> (f x :: rat))"
  using assms
proof (induction xs)
  case (Cons a xs)
  show ?case
  proof (cases "P a")
    case True
    then have "\<not> P x" if "x \<in> set xs" for x using Cons.prems that by (metis distinct.simps(2) list.set_intros)
    then have "sum_list (map (\<lambda>x. if P x then f x else 0) xs) = 0" by (rule sum_list_if_none)
    then show ?thesis using True by simp
  qed (use Cons in auto)
qed simp

section \<open>The built graph\<close>

lemma lock_ids_wf:
  assumes "list_all lock_wf ls"
  shows "\<exists>idss. map_res lock_ids ls = Inr idss \<and> (ls \<noteq> [] \<longrightarrow> concat idss \<noteq> [])"
proof -
  have each: "\<exists>ids. lock_ids l = Inr ids \<and> ids \<noteq> []" if "lock_wf l" for l
    using lock_wf_parse(3) [OF that] by (auto simp: lock_ids_def iter_flows_def)
  show ?thesis
    using assms
  proof (induction ls)
    case (Cons l ls)
    obtain ids where "lock_ids l = Inr ids" "ids \<noteq> []" using each [of l] Cons.prems by auto
    moreover obtain idss where "map_res lock_ids ls = Inr idss" using Cons by auto
    ultimately show ?case by auto
  qed simp
qed

definition usable_capacity :: "uuid \<Rightarrow> db \<Rightarrow> pid \<Rightarrow> pid \<Rightarrow> amount" where
  "usable_capacity e db p q = (case (id_of_pid p db, id_of_pid q db) of
     (Some x, Some y) \<Rightarrow> (if get_active_line y x e db = None then 0
         else max 0 (segment_capacity x y e db - reserved db x y e))
   | _ \<Rightarrow> 0)"

lemma line_capacity_eq:
  assumes "trust_lines_wf db" and "get_active_line y x e db = Some l"
  shows "line_capacity e db l = segment_capacity x y e db - reserved db x y e"
proof -
  have "tl_from l = y" "tl_to l = x" using assms by (simp_all add: get_active_line_iff tl_key_def)
  then show ?thesis using assms(2) by (simp add: line_capacity_def segment_capacity_def active_limit_def)
qed

lemma lines_sum:
  assumes inv: "trust_lines_wf db" and pwf: "participants_wf db"
    and pids: "\<And>i p. pid_of rt i = Some p \<longleftrightarrow> i \<in> A \<and> has_pid db i p"
    and A: "\<forall>l \<in> set (active_lines_of e db). tl_from l \<in> A \<and> tl_to l \<in> A"
  shows "sum_list (map (\<lambda>l. if line_edge rt l (p, q) then max 0 (line_capacity e db l) else 0) (active_lines_of e db))
    = usable_capacity e db p q"
proof -
  let ?ls = "active_lines_of e db"
  have key: "l = l'" if "l \<in> set ?ls" "l' \<in> set ?ls" "line_edge rt l (p, q)" "line_edge rt l' (p, q)" for l l'
  proof -
    have "tl_from l = tl_from l'" "tl_to l = tl_to l'"
      using that(3,4) has_pid_unique(2) [OF pwf] by (auto simp: line_edge_def pids)
    then have "tl_key l = tl_key l'" using that(1,2) by (simp add: tl_key_def active_lines_of_def)
    then have "get_active_line (tl_from l) (tl_to l) e db = Some l" "get_active_line (tl_from l) (tl_to l) e db = Some l'"
      using that(1,2) unfolding get_active_line_iff [OF inv] by (auto simp: tl_key_def active_lines_of_def)
    then show ?thesis by simp
  qed
  have "distinct (map tl_id (trust_lines db))" using inv by (simp add: trust_lines_wf_def)
  then have dist: "distinct ?ls" by (simp add: distinct_map active_lines_of_def)
  have edge: "line_edge rt l (p, q) \<longleftrightarrow> id_of_pid p db = Some (tl_to l) \<and> id_of_pid q db = Some (tl_from l)"
    if "l \<in> set ?ls" for l
    using A that by (auto simp: line_edge_def pids id_of_pid_iff [OF pwf])
  have sum: "sum_list (map (\<lambda>l. if line_edge rt l (p, q) then max 0 (line_capacity e db l) else 0) ?ls)
      = (case find (\<lambda>l. line_edge rt l (p, q)) ?ls of None \<Rightarrow> 0 | Some l \<Rightarrow> max 0 (line_capacity e db l))"
    by (rule sum_list_find [OF key dist])
  show ?thesis
  proof (cases "find (\<lambda>l. line_edge rt l (p, q)) ?ls")
    case None
    have "get_active_line y x e db = None" if "id_of_pid p db = Some x" "id_of_pid q db = Some y" for x y
    proof (rule ccontr)
      assume "get_active_line y x e db \<noteq> None"
      then obtain l where "get_active_line y x e db = Some l" by auto
      then have l: "l \<in> set ?ls" "tl_from l = y" "tl_to l = x"
        unfolding get_active_line_iff [OF inv] by (auto simp: tl_key_def active_lines_of_def)
      then show False using find_NoneD [OF None l(1)] edge [OF l(1)] that by simp
    qed
    then show ?thesis using None sum by (auto simp: usable_capacity_def split: option.splits)
  next
    case (Some l)
    then have l: "l \<in> set ?ls" "line_edge rt l (p, q)" by (auto dest: find_SomeD)
    have "get_active_line (tl_from l) (tl_to l) e db = Some l"
      using l(1) unfolding get_active_line_iff [OF inv] by (auto simp: tl_key_def active_lines_of_def)
    then show ?thesis
      using Some sum l edge [OF l(1)] line_capacity_eq [OF inv, of "tl_from l" "tl_to l" e l]
      by (simp add: usable_capacity_def)
  qed
qed

lemma map_of_init: "map_of (map (\<lambda>p. (p, [])) ps) u = (if u \<in> set ps then Some [] else None)"
  by (induction ps) auto

lemma edge_get_empty: "edge_get (map (\<lambda>p. (p, [])) ps) u v d = d"
  by (simp add: edge_get_def sub_dict_def map_of_init)

lemma init_nodes_graph:
  "graph_wf (rt_graph (init_nodes rows rt))" "edge_get (rt_graph (init_nodes rows rt)) u v d = d"
  "dom (map_of (rt_graph (init_nodes rows rt))) = part_pid ` set rows"
  by (auto simp: init_nodes_def Let_def edge_get_empty graph_wf_def sub_dict_def map_of_init split: if_splits)

lemma build_graph_edges:
  assumes inv: "engine_inv db" and pwf: "participants_wf db"
    and q: "find (\<lambda>q. equiv_code q = code) (equivalents db) = Some q"
  shows "\<exists>rt. build_graph_impl code db rt0 = Inr rt \<and> graph_wf (rt_graph rt) \<and> graph_closed (rt_graph rt)
    \<and> (\<forall>u v. edge_get (rt_graph rt) u v 0 = usable_capacity (equiv_id q) db u v)"
proof -
  let ?e = "equiv_id q" let ?ls = "active_lines_of ?e db"
  let ?ds = "filter (\<lambda>d. debt_equivalent d = ?e) (debts db)"
  have live: "list_all lock_wf (live_prepare_locks db)"
    using engine_invD(4) [OF inv] by (auto simp: locks_wf_def live_prepare_locks_def list_all_iff)
  obtain idss where idss: "map_res lock_ids (live_prepare_locks db) = Inr idss" using lock_ids_wf [OF live] by blast
  define ids where "ids = concat (map (\<lambda>l. [tl_from l, tl_to l]) ?ls) @ concat (map (\<lambda>d. [debtor_id d, creditor_id d]) ?ds)
    @ concat idss"
  define rt1 where "rt1 = init_nodes (filter (\<lambda>r. part_id r \<in> set ids) (participants db)) rt0"
  have pids: "pid_of rt1 i = Some p \<longleftrightarrow> i \<in> set ids \<and> has_pid db i p" for i p
    unfolding rt1_def by (rule pid_of_init_nodes [OF pwf])
  have sum: "sum_list (map (\<lambda>l. if line_edge rt1 l (u, v) then max 0 (line_capacity ?e db l) else 0) ?ls)
      = usable_capacity ?e db u v" for u v
    by (rule lines_sum [OF engine_invD(2) [OF inv] pwf pids]) (auto simp: ids_def)
  show ?thesis
  proof (cases "ids = []")
    case True
    then have "?ls = []" by (cases ?ls) (auto simp: ids_def)
    then have "usable_capacity ?e db u v = 0" for u v using sum [of u v] by simp
    then show ?thesis
      using True q idss unfolding ids_def
      by (auto simp: build_graph_impl_def Let_def graph_wf_def sub_dict_def graph_closed_def edge_get_def)
  next
    case False
    have inj: "pids_inj rt1" using has_pid_unique(2) [OF pwf] by (auto simp: pids_inj_def pids)
    have "reserved_matches rt1 [] (\<lambda>_ _. 0)" by (simp add: reserved_matches_def reserved_get_def)
    from reserve_locks_step [OF inj live this, of ?e]
    obtain m where m: "fold_res (router_reserve_lock rt1 ?e) (live_prepare_locks db) [] = Inr m"
      and match: "reserved_matches rt1 m (\<lambda>x y. reserved db x y ?e)"
      by (auto simp: reserved_def live_locks_def live_prepare_locks_def)
    have "lines_inv rt1 rt1" by (simp add: lines_inv_def rt1_def init_nodes_graph)
    from add_lines_run [OF engine_invD(1) [OF inv] match this, of ?ls]
    obtain rt where rt: "fold_res (add_line ?ds m) ?ls rt1 = Inr rt" "lines_inv rt1 rt"
      and edges: "\<And>u v. edge_get (rt_graph rt) u v 0 = usable_capacity ?e db u v"
      by (auto simp: sum) (simp add: rt1_def init_nodes_graph)
    have "graph_closed (rt_graph rt)"
      unfolding graph_closed_def edges
    proof (intro allI impI)
      fix u w assume "0 < usable_capacity ?e db u w"
      then obtain l where "l \<in> set ?ls" "line_edge rt1 l (u, w)"
        using sum [of u w] sum_list_if_none [of ?ls "\<lambda>l. line_edge rt1 l (u, w)"] by (metis less_irrefl)
      then have "has_pid db (tl_from l) w" "tl_from l \<in> set ids" by (auto simp: line_edge_def pids)
      then have "w \<in> dom (map_of (rt_graph rt1))"
        unfolding rt1_def init_nodes_graph by (force simp: has_pid_def)
      then show "map_of (rt_graph rt) w \<noteq> None" using rt(2) by (auto simp: lines_inv_def)
    qed
    moreover have "build_graph_impl code db rt0 = Inr rt"
    proof -
      have "build_graph_impl code db rt0 = (if ids = [] then Inr (rt0\<lparr>rt_graph := []\<rparr>)
          else (case fold_res (router_reserve_lock rt1 ?e) (live_prepare_locks db) [] of Inl x \<Rightarrow> Inl x
            | Inr reserved_m \<Rightarrow> fold_res (add_line ?ds reserved_m) ?ls rt1))"
        unfolding build_graph_impl_def q option.case Let_def idss sum.case ids_def rt1_def by (rule refl)
      then show ?thesis using False m rt(1) by (simp only: if_False sum.case)
    qed
    ultimately show ?thesis using rt(2) edges by (auto simp: lines_inv_def)
  qed
qed

end
