(* ===== verification/Engine_Properties.thy ===== *)
theory Engine_Properties
  imports Sample_Hub
begin

text \<open>
  The properties of the payment engine: the effect of a flow, the post-checks, what a commit
  and an abort leave behind under any interleaving, the liveness of a prepared transaction, the
  step relation of the engine with its invariant and its final states, and the retry wrapper.
\<close>

section \<open>Commit and abort, unit by unit\<close>

lemma commit_state_guard_None [simp]: "commit_state_guard st = None \<longleftrightarrow> st = PREPARED"
  by (cases st) (auto simp: commit_state_guard_def)

lemma commit_state_guard_PREPARED [simp]: "commit_state_guard PREPARED = None"
  by simp

lemma commit_uow_Some:
  assumes "commit_uow pg n cf tx env = (r, Some db')"
  obtains t vs where "get_tx tx (ce_seg env) = Some t" and "tx_state t = PREPARED"
    and "load_prepare_locks tx (ce_seg env) \<noteq> []"
    and "parse_persisted_prepare_locks (load_prepare_locks tx (ce_seg env)) = Inr vs"
    and "commit_apply pg n cf tx t (validated_flows vs) env = (r, Some db')"
  using assms unfolding commit_uow_def Let_def
  by (auto split: sum.splits option.splits if_splits)

lemma abort_then_raise_eq:
  assumes "abort_then_raise q x = (r, w)"
  obtains y out where "r = Inl y" and "q = (out, w)"
  using assms by (auto simp: abort_then_raise_def split: prod.splits sum.splits)

lemma commit_apply_Some:
  assumes "commit_apply pg n cf tx t fs env = (r, Some db')"
  obtains (committed) db1 where "r = Inr ()" and "locks_live tx (ce_seg env)"
      and "fold_res flow_step fs (ce_seg env) = Inr db1" and "check_flows fs (ce_seg env) db1 = Inr ()"
      and "db' = write_committed tx (tx_payload t) fs (ce_seg env) db1"
  | (aborted) x held reason code details out where "r = Inl x"
      and "abort pg n cf held tx reason code details (ce_abort env) = (out, Some db')"
proof (cases "list_ex (\<lambda>l. lock_expires_at l \<le> db_now (ce_seg env)) (load_prepare_locks tx (ce_seg env))")
  case True
  then show ?thesis
    using assms that(2) by (auto simp: commit_apply_def Let_def elim!: abort_then_raise_eq)
next
  case False
  then have live: "locks_live tx (ce_seg env)"
    by (auto simp: locks_live_def list_all_iff list_ex_iff not_le)
  obtain db1 where run: "apply_flows (ce_stale env) fs (ce_seg env) = Inr db1"
    using assms False by (auto simp: commit_apply_def Let_def split: sum.splits)
  show ?thesis
  proof (cases "check_flows fs (ce_seg env) db1")
    case (Inl x)
    then show ?thesis
      using assms False run that(2) by (auto simp: commit_apply_def Let_def elim!: abort_then_raise_eq)
  next
    case (Inr u)
    then show ?thesis
      using assms False run that(1) [OF _ live apply_flows_Inr [OF run]]
      by (auto simp: commit_apply_def Let_def)
  qed
qed

lemma abort_uow_Some:
  assumes "abort_uow pg held tx reason code details env = (r, Some db')"
  obtains (already_committed) db where "db = ab_tx env \<or> db = ab_seg env"
      and "tx_state_of (get_tx tx db) = Some COMMITTED" and "r = Inr AlreadyCommitted"
      and "db' = delete_prepare_locks tx db"
  | (aborted) g where "tx_state_of (get_tx tx (ab_seg env)) \<noteq> Some COMMITTED"
      and "r = Inr (if tx_state_of (get_tx tx (ab_seg env)) = Some ABORTED then AlreadyAborted else AbortSuccess)"
      and "db' = update_tx tx g (delete_prepare_locks tx (ab_seg env))"
      and "\<And>t. tx_id (g t) = tx_id t"
      and "\<And>t. get_tx tx (ab_seg env) = Some t \<Longrightarrow> tx_state (g t) = ABORTED"
proof -
  show ?thesis
    using assms unfolding abort_uow_def Let_def
    apply (simp split: sum.splits if_splits)
    using that by (auto simp: tx_state_of_def split: if_splits sum.splits)
qed

lemma reports_Inr: "reports r' (Inr v) \<longleftrightarrow> r' = Inr v"
  by (auto simp: reports_def)

lemma abort_Some:
  assumes "abort pg n cf held tx reason code details env = (r, Some db')"
  obtains j held' r' where "abort_uow pg held' tx reason code details (env j) = (r', Some db')" and "reports r' r"
  using assms unfolding abort_def by (elim run_uow_cases) (drule savepoint_SomeD, rule that)

lemma commit_tx_Some:
  assumes "commit_tx pg n cf tx env = (r, Some db')"
  obtains j r' where "commit_uow pg n cf tx (env j) = (r', Some db')" and "reports r' r"
  using assms unfolding commit_tx_def by (elim run_uow_cases) (drule savepoint_SomeD, rule that)

section \<open>Steps of the engine\<close>

text \<open>
  Everything the engine does to the shared database, one committed unit of work at a time. The
  snapshots a commit or an abort reads before its advisory locks are arbitrary; what it reads
  after them is the current database. Time passes, and new transactions appear.
\<close>

definition abort_reads :: "db \<Rightarrow> (nat \<Rightarrow> abort_env) \<Rightarrow> bool" where
  "abort_reads db env \<longleftrightarrow> (\<forall>i. ab_tx (env i) = db \<and> ab_seg (env i) = db)"

definition commit_reads :: "db \<Rightarrow> (nat \<Rightarrow> commit_env) \<Rightarrow> bool" where
  "commit_reads db env \<longleftrightarrow> (\<forall>i. ce_seg (env i) = db \<and> abort_reads db (ce_abort (env i)))"

inductive engine_step :: "db \<Rightarrow> db \<Rightarrow> bool" where
  step_prepare: "0 < v \<Longrightarrow> prepare utcnow ttl tx path v e db = Inr db' \<Longrightarrow> engine_step db db'"
| step_prepare_routes: "prepare_routes utcnow ttl tx routes e db = Inr db' \<Longrightarrow> engine_step db db'"
| step_commit: "commit_reads db env \<Longrightarrow> commit_tx pg n cf tx env = (r, Some db') \<Longrightarrow> engine_step db db'"
| step_abort: "abort_reads db env \<Longrightarrow> abort pg n cf held tx reason code details env = (r, Some db')
    \<Longrightarrow> engine_step db db'"
| step_time: "db_now db \<le> now \<Longrightarrow> engine_step db (db\<lparr>db_now := now\<rparr>)"
| step_new_tx: "get_tx (tx_id t) db = None \<Longrightarrow> engine_step db (db\<lparr>transactions := transactions db @ [t]\<rparr>)"

inductive_cases engine_stepE [consumes 1]: "engine_step db db'"

lemma abort_step_cases:
  assumes "abort_reads db env" and "abort pg n cf held tx reason code details env = (r, Some db')"
  obtains (already_committed) "tx_state_of (get_tx tx db) = Some COMMITTED" and "db' = delete_prepare_locks tx db"
  | (aborted) g where "tx_state_of (get_tx tx db) \<noteq> Some COMMITTED"
      and "db' = update_tx tx g (delete_prepare_locks tx db)" and "\<And>t. tx_id (g t) = tx_id t"
      and "\<And>t. get_tx tx db = Some t \<Longrightarrow> tx_state (g t) = ABORTED"
proof -
  obtain j held' r' where uow: "abort_uow pg held' tx reason code details (env j) = (r', Some db')"
    using abort_Some [OF assms(2)] by blast
  have eq: "ab_tx (env j) = db" "ab_seg (env j) = db" using assms(1) by (auto simp: abort_reads_def)
  show ?thesis by (rule abort_uow_Some [OF uow]) (use eq that in auto)
qed

lemma commit_step_cases:
  assumes "commit_reads db env" and "commit_tx pg n cf tx env = (r, Some db')"
  obtains (committed) t vs db1 where "r = Inr ()" and "get_tx tx db = Some t" and "tx_state t = PREPARED"
      and "parse_persisted_prepare_locks (load_prepare_locks tx db) = Inr vs" and "locks_live tx db"
      and "load_prepare_locks tx db \<noteq> []"
      and "fold_res flow_step (validated_flows vs) db = Inr db1"
      and "check_flows (validated_flows vs) db db1 = Inr ()"
      and "db' = write_committed tx (tx_payload t) (validated_flows vs) db db1"
  | (aborted) x held reason code details out i where "r = Inl x"
      and "abort_reads db (ce_abort (env i))"
      and "abort pg n cf held tx reason code details (ce_abort (env i)) = (out, Some db')"
proof -
  obtain j r' where uow: "commit_uow pg n cf tx (env j) = (r', Some db')" and rep: "reports r' r"
    using commit_tx_Some [OF assms(2)] by blast
  have seg: "ce_seg (env j) = db" "abort_reads db (ce_abort (env j))" using assms(1) by (auto simp: commit_reads_def)
  from uow show ?thesis
  proof (rule commit_uow_Some)
    fix t vs
    assume pre: "get_tx tx (ce_seg (env j)) = Some t" "tx_state t = PREPARED"
        "load_prepare_locks tx (ce_seg (env j)) \<noteq> []"
        "parse_persisted_prepare_locks (load_prepare_locks tx (ce_seg (env j))) = Inr vs"
      and app: "commit_apply pg n cf tx t (validated_flows vs) (env j) = (r', Some db')"
    from app show ?thesis
    proof (cases rule: commit_apply_Some)
      case (committed db1)
      then have "r = Inr ()" using rep by (auto simp: reports_def)
      then show ?thesis using committed pre seg that(1) by simp
    next
      case (aborted x held reason code details out)
      then obtain y where "r = Inl y" using rep by (auto simp: reports_def)
      then show ?thesis using aborted(2) seg(2) that(2) by blast
    qed
  qed
qed

lemma prepare_frame:
  assumes "prepare utcnow ttl tx path v e db = Inr db'"
  shows "debts db' = debts db" and "trust_lines db' = trust_lines db" and "participants db' = participants db"
  using assms by (cases rule: prepare_Inr_cases, auto simp: mark_prepared_def add_locks_def split: if_splits)+

lemma prepare_routes_frame:
  assumes "prepare_routes utcnow ttl tx routes e db = Inr db'"
  shows "debts db' = debts db" and "trust_lines db' = trust_lines db" and "participants db' = participants db"
  using assms by (cases rule: prepare_routes_Inr_cases, auto simp: mark_prepared_def add_locks_def split: if_splits)+

lemma parse_tx_locks:
  assumes "locks_wf db" and "load_prepare_locks tx db \<noteq> []"
  obtains vs where "parse_persisted_prepare_locks (load_prepare_locks tx db) = Inr vs"
    and "mset (validated_flows vs) = mset (tx_flows tx db)"
proof -
  have "list_all lock_wf (load_prepare_locks tx db)"
    using assms(1) by (auto simp: locks_wf_def load_prepare_locks_def list_all_iff)
  from parse_locks_wf [OF this assms(2)] that show ?thesis
    using mset_validated_flows by (auto simp: tx_flows_def)
qed

lemma engine_step_inv:
  assumes "engine_step db db'" and inv: "engine_inv db" and grid: "grid_locks db"
  shows "engine_inv db'"
  using assms(1)
proof (cases rule: engine_step.cases)
  case (step_prepare v utcnow ttl tx path e)
  then show ?thesis using prepare_inv [OF inv] by blast
next
  case (step_prepare_routes utcnow ttl tx routes e)
  then show ?thesis using prepare_routes_inv [OF inv] by blast
next
  case (step_commit env pg n cf tx r)
  have abort: "engine_inv db'" if "abort_reads db aenv"
    "abort pg n cf held tx reason code details aenv = (out, Some db')" for held reason code details aenv out
    using that by (cases rule: abort_step_cases) (simp_all add: engine_inv_delete_locks [OF inv])
  show ?thesis using step_commit
  proof (cases rule: commit_step_cases)
    case (committed t vs db1)
    obtain vs' where "parse_persisted_prepare_locks (load_prepare_locks tx db) = Inr vs'"
      "mset (validated_flows vs') = mset (tx_flows tx db)"
      using parse_tx_locks [OF engine_invD(4) [OF inv] committed(6)] by blast
    then have "mset (validated_flows vs) = mset (tx_flows tx db)" using committed(4) by simp
    then show ?thesis using commit_flows_inv [OF inv committed(5) _ tx_flows_grid [OF grid] committed(7)] committed(9) by simp
  qed (rule abort)
next
  case (step_abort env pg n cf held tx reason code details r)
  then show ?thesis by (cases rule: abort_step_cases) (simp_all add: engine_inv_delete_locks [OF inv])
next
  case (step_time now)
  then show ?thesis
    by (intro engine_inv_fewer_locks [OF inv, where P = "\<lambda>_. True" and n = now]) simp_all
next
  case (step_new_tx t)
  then show ?thesis using engine_inv_cong [of db' db] inv by simp
qed

section \<open>Applying a flow\<close>

text \<open>
  C19. \<^verbatim>\<open>_apply_flow\<close> implements the transfer of an amount between two participants, up to the range of
  the column that stores it. On a well-formed debt table let \<open>v\<close> have at most eight decimals. A flow
  of \<open>v\<close> from \<open>s\<close> to a different \<open>r\<close> raises exactly when the debt it leaves would have more than
  twelve integer digits, and then with the database's numeric overflow. Otherwise the two
  participants do not owe each other afterwards, the signed balance of the pair has moved by
  exactly \<open>v\<close>, no other pair or equivalent has changed, the net position of \<open>s\<close> is down by \<open>v\<close> and
  that of \<open>r\<close> up by \<open>v\<close>, and the table is well-formed again.
\<close>

theorem apply_flow_transfers:
  assumes "debts_wf db" and "s \<noteq> r" and "0 < v" and "on_grid v"
  shows "if owes db s r e - owes db r s e + v \<ge> 10 ^ 12
    then \<exists>stmt. apply_flow s r v e db = Inl (numeric_overflow stmt)
    else \<exists>db'. apply_flow s r v e db = Inr db' \<and> debts_wf db'
      \<and> owes db' s r e = max 0 (owes db s r e - owes db r s e + v)
      \<and> owes db' r s e = max 0 (owes db r s e - owes db s r e - v)
      \<and> (\<forall>x y e'. (x, y, e') \<noteq> (s, r, e) \<and> (x, y, e') \<noteq> (r, s, e) \<longrightarrow> owes db' x y e' = owes db x y e')
      \<and> (\<forall>p e'. calculate_net_position p e' db' = calculate_net_position p e' db
           + (if e' = e then (if p = r then v else 0) - (if p = s then v else 0) else 0))"
  using apply_flow_effect [OF assms, of e] by (auto simp: flow_effect_def not_le)

theorem apply_flow_transfers_witness:
  "(\<exists>db'. apply_flow 5 6 10 9 sample_db = Inr db' \<and> owes db' 5 6 9 = 6 \<and> owes db' 6 5 9 = 0
     \<and> calculate_net_position 5 9 db' = - 6)
   \<and> (\<exists>stmt. apply_flow 5 6 (10 ^ 12 + 4) 9 sample_db = Inl (numeric_overflow stmt))"
  using apply_flow_transfers [OF sample_debts_wf, of 5 6 10 9] apply_flow_transfers [OF sample_debts_wf, of 5 6 "10 ^ 12 + 4" 9]
  by (auto simp: sample_owes calculate_net_position_def credit_total_def debt_total_def sample_debt_def)

text \<open>
  Beyond eight decimals the column decides. A flow of a thousand-millionth towards a participant
  without a debt rounds to zero and violates the check on the amount; one that is four
  thousand-millionths short of one stores a debt of one.
\<close>

lemma off_grid_flows:
  "apply_flow 6 7 (1 / 10 ^ 9) 9 sample_db = Inl (constraint_error ''INSERT INTO DEBTS'' ''23514'' ''chk_debt_amount_positive'')
   \<and> (\<exists>db'. apply_flow 6 7 (999999996 / 10 ^ 9) 9 sample_db = Inr db' \<and> owes db' 6 7 9 = 1)"
proof -
  define tiny near :: amount where "tiny = 1 / 10 ^ 9" and "near = 999999996 / 10 ^ 9"
  have "round8 tiny = 0" "round8 near = 1" and pos: "0 < tiny" "0 < near"
    by (simp_all add: round8_def floor_eq_iff tiny_def near_def)
  then have store: "store_debt_amount stmt tiny = Inl (constraint_error stmt ''23514'' ''chk_debt_amount_positive'')"
    "store_debt_amount stmt near = Inr 1" for stmt
    by (simp_all add: store_debt_amount_def store_numeric_def)
  show ?thesis unfolding tiny_def [symmetric] near_def [symmetric]
    by (auto simp: apply_flow_def reduce_reverse_def increase_forward_def insert_debt_def store pos net_mutual_def session_debt_def
        get_debt_def sample_debt_def owes_def)
qed

text \<open>
  After flows of at most eight decimals have been applied to a well-formed ledger, the zero-sum, the
  symmetry and the per-participant delta checks of \<^verbatim>\<open>commit\<close> always pass, so the only invariant
  that can stop a commit is a trust limit: the checks pass exactly when, for every flow, both
  directions of its pair are within the limit of the controlling active line, and otherwise they
  raise \<^verbatim>\<open>TRUST_LIMIT_VIOLATION\<close>.
\<close>

theorem post_checks_decide_limits:
  assumes "debts_wf db" and "trust_lines_wf db" and "list_all exact_flow flows"
    and "apply_flows stale flows db = Inr db'"
  shows "check_flows flows db db' =
    (if \<forall>f \<in> set flows. owes db' (fl_from f) (fl_to f) (fl_equivalent f)
            \<le> active_limit (fl_to f) (fl_from f) (fl_equivalent f) db
          \<and> owes db' (fl_to f) (fl_from f) (fl_equivalent f)
            \<le> active_limit (fl_from f) (fl_to f) (fl_equivalent f) db
     then Inr () else Inl (IntegrityViolation TRUST_LIMIT_VIOLATION))"
  using check_flows_eq [OF assms(1-3) apply_flows_Inr [OF assms(4)]]
    active_limit_debts_only [OF flows_debts_only [OF assms(1,3) apply_flows_Inr [OF assms(4)]]]
  by (simp add: flow_within_limits_def within_limit_def)

lemma sample_flow_runs:
  "\<exists>db'. apply_flows (\<lambda>_ _. False) [\<lparr>fl_equivalent = 9, fl_from = 6, fl_to = 5, fl_amount = v\<rparr>] sample_db = Inr db'
     \<and> owes db' 6 5 9 = 4 + v \<and> owes db' 5 6 9 = 0" if "0 < v" "on_grid v" "v < 100"
  using apply_flow_effect [OF sample_debts_wf, of 6 5 v 9] that
  by (auto simp: apply_flows_no_stale flow_step_def flow_effect_def sample_owes)

theorem post_checks_decide_limits_witness:
  "(\<exists>db'. check_flows [\<lparr>fl_equivalent = 9, fl_from = 6, fl_to = 5, fl_amount = 26\<rparr>] sample_db db' = Inr ()
     \<and> owes db' 6 5 9 = 30)
   \<and> (\<exists>db'. check_flows [\<lparr>fl_equivalent = 9, fl_from = 6, fl_to = 5, fl_amount = 27\<rparr>] sample_db db'
        = Inl (IntegrityViolation TRUST_LIMIT_VIOLATION) \<and> owes db' 6 5 9 = 31)"
proof -
  obtain db1 where db1: "apply_flows (\<lambda>_ _. False) [\<lparr>fl_equivalent = 9, fl_from = 6, fl_to = 5, fl_amount = 26\<rparr>] sample_db = Inr db1"
    "owes db1 6 5 9 = 30" "owes db1 5 6 9 = 0" using sample_flow_runs [of 26] by auto
  obtain db2 where db2: "apply_flows (\<lambda>_ _. False) [\<lparr>fl_equivalent = 9, fl_from = 6, fl_to = 5, fl_amount = 27\<rparr>] sample_db = Inr db2"
    "owes db2 6 5 9 = 31" "owes db2 5 6 9 = 0" using sample_flow_runs [of 27] by auto
  show ?thesis
    using post_checks_decide_limits [OF sample_debts_wf sample_trust_lines_wf _ db1(1)]
      post_checks_decide_limits [OF sample_debts_wf sample_trust_lines_wf _ db2(1)] db1 db2
    by (auto simp: sample_active_limit exact_flow_def flow_ok_def)
qed

section \<open>Prepared transactions commit\<close>

definition undisturbed :: "db \<Rightarrow> commit_env \<Rightarrow> bool" where
  "undisturbed db env \<longleftrightarrow> ce_pre env = db \<and> ce_tx env = db \<and> ce_seg env = db
     \<and> (\<forall>i. \<not> (ce_stale env i 0 \<and> ce_stale env i 1 \<and> ce_stale env i 2))"

lemma commit_undisturbed:
  assumes inv: "engine_inv db" and tx: "get_tx tx db = Some t" "tx_state t = PREPARED"
    and locks: "load_prepare_locks tx db \<noteq> []" and live: "locks_live tx db"
    and grid: "\<forall>f \<in> set (tx_flows tx db). on_grid (fl_amount f)" and env: "undisturbed db (env 0)"
  obtains vs db1 where "mset (validated_flows vs) = mset (tx_flows tx db)"
    and "fold_res flow_step (validated_flows vs) db = Inr db1"
    and "commit_tx pg n cf tx env
      = (Inr (), Some (write_committed tx (tx_payload t) (validated_flows vs) db db1))"
proof -
  obtain vs where vs: "parse_persisted_prepare_locks (load_prepare_locks tx db) = Inr vs"
    "mset (validated_flows vs) = mset (tx_flows tx db)"
    using parse_tx_locks [OF engine_invD(4) [OF inv] locks] by blast
  obtain db1 where db1: "fold_res flow_step (validated_flows vs) db = Inr db1"
    and chk: "check_flows (validated_flows vs) db db1 = Inr ()"
    by (rule commit_flows_ok [OF inv live vs(2) grid]) (rule that)
  have "\<not> list_ex (\<lambda>l. lock_expires_at l \<le> db_now db) (load_prepare_locks tx db)"
    using live by (auto simp: locks_live_def list_all_iff list_ex_iff not_le)
  then have app: "commit_apply pg n cf tx t (validated_flows vs) (env 0)
      = (Inr (), Some (write_committed tx (tx_payload t) (validated_flows vs) db db1))"
    using env db1 chk by (simp add: commit_apply_def Let_def undisturbed_def apply_flows_no_stale)
  have "commit_uow pg n cf tx (env 0) = commit_apply pg n cf tx t (validated_flows vs) (env 0)"
    using env tx locks vs(1)
    by (simp add: commit_uow_def undisturbed_def preacquire_equivalent_owner_locks_def Let_def)
  then have "commit_tx pg n cf tx env
      = (Inr (), Some (write_committed tx (tx_payload t) (validated_flows vs) db db1))"
    unfolding commit_tx_def using app by (intro run_uow_first) simp
  then show ?thesis using that [OF vs(2) db1] by blast
qed

lemma write_committed_tx:
  "get_tx tx db = Some t \<Longrightarrow> transactions db1 = transactions db \<Longrightarrow>
   get_tx tx (write_committed tx pl fs db db1) = Some (t\<lparr>tx_state := COMMITTED, tx_updated_at := db_now db1\<rparr>)"
  by (simp add: write_committed_def get_tx_update) (simp add: get_tx_def)

lemma net_write_committed:
  assumes "debts db' = debts db1"
  shows "calculate_net_position p e db' = calculate_net_position p e db1"
  using assms by (simp add: calculate_net_position_def credit_total_def debt_total_def)

lemma sum_list_mset: "mset fs = mset gs \<Longrightarrow> sum_list (map f fs) = sum_list (map (f :: _ \<Rightarrow> rat) gs)"
  by (metis mset_map sum_mset_sum_list)

text \<open>
  C2. The promise of the prepare phase. In a state that keeps the engine's invariant, a PREPARED
  transaction whose locks have not expired and whose amounts have at most eight decimals (what the
  column of the debts stores exactly) commits, on PostgreSQL and on other backends, with
  and without an outer transaction: no check fails, its state becomes COMMITTED, its locks are
  gone, the invariant holds again, and every net position has moved by the sum of the
  transaction's own flows.
\<close>

theorem prepared_transaction_commits:
  assumes "engine_inv db" and "get_tx tx db = Some t" and "tx_state t = PREPARED"
    and "load_prepare_locks tx db \<noteq> []" and "locks_live tx db"
    and "\<forall>f \<in> set (tx_flows tx db). on_grid (fl_amount f)" and "undisturbed db (env 0)"
  shows "\<exists>db'. commit_tx is_postgres retry_attempts commit_flag tx env = (Inr (), Some db')
    \<and> engine_inv db' \<and> load_prepare_locks tx db' = []
    \<and> map_option tx_state (get_tx tx db') = Some COMMITTED
    \<and> (\<forall>p e. calculate_net_position p e db' = calculate_net_position p e db
         + sum_list (map (\<lambda>f. net_delta f (p, e)) (tx_flows tx db)))"
proof -
  obtain vs db1 where vs: "mset (validated_flows vs) = mset (tx_flows tx db)"
    and run: "fold_res flow_step (validated_flows vs) db = Inr db1"
    and com: "commit_tx is_postgres retry_attempts commit_flag tx env
      = (Inr (), Some (write_committed tx (tx_payload t) (validated_flows vs) db db1))" (is "_ = (_, Some ?db')")
    by (rule commit_undisturbed [where env = env, OF assms]) (rule that)
  note wf = engine_invD(1) [OF assms(1)]
  have ok: "list_all exact_flow (validated_flows vs)"
    using list_all_mset [OF vs] tx_flows_exact [OF engine_invD(4) [OF assms(1)] assms(6)] by simp
  have "calculate_net_position p e ?db' = calculate_net_position p e db
         + sum_list (map (\<lambda>f. net_delta f (p, e)) (tx_flows tx db))" for p e
    using net_run.run_effect [OF wf ok run, of "(p, e)"] net_write_committed [of ?db' db1]
      sum_list_mset [OF vs, of "\<lambda>f. net_delta f (p, e)"] by simp
  moreover have "engine_inv ?db'" by (rule commit_flows_inv [OF assms(1,5) vs assms(6) run])
  moreover have "map_option tx_state (get_tx tx ?db') = Some COMMITTED"
    using write_committed_tx [OF assms(2) flows_frame [OF run]] by simp
  moreover have "load_prepare_locks tx ?db' = []" by (simp add: load_prepare_locks_def filter_empty_conv)
  ultimately show ?thesis using com by blast
qed

definition quiet_env :: "db \<Rightarrow> commit_env" where
  "quiet_env db = \<lparr>ce_pre = db, ce_tx = db, ce_nolock = db, ce_seg = db,
     ce_abort = (\<lambda>_. \<lparr>ab_pre = db, ab_tx = db, ab_seg = db\<rparr>), ce_stale = (\<lambda>_ _. False)\<rparr>"

lemma undisturbed_quiet [simp]: "undisturbed db (quiet_env db)"
  by (simp add: undisturbed_def quiet_env_def)

theorem prepared_transaction_commits_witness:
  "\<exists>db'. commit_tx True 3 True ''t1'' (\<lambda>_. quiet_env prepared_db) = (Inr (), Some db')
    \<and> map_option tx_state (get_tx ''t1'' db') = Some COMMITTED
    \<and> calculate_net_position 5 9 db' = - 6 \<and> calculate_net_position 6 9 db' = - 4
    \<and> calculate_net_position 7 9 db' = 10"
proof -
  have net: "calculate_net_position p e prepared_db = (if e = 9 then if p = 5 then 4 else if p = 6 then - 4 else 0 else 0)" for p e
    by (auto simp: calculate_net_position_def credit_total_def debt_total_def prepared_db_def sample_debt_def)
  obtain db' where "commit_tx True 3 True ''t1'' (\<lambda>_. quiet_env prepared_db) = (Inr (), Some db')"
    "map_option tx_state (get_tx ''t1'' db') = Some COMMITTED"
    "\<forall>p e. calculate_net_position p e db' = calculate_net_position p e prepared_db
         + sum_list (map (\<lambda>f. net_delta f (p, e)) (tx_flows ''t1'' prepared_db))"
    using prepared_transaction_commits [OF prepared_engine_inv prepared_sel(2), of "\<lambda>_. quiet_env prepared_db" True 3 True]
    by (auto simp: prepared_tx_flows)
  then show ?thesis by (simp add: net prepared_tx_flows net_delta_def)
qed

section \<open>Reachable states\<close>

text \<open>
  C17. No segment is ever promised beyond its capacity. Start from a state that keeps the engine's
  invariant, and let all locks, then and after every step, be of amounts of at most eight
  decimals, which the column of the debts stores exactly. After any sequence of prepares (of one
  route or of several), commits, aborts, new transactions and passing time, with arbitrary stale
  reads before the advisory locks, the amount reserved by live locks on every directed segment is
  at most the limit of the active line minus the net debt, and the tables are well-formed.
\<close>

theorem reservations_never_exceed_capacity:
  assumes "engine_inv db" and "grid_locks db" and "(\<lambda>a b. engine_step a b \<and> grid_locks b)\<^sup>*\<^sup>* db db'"
  shows "engine_inv db' \<and> (\<forall>s r e. reserved db' s r e
    \<le> active_limit r s e db' - owes db' s r e + owes db' r s e)"
proof -
  have "engine_inv db' \<and> grid_locks db'"
    using assms(3,1,2) by (induction rule: rtranclp_induct) (auto intro: engine_step_inv)
  then show ?thesis
    using engine_invD(5) [of db'] by (simp add: reservations_ok_def segment_capacity_def)
qed

lemma prepared_grid_locks: "grid_locks prepared_db"
  by (simp add: grid_locks_def prepared_db_def flows_of_lock_def parse_lock_def sample_lock_def)

lemma sample_grid_locks: "grid_locks sample_db"
  by (simp add: grid_locks_def)

lemma sample_prepare_step: "engine_step sample_db prepared_db"
  by (rule step_prepare [OF _ sample_prepares]) simp

theorem reservations_never_exceed_capacity_witness:
  "engine_step sample_db prepared_db \<and> reserved prepared_db 6 7 9 = 10
   \<and> (\<forall>s r e. reserved prepared_db s r e \<le> active_limit r s e prepared_db - owes prepared_db s r e + owes prepared_db r s e)"
proof -
  have "(\<lambda>a b. engine_step a b \<and> grid_locks b)\<^sup>*\<^sup>* sample_db prepared_db"
    by (rule r_into_rtranclp) (simp add: sample_prepare_step prepared_grid_locks)
  moreover have "reserved prepared_db 6 7 9 = 10"
    by (simp add: reserved_def live_locks_def prepared_db_def sample_lock_def flows_of_lock_def parse_lock_def)
  ultimately show ?thesis
    using reservations_never_exceed_capacity [OF sample_engine_inv sample_grid_locks] sample_prepare_step by blast
qed

definition terminal_state :: "tx_state_t \<Rightarrow> bool" where
  "terminal_state st \<longleftrightarrow> st = COMMITTED \<or> st = ABORTED"

lemma get_tx_append: "get_tx tx db = Some t \<Longrightarrow> get_tx tx (db\<lparr>transactions := transactions db @ [u]\<rparr>) = Some t"
  by (simp add: get_tx_def find_append)

lemma get_tx_mark_prepared: "get_tx tx' (mark_prepared tx db) =
   (if tx' = tx then map_option (\<lambda>t. t\<lparr>tx_state := PREPARED, tx_updated_at := db_now db\<rparr>) (get_tx tx db)
    else get_tx tx' db)"
  by (simp add: mark_prepared_def get_tx_update)

lemma get_tx_add_locks: "add_locks tx ex entries db = Inr db' \<Longrightarrow> get_tx tx' db' = get_tx tx' db"
  by (auto simp: add_locks_def get_tx_def split: if_splits)

lemma abort_step_terminal:
  assumes "abort_reads db env" and "abort pg n cf held tx reason code details env = (r, Some db')"
    and t: "get_tx tx' db = Some t" and fin: "terminal_state (tx_state t)"
  shows "map_option tx_state (get_tx tx' db') = Some (tx_state t)"
  using assms(1,2)
proof (cases rule: abort_step_cases)
  case already_committed
  then show ?thesis using t by simp
next
  case (aborted g)
  then show ?thesis
    using t fin by (cases "tx' = tx") (auto simp: get_tx_update terminal_state_def tx_state_of_def)
qed

lemma engine_step_terminal:
  assumes "engine_step db db'" and t: "get_tx tx db = Some t" and fin: "terminal_state (tx_state t)"
  shows "map_option tx_state (get_tx tx db') = Some (tx_state t)"
  using assms(1)
proof (cases rule: engine_step.cases)
  case (step_prepare v utcnow ttl tx' path e)
  from step_prepare(2) show ?thesis
    by (cases rule: prepare_Inr_cases)
      (use t fin in \<open>auto simp: get_tx_mark_prepared get_tx_add_locks terminal_state_def\<close>)
next
  case (step_prepare_routes utcnow ttl tx' routes e)
  then show ?thesis
    by (cases rule: prepare_routes_Inr_cases)
      (use t fin in \<open>auto simp: get_tx_mark_prepared get_tx_add_locks terminal_state_def\<close>)
next
  case (step_commit env pg n cf tx' r)
  then show ?thesis
  proof (cases rule: commit_step_cases)
    case (committed t' vs db1)
    have "tx \<noteq> tx'" using committed(2,3) t fin by (auto simp: terminal_state_def)
    have "transactions db1 = transactions db" by (rule flows_frame [OF committed(7)])
    then show ?thesis
      using t \<open>tx \<noteq> tx'\<close> by (simp add: committed(9) write_committed_def get_tx_update) (simp add: get_tx_def)
  next
    case (aborted x held reason code details out i)
    then show ?thesis using abort_step_terminal t fin by blast
  qed
next
  case (step_abort env pg n cf held tx' reason code details r)
  then show ?thesis using abort_step_terminal t fin by blast
next
  case (step_time now)
  then show ?thesis using t by (simp add: get_tx_def)
next
  case (step_new_tx u)
  then show ?thesis using get_tx_append [OF t] by simp
qed

text \<open>
  C18. COMMITTED and ABORTED are final: whatever the engine does afterwards, including further
  prepares, commits and aborts of the same transaction racing with each other, the transaction
  keeps that state. In particular a committed payment is never aborted and an aborted one never
  commits.
\<close>

theorem terminal_states_are_final:
  assumes "engine_step\<^sup>*\<^sup>* db db'"
    and "map_option tx_state (get_tx tx db) = Some st" and "st = COMMITTED \<or> st = ABORTED"
  shows "map_option tx_state (get_tx tx db') = Some st"
  using assms(1)
proof (induction rule: rtranclp_induct)
  case base
  then show ?case using assms(2) .
next
  case (step db1 db2)
  then show ?case
    using engine_step_terminal [OF step.hyps(2)] step.IH assms(3) by (auto simp: terminal_state_def)
qed

definition committed_db :: db where
  "committed_db = sample_db\<lparr>transactions := [sample_tx\<lparr>tx_state := COMMITTED\<rparr>]\<rparr>"

theorem terminal_states_are_final_witness:
  "map_option tx_state (get_tx ''t1'' (committed_db\<lparr>db_now := 2000\<rparr>)) = Some COMMITTED"
proof (rule terminal_states_are_final)
  show "engine_step\<^sup>*\<^sup>* committed_db (committed_db\<lparr>db_now := 2000\<rparr>)"
    by (rule r_into_rtranclp, rule step_time) (simp add: committed_db_def)
  show "map_option tx_state (get_tx ''t1'' committed_db) = Some COMMITTED"
    by (simp add: committed_db_def get_tx_def sample_tx_def)
qed simp

end
