(* ===== verification/Engine_Outcomes.thy ===== *)
theory Engine_Outcomes
  imports Engine_Properties
begin

text \<open>
  Outcomes of single calls of the payment engine: when a prepare succeeds and what it persists,
  a payment from prepare to commit, failed commits, aborts, and the retry wrapper.
\<close>

section \<open>Prepare\<close>

definition path_ids :: "pid list \<Rightarrow> db \<Rightarrow> uuid list" where
  "path_ids path db = map (\<lambda>p. the (id_of_pid p db)) path"

definition path_flows :: "uuid list \<Rightarrow> amount \<Rightarrow> uuid \<Rightarrow> flow list" where
  "path_flows ids v e = map (\<lambda>(s, r). \<lparr>fl_equivalent = e, fl_from = s, fl_to = r, fl_amount = v\<rparr>) (segments_of ids)"

definition fresh_tx :: "string \<Rightarrow> db \<Rightarrow> bool" where
  "fresh_tx tx db \<longleftrightarrow> load_prepare_locks tx db = [] \<and>
     (case get_tx tx db of None \<Rightarrow> False | Some t \<Rightarrow> tx_state t \<notin> {COMMITTED, ABORTED, REJECTED})"

lemma fresh_txE:
  assumes "fresh_tx tx db"
  obtains t where "get_tx tx db = Some t" and "tx_state t \<notin> {COMMITTED, ABORTED, REJECTED}"
    and "load_prepare_locks tx db = []"
  using assms by (auto simp: fresh_tx_def split: option.splits)

lemma prepare_segments_fit:
  assumes "locks_wf db" and "load_prepare_locks tx db = []"
    and "\<forall>(s, r) \<in> set segs. v + reserved db s r e \<le> segment_capacity s r e db"
  shows "fold_res (prepare_segment tx e v db) segs acc = Inr (acc @ map (\<lambda>(s, r). (s, [mk_raw_flow s r v e])) segs)"
  using assms(3)
  by (induction segs arbitrary: acc) (auto simp: prepare_segment_eq [OF assms(1,2)] not_less)

lemma prepare_segments_short:
  assumes "locks_wf db" and "load_prepare_locks tx db = []"
    and "\<not> (\<forall>(s, r) \<in> set segs. v + reserved db s r e \<le> segment_capacity s r e db)"
  shows "fold_res (prepare_segment tx e v db) segs acc = Inl (Routing True)"
  using assms(3)
proof (induction segs arbitrary: acc)
  case (Cons seg segs)
  obtain s r where seg: "seg = (s, r)" by (cases seg)
  show ?case
  proof (cases "segment_capacity s r e db < v + reserved db s r e")
    case False
    then have "\<not> (\<forall>(s, r) \<in> set segs. v + reserved db s r e \<le> segment_capacity s r e db)"
      using Cons.prems seg by auto
    then show ?thesis using Cons.IH False seg by (simp add: prepare_segment_eq [OF assms(1,2)])
  qed (simp add: seg prepare_segment_eq [OF assms(1,2)])
qed simp

lemma map_fst_segments: "map fst (segments_of xs) = butlast xs"
  by (induction xs) (auto simp: segments_of_def neq_Nil_conv)

lemma prepare_fresh:
  assumes inv: "locks_wf db" and tx: "fresh_tx tx db" and known: "list_all (\<lambda>p. id_of_pid p db \<noteq> None) path"
    and dist: "distinct (butlast (path_ids path db))"
  shows "prepare utcnow ttl tx path v e db =
    (if \<forall>(s, r) \<in> set (segments_of (path_ids path db)). v + reserved db s r e \<le> segment_capacity s r e db
     then Inr (mark_prepared tx (db\<lparr>prepare_locks := prepare_locks db @ mk_locks tx (utcnow + ttl) (next_uuid db)
              (map (\<lambda>(s, r). (s, [mk_raw_flow s r v e])) (segments_of (path_ids path db))),
            next_uuid := next_uuid db + length (segments_of (path_ids path db))\<rparr>))
     else Inl (Routing True))"
proof -
  obtain t where t: "get_tx tx db = Some t" "tx_state t \<notin> {COMMITTED, ABORTED, REJECTED}" "load_prepare_locks tx db = []"
    using tx by (rule fresh_txE)
  let ?segs = "segments_of (path_ids path db)"
  have "map fst (map (\<lambda>(s, r). (s, [mk_raw_flow s r v e])) ?segs) = butlast (path_ids path db)"
    by (simp add: map_fst_segments [symmetric] case_prod_beta comp_def)
  then have add: "distinct (map fst (map (\<lambda>(s, r). (s, [mk_raw_flow s r v e])) ?segs))" using dist by simp
  have "\<not> list_ex (\<lambda>p. id_of_pid p db = None) path" using known by (auto simp: list_all_iff list_ex_iff)
  then have "prepare utcnow ttl tx path v e db = (case fold_res (prepare_segment tx e v db) ?segs [] of Inl x \<Rightarrow> Inl x
      | Inr entries \<Rightarrow> (case add_locks tx (utcnow + ttl) entries db of Inl x \<Rightarrow> Inl x | Inr db' \<Rightarrow> Inr (mark_prepared tx db')))"
    using t by (simp add: prepare_def path_ids_def)
  then show ?thesis
    using prepare_segments_fit [OF inv t(3), of ?segs v e "[]"] prepare_segments_short [OF inv t(3), of ?segs v e "[]"] add
    by (auto simp: add_locks_def)
qed

text \<open>
  C21. When a prepare succeeds. For a transaction that is neither finished nor prepared, a path of
  known participants in which no participant sends twice, the prepare succeeds exactly when on
  every segment the capacity covers the amount on top of what other transactions' live locks
  reserve, and otherwise raises the routing error for insufficient capacity; other payments'
  expired locks do not count. A successful prepare changes no debt.
\<close>

theorem prepare_succeeds_iff:
  assumes "engine_inv db" and "fresh_tx tx db" and "list_all (\<lambda>p. id_of_pid p db \<noteq> None) path"
    and "distinct (butlast (path_ids path db))"
  shows "(if \<forall>(s, r) \<in> set (segments_of (path_ids path db)).
            v + reserved db s r e \<le> active_limit r s e db - owes db s r e + owes db r s e
          then \<exists>db'. prepare utcnow ttl tx path v e db = Inr db' \<and> debts db' = debts db
            \<and> map_option tx_state (get_tx tx db') = Some PREPARED
          else prepare utcnow ttl tx path v e db = Inl (Routing True))"
proof -
  obtain t where "get_tx tx db = Some t" using assms(2) by (rule fresh_txE)
  then show ?thesis
    using prepare_fresh [OF engine_invD(4) [OF assms(1)] assms(2-4), of utcnow ttl v e]
    by (auto simp: segment_capacity_def get_tx_mark_prepared mark_prepared_def get_tx_update get_tx_def [of _ "_\<lparr>next_uuid := _\<rparr>"])
      (auto simp: get_tx_def)
qed

lemma sample_fresh: "fresh_tx ''t1'' sample_db"
  by (simp add: fresh_tx_def load_prepare_locks_def get_tx_def sample_tx_def)

lemma sample_path_ids [simp]: "path_ids [''A'', ''B'', ''C''] sample_db = [5, 6, 7]"
  by (simp add: path_ids_def id_of_pid_def)

theorem prepare_succeeds_iff_witness:
  "(\<exists>db'. prepare 1000 60 ''t1'' [''A'', ''B'', ''C''] 50 9 sample_db = Inr db')
   \<and> prepare 1000 60 ''t1'' [''A'', ''B'', ''C''] 51 9 sample_db = Inl (Routing True)"
proof -
  have known: "list_all (\<lambda>p. id_of_pid p sample_db \<noteq> None) [''A'', ''B'', ''C'']" by (simp add: id_of_pid_def)
  have none: "reserved sample_db s r e = 0" for s r e by (simp add: reserved_def live_locks_def)
  note at = prepare_succeeds_iff [OF sample_engine_inv sample_fresh known, of _ 9 1000 60]
  show ?thesis
    using at [of 50] at [of 51] by (auto simp: segments_of_def none sample_active_limit sample_owes)
qed

section \<open>From prepare to commit\<close>

lemma load_append:
  "load_prepare_locks tx (db\<lparr>prepare_locks := prepare_locks db @ ls, next_uuid := n\<rparr>)
     = load_prepare_locks tx db @ filter (\<lambda>l. lock_tx l = tx) ls"
  by (simp add: load_prepare_locks_def)

lemma filter_mk_locks [simp]: "filter (\<lambda>l. lock_tx l = tx) (mk_locks tx ex n entries) = mk_locks tx ex n entries"
  by (auto simp: filter_id_conv dest: mk_locks_props)

lemma prepared_flows:
  assumes inv: "engine_inv db" and tx: "fresh_tx tx db" and v: "0 < v"
    and prep: "prepare utcnow ttl tx path v e db = Inr db'"
  shows "tx_flows tx db' = path_flows (path_ids path db) v e"
    and "list_all (\<lambda>l. lock_expires_at l = utcnow + ttl) (load_prepare_locks tx db')"
    and "length (load_prepare_locks tx db') = length (segments_of (path_ids path db))"
    and "map_option tx_state (get_tx tx db') = Some PREPARED" and "db_now db' = db_now db"
proof -
  let ?segs = "segments_of (path_ids path db)"
  obtain t entries db1 where t: "get_tx tx db = Some t" and none: "load_prepare_locks tx db = []"
    and seg: "fold_res (prepare_segment tx e v db) ?segs [] = Inr entries"
    and add: "add_locks tx (utcnow + ttl) entries db = Inr db1" and db': "db' = mark_prepared tx db1"
    using prep
  proof (cases rule: prepare_Inr_cases)
    case same
    then show ?thesis using tx by (auto simp: fresh_tx_def split: option.splits)
  next
    case (locked t entries db1)
    then show ?thesis using that by (simp add: path_ids_def)
  qed
  have entries: "entries = map (\<lambda>(s, r). (s, [mk_raw_flow s r v e])) ?segs"
    and fit: "\<forall>(s, r) \<in> set ?segs. v + reserved db s r e \<le> segment_capacity s r e db"
    using prepare_segments [OF engine_invD(4) [OF inv] none seg] by auto
  let ?new = "mk_locks tx (utcnow + ttl) (next_uuid db) entries"
  have db1: "db1 = db\<lparr>prepare_locks := prepare_locks db @ ?new, next_uuid := next_uuid db + length entries\<rparr>"
    using add by (simp add: add_locks_def split: if_splits)
  have load: "load_prepare_locks tx db' = ?new"
    using none by (simp add: db' mark_prepared_def db1 load_append)
  have ok: "list_all entry_ok entries"
    using fit segment_positive [OF engine_invD(3,4) [OF inv] v] v by (auto simp: entries entry_ok_def list_all_iff flow_ok_def)
  show "tx_flows tx db' = path_flows (path_ids path db) v e"
  proof -
    have single: "concat (map (entry_flows \<circ> snd) (map (\<lambda>(s, r). (s, [mk_raw_flow s r v e])) segs))
      = map (\<lambda>(s, r). \<lparr>fl_equivalent = e, fl_from = s, fl_to = r, fl_amount = v\<rparr>) segs" for segs
      using v by (induction segs) (auto simp: entry_flows_def)
    show ?thesis
      unfolding tx_flows_def load mk_locks_flows [OF ok] unfolding path_flows_def entries by (rule single)
  qed
  show "list_all (\<lambda>l. lock_expires_at l = utcnow + ttl) (load_prepare_locks tx db')"
    by (auto simp: load list_all_iff dest: mk_locks_props)
  show "length (load_prepare_locks tx db') = length ?segs" by (simp add: load entries)
  show "map_option tx_state (get_tx tx db') = Some PREPARED"
    using t by (simp add: db' get_tx_mark_prepared get_tx_add_locks [OF add])
  show "db_now db' = db_now db" by (simp add: db' mark_prepared_def db1)
qed

text \<open>
  What a prepare persists is what a commit reads back: the locks of a freshly prepared
  transaction pass the validation of \<^verbatim>\<open>_parse_persisted_prepare_locks\<close> and yield exactly one flow of
  the amount per segment of the path.
\<close>

theorem prepared_locks_round_trip:
  assumes "engine_inv db" and "fresh_tx tx db" and "0 < v" and "2 \<le> length path"
    and "prepare utcnow ttl tx path v e db = Inr db'"
  shows "\<exists>vs. parse_persisted_prepare_locks (load_prepare_locks tx db') = Inr vs
    \<and> mset (validated_flows vs) = mset (path_flows (path_ids path db) v e)"
proof -
  have "locks_wf db'" using prepare_inv [OF assms(1,3,5)] by (rule engine_invD(4))
  moreover have "load_prepare_locks tx db' \<noteq> []"
  proof -
    have "0 < length (segments_of (path_ids path db))"
      using assms(4) by (simp add: segments_of_def path_ids_def)
    then show ?thesis using prepared_flows(3) [OF assms(1-3,5)] by auto
  qed
  ultimately show ?thesis
    using prepared_flows(1) [OF assms(1-3,5)] by (auto elim: parse_tx_locks)
qed

theorem prepared_locks_round_trip_witness:
  "\<exists>vs. parse_persisted_prepare_locks (load_prepare_locks ''t1'' prepared_db) = Inr vs
    \<and> mset (validated_flows vs) = mset [\<lparr>fl_equivalent = 9, fl_from = 5, fl_to = 6, fl_amount = 10\<rparr>,
        \<lparr>fl_equivalent = 9, fl_from = 6, fl_to = 7, fl_amount = 10\<rparr>]"
  using prepared_locks_round_trip [OF sample_engine_inv sample_fresh _ _ sample_prepares]
  by (auto simp: path_flows_def segments_of_def)

lemma path_net_delta:
  assumes "ids \<noteq> []"
  shows "sum_list (map (\<lambda>f. net_delta f (p, e')) (path_flows ids v e))
    = (if e' = e then (if p = last ids then v else 0) - (if p = hd ids then v else 0) else 0)"
  using assms
proof (induction ids)
  case (Cons x ids)
  then show ?case
    by (cases ids) (auto simp: path_flows_def segments_of_def net_delta_def)
qed simp

lemma commit_moves_flows:
  assumes inv: "engine_inv db" and tx: "map_option tx_state (get_tx tx db) = Some PREPARED"
    and locks: "load_prepare_locks tx db \<noteq> []" and live: "locks_live tx db"
    and grid: "\<forall>f \<in> set (tx_flows tx db). on_grid (fl_amount f)"
  shows "\<exists>db'. commit_tx pg n cf tx (\<lambda>_. quiet_env db) = (Inr (), Some db')
    \<and> (\<forall>p e'. calculate_net_position p e' db' = calculate_net_position p e' db
         + sum_list (map (\<lambda>f. net_delta f (p, e')) (tx_flows tx db)))"
proof -
  obtain t where t: "get_tx tx db = Some t" "tx_state t = PREPARED" using tx by auto
  obtain vs db2 where vs: "mset (validated_flows vs) = mset (tx_flows tx db)"
    and run: "fold_res flow_step (validated_flows vs) db = Inr db2"
    and com: "commit_tx pg n cf tx (\<lambda>_. quiet_env db)
      = (Inr (), Some (write_committed tx (tx_payload t) (validated_flows vs) db db2))" (is "_ = (_, Some ?db')")
    by (rule commit_undisturbed [where env = "\<lambda>_. quiet_env db", OF inv t locks live grid undisturbed_quiet]) (rule that)
  have ok: "list_all exact_flow (validated_flows vs)"
    using list_all_mset [OF vs] tx_flows_exact [OF engine_invD(4) [OF inv] grid] by simp
  have "calculate_net_position p e' ?db' = calculate_net_position p e' db
      + sum_list (map (\<lambda>f. net_delta f (p, e')) (tx_flows tx db))" for p e'
  proof -
    have "calculate_net_position p e' ?db' = calculate_net_position p e' db2" by (rule net_write_committed) simp
    also have "\<dots> = calculate_net_position p e' db + sum_list (map (\<lambda>f. net_delta f (p, e')) (validated_flows vs))"
      using net_run.run_effect [OF engine_invD(1) [OF inv] ok run, of "(p, e')"] by simp
    finally show ?thesis unfolding sum_list_mset [OF vs] .
  qed
  then show ?thesis using com by blast
qed

text \<open>
  A payment from prepare to commit. If a fresh transaction is prepared for an amount of at most
  eight decimals along a path of at least two participants and its locks are still live, the commit that follows succeeds and
  moves the net position of the first participant by minus the amount, that of the last one by
  plus the amount, and leaves everyone else and every other equivalent as they were, however
  many intermediaries the path has.
\<close>

theorem payment_moves_endpoints_only:
  assumes "engine_inv db" and "fresh_tx tx db" and "0 < v" and "2 \<le> length path"
    and "prepare utcnow ttl tx path v e db = Inr db1" and "db_now db < utcnow + ttl" and "on_grid v"
  shows "\<exists>db'. commit_tx is_postgres retry_attempts commit_flag tx (\<lambda>_. quiet_env db1) = (Inr (), Some db')
    \<and> (\<forall>p e'. calculate_net_position p e' db' = calculate_net_position p e' db
         + (if e' = e then (if p = last (path_ids path db) then v else 0)
              - (if p = hd (path_ids path db) then v else 0) else 0))"
proof -
  note pf = prepared_flows [OF assms(1-3,5)]
  have ne: "path_ids path db \<noteq> []" using assms(4) by (auto simp: path_ids_def)
  have "0 < length (segments_of (path_ids path db))"
    using assms(4) by (simp add: segments_of_def path_ids_def)
  then have locks: "load_prepare_locks tx db1 \<noteq> []" using pf(3) by auto
  have live: "locks_live tx db1"
    using pf(2) assms(6) pf(5) by (auto simp: locks_live_def list_all_iff)
  have inv1: "engine_inv db1" by (rule prepare_inv [OF assms(1,3,5)])
  have net: "calculate_net_position p e' db1 = calculate_net_position p e' db" for p e'
    by (rule net_write_committed) (rule prepare_frame(1) [OF assms(5)])
  have grid: "\<forall>f \<in> set (tx_flows tx db1). on_grid (fl_amount f)" using assms(7) by (auto simp: pf(1) path_flows_def)
  show ?thesis
    using commit_moves_flows [OF inv1 pf(4) locks live grid, of is_postgres retry_attempts commit_flag]
    unfolding pf(1) path_net_delta [OF ne] net .
qed

theorem payment_moves_endpoints_only_witness:
  "\<exists>db'. commit_tx True 3 True ''t1'' (\<lambda>_. quiet_env prepared_db) = (Inr (), Some db')
    \<and> calculate_net_position 5 9 db' = calculate_net_position 5 9 sample_db - 10
    \<and> calculate_net_position 6 9 db' = calculate_net_position 6 9 sample_db
    \<and> calculate_net_position 7 9 db' = calculate_net_position 7 9 sample_db + 10"
  using payment_moves_endpoints_only [OF sample_engine_inv sample_fresh _ _ sample_prepares, of True 3 True]
  by auto

section \<open>Failed commits and aborts\<close>

lemma reports_Inl: "reports r' (Inl x) \<Longrightarrow> \<exists>y. r' = Inl y"
  by (auto simp: reports_def)

lemma abort_uow_frame:
  assumes "abort_uow pg held tx reason code details env = (r, Some db')"
  shows "load_prepare_locks tx db' = [] \<and> (\<exists>db \<in> {ab_tx env, ab_seg env}. debts db' = debts db
    \<and> trust_lines db' = trust_lines db \<and> audit_log db' = audit_log db
    \<and> prepare_locks db' = filter (\<lambda>l. lock_tx l \<noteq> tx) (prepare_locks db)
    \<and> (\<forall>tx'. tx' \<noteq> tx \<longrightarrow> get_tx tx' db' = get_tx tx' db)
    \<and> map_option tx_state (get_tx tx db') = (if get_tx tx db = None then None
         else if map_option tx_state (get_tx tx db) = Some COMMITTED then Some COMMITTED else Some ABORTED))"
  using assms
proof (cases rule: abort_uow_Some)
  case (already_committed db)
  then show ?thesis by (auto simp: tx_state_of_def)
next
  case (aborted g)
  then show ?thesis by (auto simp: get_tx_update tx_state_of_def)
qed

text \<open>
  A commit that raises has not touched the ledger. Under an outer transaction nothing of it
  survives. On its own it leaves either no trace or the result of the abort it ran itself: then
  the transaction's locks are gone, its state is ABORTED (or still COMMITTED, if a concurrent
  commit won), and the debts, the trust lines, the audit log and all other transactions are those
  of the snapshot the abort read.
\<close>

theorem failed_commit_keeps_ledger:
  assumes "commit_tx is_postgres retry_attempts commit_flag tx env = (Inl x, w)"
  shows "(\<not> commit_flag \<longrightarrow> w = None)
    \<and> (\<forall>db'. w = Some db' \<longrightarrow> load_prepare_locks tx db' = []
         \<and> (\<exists>i j. \<exists>db \<in> {ab_tx (ce_abort (env i) j), ab_seg (ce_abort (env i) j)}.
              debts db' = debts db \<and> trust_lines db' = trust_lines db \<and> audit_log db' = audit_log db
              \<and> (\<forall>tx'. tx' \<noteq> tx \<longrightarrow> get_tx tx' db' = get_tx tx' db)
              \<and> map_option tx_state (get_tx tx db') \<in> {None, Some COMMITTED, Some ABORTED}))"
proof (intro conjI allI impI)
  assume "\<not> commit_flag"
  then obtain j r' where sp: "savepoint True (commit_uow is_postgres retry_attempts commit_flag tx (env j)) = (r', w)"
    and "reports r' (Inl x)"
    using assms unfolding commit_tx_def by (auto elim: run_uow_cases)
  then obtain y where "r' = Inl y" using reports_Inl by blast
  with sp show "w = None" by (auto simp: savepoint_def split: prod.splits sum.splits)
next
  fix db' assume w: "w = Some db'"
  then obtain i r' where uow: "commit_uow is_postgres retry_attempts commit_flag tx (env i) = (r', Some db')"
    and "reports r' (Inl x)" using commit_tx_Some assms by metis
  then obtain y where "r' = Inl y" using reports_Inl by blast
  with uow obtain held reason code details out where
    "abort is_postgres retry_attempts commit_flag held tx reason code details (ce_abort (env i)) = (out, Some db')"
    by (auto elim!: commit_uow_Some elim: commit_apply_Some)
  then obtain j held' out' where
    "abort_uow is_postgres held' tx reason code details (ce_abort (env i) j) = (out', Some db')"
    using abort_Some by blast
  from abort_uow_frame [OF this]
  show "load_prepare_locks tx db' = []"
    and "\<exists>i j. \<exists>db \<in> {ab_tx (ce_abort (env i) j), ab_seg (ce_abort (env i) j)}.
              debts db' = debts db \<and> trust_lines db' = trust_lines db \<and> audit_log db' = audit_log db
              \<and> (\<forall>tx'. tx' \<noteq> tx \<longrightarrow> get_tx tx' db' = get_tx tx' db)
              \<and> map_option tx_state (get_tx tx db') \<in> {None, Some COMMITTED, Some ABORTED}"
    by (auto split: if_splits)
qed

text \<open>A prepared hub whose locks expired, on which a commit raises a conflict.\<close>

definition expired_db :: db where
  "expired_db = prepared_db\<lparr>db_now := 2000\<rparr>"

lemma abort_quiet_frame:
  "\<exists>out db'. abort_uow pg held tx reason code details \<lparr>ab_pre = db, ab_tx = db, ab_seg = db\<rparr> = (Inr out, Some db')"
  by (auto simp: abort_uow_def Let_def preacquire_equivalent_owner_locks_def owner_preflight_changed_def
      abort_validated_def split: sum.splits option.splits)

lemma expired_commit:
  "\<exists>db'. commit_tx True 3 True ''t1'' (\<lambda>_. quiet_env expired_db) = (Inl Conflict, Some db')"
proof -
  have parse: "\<exists>vs. parse_persisted_prepare_locks [sample_lock 100 5 6, sample_lock 101 6 7] = Inr vs"
    by (simp add: parse_persisted_prepare_locks_def parse_lock_def sample_lock_def)
  obtain out db' where "abort_uow True True ''t1'' ''Prepare locks expired before commit'' None None
      \<lparr>ab_pre = expired_db, ab_tx = expired_db, ab_seg = expired_db\<rparr> = (Inr out, Some db')"
    using abort_quiet_frame by blast
  then have "abort True 3 True True ''t1'' ''Prepare locks expired before commit'' None None
      (\<lambda>_. \<lparr>ab_pre = expired_db, ab_tx = expired_db, ab_seg = expired_db\<rparr>) = (Inr out, Some db')"
    unfolding abort_def by (intro run_uow_first) simp
  moreover have "get_tx ''t1'' expired_db = Some (sample_tx\<lparr>tx_state := PREPARED, tx_updated_at := 1000\<rparr>)"
    and "load_prepare_locks ''t1'' expired_db = [sample_lock 100 5 6, sample_lock 101 6 7]"
    and "lock_expires_at (sample_lock 100 5 6) \<le> db_now expired_db"
    using prepared_sel(1,2) by (simp_all add: expired_db_def get_tx_def load_prepare_locks_def sample_lock_def)
  ultimately have "commit_uow True 3 True ''t1'' (quiet_env expired_db) = (Inl Conflict, Some db')"
    using parse by (auto simp: commit_uow_def quiet_env_def preacquire_equivalent_owner_locks_def Let_def
        commit_apply_def abort_then_raise_def)
  then show ?thesis by (simp add: commit_tx_def run_uow_with_retry_def run_uow_from.simps savepoint_def)
qed

theorem failed_commit_keeps_ledger_witness:
  "\<exists>db'. commit_tx True 3 True ''t1'' (\<lambda>_. quiet_env expired_db) = (Inl Conflict, Some db')
    \<and> debts db' = [sample_debt] \<and> load_prepare_locks ''t1'' db' = []"
proof -
  obtain db' where db': "commit_tx True 3 True ''t1'' (\<lambda>_. quiet_env expired_db) = (Inl Conflict, Some db')"
    using expired_commit by blast
  then show ?thesis
    using failed_commit_keeps_ledger [OF db'] by (auto simp: quiet_env_def expired_db_def prepared_db_def)
qed

text \<open>
  An abort that runs undisturbed always succeeds, whatever the state of the transaction and
  however malformed its locks: afterwards the transaction has no locks, its state is ABORTED
  unless it was COMMITTED, and the debts, trust lines, other transactions and other
  transactions' locks are untouched.
\<close>

theorem abort_always_completes:
  "\<exists>out db'. abort is_postgres retry_attempts commit_flag owner_locks_held tx reason code details
      (\<lambda>_. \<lparr>ab_pre = db, ab_tx = db, ab_seg = db\<rparr>) = (Inr out, Some db')
    \<and> debts db' = debts db \<and> trust_lines db' = trust_lines db
    \<and> prepare_locks db' = filter (\<lambda>l. lock_tx l \<noteq> tx) (prepare_locks db)
    \<and> map_option tx_state (get_tx tx db') = (if get_tx tx db = None then None
         else if map_option tx_state (get_tx tx db) = Some COMMITTED then Some COMMITTED else Some ABORTED)"
proof -
  let ?env = "\<lparr>ab_pre = db, ab_tx = db, ab_seg = db\<rparr>" and ?held = "owner_locks_held \<and> (\<not> commit_flag \<or> (0::nat) = 0)"
  obtain out db' where uow: "abort_uow is_postgres ?held tx reason code details ?env = (Inr out, Some db')"
    using abort_quiet_frame by blast
  then have "abort is_postgres retry_attempts commit_flag owner_locks_held tx reason code details (\<lambda>_. ?env) = (Inr out, Some db')"
    unfolding abort_def by (intro run_uow_first) simp
  then show ?thesis using abort_uow_frame [OF uow] by auto
qed

section \<open>The retry wrapper\<close>

lemma run_uow_from_local:
  assumes "\<And>j. i \<le> j \<Longrightarrow> j < max 1 n \<Longrightarrow> fn j = fn' j" and "i < max 1 n"
  shows "run_uow_from pg n op sp fn i = run_uow_from pg n op sp fn' i"
  using assms
proof (induction "n - i" arbitrary: i rule: less_induct)
  case less
  obtain r w where fn: "savepoint sp (fn i) = (r, w)" by (cases "savepoint sp (fn i)")
  then have fn': "savepoint sp (fn' i) = (r, w)" using less.prems by auto
  have rec: "run_uow_from pg n op sp fn (Suc i) = run_uow_from pg n op sp fn' (Suc i)" if "Suc i < n"
    using less.hyps [of "Suc i"] less.prems that by auto
  have base: "run_uow_from pg 0 op sp fn i = run_uow_from pg 0 op sp fn' i"
    using fn fn' by (subst (1 2) run_uow_from.simps) (auto split: sum.split exc.split)
  show ?case
    using run_uow_from_step(1) [where fn = fn and i = i, OF fn, of pg n op]
      run_uow_from_step(1) [where fn = fn' and i = i, OF fn', of pg n op] rec base by simp
qed

lemma run_uow_from_success:
  assumes "\<And>j. i \<le> j \<Longrightarrow> j < k \<Longrightarrow> retries pg op sp (fst (savepoint sp (fn j)))"
    and "savepoint sp (fn k) = (Inr v, w)" and "i \<le> k" and "k < max 1 n"
  shows "run_uow_from pg n op sp fn i = (Inr v, w)"
  using assms
proof (induction "k - i" arbitrary: i)
  case 0
  then have "i = k" by simp
  then show ?case using 0 by (simp add: run_uow_from.simps)
next
  case (Suc d)
  obtain r w' where fn: "savepoint sp (fn i) = (r, w')" by (cases "savepoint sp (fn i)")
  have "i < k" using Suc.hyps(2) by simp
  then have "retries pg op sp r" using Suc.prems(1) [of i] fn by simp
  moreover have "Suc i < n" using \<open>i < k\<close> Suc.prems(4) by simp
  ultimately have "run_uow_from pg n op sp fn i = run_uow_from pg n op sp fn (Suc i)"
    using run_uow_from_step(1) [where fn = fn and i = i, OF fn, of pg n op] by simp
  also have "\<dots> = (Inr v, w)"
    using Suc.hyps(1) [of "Suc i"] Suc.hyps(2) Suc.prems \<open>i < k\<close> by simp
  finally show ?case .
qed

text \<open>
  The retry wrapper runs its unit of work at most \<open>retry_attempts\<close> times (once if the setting
  is 0): the result depends on no later attempt. If an attempt within that bound succeeds and
  every earlier one failed with a retryable error, its value is returned. The internal
  preflight signal never reaches the caller.
\<close>

theorem retry_wrapper_bounded_and_live:
  assumes "k < max 1 retry_attempts"
    and "\<forall>j < k. retries is_postgres op use_savepoint (fst (savepoint use_savepoint (fn j)))"
    and "fn k = (Inr v, w)" and "\<forall>j < max 1 retry_attempts. fn j = fn' j"
  shows "run_uow_with_retry is_postgres retry_attempts op use_savepoint fn = (Inr v, w)
    \<and> run_uow_with_retry is_postgres retry_attempts op use_savepoint fn' = (Inr v, w)
    \<and> fst (run_uow_with_retry is_postgres retry_attempts op use_savepoint any) \<noteq> Inl EquivalentOwnerPreflightChanged"
proof (intro conjI)
  show fn: "run_uow_with_retry is_postgres retry_attempts op use_savepoint fn = (Inr v, w)"
    unfolding run_uow_with_retry_def
    by (rule run_uow_from_success [where k = k]) (use assms in auto)
  then show "run_uow_with_retry is_postgres retry_attempts op use_savepoint fn' = (Inr v, w)"
    using run_uow_from_local [of 0 retry_attempts fn fn'] assms(4) by (simp add: run_uow_with_retry_def)
  obtain r w' where "run_uow_with_retry is_postgres retry_attempts op use_savepoint any = (r, w')" by fastforce
  then show "fst (run_uow_with_retry is_postgres retry_attempts op use_savepoint any) \<noteq> Inl EquivalentOwnerPreflightChanged"
    by (auto elim!: run_uow_cases simp: reports_def)
qed

definition flaky :: "nat \<Rightarrow> unit uow_result" where
  "flaky i = (if i < 2 then (Inl (DBAPIError \<lparr>sqlstate = Some ''40001'', statement = [], constraint_name = None\<rparr>), None)
     else (Inr (), Some sample_db))"

theorem retry_wrapper_bounded_and_live_witness:
  "run_uow_with_retry True 3 ''commit'' False flaky = (Inr (), Some sample_db)"
  using retry_wrapper_bounded_and_live [of 2 3 True "''commit''" False flaky "()" "Some sample_db" flaky]
  by (auto simp: flaky_def retries_def savepoint_def is_retryable_db_error_def)

end
