(* ===== verification/Routed_Payment.thy ===== *)
theory Routed_Payment
  imports Route_Build Engine_Outcomes
begin

text \<open>
  The router and the engine together: the routes the router finds on a database are accepted by
  the engine's multi-route prepare on that database, and the commit moves the whole amount from
  the sender to the receiver.
\<close>

section \<open>Several routes in one prepare\<close>

definition demand :: "(uuid \<times> uuid \<times> amount) list \<Rightarrow> uuid \<Rightarrow> uuid \<Rightarrow> amount" where
  "demand segs s r = sum_list (map (\<lambda>(s', r', v). if s' = s \<and> r' = r then v else 0) segs)"

lemma demand_simps [simp]:
  "demand [] s r = 0"
  "demand ((s', r', v) # segs) s r = (if s' = s \<and> r' = r then v else 0) + demand segs s r"
  "demand (xs @ ys) s r = demand xs s r + demand ys s r"
  by (simp_all add: demand_def)

lemma demand_nonneg: "\<forall>(s, r, v) \<in> set segs. 0 < v \<Longrightarrow> 0 \<le> demand segs s r"
  by (induction segs) (auto simp: demand_def)

definition seg_flow :: "uuid \<Rightarrow> uuid \<times> uuid \<times> amount \<Rightarrow> flow" where
  "seg_flow e seg = (case seg of (s, r, v) \<Rightarrow> \<lparr>fl_equivalent = e, fl_from = s, fl_to = r, fl_amount = v\<rparr>)"

definition append_segment :: "uuid \<Rightarrow> uuid \<times> uuid \<times> amount \<Rightarrow> (uuid \<times> raw_flow list) list \<Rightarrow> (uuid \<times> raw_flow list) list" where
  "append_segment e seg = (case seg of (s, r, v) \<Rightarrow> append_flow s (mk_raw_flow s r v e))"

lemma append_segment_simp [simp]: "append_segment e (s, r, v) = append_flow s (mk_raw_flow s r v e)"
  by (simp add: append_segment_def)

lemma prepare_route_segments_fit:
  assumes wf: "locks_wf db" "load_prepare_locks tx db = []" and pos: "\<forall>(s, r, v) \<in> set segs. 0 < v"
    and fit: "\<forall>(s, r, v) \<in> set segs. demand segs s r + snd st (s, r) + reserved db s r e \<le> segment_capacity s r e db"
  shows "\<exists>st'. fold_res (prepare_route_segment tx e db) segs st = Inr st' \<and> fst st' = fold (append_segment e) segs (fst st)"
  using pos fit
proof (induction segs arbitrary: st)
  case (Cons seg segs)
  obtain s r v where seg: "seg = (s, r, v)" by (cases seg)
  have nonneg: "0 \<le> demand segs s r" by (rule demand_nonneg) (use Cons.prems in auto)
  have "v + demand segs s r + snd st (s, r) + reserved db s r e \<le> segment_capacity s r e db"
    using Cons.prems by (simp add: seg)
  then have room: "\<not> segment_capacity s r e db < v + (reserved db s r e + snd st (s, r))" using nonneg by linarith
  let ?st = "(append_flow s (mk_raw_flow s r v e) (fst st), (snd st)((s, r) := snd st (s, r) + v))"
  have step: "prepare_route_segment tx e db seg st = Inr ?st"
    using room by (simp add: seg prepare_route_segment_def capacity_and_reserved [OF wf])
  have "\<forall>(s', r', v') \<in> set segs. demand segs s' r' + snd ?st (s', r') + reserved db s' r' e \<le> segment_capacity s' r' e db"
    using Cons.prems(2) by (fastforce simp: seg)
  then have "\<exists>st'. fold_res (prepare_route_segment tx e db) segs ?st = Inr st' \<and> fst st' = fold (append_segment e) segs (fst ?st)"
    by (intro Cons.IH) (use Cons.prems(1) in auto)
  then show ?case using step by (simp add: seg)
qed simp

lemma append_flow_keys: "map fst (append_flow p f entries) = (if p \<in> fst ` set entries then map fst entries else map fst entries @ [p])"
  by (induction entries) force+

lemma append_segments_distinct: "distinct (map fst entries) \<Longrightarrow> distinct (map fst (fold (append_segment e) segs entries))"
  by (induction segs arbitrary: entries) (auto simp: append_flow_keys split: prod.splits)

lemma append_flow_flows:
  assumes "list_all entry_ok entries" and "0 < v" and "s \<noteq> r"
  shows "list_all entry_ok (append_flow s (mk_raw_flow s r v e) entries)"
    and "mset (entries_flows (append_flow s (mk_raw_flow s r v e) entries)) = add_mset (seg_flow e (s, r, v)) (mset (entries_flows entries))"
proof -
  show "list_all entry_ok (append_flow s (mk_raw_flow s r v e) entries)"
    by (rule entries_append_flow(1) [OF assms(1), of "seg_flow e (s, r, v)"])
      (use assms(2,3) in \<open>simp_all add: seg_flow_def flow_ok_def\<close>)
  have last: "entry_flows (fs @ [mk_raw_flow s r v e]) = entry_flows fs @ [seg_flow e (s, r, v)]"
    if ok: "entry_ok (p, fs)" for p fs
  proof -
    obtain gs where gs: "map_res parse_flow fs = Inr gs" 
      using ok by (cases "map_res parse_flow fs") (auto simp: entry_ok_def)
    have "map_res parse_flow (fs @ [mk_raw_flow s r v e]) = Inr (gs @ [seg_flow e (s, r, v)])"
      using gs assms(2) unfolding map_res_Inr_iff by (auto simp: seg_flow_def intro!: list_all2_appendI)
    then show ?thesis using gs by (simp add: entry_flows_def)
  qed
  show "mset (entries_flows (append_flow s (mk_raw_flow s r v e) entries)) = add_mset (seg_flow e (s, r, v)) (mset (entries_flows entries))"
    using assms(1)
  proof (induction entries)
    case Nil
    then show ?case using assms(2) by (simp add: entries_flows_def entry_flows_def seg_flow_def)
  next
    case (Cons en entries)
    then show ?case by (cases en) (auto simp: entries_flows_def last)
  qed
qed

lemma append_segments_flows:
  assumes "list_all entry_ok entries" and "\<forall>(s, r, v) \<in> set segs. 0 < v \<and> s \<noteq> r"
  shows "list_all entry_ok (fold (append_segment e) segs entries)
    \<and> mset (entries_flows (fold (append_segment e) segs entries)) = mset (entries_flows entries) + mset (map (seg_flow e) segs)"
  using assms
proof (induction segs arbitrary: entries)
  case (Cons seg segs)
  obtain s r v where seg: "seg = (s, r, v)" by (cases seg)
  have "0 < v" "s \<noteq> r" using Cons.prems by (auto simp: seg)
  note app = append_flow_flows [OF Cons.prems(1) this, of e]
  show ?case using Cons.IH [OF app(1)] Cons.prems(2) app(2) by (simp add: seg)
qed simp

text \<open>A prepare of routes whose combined demand fits every segment, and what it persists.\<close>

lemma prepare_routes_fresh:
  assumes inv: "engine_inv db" and tx: "fresh_tx tx db" and ne: "routes \<noteq> []"
    and routes: "\<forall>(path, v) \<in> set routes. 0 < v \<and> 2 \<le> length path \<and> (\<forall>p \<in> set path. id_of_pid p db \<noteq> None)"
    and segs: "\<forall>(s, r, v) \<in> set (route_segments db routes). s \<noteq> r
      \<and> demand (route_segments db routes) s r + reserved db s r e \<le> segment_capacity s r e db"
  shows "\<exists>db'. prepare_routes utcnow ttl tx routes e db = Inr db' \<and> debts db' = debts db
    \<and> mset (tx_flows tx db') = mset (map (seg_flow e) (route_segments db routes))
    \<and> list_all (\<lambda>l. lock_expires_at l = utcnow + ttl) (load_prepare_locks tx db') \<and> load_prepare_locks tx db' \<noteq> []
    \<and> map_option tx_state (get_tx tx db') = Some PREPARED \<and> db_now db' = db_now db"
proof -
  obtain t where t: "get_tx tx db = Some t" "tx_state t \<notin> {COMMITTED, ABORTED, REJECTED}" "load_prepare_locks tx db = []"
    using tx by (rule fresh_txE)
  let ?segs = "route_segments db routes"
  have vpos: "\<forall>(s, r, v) \<in> set ?segs. 0 < v"
    using route_segments_positive [of routes] routes by (fastforce simp: list_all_iff)
  have fit: "\<forall>(s, r, v) \<in> set ?segs. demand ?segs s r + snd ([], \<lambda>_. 0) (s, r) + reserved db s r e \<le> segment_capacity s r e db"
    using segs by auto
  obtain st where st: "fold_res (prepare_route_segment tx e db) ?segs ([], \<lambda>_. 0) = Inr st"
    and entries: "fst st = fold (append_segment e) ?segs []"
    using prepare_route_segments_fit [OF engine_invD(4) [OF inv] t(3) vpos fit] by auto
  have flows: "list_all entry_ok (fst st)" "mset (entries_flows (fst st)) = mset (map (seg_flow e) ?segs)"
    using append_segments_flows [of "[]" ?segs e] vpos segs unfolding entries by (fastforce simp: entries_flows_def)+
  have dist: "distinct (map fst (fst st))" unfolding entries by (rule append_segments_distinct) simp
  let ?db1 = "db\<lparr>prepare_locks := prepare_locks db @ mk_locks tx (utcnow + ttl) (next_uuid db) (fst st),
      next_uuid := next_uuid db + length (fst st)\<rparr>"
  have "\<not> list_ex (\<lambda>(path, v). v \<le> 0 \<or> length path < 2) routes"
    "\<not> list_ex (\<lambda>(path, v). list_ex (\<lambda>p. id_of_pid p db = None) path) routes"
    using routes by (fastforce simp: list_ex_iff)+
  then have prep: "prepare_routes utcnow ttl tx routes e db = Inr (mark_prepared tx ?db1)"
    using t st dist by (simp add: prepare_routes_def add_locks_def case_prod_beta)
  have load: "load_prepare_locks tx (mark_prepared tx ?db1) = mk_locks tx (utcnow + ttl) (next_uuid db) (fst st)"
    using t(3) by (simp add: mark_prepared_def load_append)
  have tf: "tx_flows tx (mark_prepared tx ?db1) = entries_flows (fst st)"
    unfolding tx_flows_def load mk_locks_flows [OF flows(1)] entries_flows_def ..
  have "?segs \<noteq> []"
  proof -
    obtain path v rest where r: "routes = (path, v) # rest" using ne by (cases routes) auto
    then have "2 \<le> length (map (\<lambda>p. the (id_of_pid p db)) path)" using routes by simp
    then have "segments_of (map (\<lambda>p. the (id_of_pid p db)) path) \<noteq> []" by (simp only: segments_nil_iff)
    then show ?thesis by (simp add: r route_segments_def)
  qed
  then have ne': "fst st \<noteq> []" using flows(2) by (auto simp: entries_flows_def)
  have "map_option tx_state (get_tx tx (mark_prepared tx ?db1)) = Some PREPARED"
    using t(1) by (simp add: mark_prepared_def get_tx_update) (simp add: get_tx_def)
  moreover have "list_all (\<lambda>l. lock_expires_at l = utcnow + ttl) (load_prepare_locks tx (mark_prepared tx ?db1))"
    unfolding load by (auto simp: list_all_iff dest: mk_locks_props)
  ultimately show ?thesis
    using prep load tf flows(2) ne' by (intro exI [where x = "mark_prepared tx ?db1"]) (simp add: mark_prepared_def)
qed

section \<open>Routes of the router\<close>

lemma usable_capacity_pos:
  assumes "0 < usable_capacity e db p q"
  obtains x y where "id_of_pid p db = Some x" and "id_of_pid q db = Some y"
    and "usable_capacity e db p q = segment_capacity x y e db - reserved db x y e"
  using assms by (auto simp: usable_capacity_def max_def split: option.splits if_splits)

lemma id_of_pid_inj:
  assumes "participants_wf db" and "id_of_pid p db = Some x" and "id_of_pid q db = Some x"
  shows "p = q"
  using assms has_pid_unique(1) [OF assms(1)] by (auto simp: id_of_pid_iff)

lemma demand_map:
  assumes "distinct es" and "e0 \<in> D" and "set es \<subseteq> D" and "inj_on h D"
  shows "demand (map (\<lambda>e. (fst (h e), snd (h e), v)) es) (fst (h e0)) (snd (h e0)) = (if e0 \<in> set es then v else 0)"
  using assms(1,3)
proof (induction es)
  case (Cons e es)
  have "h e = h e0 \<longleftrightarrow> e = e0" using Cons.prems assms(2,4) by (simp add: inj_on_eq_iff)
  then have "fst (h e) = fst (h e0) \<and> snd (h e) = snd (h e0) \<longleftrightarrow> e = e0" by (simp add: prod_eq_iff)
  moreover have "demand (map (\<lambda>e. (fst (h e), snd (h e), v)) es) (fst (h e0)) (snd (h e0)) = (if e0 \<in> set es then v else 0)"
    using Cons by simp
  ultimately show ?case using Cons.prems(1) by auto
qed simp

lemma route_demand:
  assumes known: "\<forall>(path, v) \<in> set routes. distinct path \<and> set path \<subseteq> N"
    and inj: "inj_on (\<lambda>p. the (id_of_pid p db)) N" and pq: "p \<in> N" "q \<in> N"
  shows "demand (route_segments db routes) (the (id_of_pid p db)) (the (id_of_pid q db)) = load routes p q"
  using known
proof (induction routes)
  case Nil
  then show ?case by (simp add: route_segments_def)
next
  case (Cons r routes)
  obtain path v where r: "r = (path, v)" by (cases r)
  let ?i = "\<lambda>p. the (id_of_pid p db)" let ?h = "\<lambda>(u, w). (?i u, ?i w)"
  have sub: "set (segments_of path) \<subseteq> N \<times> N" using Cons.prems r by (auto dest: segments_in)
  have injh: "inj_on ?h (N \<times> N)" using inj by (auto simp: inj_on_def)
  have "demand (map (\<lambda>e. (fst (?h e), snd (?h e), v)) (segments_of path)) (fst (?h (p, q))) (snd (?h (p, q)))
      = (if (p, q) \<in> set (segments_of path) then v else 0)"
    by (rule demand_map [OF distinct_segments _ sub injh]) (use Cons.prems r pq in auto)
  moreover have "route_segments db (r # routes) = map (\<lambda>e. (fst (?h e), snd (?h e), v)) (segments_of path) @ route_segments db routes"
    by (simp add: r route_segments_def segments_of_map comp_def case_prod_beta)
  ultimately show ?case using Cons by (simp add: r)
qed

lemma route_segments_in:
  assumes "(x, y, v) \<in> set (route_segments db routes)"
  obtains path p q where "(path, v) \<in> set routes" and "(p, q) \<in> set (segments_of path)"
    and "x = the (id_of_pid p db)" and "y = the (id_of_pid q db)"
  using assms by (auto simp: route_segments_def segments_of_map)

lemma valid_path_nodes:
  assumes "valid_path rt g src dst v max_hops fe fn path" and "src \<noteq> dst" and "p \<in> set path"
  shows "2 \<le> length path \<and> (\<exists>u w. (u, w) \<in> set (segments_of path) \<and> 0 < edge_get g u w 0 \<and> (p = u \<or> p = w))"
proof -
  have path: "path \<noteq> []" "hd path = src" "last path = dst"
    and edges: "\<forall>(u, w) \<in> set (segments_of path). 0 < edge_get g u w 0"
    using assms(1) by (auto simp: valid_path_def walk_ok_def)
  have len: "2 \<le> length path" using path assms(2) by (cases path; cases "tl path") auto
  have "\<exists>u w. (u, w) \<in> set (segments_of path) \<and> (p = u \<or> p = w)"
    using len assms(3)
  proof (induction path)
    case (Cons x xs)
    then show ?case by (cases xs; cases "tl xs") auto
  qed simp
  then show ?thesis using len edges by fastforce
qed

lemma load_pos:
  assumes "list_all (\<lambda>(path, a). 0 < a) routes" and "(path, v) \<in> set routes" and "(p, q) \<in> set (segments_of path)"
  shows "0 < load routes p q"
  using assms
proof (induction routes)
  case (Cons r routes)
  obtain path' v' where r: "r = (path', v')" by (cases r)
  have "0 \<le> load routes p q" using load_nonneg Cons.prems(1) by simp
  then show ?case using Cons r by (auto simp: add_pos_nonneg add_nonneg_pos)
qed simp

lemma found_routes_prepare:
  assumes inv: "engine_inv db" and pwf: "participants_wf db" and tx: "fresh_tx tx db" and ne: "src \<noteq> dst" "routes \<noteq> []"
    and edges: "\<And>u v. edge_get (rt_graph rt) u v 0 = usable_capacity e db u v"
    and ok: "routes_ok rt src dst max_hops fn routes"
  shows "\<exists>db'. prepare_routes utcnow ttl tx routes e db = Inr db' \<and> debts db' = debts db
    \<and> mset (tx_flows tx db') = mset (map (seg_flow e) (route_segments db routes))
    \<and> list_all (\<lambda>l. lock_expires_at l = utcnow + ttl) (load_prepare_locks tx db') \<and> load_prepare_locks tx db' \<noteq> []
    \<and> map_option tx_state (get_tx tx db') = Some PREPARED \<and> db_now db' = db_now db"
proof (rule prepare_routes_fresh [OF inv tx ne(2)])
  have route: "0 < v \<and> valid_path rt (rt_graph rt) src dst 0 max_hops {} fn path" if "(path, v) \<in> set routes" for path v
    using ok that by (auto simp: routes_ok_def list_all_iff)
  have known: "id_of_pid p db \<noteq> None" if r: "(path, v) \<in> set routes" and p: "p \<in> set path" for path v p
  proof -
    have "valid_path rt (rt_graph rt) src dst 0 max_hops {} fn path" using route [OF r] by simp
    from valid_path_nodes [OF this ne(1) p] obtain u w where "0 < usable_capacity e db u w" "p = u \<or> p = w"
      unfolding edges by blast
    then show ?thesis by (auto elim: usable_capacity_pos)
  qed
  show "\<forall>(path, v) \<in> set routes. 0 < v \<and> 2 \<le> length path \<and> (\<forall>p \<in> set path. id_of_pid p db \<noteq> None)"
  proof (intro ballI, unfold case_prod_beta, intro conjI ballI)
    fix r assume r: "r \<in> set routes"
    then have r': "(fst r, snd r) \<in> set routes" by simp
    note valid = route [OF r']
    show "0 < snd r" using valid by simp
    have "src \<in> set (fst r)" using valid by (auto simp: valid_path_def walk_ok_def)
    then show "2 \<le> length (fst r)" using valid_path_nodes [OF _ ne(1)] valid by blast
    show "id_of_pid p db \<noteq> None" if "p \<in> set (fst r)" for p using known [OF r' that] .
  qed
  let ?N = "{p. id_of_pid p db \<noteq> None}"
  have N: "\<forall>(path, v) \<in> set routes. distinct path \<and> set path \<subseteq> ?N"
    using route known by (fastforce simp: valid_path_def walk_ok_def)
  have inj: "inj_on (\<lambda>p. the (id_of_pid p db)) ?N"
    using id_of_pid_inj [OF pwf] by (auto simp: inj_on_def)
  have pos: "list_all (\<lambda>(path, a). 0 < a) routes" using route by (auto simp: list_all_iff)
  show "\<forall>(s, r, v) \<in> set (route_segments db routes). s \<noteq> r
      \<and> demand (route_segments db routes) s r + reserved db s r e \<le> segment_capacity s r e db"
  proof (intro ballI, clarify)
    fix s r v assume "(s, r, v) \<in> set (route_segments db routes)"
    then obtain path p q where r: "(path, v) \<in> set routes" and seg: "(p, q) \<in> set (segments_of path)"
      and sr: "s = the (id_of_pid p db)" "r = the (id_of_pid q db)" by (rule route_segments_in)
    have pq: "p \<in> ?N" "q \<in> ?N" using known [OF r] segments_in [OF seg] by auto
    have "distinct path" using N r by auto
    then have "p \<noteq> q" using seg by (rule distinct_segments_ne)
    then have "s \<noteq> r" using inj_on_eq_iff [OF inj pq] sr by simp
    have "0 < load routes p q" using load_pos [OF pos r seg] .
    then have le: "load routes p q \<le> usable_capacity e db p q" using ok unfolding routes_ok_def edges by auto
    with \<open>0 < load routes p q\<close> have cap: "0 < usable_capacity e db p q" by (rule less_le_trans)
    from cap obtain x y where "id_of_pid p db = Some x" "id_of_pid q db = Some y"
      "usable_capacity e db p q = segment_capacity x y e db - reserved db x y e" by (rule usable_capacity_pos)
    then have "load routes p q + reserved db s r e \<le> segment_capacity s r e db" using le sr by simp
    then show "s \<noteq> r \<and> demand (route_segments db routes) s r + reserved db s r e \<le> segment_capacity s r e db"
      using \<open>s \<noteq> r\<close> route_demand [OF N inj pq] sr by simp
  qed
qed

end
