(* ===== verification/Route_Properties.thy ===== *)
theory Route_Properties
  imports Routed_Payment
begin

text \<open>
  The properties of the router: the capacities it computes are the engine's, the routes it finds
  are sound and are accepted and settled by the engine, its path search finds a shortest
  acceptable path whenever there is one, and it ends within a bound on the number of steps.
\<close>

section \<open>A payment from routing to commit\<close>

lemma seg_flow_path:
  "map (seg_flow e) (route_segments db routes) = concat (map (\<lambda>(path, v). path_flows (path_ids path db) v e) routes)"
  by (induction routes) (auto simp: route_segments_def path_flows_def path_ids_def seg_flow_def)

lemma routes_net_delta:
  assumes "\<forall>(path, v) \<in> set routes. path \<noteq> [] \<and> hd path = src \<and> last path = dst"
  shows "sum_list (map (\<lambda>f. net_delta f (p, e')) (map (seg_flow e) (route_segments db routes)))
    = (if e' = e then (if p = the (id_of_pid dst db) then sum_list (map snd routes) else 0)
         - (if p = the (id_of_pid src db) then sum_list (map snd routes) else 0) else 0)"
  using assms unfolding seg_flow_path
proof (induction routes)
  case (Cons r routes)
  obtain path v where r: "r = (path, v)" by (cases r)
  have path: "path \<noteq> []" "hd path = src" "last path = dst" using Cons.prems by (auto simp: r)
  have "path_ids path db \<noteq> []" "hd (path_ids path db) = the (id_of_pid src db)"
    "last (path_ids path db) = the (id_of_pid dst db)"
    using path by (simp_all add: path_ids_def hd_map last_map)
  with Cons show ?case using path_net_delta [of "path_ids path db" p e' v e] by (auto simp: r)
qed simp

lemma reserved_grid: "grid_locks db \<Longrightarrow> on_grid (reserved db x y e)"
  unfolding reserved_def
  by (intro on_grid_sum_list) (auto simp: grid_locks_def live_locks_def seg_sum_def sql_sum_def intro!: on_grid_sum_list)

lemma usable_capacity_grid:
  assumes "engine_inv db" and "grid_locks db"
  shows "on_grid (usable_capacity e db p r)"
proof -
  note col = column_valueD(1) [OF active_limit_column [OF engine_invD(2) [OF assms(1)]]]
  show ?thesis
    using col owes_grid [OF engine_invD(1) [OF assms(1)]] reserved_grid [OF assms(2)]
    by (auto simp: usable_capacity_def segment_capacity_def split: option.split)
qed

lemma routed_commit:
  assumes inv: "engine_inv db" and pwf: "participants_wf db" and tx: "fresh_tx tx db" and ne: "src \<noteq> dst"
    and q: "find (\<lambda>q. equiv_code q = code) (equivalents db) = Some q"
    and build: "build_graph_impl code db rt0 = Inr rt"
    and find: "find_flow_routes rt src dst v max_hops max_paths avoid ticks = Inr routes" "routes \<noteq> []"
    and live: "db_now db < utcnow + ttl" and grid: "grid_locks db" "on_grid v"
  shows "\<exists>db1 db'. prepare_routes utcnow ttl tx routes (equiv_id q) db = Inr db1
    \<and> commit_tx pg n cf tx (\<lambda>_. quiet_env db1) = (Inr (), Some db')
    \<and> (\<forall>p e'. calculate_net_position p e' db' = calculate_net_position p e' db
         + (if e' = equiv_id q then (if id_of_pid dst db = Some p then v else 0)
              - (if id_of_pid src db = Some p then v else 0) else 0))"
proof -
  obtain rt' where "build_graph_impl code db rt0 = Inr rt'" "graph_wf (rt_graph rt')"
    "\<And>u v. edge_get (rt_graph rt') u v 0 = usable_capacity (equiv_id q) db u v"
    using build_graph_edges [OF inv pwf q] by blast
  then have wf: "graph_wf (rt_graph rt)" and edges: "\<And>u v. edge_get (rt_graph rt) u v 0 = usable_capacity (equiv_id q) db u v"
    using build by auto
  have sum: "sum_list (map snd routes) = v" and ok: "routes_ok rt src dst max_hops (forbidden_of avoid) routes"
    using find_flow_routes_cases [OF wf find] by auto
  obtain db1 where prep: "prepare_routes utcnow ttl tx routes (equiv_id q) db = Inr db1"
    and same: "debts db1 = debts db"
    and flows: "mset (tx_flows tx db1) = mset (map (seg_flow (equiv_id q)) (route_segments db routes))"
    and exp: "list_all (\<lambda>l. lock_expires_at l = utcnow + ttl) (load_prepare_locks tx db1)"
    and locks: "load_prepare_locks tx db1 \<noteq> []" and st: "map_option tx_state (get_tx tx db1) = Some PREPARED"
    and now: "db_now db1 = db_now db"
    using found_routes_prepare [OF inv pwf tx ne find(2) edges ok] by blast
  have inv1: "engine_inv db1" by (rule prepare_routes_inv [OF inv prep])
  have "grid_routes routes"
    by (rule find_flow_routes_grid [OF wf find]) (simp add: grid_request_def edges grid usable_capacity_grid [OF inv])
  then have "\<forall>f \<in> set (map (seg_flow (equiv_id q)) (route_segments db routes)). on_grid (fl_amount f)"
    by (fastforce simp: seg_flow_def route_segments_def grid_routes_def)
  then have grid1: "\<forall>f \<in> set (tx_flows tx db1). on_grid (fl_amount f)" using flows by (metis set_mset_mset)
  have live1: "locks_live tx db1" using exp live now by (auto simp: locks_live_def list_all_iff)
  obtain db' where com: "commit_tx pg n cf tx (\<lambda>_. quiet_env db1) = (Inr (), Some db')"
    and net: "\<And>p e'. calculate_net_position p e' db' = calculate_net_position p e' db1
      + sum_list (map (\<lambda>f. net_delta f (p, e')) (tx_flows tx db1))"
    using commit_moves_flows [OF inv1 st locks live1 grid1] by blast
  have paths: "\<forall>(path, v) \<in> set routes. path \<noteq> [] \<and> hd path = src \<and> last path = dst"
    using ok by (auto simp: routes_ok_def list_all_iff valid_path_def walk_ok_def)
  have ids: "id_of_pid src db \<noteq> None" "id_of_pid dst db \<noteq> None"
  proof -
    obtain path a where r: "(path, a) \<in> set routes" using find(2) by (cases routes) auto
    then have valid: "valid_path rt (rt_graph rt) src dst 0 max_hops {} (forbidden_of avoid) path"
      using ok by (auto simp: routes_ok_def list_all_iff)
    have "src \<in> set path" "dst \<in> set path" using paths r hd_in_set last_in_set by fastforce+
    then show "id_of_pid src db \<noteq> None" "id_of_pid dst db \<noteq> None"
      using valid_path_nodes [OF valid ne] unfolding edges by (blast elim: usable_capacity_pos)+
  qed
  have "calculate_net_position p e' db' = calculate_net_position p e' db
      + (if e' = equiv_id q then (if id_of_pid dst db = Some p then v else 0) - (if id_of_pid src db = Some p then v else 0) else 0)"
    for p e'
  proof -
    have "calculate_net_position p e' db1 = calculate_net_position p e' db" by (rule net_write_committed) (rule same)
    moreover have "(p = the (id_of_pid dst db)) = (id_of_pid dst db = Some p)" "(p = the (id_of_pid src db)) = (id_of_pid src db = Some p)"
      using ids by auto
    ultimately show ?thesis unfolding net sum_list_mset [OF flows] routes_net_delta [OF paths] sum by simp
  qed
  then show ?thesis using prep com by blast
qed

text \<open>
  C16. Routing, prepare and commit fit together. On a database that keeps the engine invariant and
  whose locks are of amounts of at most eight decimals, build the router's graph and let it find
  routes for an amount of at most eight decimals, which is what the column of the debts stores
  exactly: if it finds any, the engine's \<^verbatim>\<open>prepare_routes\<close> accepts all of them for a fresh
  transaction on that database, and the commit that follows, while the locks live, succeeds. The
  receiver's net position is then up by exactly the amount, the sender's down by it, and nobody
  else's has moved, however the amount was split over routes and whatever other transactions have
  reserved.
\<close>

theorem routed_payment_commits:
  assumes "engine_inv db" and "participants_wf db" and "fresh_tx tx db" and "src \<noteq> dst"
    and "find (\<lambda>q. equiv_code q = code) (equivalents db) = Some q"
    and "build_graph_impl code db rt0 = Inr rt"
    and "find_flow_routes rt src dst v max_hops max_paths avoid ticks = Inr routes" and "routes \<noteq> []"
    and "db_now db < utcnow + ttl" and "grid_locks db" and "on_grid v"
  shows "\<exists>db1 db'. prepare_routes utcnow ttl tx routes (equiv_id q) db = Inr db1
    \<and> commit_tx is_postgres retry_attempts commit_flag tx (\<lambda>_. quiet_env db1) = (Inr (), Some db')
    \<and> (\<forall>p e'. calculate_net_position p e' db' = calculate_net_position p e' db
         + (if e' = equiv_id q then (if id_of_pid dst db = Some p then v else 0)
              - (if id_of_pid src db = Some p then v else 0) else 0))"
  by (rule routed_commit [OF assms])

text \<open>The sample hub with a second way from A to C, through D.\<close>

definition mesh_db :: db where
  "mesh_db = sample_db\<lparr>participants := participants sample_db @ [\<lparr>part_id = 8, part_pid = ''D'', part_public_key = [], part_display_name = []\<rparr>],
     trust_lines := trust_lines sample_db @ [sample_line 13 8 5 20, sample_line 14 7 8 15]\<rparr>"

definition mesh_router :: router where
  "mesh_router = (case build_graph_impl ''UAH'' mesh_db new_router of Inl _ \<Rightarrow> new_router | Inr rt \<Rightarrow> rt)"

lemma mesh_build: "build_graph_impl ''UAH'' mesh_db new_router = Inr mesh_router"
proof -
  have "\<not> isl (build_graph_impl ''UAH'' mesh_db new_router)" by code_simp
  then show ?thesis by (auto simp: mesh_router_def split: sum.splits)
qed

lemma mesh_routes:
  "find_flow_routes mesh_router ''A'' ''C'' 60 6 3 None 100
    = Inr [([''A'', ''B'', ''C''], 50), ([''A'', ''D'', ''C''], 10)]"
  by code_simp

lemma mesh_sel [simp]:
  "participants mesh_db = participants sample_db @ [\<lparr>part_id = 8, part_pid = ''D'', part_public_key = [], part_display_name = []\<rparr>]"
  "trust_lines mesh_db = trust_lines sample_db @ [sample_line 13 8 5 20, sample_line 14 7 8 15]"
  "equivalents mesh_db = equivalents sample_db" "debts mesh_db = debts sample_db"
  "transactions mesh_db = transactions sample_db" "prepare_locks mesh_db = []" "db_now mesh_db = 1000" "next_uuid mesh_db = 100"
  by (simp_all add: mesh_db_def)

lemma mesh_wf: "engine_inv mesh_db" "participants_wf mesh_db" "fresh_tx ''t1'' mesh_db"
proof -
  have cap: "0 \<le> segment_capacity s r e mesh_db" for s r e
    by (auto simp: segment_capacity_def active_limit_def get_active_line_def owes_def get_debt_def sample_rows)
  have "debts_wf mesh_db" using sample_debts_wf by (simp add: debts_wf_def)
  moreover have "trust_lines_wf mesh_db" by (simp add: trust_lines_wf_def tl_key_def sample_rows column_value_def)
  moreover have "reservations_ok mesh_db" using cap by (simp add: reservations_ok_def reserved_def live_locks_def)
  ultimately show "engine_inv mesh_db" by (simp add: engine_inv_def no_self_lines_def locks_wf_def sample_rows)
  show "participants_wf mesh_db" by (simp add: participants_wf_def)
  show "fresh_tx ''t1'' mesh_db" by (simp add: fresh_tx_def load_prepare_locks_def get_tx_def sample_tx_def)
qed

theorem routed_payment_commits_witness:
  "\<exists>db1 db'. prepare_routes 1000 60 ''t1'' [([''A'', ''B'', ''C''], 50), ([''A'', ''D'', ''C''], 10)] 9 mesh_db = Inr db1
    \<and> commit_tx True 3 True ''t1'' (\<lambda>_. quiet_env db1) = (Inr (), Some db')
    \<and> calculate_net_position 7 9 db' = calculate_net_position 7 9 mesh_db + 60
    \<and> calculate_net_position 6 9 db' = calculate_net_position 6 9 mesh_db"
proof -
  have q: "find (\<lambda>q. equiv_code q = ''UAH'') (equivalents mesh_db) = Some \<lparr>equiv_id = 9, equiv_code = ''UAH''\<rparr>" by simp
  have live: "db_now mesh_db < 1000 + 60" and grid: "grid_locks mesh_db" by (simp_all add: grid_locks_def)
  show ?thesis
    using routed_payment_commits [OF mesh_wf _ q mesh_build mesh_routes _ live grid, of True 3 True]
    by (auto simp: id_of_pid_def)
qed

section \<open>The router on its own\<close>

text \<open>
  C27. The capacities of the graph are those of the engine. On a database that keeps the engine
  invariant the graph builder never raises, whatever prepare locks exist, and the capacity from
  one PID to another is what the engine's segment capacity leaves over the live reservations when
  the receiver has an active trust line to the sender, and nothing otherwise.
\<close>

theorem router_capacity_matches_engine:
  assumes "engine_inv db" and "participants_wf db"
    and "find (\<lambda>q. equiv_code q = code) (equivalents db) = Some q"
  shows "\<exists>rt. build_graph_impl code db rt0 = Inr rt
    \<and> (\<forall>p r. edge_get (rt_graph rt) p r 0 = (case (id_of_pid p db, id_of_pid r db) of
         (Some x, Some y) \<Rightarrow> (if get_active_line y x (equiv_id q) db = None then 0
             else max 0 (active_limit y x (equiv_id q) db - owes db x y (equiv_id q) + owes db y x (equiv_id q)
                    - reserved db x y (equiv_id q)))
       | _ \<Rightarrow> 0))"
  using build_graph_edges [OF assms, of rt0] unfolding usable_capacity_def segment_capacity_def by blast

theorem router_capacity_matches_engine_witness:
  "\<exists>rt. build_graph_impl ''UAH'' prepared_db new_router = Inr rt \<and> edge_get (rt_graph rt) ''A'' ''B'' 0 = 94"
proof -
  have pwf: "participants_wf prepared_db" by (simp add: participants_wf_def prepared_db_def)
  have q: "find (\<lambda>q. equiv_code q = ''UAH'') (equivalents prepared_db) = Some \<lparr>equiv_id = 9, equiv_code = ''UAH''\<rparr>"
    by (simp add: prepared_db_def)
  have line: "get_active_line 6 5 9 prepared_db = Some (sample_line 10 6 5 100)"
    and owes: "owes prepared_db 5 6 9 = 0" "owes prepared_db 6 5 9 = 4"
    by (simp_all add: prepared_db_def get_active_line_def owes_def get_debt_def sample_rows)
  have res: "reserved prepared_db 5 6 9 = 10"
    by (simp add: prepared_db_def reserved_def live_locks_def sample_lock_def flows_of_lock_def parse_lock_def)
  have ids: "id_of_pid ''A'' prepared_db = Some 5" "id_of_pid ''B'' prepared_db = Some 6"
    by (simp_all add: prepared_db_def id_of_pid_def)
  have limit: "active_limit 6 5 9 prepared_db = 100" by (simp add: active_limit_def line sample_line_def)
  obtain rt where rt: "build_graph_impl ''UAH'' prepared_db new_router = Inr rt"
    and edge: "edge_get (rt_graph rt) ''A'' ''B'' 0 = max 0 (100 - 0 + 4 - 10)"
    using router_capacity_matches_engine [OF prepared_engine_inv pwf q, of new_router] ids line owes res limit by fastforce
  then show ?thesis by simp
qed

text \<open>
  C28. The routes found are sound. A non-empty answer of \<^verbatim>\<open>find_flow_routes\<close> consists of at most
  \<^verbatim>\<open>max_paths\<close> routes of positive amounts that sum to the amount asked for. Each is a simple path
  from sender to receiver of at most \<^verbatim>\<open>max_hops\<close> hops that avoids the excluded participants, enters
  an intermediate node only over an edge that allows it, and has no intermediate node that an
  edge of the path blocks, other than the tail of that edge. On every edge the routes together
  stay within its capacity.
\<close>

theorem find_flow_routes_sound:
  assumes "graph_wf (rt_graph rt)"
    and "find_flow_routes rt src dst v max_hops max_paths avoid ticks = Inr routes" and "routes \<noteq> []"
  shows "sum_list (map snd routes) = v \<and> int (length routes) \<le> max_paths
    \<and> (\<forall>(path, a) \<in> set routes. 0 < a \<and> path \<noteq> [] \<and> hd path = src \<and> last path = dst \<and> distinct path
         \<and> (length path = 1 \<or> int (length path) - 1 \<le> max_hops)
         \<and> (\<forall>x \<in> set path. case avoid of None \<Rightarrow> True | Some ps \<Rightarrow> x \<in> set ps \<longrightarrow> py_strip x = [])
         \<and> (\<forall>(u, w) \<in> set (segments_of path). 0 < edge_get (rt_graph rt) u w 0
              \<and> (w \<noteq> src \<and> w \<noteq> dst \<longrightarrow> edge_allows_intermediate rt u w)
              \<and> (\<forall>x \<in> set path. x \<noteq> src \<and> x \<noteq> dst \<and> x \<in> edge_blocked rt u w \<longrightarrow> x = u)))
    \<and> (\<forall>u w. load routes u w \<noteq> 0 \<longrightarrow> load routes u w \<le> edge_get (rt_graph rt) u w 0)"
proof -
  have main: "sum_list (map snd routes) = v" "int (length routes) \<le> max_paths"
    "\<forall>u w. load routes u w \<noteq> 0 \<longrightarrow> load routes u w \<le> edge_get (rt_graph rt) u w 0"
    and ok: "\<forall>(path, a) \<in> set routes. 0 < a \<and> valid_path rt (rt_graph rt) src dst 0 max_hops {} (forbidden_of avoid) path"
    using find_flow_routes_cases [OF assms] by (auto simp: routes_ok_def list_all_iff)
  have avoid: "\<forall>x \<in> set path. case avoid of None \<Rightarrow> True | Some ps \<Rightarrow> x \<in> set ps \<longrightarrow> py_strip x = []"
    if "set path \<inter> forbidden_of avoid = {}" for path
    using that by (auto simp: forbidden_of_def split: option.splits)
  have each: "0 < a \<and> path \<noteq> [] \<and> hd path = src \<and> last path = dst \<and> distinct path
      \<and> (length path = 1 \<or> int (length path) - 1 \<le> max_hops)
      \<and> (\<forall>x \<in> set path. case avoid of None \<Rightarrow> True | Some ps \<Rightarrow> x \<in> set ps \<longrightarrow> py_strip x = [])
      \<and> (\<forall>(u, w) \<in> set (segments_of path). 0 < edge_get (rt_graph rt) u w 0
           \<and> (w \<noteq> src \<and> w \<noteq> dst \<longrightarrow> edge_allows_intermediate rt u w)
           \<and> (\<forall>x \<in> set path. x \<noteq> src \<and> x \<noteq> dst \<and> x \<in> edge_blocked rt u w \<longrightarrow> x = u))"
    if r: "(path, a) \<in> set routes" for path a
  proof -
    have valid: "0 < a" "valid_path rt (rt_graph rt) src dst 0 max_hops {} (forbidden_of avoid) path" using ok r by auto
    note parts = valid(2) [unfolded valid_path_def walk_ok_def respects_policies_def]
    then have "set path \<inter> forbidden_of avoid = {}" by blast
    note this [THEN avoid]
    moreover have "\<forall>(u, w) \<in> set (segments_of path). 0 < edge_get (rt_graph rt) u w 0
        \<and> (w \<noteq> src \<and> w \<noteq> dst \<longrightarrow> edge_allows_intermediate rt u w)
        \<and> (\<forall>x \<in> set path. x \<noteq> src \<and> x \<noteq> dst \<and> x \<in> edge_blocked rt u w \<longrightarrow> x = u)"
      using parts unfolding case_prod_beta by blast
    ultimately show ?thesis using valid(1) parts by blast
  qed
  show ?thesis by (intro conjI main ballI) (clarify, rule each)
qed

lemma mesh_graph_wf: "graph_wf (rt_graph mesh_router)"
  using build_graph_edges [OF mesh_wf(1,2), of "''UAH''" "\<lparr>equiv_id = 9, equiv_code = ''UAH''\<rparr>" new_router] mesh_build by auto

theorem find_flow_routes_sound_witness:
  "load [([''A'', ''B'', ''C''], 50), ([''A'', ''D'', ''C''], 10)] ''B'' ''C'' \<le> edge_get (rt_graph mesh_router) ''B'' ''C'' 0"
proof -
  have "\<forall>u w. load [([''A'', ''B'', ''C''], 50), ([''A'', ''D'', ''C''], 10)] u w \<noteq> 0
      \<longrightarrow> load [([''A'', ''B'', ''C''], 50), ([''A'', ''D'', ''C''], 10)] u w \<le> edge_get (rt_graph mesh_router) u w 0"
    by (rule find_flow_routes_sound [OF mesh_graph_wf mesh_routes, THEN conjunct2, THEN conjunct2, THEN conjunct2]) simp
  from this [rule_format, of "''B''" "''C''"] show ?thesis by simp
qed

text \<open>
  The path search is complete and finds shortest paths. On a graph whose edges lead to nodes
  of the graph, given \<open>(B + 1) ^ max_hops\<close> readings of the clock before the deadline, where \<open>B\<close>
  bounds the out-degree, \<^verbatim>\<open>_bfs_single_path\<close> does not time out; it returns an acceptable path with
  the fewest hops of all, and answers \<^verbatim>\<open>None\<close> only when no acceptable path exists. Acceptable means
  simple, within the hop limit, outside the forbidden edges and nodes, with enough capacity on
  every edge, and within the policies of its edges.
\<close>

theorem bfs_single_path_finds_shortest:
  assumes "graph_wf g" and "graph_closed g" and "src \<noteq> dst" and "rt_graph rt = [] \<or> g \<noteq> []"
    and "degree_le B g" and "Suc B ^ nat max_hops \<le> ticks"
  shows "case bfs_single_path rt g src dst v max_hops fe fn ticks of
      Inl _ \<Rightarrow> False
    | Inr (Some path, _) \<Rightarrow> valid_path rt g src dst v max_hops fe fn path
        \<and> (\<forall>P. valid_path rt g src dst v max_hops fe fn P \<longrightarrow> length path \<le> length P)
    | Inr (None, _) \<Rightarrow> \<nexists>P. valid_path rt g src dst v max_hops fe fn P"
proof -
  have ne: "g = [] \<Longrightarrow> rt_graph rt = []" using assms(4) by auto
  obtain r ticks' where run: "bfs_single_path rt g src dst v max_hops fe fn ticks = Inr (r, ticks')"
    using bfs_single_path_bound [OF assms(5) ne assms(6)] by blast
  show ?thesis
  proof (cases r)
    case None
    then show ?thesis using run bfs_single_path_complete(1) [OF assms(1-3)] by fastforce
  next
    case (Some path)
    then have "valid_path rt g src dst v max_hops fe fn path"
      using bfs_single_path_sound [OF assms(1) ne] run by blast
    then show ?thesis using run Some bfs_single_path_complete(2) [OF assms(1-3)] by auto
  qed
qed

text \<open>
  The route search ends in time: with a clock that allows \<open>max_paths * (1 + (B + 1) ^ max_hops)\<close>
  readings before the deadline, \<^verbatim>\<open>find_flow_routes\<close> does not raise on any graph of out-degree at most
  \<open>B\<close>, whatever its capacities and policies.
\<close>

theorem find_flow_routes_within_bound:
  assumes "degree_le B (rt_graph rt)" and "nat max_paths * Suc (Suc B ^ nat max_hops) \<le> ticks"
  shows "\<exists>routes. find_flow_routes rt src dst v max_hops max_paths avoid ticks = Inr routes"
proof -
  have "\<exists>r. flow_loop rt src dst max_hops max_paths (forbidden_of avoid) ticks (rt_graph rt) v [] = Inr r"
    by (rule flow_loop_bound [OF assms(1)]) (use assms(2) in simp_all)
  then show ?thesis by (auto simp: find_flow_routes_def)
qed

lemma mesh_degree: "degree_le 2 (rt_graph mesh_router)"
proof -
  have keys: "list_all (\<lambda>(u, d). length d \<le> 2) (rt_graph mesh_router)" by code_simp
  show ?thesis
    unfolding degree_le_def sub_dict_def
    using keys by (auto simp: list_all_iff dest!: map_of_SomeD split: option.splits)
qed

theorem bfs_single_path_finds_shortest_witness:
  "case bfs_single_path mesh_router (rt_graph mesh_router) ''A'' ''C'' 0 2 {} {} 9 of
     Inl _ \<Rightarrow> False
   | Inr (Some path, _) \<Rightarrow> path = [''A'', ''B'', ''C''] \<and> length path \<le> length [''A'', ''D'', ''C'']
   | Inr (None, _) \<Rightarrow> False"
proof -
  have ne: "rt_graph mesh_router = [] \<or> rt_graph mesh_router \<noteq> []" by simp
  have closed: "graph_closed (rt_graph mesh_router)"
    using build_graph_edges [OF mesh_wf(1,2), of "''UAH''" "\<lparr>equiv_id = 9, equiv_code = ''UAH''\<rparr>" new_router] mesh_build by auto
  have valid: "valid_path mesh_router (rt_graph mesh_router) ''A'' ''C'' 0 2 {} {} [''A'', ''D'', ''C'']"
  proof -
    have "0 < edge_get (rt_graph mesh_router) ''A'' ''D'' 0 \<and> 0 < edge_get (rt_graph mesh_router) ''D'' ''C'' 0
      \<and> edge_allows_intermediate mesh_router ''A'' ''D'' \<and> edge_blocked mesh_router ''A'' ''D'' = {}
      \<and> edge_blocked mesh_router ''D'' ''C'' = {}" by code_simp
    then show ?thesis by (auto simp: valid_path_def walk_ok_def respects_policies_def)
  qed
  have run: "bfs_single_path mesh_router (rt_graph mesh_router) ''A'' ''C'' 0 2 {} {} 9 = Inr (Some [''A'', ''B'', ''C''], 5)"
    by code_simp
  have "''A'' \<noteq> (''C'' :: pid)" "Suc 2 ^ nat 2 \<le> (9 :: nat)" by simp_all
  from bfs_single_path_finds_shortest [OF mesh_graph_wf closed this(1) ne mesh_degree this(2), of 0 "{}" "{}"] valid run
  show ?thesis by auto
qed

theorem find_flow_routes_within_bound_witness:
  "\<exists>routes. find_flow_routes mesh_router ''A'' ''C'' 1000 2 3 None 30 = Inr routes"
  using find_flow_routes_within_bound [OF mesh_degree, of 3 2 30] by simp

end
