(* ===== verification/Max_Flow.thy ===== *)
theory Max_Flow
  imports Route_Graph
begin

text \<open>
  The maximum-flow loop of the router: the augmenting paths its search finds, cuts and how an
  augmentation changes them, and from these the termination of the loop, the bound by every cut
  and, when the hop limit does not cut the search short, optimality.
\<close>

section \<open>The search for an augmenting path\<close>

lemma mf_scan_result:
  assumes "mf_scan path fl ns (queue, visited) = (queue', visited')"
  shows "set visited' = set visited \<union> {v. \<exists>c. (v, c) \<in> set ns \<and> 0 < c}"
    and "\<exists>news. queue' = queue @ news \<and> fst ` set news = set visited' - set visited
      \<and> (\<forall>item \<in> set news. \<exists>v c. (v, c) \<in> set ns \<and> 0 < c \<and> v \<notin> set visited \<and> item = (v, path @ [v], cap_min fl c))"
proof -
  have "set visited' = set visited \<union> {v. \<exists>c. (v, c) \<in> set ns \<and> 0 < c} \<and>
    (\<exists>news. queue' = queue @ news \<and> fst ` set news = set visited' - set visited
      \<and> (\<forall>item \<in> set news. \<exists>v c. (v, c) \<in> set ns \<and> 0 < c \<and> v \<notin> set visited \<and> item = (v, path @ [v], cap_min fl c)))"
    using assms
  proof (induction path fl ns "(queue, visited)" arbitrary: queue visited rule: mf_scan.induct)
    case (2 path fl v c ns queue visited)
    show ?case
    proof (cases "v \<notin> set visited \<and> 0 < c")
      case False
      then have "mf_scan path fl ns (queue, visited) = (queue', visited')" using 2(3) by (simp split: if_splits)
      from 2(2) [OF False this] False show ?thesis by fastforce
    next
      case True
      then have "mf_scan path fl ns (queue @ [(v, path @ [v], cap_min fl c)], v # visited) = (queue', visited')"
        using 2(3) by simp
      from 2(1) [OF True this] obtain news where
        vis: "set visited' = insert v (set visited) \<union> {v. \<exists>c. (v, c) \<in> set ns \<and> 0 < c}"
        and q: "queue' = queue @ [(v, path @ [v], cap_min fl c)] @ news"
        and f: "fst ` set news = set visited' - insert v (set visited)"
        and n: "\<forall>item \<in> set news. \<exists>w c. (w, c) \<in> set ns \<and> 0 < c \<and> w \<notin> insert v (set visited) \<and> item = (w, path @ [w], cap_min fl c)"
        by auto
      have "\<exists>news. queue' = queue @ news \<and> fst ` set news = set visited' - set visited
          \<and> (\<forall>item \<in> set news. \<exists>w c'. (w, c') \<in> set ((v, c) # ns) \<and> 0 < c' \<and> w \<notin> set visited \<and> item = (w, path @ [w], cap_min fl c'))"
      proof (intro exI conjI)
        show "queue' = queue @ ((v, path @ [v], cap_min fl c) # news)" using q by simp
        show "fst ` set ((v, path @ [v], cap_min fl c) # news) = set visited' - set visited" using f vis True by auto
        show "\<forall>item \<in> set ((v, path @ [v], cap_min fl c) # news). \<exists>w c'. (w, c') \<in> set ((v, c) # ns) \<and> 0 < c'
          \<and> w \<notin> set visited \<and> item = (w, path @ [w], cap_min fl c')" using n True by fastforce
      qed
      then show ?thesis using vis True by auto
    qed
  qed simp
  then show "set visited' = set visited \<union> {v. \<exists>c. (v, c) \<in> set ns \<and> 0 < c}"
    and "\<exists>news. queue' = queue @ news \<and> fst ` set news = set visited' - set visited
      \<and> (\<forall>item \<in> set news. \<exists>v c. (v, c) \<in> set ns \<and> 0 < c \<and> v \<notin> set visited \<and> item = (v, path @ [v], cap_min fl c))"
    by blast+
qed

definition mf_item_ok :: "graph \<Rightarrow> pid \<Rightarrow> pid set \<Rightarrow> pid \<times> pid list \<times> amount option \<Rightarrow> bool" where
  "mf_item_ok g src visited item \<longleftrightarrow> (case item of (u, path, fl) \<Rightarrow>
     path \<noteq> [] \<and> hd path = src \<and> last path = u \<and> distinct path \<and> set path \<subseteq> visited
     \<and> (\<forall>(a, b) \<in> set (segments_of path). 0 < edge_get g a b 0) \<and> fl = path_bottleneck g path)"

lemma mf_item_mono: "mf_item_ok g src V item \<Longrightarrow> V \<subseteq> W \<Longrightarrow> mf_item_ok g src W item"
  by (auto simp: mf_item_ok_def)

lemma bottleneck_snoc: "path \<noteq> [] \<Longrightarrow> path_bottleneck g (path @ [v]) = cap_min (path_bottleneck g path) (edge_get g (last path) v 0)"
  by (simp add: path_bottleneck_def segments_of_snoc)

lemma mf_scan_items:
  assumes wf: "graph_wf g" and scan: "mf_scan path fl (sub_dict g u) (queue, visited) = (queue', visited')"
    and item: "mf_item_ok g src (set visited) (u, path, fl)" and q: "\<forall>i \<in> set queue. mf_item_ok g src (set visited) i"
  shows "\<forall>i \<in> set queue'. mf_item_ok g src (set visited') i"
proof
  fix i assume i: "i \<in> set queue'"
  obtain news where news: "queue' = queue @ news" "fst ` set news = set visited' - set visited"
    "\<forall>item \<in> set news. \<exists>v c. (v, c) \<in> set (sub_dict g u) \<and> 0 < c \<and> v \<notin> set visited \<and> item = (v, path @ [v], cap_min fl c)"
    using mf_scan_result(2) [OF scan] by blast
  have sub: "set visited \<subseteq> set visited'" using mf_scan_result(1) [OF scan] by blast
  show "mf_item_ok g src (set visited') i"
  proof (cases "i \<in> set queue")
    case True
    then show ?thesis using q mf_item_mono [OF _ sub] by blast
  next
    case False
    then have i': "i \<in> set news" using i news(1) by simp
    then obtain v c where v: "(v, c) \<in> set (sub_dict g u)" "0 < c" "v \<notin> set visited" "i = (v, path @ [v], cap_min fl c)"
      using news(3) by blast
    have "v \<in> set visited'" using i' v(4) news(2) by force
    moreover have "edge_get g u v 0 = c" using edge_get_member [OF wf v(1)] .
    ultimately show ?thesis
      using item v sub bottleneck_snoc [of path g v] by (auto simp: mf_item_ok_def segments_of_snoc)
  qed
qed

lemma mf_bfs_sound:
  assumes "graph_wf g" and "\<forall>i \<in> set queue. mf_item_ok g src (set visited) i"
    and "mf_bfs max_hops g dst queue visited = Some (path, fl)"
  shows "path \<noteq> [] \<and> hd path = src \<and> last path = dst \<and> distinct path
    \<and> (\<forall>(a, b) \<in> set (segments_of path). 0 < edge_get g a b 0) \<and> fl = path_bottleneck g path"
  using assms
proof (induction max_hops g dst queue visited rule: mf_bfs.induct)
  case (2 max_hops g dst u p f queue visited)
  show ?case
  proof (cases "u = dst")
    case True
    then show ?thesis using 2(4,5) by (auto simp: mf_item_ok_def)
  next
    case ne: False
    show ?thesis
    proof (cases "max_hops < length p")
      case True
      then show ?thesis using 2(1) [OF ne True 2(3)] 2(4,5) ne by simp
    next
      case hops: False
      obtain queue' visited' where scan: "mf_scan p f (sub_dict g u) (queue, visited) = (queue', visited')" by fastforce
      have "\<forall>i \<in> set queue'. mf_item_ok g src (set visited') i"
        by (rule mf_scan_items [OF 2(3) scan]) (use 2(4) in auto)
      then show ?thesis using 2(2) [OF ne hops scan [symmetric] 2(3)] 2(5) ne hops scan by simp
    qed
  qed
qed simp

definition edges_in :: "pid set \<Rightarrow> graph \<Rightarrow> bool" where
  "edges_in N g \<longleftrightarrow> (\<forall>u v. edge_get g u v 0 \<noteq> 0 \<longrightarrow> u \<in> N \<and> v \<in> N)"

lemma mf_bfs_None:
  assumes "graph_wf g" and "\<forall>i \<in> set queue. mf_item_ok g src (set visited) i"
    and "finite N" and "card N \<le> max_hops" and "set visited \<subseteq> N" and "edges_in N g"
    and "\<forall>u \<in> set visited. u \<in> fst ` set queue \<or> u \<noteq> dst \<and> (\<forall>v. 0 < edge_get g u v 0 \<longrightarrow> v \<in> set visited)"
    and "mf_bfs max_hops g dst queue visited = None"
  shows "\<exists>S. set visited \<subseteq> S \<and> S \<subseteq> N \<and> dst \<notin> S \<and> (\<forall>u \<in> S. \<forall>v. 0 < edge_get g u v 0 \<longrightarrow> v \<in> S)"
  using assms
proof (induction max_hops g dst queue visited rule: mf_bfs.induct)
  case (1 max_hops g dst visited)
  then show ?case by (intro exI [where x = "set visited"]) auto
next
  case (2 max_hops g dst u p f queue visited)
  have ne: "u \<noteq> dst" using 2(10) by auto
  have item: "mf_item_ok g src (set visited) (u, p, f)" using 2(4) by simp
  have "card (set p) \<le> card N" using item 2(5,7) by (intro card_mono) (auto simp: mf_item_ok_def)
  then have hops: "\<not> max_hops < length p" using item 2(6) by (simp add: mf_item_ok_def distinct_card)
  obtain queue' visited' where scan: "mf_scan p f (sub_dict g u) (queue, visited) = (queue', visited')" by fastforce
  have items: "\<forall>i \<in> set queue'. mf_item_ok g src (set visited') i"
    by (rule mf_scan_items [OF 2(3) scan item]) (use 2(4) in auto)
  have vis: "set visited' = set visited \<union> {v. \<exists>c. (v, c) \<in> set (sub_dict g u) \<and> 0 < c}" by (rule mf_scan_result(1) [OF scan])
  obtain news where news: "queue' = queue @ news" "fst ` set news = set visited' - set visited"
    using mf_scan_result(2) [OF scan] by blast
  have "v \<in> N" if "(v, c) \<in> set (sub_dict g u)" "0 < c" for v c
    using edge_get_member [OF 2(3) that(1), of 0] that(2) 2(8) unfolding edges_in_def by (metis less_irrefl)
  then have N: "set visited' \<subseteq> N" using 2(7) unfolding vis by blast
  have u: "v \<in> set visited'" if "0 < edge_get g u v 0" for v
    using that edge_get_nonzero_member [of g u v 0] vis by force
  have frontier: "\<forall>w \<in> set visited'. w \<in> fst ` set queue' \<or> w \<noteq> dst \<and> (\<forall>v. 0 < edge_get g w v 0 \<longrightarrow> v \<in> set visited')"
  proof
    fix w assume w: "w \<in> set visited'"
    show "w \<in> fst ` set queue' \<or> w \<noteq> dst \<and> (\<forall>v. 0 < edge_get g w v 0 \<longrightarrow> v \<in> set visited')"
    proof (cases "w \<in> set visited")
      case False
      then show ?thesis using w news by (auto simp: image_Un)
    next
      case True
      then consider "w = u" | "w \<in> fst ` set queue" | "w \<noteq> dst \<and> (\<forall>v. 0 < edge_get g w v 0 \<longrightarrow> v \<in> set visited)"
        using 2(9) by auto
      then show ?thesis
      proof cases
        case 1
        then show ?thesis using u ne by simp
      next
        case 2
        then show ?thesis by (simp add: news(1) image_Un)
      next
        case 3
        then show ?thesis unfolding vis by simp
      qed
    qed
  qed
  have none: "mf_bfs max_hops g dst queue' visited' = None" using 2(10) ne hops scan by simp
  from 2(2) [OF ne hops scan [symmetric] 2(3) items 2(5,6) N 2(8) frontier none]
  obtain S where S: "set visited' \<subseteq> S" "S \<subseteq> N \<and> dst \<notin> S \<and> (\<forall>u \<in> S. \<forall>v. 0 < edge_get g u v 0 \<longrightarrow> v \<in> S)" by (elim exE conjE) simp
  have "set visited \<subseteq> S" using S(1) unfolding vis by simp
  with S(2) show ?case by (intro exI [where x = S] conjI) simp_all
qed

section \<open>Cuts\<close>

text \<open>
  The capacity that leaves a set of nodes, over a fixed finite set of nodes that holds every
  edge.
\<close>

definition cut :: "pid set \<Rightarrow> graph \<Rightarrow> pid set \<Rightarrow> amount" where
  "cut N g S = (\<Sum>u \<in> N \<inter> S. \<Sum>v \<in> N - S. edge_get g u v 0)"

definition crossing :: "pid set \<Rightarrow> pid \<times> pid \<Rightarrow> rat" where
  "crossing S uv = (case uv of (u, v) \<Rightarrow> of_bool (u \<in> S) - of_bool (v \<in> S))"

lemma crossing_path: "path \<noteq> [] \<Longrightarrow> sum_list (map (crossing S) (segments_of path)) = of_bool (hd path \<in> S) - of_bool (last path \<in> S)"
proof (induction path)
  case (Cons x xs)
  then show ?case by (cases xs) (auto simp: crossing_def)
qed simp

lemma sum_delta_cut:
  assumes "finite N" and "a \<in> N" and "b \<in> N" and "a \<noteq> b"
  shows "(\<Sum>u \<in> N \<inter> S. \<Sum>v \<in> N - S. augment_delta (x, a, b) (u, v)) = - x * crossing S (a, b)"
proof -
  have point: "(\<Sum>u \<in> N \<inter> S. \<Sum>v \<in> N - S. if (u, v) = (c, d) then x else 0) = (if c \<in> S \<and> d \<notin> S then x else 0)"
    if "c \<in> N" "d \<in> N" for c d
  proof -
    have "(\<Sum>v \<in> N - S. if (u, v) = (c, d) then x else 0) = (if u = c \<and> d \<notin> S then x else 0)" for u
      using assms(1) that by (cases "u = c") (simp_all add: sum.delta)
    then have "(\<Sum>u \<in> N \<inter> S. \<Sum>v \<in> N - S. if (u, v) = (c, d) then x else 0)
        = (\<Sum>u \<in> N \<inter> S. if u = c then (if d \<notin> S then x else 0) else 0)" by (intro sum.cong) auto
    also have "\<dots> = (if c \<in> S \<and> d \<notin> S then x else 0)" using assms(1) that by (simp add: sum.delta)
    finally show ?thesis .
  qed
  have "(\<Sum>u \<in> N \<inter> S. \<Sum>v \<in> N - S. augment_delta (x, a, b) (u, v))
      = (if b \<in> S \<and> a \<notin> S then x else 0) - (if a \<in> S \<and> b \<notin> S then x else 0)"
    using point [OF assms(3,2)] point [OF assms(2,3)] unfolding augment_delta_def by (simp add: sum_subtractf)
  then show ?thesis by (auto simp: crossing_def)
qed

lemma cut_augment:
  assumes "graph_wf g" and N: "finite N" "set path \<subseteq> N" and path: "path \<noteq> []" "distinct path"
  shows "cut N (fold (augment_edge x) (segments_of path) g) S
    = cut N g S - x * (of_bool (hd path \<in> S) - of_bool (last path \<in> S))"
proof -
  let ?es = "segments_of path" let ?g' = "fold (augment_edge x) ?es g"
  have ne: "\<forall>(u, v) \<in> set ?es. u \<noteq> v" using path(2) by (auto dest: distinct_segments_ne)
  have "cut N ?g' S = cut N g S + (\<Sum>u \<in> N \<inter> S. \<Sum>v \<in> N - S. sum_list (map (\<lambda>uv. augment_delta (x, uv) (u, v)) ?es))"
    unfolding cut_def augment_path(2) [OF assms(1) ne] by (simp add: sum.distrib)
  also have "(\<Sum>u \<in> N \<inter> S. \<Sum>v \<in> N - S. sum_list (map (\<lambda>uv. augment_delta (x, uv) (u, v)) es))
      = - x * sum_list (map (crossing S) es)" if "set es \<subseteq> set ?es" for es
    using that
  proof (induction es)
    case (Cons e es)
    obtain a b where e: "e = (a, b)" by (cases e)
    have "a \<in> N" "b \<in> N" "a \<noteq> b" using Cons.prems N(2) ne by (auto simp: e dest: segments_in)
    from sum_delta_cut [OF N(1) this] Cons show ?case
      by (simp add: e sum.distrib algebra_simps)
  qed simp
  finally show ?thesis using crossing_path [OF path(1), of S] by simp
qed

lemma cut_nonneg: "(\<And>u v. 0 \<le> edge_get g u v 0) \<Longrightarrow> 0 \<le> cut N g S"
  unfolding cut_def by (intro sum_nonneg)

lemma augment_nonneg:
  assumes "graph_wf g" and cap: "\<And>u v. 0 \<le> edge_get g u v 0" and x: "0 \<le> x" and path: "distinct path"
    and le: "\<forall>(u, v) \<in> set (segments_of path). x \<le> edge_get g u v 0"
  shows "0 \<le> edge_get (fold (augment_edge x) (segments_of path) g) u v 0"
proof -
  have ne: "\<forall>(u, v) \<in> set (segments_of path). u \<noteq> v" using path by (auto dest: distinct_segments_ne)
  have sum: "sum_list (map (\<lambda>uv. augment_delta (x, uv) (u, v)) es)
      \<ge> - (if (u, v) \<in> set es then x else 0)" if "distinct es" "\<forall>(a, b) \<in> set es. a \<noteq> b" for es
    using that
  proof (induction es)
    case (Cons e es)
    then show ?case using x by (cases e) (auto simp: augment_delta_def)
  qed simp
  have "edge_get (fold (augment_edge x) (segments_of path) g) u v 0 \<ge> edge_get g u v 0 - (if (u, v) \<in> set (segments_of path) then x else 0)"
    using sum [OF distinct_segments [OF path] ne] unfolding augment_path(2) [OF assms(1) ne] by linarith
  moreover have "0 \<le> edge_get g u v 0 - (if (u, v) \<in> set (segments_of path) then x else 0)" using le cap [of u v] by auto
  ultimately show ?thesis by linarith
qed

section \<open>A common denominator\<close>

definition grid :: "int \<Rightarrow> graph \<Rightarrow> bool" where
  "grid D g \<longleftrightarrow> (\<forall>u v. \<exists>k. edge_get g u v 0 * of_int D = of_int k)"

lemma common_denominator: "\<exists>D > 0. \<forall>c \<in> set cs. \<exists>k. (c :: rat) * of_int D = of_int k"
proof (induction cs)
  case Nil
  then show ?case by (intro exI [where x = 1]) simp
next
  case (Cons c cs)
  then obtain D where D: "D > 0" "\<forall>c \<in> set cs. \<exists>k. c * of_int D = of_int k" by blast
  obtain a b where ab: "quotient_of c = (a, b)" by (cases "quotient_of c")
  then have c: "c = of_int a / of_int b" "b > 0" by (rule quotient_of_div, rule quotient_of_denom_pos)
  have "\<exists>k. y * of_int (D * b) = of_int k" if y: "y \<in> set (c # cs)" for y
  proof (cases "y = c")
    case True
    then have "y * of_int (D * b) = of_int (a * D)" using c by (simp add: field_simps)
    then show ?thesis by blast
  next
    case False
    then obtain k where "y * of_int D = of_int k" using y D(2) by auto
    then have "y * of_int (D * b) = of_int (k * b)" by (metis mult.assoc of_int_mult)
    then show ?thesis by blast
  qed
  then show ?case using D(1) c(2) by (intro exI [where x = "D * b"]) simp
qed

lemma grid_exists: "\<exists>D > 0. grid D g"
proof -
  let ?cs = "concat (map (map snd \<circ> snd) g)"
  have edge: "edge_get g u v 0 = 0 \<or> edge_get g u v 0 \<in> set ?cs" for u v
    by (force simp: edge_get_def sub_dict_def dest!: map_of_SomeD split: option.splits)
  obtain D where D: "D > 0" "\<forall>c \<in> set ?cs. \<exists>k. c * of_int D = of_int k" using common_denominator by blast
  have "\<exists>k. edge_get g u v 0 * of_int D = of_int k" for u v
    using edge [of u v] D(2) by (metis mult_zero_left of_int_0)
  then show ?thesis using D(1) by (auto simp: grid_def)
qed

lemma grid_augment:
  assumes "graph_wf g" and "\<forall>(u, v) \<in> set es. u \<noteq> v" and g: "grid D g" and x: "x * of_int D = of_int k"
  shows "grid D (fold (augment_edge x) es g)"
proof -
  have "\<exists>k. sum_list (map (\<lambda>uv. augment_delta (x, uv) (a, b)) es) * of_int D = of_int k" for a b es
  proof (induction es)
    case (Cons e es)
    then obtain k1 where k1: "sum_list (map (\<lambda>uv. augment_delta (x, uv) (a, b)) es) * of_int D = of_int k1" by blast
    have "augment_delta (x, e) (a, b) * of_int D
        = of_int ((if (a, b) = (snd e, fst e) then k else 0) - (if (a, b) = (fst e, snd e) then k else 0))"
      unfolding augment_delta_def of_int_diff x [symmetric] case_prod_beta by (auto simp: x [symmetric] left_diff_distrib)
    then obtain k2 where k2: "augment_delta (x, e) (a, b) * of_int D = of_int k2" by blast
    have "sum_list (map (\<lambda>uv. augment_delta (x, uv) (a, b)) (e # es)) * of_int D = of_int (k2 + k1)"
      unfolding list.map sum_list.Cons distrib_right k1 k2 of_int_add ..
    then show ?case by blast
  qed (intro exI [where x = 0], simp)
  then have sums: "\<exists>k. sum_list (map (\<lambda>uv. augment_delta (x, uv) (a, b)) es) * of_int D = of_int k" for a b .
  show ?thesis
    unfolding grid_def augment_path(2) [OF assms(1,2)]
  proof (intro allI)
    fix a b
    obtain k1 k2 where "edge_get g a b 0 * of_int D = of_int k1"
      "sum_list (map (\<lambda>uv. augment_delta (x, uv) (a, b)) es) * of_int D = of_int k2"
      using g sums [of a b] unfolding grid_def by blast
    then have "(edge_get g a b 0 + sum_list (map (\<lambda>uv. augment_delta (x, uv) (a, b)) es)) * of_int D = of_int (k1 + k2)"
      unfolding distrib_right of_int_add by (simp only:)
    then show "\<exists>k. (edge_get g a b 0 + sum_list (map (\<lambda>uv. augment_delta (x, uv) (a, b)) es)) * of_int D = of_int k" by blast
  qed
qed

lemma sum_list_nonzero: "sum_list (map f xs) \<noteq> (0 :: rat) \<Longrightarrow> \<exists>x \<in> set xs. f x \<noteq> 0"
  by (induction xs) auto

lemma segments_to:
  assumes "p \<in> set ys"
  obtains u where "(u, p) \<in> set (segments_of (x # ys))"
  using assms
proof (induction ys arbitrary: x)
  case (Cons y ys)
  then show ?case by (cases "p = y") auto
qed simp

section \<open>The loop\<close>

definition flow_graph :: "pid set \<Rightarrow> int \<Rightarrow> graph \<Rightarrow> bool" where
  "flow_graph N D g \<longleftrightarrow> graph_wf g \<and> (\<forall>u v. 0 \<le> edge_get g u v 0) \<and> edges_in N g \<and> grid D g"

lemma augmenting_path:
  assumes g: "flow_graph N D g" and N: "finite N" "src \<in> N" and ne: "src \<noteq> dst" and D: "0 < D"
    and bfs: "mf_bfs max_hops g dst [(src, [src], None)] [src] = Some (path, fl)"
  obtains x where "fl = Some x" and "0 < x" and "1 \<le> x * of_int D" and "flow_graph N D (fold (augment_edge x) (segments_of path) g)"
    and "\<And>S. src \<in> S \<Longrightarrow> dst \<notin> S \<Longrightarrow> cut N (fold (augment_edge x) (segments_of path) g) S = cut N g S - x"
proof -
  have wf: "graph_wf g" and cap: "\<And>u v. 0 \<le> edge_get g u v 0" and E: "edges_in N g" and grid: "grid D g"
    using g by (auto simp: flow_graph_def)
  have "\<forall>i \<in> set [(src, [src], None)]. mf_item_ok g src (set [src]) i" by (simp add: mf_item_ok_def path_bottleneck_def)
  from mf_bfs_sound [OF wf this bfs]
  have path: "path \<noteq> []" "hd path = src" "last path = dst" "distinct path"
    and pos: "\<forall>(a, b) \<in> set (segments_of path). 0 < edge_get g a b 0" and fl: "fl = path_bottleneck g path" by auto
  have len: "\<not> length path < 2" using path ne by (cases path; cases "tl path") auto
  then obtain x where x: "path_bottleneck g path = Some x" using path_bottleneck_None [of g path] segments_nil_iff [of path] by auto
  have le: "\<forall>(u, v) \<in> set (segments_of path). x \<le> edge_get g u v 0" using path_bottleneck_Some(1) [OF x] by auto
  obtain a b where ab: "(a, b) \<in> set (segments_of path)" "x = edge_get g a b 0" using path_bottleneck_Some(2) [OF x] by auto
  have x0: "0 < x" using pos ab by auto
  obtain k where k: "x * of_int D = of_int k" using grid ab(2) by (auto simp: grid_def)
  have "0 < x * of_int D" using x0 D by simp
  then have k1: "1 \<le> x * of_int D" unfolding k by simp
  have inN: "set path \<subseteq> N"
  proof
    fix p assume p: "p \<in> set path"
    show "p \<in> N"
    proof (cases "p = src")
      case False
      obtain ys where ys: "path = src # ys" using path by (cases path) auto
      then have "p \<in> set ys" using p False by simp
      then obtain u where "(u, p) \<in> set (segments_of path)" unfolding ys by (rule segments_to)
      then have "0 < edge_get g u p 0" using pos by auto
      then show ?thesis using E unfolding edges_in_def by (metis less_irrefl)
    qed (use N in simp)
  qed
  let ?g' = "fold (augment_edge x) (segments_of path) g"
  have ne': "\<forall>(u, v) \<in> set (segments_of path). u \<noteq> v" using path(4) by (auto dest: distinct_segments_ne)
  have "edges_in N ?g'"
    unfolding edges_in_def augment_path(2) [OF wf ne']
  proof (intro allI impI)
    fix u v assume nz: "edge_get g u v 0 + sum_list (map (\<lambda>uv. augment_delta (x, uv) (u, v)) (segments_of path)) \<noteq> 0"
    show "u \<in> N \<and> v \<in> N"
    proof (cases "edge_get g u v 0 = 0")
      case True
      then have "\<exists>uv \<in> set (segments_of path). augment_delta (x, uv) (u, v) \<noteq> 0"
        using nz sum_list_nonzero [of "\<lambda>uv. augment_delta (x, uv) (u, v)" "segments_of path"] by simp
      then obtain a b where ab: "(a, b) \<in> set (segments_of path)" "augment_delta (x, a, b) (u, v) \<noteq> 0" by auto
      then have "(u, v) = (a, b) \<or> (u, v) = (b, a)" by (auto simp: augment_delta_def split: if_splits)
      then show ?thesis using inN segments_in [OF ab(1)] by auto
    qed (use E in \<open>auto simp: edges_in_def\<close>)
  qed
  then have "flow_graph N D ?g'"
    using augment_path(1) [OF wf ne'] augment_nonneg [OF wf cap _ path(4) le] x0 grid_augment [OF wf ne' grid k]
    by (simp add: flow_graph_def)
  moreover have "cut N ?g' S = cut N g S - x" if "src \<in> S" "dst \<notin> S" for S
    using cut_augment [OF wf N(1) inN path(1,4), of x S] path that by simp
  ultimately show ?thesis using that [of x] fl x x0 k1 by blast
qed

lemma max_flow_loop_result:
  assumes "flow_graph N D g" and N: "finite N" "src \<in> N" and ne: "src \<noteq> dst" and D: "0 < D"
  shows "\<exists>m' paths' g'. max_flow_loop max_hops src dst g (Some m) paths = Some (Some (m + m'), paths @ paths') \<and> 0 \<le> m'
    \<and> flow_graph N D g' \<and> (\<forall>S. src \<in> S \<longrightarrow> dst \<notin> S \<longrightarrow> cut N g S = m' + cut N g' S)
    \<and> mf_bfs max_hops g' dst [(src, [src], None)] [src] = None
    \<and> sum_list (map (\<lambda>p. the (snd p)) paths') = m'"
  using assms(1)
proof (induction "nat \<lfloor>cut N g {src} * of_int D\<rfloor>" arbitrary: g m paths rule: less_induct)
  case less
  show ?case
  proof (cases "mf_bfs max_hops g dst [(src, [src], None)] [src]")
    case None
    then show ?thesis
      using less.prems by (subst max_flow_loop.simps) (auto intro!: exI [where x = 0] exI [where x = "[]"] exI [where x = g])
  next
    case (Some r)
    obtain path fl where r: "r = (path, fl)" by (cases r)
    obtain x where x: "fl = Some x" "0 < x" "1 \<le> x * of_int D"
      and g': "flow_graph N D (fold (augment_edge x) (segments_of path) g)"
      and cuts: "\<And>S. src \<in> S \<Longrightarrow> dst \<notin> S \<Longrightarrow> cut N (fold (augment_edge x) (segments_of path) g) S = cut N g S - x"
      by (rule augmenting_path [OF less.prems N ne D Some [unfolded r]]) (rule that)
    let ?g' = "fold (augment_edge x) (segments_of path) g"
    have "0 \<le> cut N ?g' {src}" by (rule cut_nonneg) (use g' in \<open>simp add: flow_graph_def\<close>)
    then have "0 \<le> cut N ?g' {src} * of_int D" using D by simp
    moreover have "cut N ?g' {src} * of_int D = cut N g {src} * of_int D - x * of_int D"
      using cuts [of "{src}"] ne by (simp add: left_diff_distrib)
    ultimately have "nat \<lfloor>cut N ?g' {src} * of_int D\<rfloor> < nat \<lfloor>cut N g {src} * of_int D\<rfloor>"
      using x(3) by linarith
    from less.hyps [OF this g', of "m + x" "paths @ [(path, fl)]"]
    obtain m' paths' g2 where rec: "max_flow_loop max_hops src dst ?g' (Some (m + x)) (paths @ [(path, fl)])
        = Some (Some (m + x + m'), (paths @ [(path, fl)]) @ paths')" "0 \<le> m'" "flow_graph N D g2"
      "\<forall>S. src \<in> S \<longrightarrow> dst \<notin> S \<longrightarrow> cut N ?g' S = m' + cut N g2 S"
      "mf_bfs max_hops g2 dst [(src, [src], None)] [src] = None" "sum_list (map (\<lambda>p. the (snd p)) paths') = m'"
      by blast
    have "max_flow_loop max_hops src dst g (Some m) paths = Some (Some (m + (x + m')), paths @ ((path, fl) # paths'))"
      using Some rec(1) by (subst max_flow_loop.simps) (simp add: r x(1) flow_add_def add.assoc)
    moreover have "\<forall>S. src \<in> S \<longrightarrow> dst \<notin> S \<longrightarrow> cut N g S = (x + m') + cut N g2 S" using rec(4) cuts by fastforce
    moreover have "sum_list (map (\<lambda>p. the (snd p)) ((path, fl) # paths')) = x + m'" using rec(6) x(1) by simp
    moreover have "0 \<le> x + m'" using x(2) rec(2) by simp
    ultimately show ?thesis using rec(3,5) by blast
  qed
qed

definition graph_nodes :: "graph \<Rightarrow> pid set" where
  "graph_nodes g = fst ` set g \<union> graph_targets g"

lemma edges_in_nodes: "edges_in (graph_nodes g) g"
proof -
  have "u \<in> fst ` set g" if "edge_get g u v 0 \<noteq> 0" for u v
    using that by (force simp: edge_get_def sub_dict_def dest: map_of_SomeD split: option.splits)
  moreover have "v \<in> graph_targets g" if "edge_get g u v 0 \<noteq> 0" for u v
    using edge_get_nonzero_member [OF refl that] sub_dict_targets [of g u] by force
  ultimately show ?thesis unfolding edges_in_def graph_nodes_def by blast
qed

lemma edges_in_mono: "edges_in N g \<Longrightarrow> N \<subseteq> M \<Longrightarrow> edges_in M g"
  unfolding edges_in_def by blast

lemma final_cut:
  assumes g: "flow_graph N D g" and N: "finite N" "src \<in> N" "card N \<le> max_hops" and ne: "src \<noteq> dst"
    and none: "mf_bfs max_hops g dst [(src, [src], None)] [src] = None"
  shows "\<exists>S. src \<in> S \<and> dst \<notin> S \<and> cut N g S = 0"
proof -
  have wf: "graph_wf g" and cap: "\<And>u v. 0 \<le> edge_get g u v 0" and E: "edges_in N g" using g by (auto simp: flow_graph_def)
  have items: "\<forall>i \<in> set [(src, [src], None)]. mf_item_ok g src (set [src]) i" by (simp add: mf_item_ok_def path_bottleneck_def)
  have "\<forall>u \<in> set [src]. u \<in> fst ` set [(src, [src], None :: amount option)] \<or> u \<noteq> dst \<and> (\<forall>v. 0 < edge_get g u v 0 \<longrightarrow> v \<in> set [src])" by simp
  from mf_bfs_None [OF wf items N(1,3) _ E this none] N(2)
  obtain S where S: "src \<in> S" "dst \<notin> S" "\<forall>u \<in> S. \<forall>v. 0 < edge_get g u v 0 \<longrightarrow> v \<in> S" by auto
  have "edge_get g u v 0 = 0" if "u \<in> S" "v \<notin> S" for u v
    using S(3) that cap [of u v] by (metis order.not_eq_order_implies_strict)
  then have "cut N g S = 0" unfolding cut_def by (intro sum.neutral ballI) auto
  then show ?thesis using S(1,2) by blast
qed

text \<open>With sender and receiver equal, the first path found has no edge and the loop never ends.\<close>

lemma max_flow_self_loops: "max_flow_loop max_hops p p g m paths = None"
proof -
  have "src \<noteq> dst" if "max_flow_loop max_hops src dst g m paths = Some y" for src dst g m paths y
    using that
  proof (induction rule: max_flow_loop.raw_induct [rotated 1, consumes 1])
    case (1 loop max_hops src dst g m paths y)
    show ?case
    proof
      assume "src = dst"
      then have "loop max_hops src dst g (flow_add m None) (paths @ [([src], None)]) = Some y" using 1(2) by simp
      then show False using 1(1) \<open>src = dst\<close> by blast
    qed
  qed
  then show ?thesis by (metis not_Some_eq)
qed

end
