(* ===== verification/Topology.thy ===== *)
theory Topology
  imports Router
begin

text \<open>
  The topology search of the router: reachability within a number of hops as the abstract
  answer, and the breadth-first search with its seen set as an implementation of it.
\<close>

section \<open>Reachability within a number of hops\<close>

primrec hop_reach :: "('a \<times> 'a) set \<Rightarrow> 'a \<Rightarrow> nat \<Rightarrow> 'a set" where
  "hop_reach R src 0 = {src}"
| "hop_reach R src (Suc n) = hop_reach R src n \<union> R `` hop_reach R src n"

lemma hop_reach_mono: "m \<le> n \<Longrightarrow> hop_reach R src m \<subseteq> hop_reach R src n"
  by (induction n) (auto simp: le_Suc_eq)

definition adj_rel :: "(pid \<times> pid list) list \<Rightarrow> (pid \<times> pid) set" where
  "adj_rel adj = {(u, v). v \<in> set (adj_get adj u)}"

lemma topology_scan_None: "topology_scan dst hops ns (q, seen) = None \<longleftrightarrow> dst \<in> set ns"
  by (induction dst hops ns "(q, seen)" arbitrary: q seen rule: topology_scan.induct) auto

lemma topology_scan_Some:
  assumes "topology_scan dst hops ns (q, seen) = Some (q', seen')"
  shows "\<exists>news. q' = q @ news \<and> (\<forall>i \<in> set news. snd i = Suc hops) \<and> fst ` set news = set ns - set seen
    \<and> set seen' = set seen \<union> set ns"
  using assms
proof (induction dst hops ns "(q, seen)" arbitrary: q seen rule: topology_scan.induct)
  case (2 dst hops n ns q seen)
  have ne: "n \<noteq> dst" using 2(3) by auto
  show ?case
  proof (cases "n \<in> set seen")
    case True
    then show ?thesis using 2(1) [OF ne True] 2(3) ne by auto
  next
    case False
    then have "topology_scan dst hops ns (q @ [(n, Suc hops)], n # seen) = Some (q', seen')" using 2(3) ne by simp
    from 2(2) [OF ne False this] obtain news where news: "q' = (q @ [(n, Suc hops)]) @ news"
      "\<forall>i \<in> set news. snd i = Suc hops" "fst ` set news = set ns - insert n (set seen)" "set seen' = insert n (set seen) \<union> set ns"
      by auto
    then show ?thesis using False by (intro exI [where x = "(n, Suc hops) # news"]) auto
  qed
qed simp

section \<open>The search is sound and complete\<close>

lemma topology_bfs_sound:
  assumes "topology_bfs adj dst H q seen" and "\<forall>(u, h) \<in> set q. u \<in> hop_reach (adj_rel adj) src h"
  shows "dst \<in> hop_reach (adj_rel adj) src H"
  using assms
proof (induction adj dst H q seen rule: topology_bfs.induct)
  case (2 adj dst H cur hops q seen)
  have cur: "cur \<in> hop_reach (adj_rel adj) src hops" and q: "\<forall>(u, h) \<in> set q. u \<in> hop_reach (adj_rel adj) src h" using 2(4) by auto
  show ?case
  proof (cases "H \<le> hops")
    case True
    then show ?thesis using 2(1) [OF True _ q] 2(3) by simp
  next
    case lt: False
    have next_level: "set (adj_get adj cur) \<subseteq> hop_reach (adj_rel adj) src (Suc hops)" using cur by (auto simp: adj_rel_def)
    show ?thesis
    proof (cases "topology_scan dst hops (adj_get adj cur) (q, seen)")
      case None
      then have "dst \<in> hop_reach (adj_rel adj) src (Suc hops)" using next_level topology_scan_None by blast
      then show ?thesis using hop_reach_mono [of "Suc hops" H "adj_rel adj" src] lt by auto
    next
      case (Some st)
      obtain q' seen' where st: "st = (q', seen')" by (cases st)
      obtain news where news: "q' = q @ news" "\<forall>i \<in> set news. snd i = Suc hops" "fst ` set news = set (adj_get adj cur) - set seen"
        using topology_scan_Some [OF Some [unfolded st]] by blast
      have "fst i \<in> hop_reach (adj_rel adj) src (Suc hops)" if "i \<in> set news" for i
        using that news(3) next_level by (metis Diff_iff image_eqI subsetD)
      then have "\<forall>(u, h) \<in> set news. u \<in> hop_reach (adj_rel adj) src h" using news(2) by (metis case_prodI2 fst_conv snd_conv)
      then have "\<forall>(u, h) \<in> set q'. u \<in> hop_reach (adj_rel adj) src h" using news(1) q by auto
      then show ?thesis using 2(2) [OF lt Some st [symmetric]] 2(3) lt Some st by simp
    qed
  qed
qed simp

text \<open>
  \<open>D\<close> holds the processed nodes with the hop count they were taken from the queue with.
\<close>

definition explored :: "(pid \<times> pid list) list \<Rightarrow> pid \<Rightarrow> nat \<Rightarrow> (pid \<times> nat) set \<Rightarrow> (pid \<times> nat) set \<Rightarrow> bool" where
  "explored adj dst H D A \<longleftrightarrow> (\<forall>(u, h) \<in> D. h < H \<longrightarrow>
     (\<forall>v \<in> set (adj_get adj u). v \<noteq> dst \<and> (\<exists>k \<le> Suc h. (v, k) \<in> A)))"

definition hop_queue :: "(pid \<times> nat) set \<Rightarrow> (pid \<times> nat) list \<Rightarrow> bool" where
  "hop_queue D q \<longleftrightarrow> sorted (map snd q) \<and> (\<forall>i \<in> set q. snd i \<le> Suc (snd (hd q)))
     \<and> (\<forall>d \<in> D. \<forall>i \<in> set q. snd d \<le> snd i)"

lemma hop_queue_step:
  assumes "hop_queue D ((cur, hops) # q)" and "\<forall>i \<in> set news. snd i = Suc hops"
  shows "hop_queue (insert (cur, hops) D) (q @ news)"
proof -
  have "map snd news = replicate (length news) (Suc hops)" using assms(2) by (induction news) auto
  then have "sorted (map snd news)" by simp
  moreover have q: "hops \<le> snd i \<and> snd i \<le> Suc hops" if "i \<in> set q" for i using assms(1) that by (auto simp: hop_queue_def)
  ultimately have sorted: "sorted (map snd (q @ news))" using assms by (auto simp: hop_queue_def sorted_append)
  have all: "hops \<le> snd i \<and> snd i \<le> Suc hops" if "i \<in> set (q @ news)" for i
    using that q [of i] assms(2) by (cases "i \<in> set q") simp_all
  have "snd i \<le> Suc (snd (hd (q @ news)))" if i: "i \<in> set (q @ news)" for i
  proof -
    have "hd (q @ news) \<in> set (q @ news)" using i by (metis empty_iff empty_set hd_in_set)
    then show ?thesis using all [OF i] all [of "hd (q @ news)"] by linarith
  qed
  moreover have "snd d \<le> snd i" if "d \<in> insert (cur, hops) D" "i \<in> set (q @ news)" for d i
  proof (cases "d = (cur, hops)")
    case False
    then have "snd d \<le> hops" using assms(1) that(1) by (auto simp: hop_queue_def)
    then show ?thesis using all [OF that(2)] by linarith
  qed (use all [OF that(2)] in simp)
  ultimately show ?thesis using sorted by (simp add: hop_queue_def)
qed

lemma topology_bfs_complete:
  assumes "\<not> topology_bfs adj dst H q seen" and "set seen = fst ` (D \<union> set q)" and "hop_queue D q"
    and "explored adj dst H D (D \<union> set q)"
  shows "\<exists>D'. D \<union> set q \<subseteq> D' \<and> explored adj dst H D' D'"
  using assms
proof (induction adj dst H q seen arbitrary: D rule: topology_bfs.induct)
  case (1 adj dst H seen)
  then show ?case by (intro exI [where x = D]) simp
next
  case (2 adj dst H cur hops q seen)
  let ?D = "insert (cur, hops) D"
  have union: "?D \<union> set q = D \<union> set ((cur, hops) # q)" by auto
  show ?case
  proof (cases "H \<le> hops")
    case True
    have "explored adj dst H ?D (?D \<union> set q)" using 2(6) True unfolding union by (auto simp: explored_def)
    moreover have "hop_queue ?D q" using hop_queue_step [OF 2(5), of "[]"] by simp
    moreover have "set seen = fst ` (?D \<union> set q)" using 2(4) unfolding union .
    ultimately show ?thesis using 2(1) [OF True, of ?D] 2(3) True unfolding union by simp
  next
    case lt: False
    obtain q' seen' where scan: "topology_scan dst hops (adj_get adj cur) (q, seen) = Some (q', seen')"
      using 2(3) lt by (auto split: option.splits)
    obtain news where news: "q' = q @ news" "\<forall>i \<in> set news. snd i = Suc hops"
      "fst ` set news = set (adj_get adj cur) - set seen" "set seen' = set seen \<union> set (adj_get adj cur)"
      using topology_scan_Some [OF scan] by blast
    have hq: "hop_queue ?D q'" unfolding news(1) by (rule hop_queue_step [OF 2(5) news(2)])
    have seen': "set seen' = fst ` (?D \<union> set q')" using news(3,4) 2(4) unfolding news(1) by (auto simp: image_Un)
    have all: "?D \<union> set q' = D \<union> set ((cur, hops) # q) \<union> set news" unfolding news(1) by auto
    have cur: "v \<noteq> dst \<and> (\<exists>k \<le> Suc hops. (v, k) \<in> ?D \<union> set q')" if v: "v \<in> set (adj_get adj cur)" for v
    proof
      show "v \<noteq> dst" using v topology_scan_None [of dst hops "adj_get adj cur" q seen] scan by auto
      show "\<exists>k \<le> Suc hops. (v, k) \<in> ?D \<union> set q'"
      proof (cases "v \<in> set seen")
        case True
        then obtain k where k: "(v, k) \<in> D \<union> set ((cur, hops) # q)" unfolding 2(4) by (elim imageE) (metis prod.collapse)
        then have "k \<le> Suc hops" using 2(5) by (fastforce simp: hop_queue_def)
        then show ?thesis using k unfolding all by blast
      next
        case False
        then obtain k where "(v, k) \<in> set news" using v news(3) by force
        then show ?thesis using news(2) unfolding all by fastforce
      qed
    qed
    have "explored adj dst H D (?D \<union> set q')" using 2(6) unfolding all explored_def by fastforce
    then have "explored adj dst H ?D (?D \<union> set q')" using cur by (simp add: explored_def)
    moreover have "\<not> topology_bfs adj dst H q' seen'" using 2(3) lt scan by simp
    ultimately obtain D' where "?D \<union> set q' \<subseteq> D'" "explored adj dst H D' D'"
      using 2(2) [OF lt scan refl _ seen' hq] by blast
    then show ?thesis unfolding all by blast
  qed
qed

lemma explored_hop_reach:
  assumes "explored adj dst H D D" and "(src, 0) \<in> D" and "src \<noteq> dst" and "n \<le> H" and "u \<in> hop_reach (adj_rel adj) src n"
  shows "u \<noteq> dst \<and> (\<exists>k \<le> n. (u, k) \<in> D)"
  using assms(4,5)
proof (induction n arbitrary: u)
  case 0
  then show ?case using assms(2,3) by auto
next
  case (Suc n)
  show ?case
  proof (cases "u \<in> hop_reach (adj_rel adj) src n")
    case True
    then have "u \<noteq> dst \<and> (\<exists>k \<le> n. (u, k) \<in> D)" using Suc.IH [of u] Suc.prems(1) by simp
    then show ?thesis by (meson le_SucI)
  next
    case False
    then obtain w where w: "w \<in> hop_reach (adj_rel adj) src n" "u \<in> set (adj_get adj w)" using Suc.prems(2) by (auto simp: adj_rel_def)
    then obtain k where k: "k \<le> n" "(w, k) \<in> D" using Suc.IH [of w] Suc.prems(1) by auto
    then have "u \<noteq> dst \<and> (\<exists>j \<le> Suc k. (u, j) \<in> D)" using assms(1) w(2) Suc.prems(1) by (fastforce simp: explored_def)
    then show ?thesis using k(1) by (meson Suc_le_mono order_trans)
  qed
qed

lemma topology_bfs_iff:
  assumes "src \<noteq> dst"
  shows "topology_bfs adj dst H [(src, 0)] [src] \<longleftrightarrow> dst \<in> hop_reach (adj_rel adj) src H"
proof
  show "topology_bfs adj dst H [(src, 0)] [src] \<Longrightarrow> dst \<in> hop_reach (adj_rel adj) src H"
    by (erule topology_bfs_sound) simp
next
  assume dst: "dst \<in> hop_reach (adj_rel adj) src H"
  show "topology_bfs adj dst H [(src, 0)] [src]"
  proof (rule ccontr)
    assume "\<not> topology_bfs adj dst H [(src, 0)] [src]"
    then obtain D' where "{(src, 0)} \<subseteq> D'" "explored adj dst H D' D'"
      using topology_bfs_complete [of adj dst H "[(src, 0)]" "[src]" "{}"] by (auto simp: hop_queue_def explored_def)
    then show False using explored_hop_reach [of adj dst H D' src H dst] assms dst by auto
  qed
qed

section \<open>The adjacency from the trust lines\<close>

definition topology_edges :: "string \<Rightarrow> db \<Rightarrow> (pid \<times> pid) set" where
  "topology_edges code db = {(py_strip d, py_strip c) | d c. (d, c) \<in> set (topology_rows code db)
     \<and> py_strip d \<noteq> [] \<and> py_strip c \<noteq> []}"

lemma adj_get_add:
  "set (adj_get (adj_add (d, c) adj) u) = set (adj_get adj u)
     \<union> (if py_strip d = u \<and> py_strip d \<noteq> [] \<and> py_strip c \<noteq> [] then {py_strip c} else {})"
  by (auto simp: adj_add_def adj_get_def Let_def update_conv' split: if_splits)

lemma adj_rel_fold:
  "adj_rel (fold adj_add rows adj) = adj_rel adj
     \<union> {(py_strip d, py_strip c) | d c. (d, c) \<in> set rows \<and> py_strip d \<noteq> [] \<and> py_strip c \<noteq> []}"
proof (induction rows arbitrary: adj)
  case (Cons row rows)
  obtain d c where row: "row = (d, c)" by (cases row)
  have "adj_rel (adj_add (d, c) adj) = adj_rel adj
      \<union> (if py_strip d \<noteq> [] \<and> py_strip c \<noteq> [] then {(py_strip d, py_strip c)} else {})"
    by (auto simp: adj_rel_def adj_get_add split: if_splits)
  then show ?case unfolding fold_simps Cons.IH row by auto
qed (simp add: adj_rel_def)

lemma adj_rel_topology: "adj_rel (fold adj_add (topology_rows code db) []) = topology_edges code db"
  unfolding adj_rel_fold by (simp add: topology_edges_def) (simp add: adj_rel_def adj_get_def)

end
