(* ===== verification/Network_Properties.thy ===== *)
theory Network_Properties
  imports Route_Properties Max_Flow Topology
begin

text \<open>
  The properties of the router's two estimates: the maximum flow between two participants, and
  whether the trust lines connect them at all.
\<close>

section \<open>Maximum flow\<close>

lemma flow_graph_start:
  assumes "graph_wf g" and "\<forall>u v. 0 \<le> edge_get g u v 0"
  obtains D where "0 < D" and "flow_graph (insert src (graph_nodes g)) D g"
proof -
  obtain D where "D > 0" "grid D g" using grid_exists by blast
  then show ?thesis
    using that assms edges_in_mono [OF edges_in_nodes, of g "insert src (graph_nodes g)"] by (auto simp: flow_graph_def)
qed

text \<open>
  C29. The maximum-flow estimate. Between two different participants the augmenting-path loop ends
  on every graph with non-negative capacities. The amount it reports is the sum of the capacities
  of the paths it lists and never exceeds the capacity of any cut between the two; and when the
  hop limit is at least the number of nodes, so that it cannot cut a search short, the amount is
  the capacity of some cut, hence the maximum flow.
\<close>

theorem max_flow_bounded_by_cuts:
  assumes "graph_wf (rt_graph rt)" and "\<forall>u v. 0 \<le> edge_get (rt_graph rt) u v 0" and "from_pid \<noteq> to_pid"
    and "N = insert from_pid (graph_nodes (rt_graph rt))"
  shows "\<exists>m paths. calculate_max_flow max_flow_max_hops True rt from_pid to_pid
      = Some \<lparr>mf_max_amount = Some m, mf_paths = paths\<rparr>
    \<and> 0 \<le> m \<and> sum_list (map (\<lambda>p. the (snd p)) paths) = m
    \<and> (\<forall>S. from_pid \<in> S \<and> to_pid \<notin> S \<longrightarrow> m \<le> cut N (rt_graph rt) S)
    \<and> (card N \<le> max_flow_max_hops \<longrightarrow> (\<exists>S. from_pid \<in> S \<and> to_pid \<notin> S \<and> m = cut N (rt_graph rt) S))"
proof -
  let ?g = "rt_graph rt"
  obtain D where D: "0 < D" and g: "flow_graph N D ?g"
    using flow_graph_start [OF assms(1,2), of from_pid] unfolding assms(4) by metis
  have N: "finite N" "from_pid \<in> N" by (simp_all add: assms(4) graph_nodes_def)
  obtain m paths g' where run: "max_flow_loop max_flow_max_hops from_pid to_pid ?g (Some 0) [] = Some (Some m, paths)"
    and m: "0 \<le> m" and g': "flow_graph N D g'"
    and cuts: "\<forall>S. from_pid \<in> S \<longrightarrow> to_pid \<notin> S \<longrightarrow> cut N ?g S = m + cut N g' S"
    and none: "mf_bfs max_flow_max_hops g' to_pid [(from_pid, [from_pid], None)] [from_pid] = None"
    and sum: "sum_list (map (\<lambda>p. the (snd p)) paths) = m"
    using max_flow_loop_result [OF g N assms(3) D, of max_flow_max_hops 0 "[]"] by auto
  have "0 \<le> cut N g' S" for S by (rule cut_nonneg) (use g' in \<open>simp add: flow_graph_def\<close>)
  then have le: "\<forall>S. from_pid \<in> S \<and> to_pid \<notin> S \<longrightarrow> m \<le> cut N ?g S" using cuts by simp
  have eq: "\<exists>S. from_pid \<in> S \<and> to_pid \<notin> S \<and> m = cut N ?g S" if small: "card N \<le> max_flow_max_hops"
  proof -
    obtain S where S: "from_pid \<in> S" "to_pid \<notin> S" "cut N g' S = 0" using final_cut [OF g' N small assms(3) none] by blast
    then have "m = cut N ?g S" using cuts by simp
    with S show ?thesis by blast
  qed
  have "calculate_max_flow max_flow_max_hops True rt from_pid to_pid = Some \<lparr>mf_max_amount = Some m, mf_paths = paths\<rparr>"
    using run by (simp add: calculate_max_flow_def)
  with m sum le eq show ?thesis by blast
qed

lemma mesh_nonneg: "\<forall>u v. 0 \<le> edge_get (rt_graph mesh_router) u v 0"
proof -
  obtain rt where "build_graph_impl ''UAH'' mesh_db new_router = Inr rt"
    "\<forall>u v. edge_get (rt_graph rt) u v 0 = usable_capacity 9 mesh_db u v"
    using build_graph_edges [OF mesh_wf(1,2), of "''UAH''" "\<lparr>equiv_id = 9, equiv_code = ''UAH''\<rparr>" new_router] by auto
  then show ?thesis using mesh_build by (auto simp: usable_capacity_def split: option.splits)
qed

theorem max_flow_bounded_by_cuts_witness:
  "\<exists>m paths. calculate_max_flow 7 True mesh_router ''A'' ''C'' = Some \<lparr>mf_max_amount = Some m, mf_paths = paths\<rparr>
    \<and> (\<exists>S. ''A'' \<in> S \<and> ''C'' \<notin> S \<and> m = cut (insert ''A'' (graph_nodes (rt_graph mesh_router))) (rt_graph mesh_router) S)"
proof -
  have "card (insert ''A'' (graph_nodes (rt_graph mesh_router))) \<le> 7"
  proof -
    have "insert ''A'' (graph_nodes (rt_graph mesh_router)) \<subseteq> set [''A'', ''B'', ''C'', ''D'']" by code_simp
    then have "card (insert ''A'' (graph_nodes (rt_graph mesh_router))) \<le> card (set [''A'', ''B'', ''C'', ''D''])"
      by (intro card_mono) auto
    then show ?thesis by simp
  qed
  then show ?thesis
    using max_flow_bounded_by_cuts [OF mesh_graph_wf mesh_nonneg _ refl, of "''A''" "''C''" 7] by auto
qed

text \<open>
  A maximum-flow query from a participant to itself never returns: the search finds the
  participant at once, on a path without edges, updates no capacity and starts over. The endpoint
  passes the caller's own PID and an unchecked target to this function.
\<close>

theorem max_flow_to_self_never_returns:
  "calculate_max_flow max_flow_max_hops include_metadata rt p p = None"
  by (simp add: calculate_max_flow_def max_flow_self_loops)

section \<open>Topology\<close>

text \<open>
  The topology check implements bounded reachability. After the topology of an equivalent is
  built from the database, \<^verbatim>\<open>has_topology_path\<close> between two different participants answers whether the
  second is reachable from the first along at most \<^verbatim>\<open>max_hops\<close> active trust lines, each taken from
  debtor to creditor, whatever their limits and debts.
\<close>

theorem has_topology_path_iff_reachable:
  assumes "build_topology code db c rt = Inr (rt', c')" and "map_of (topology_cache c) code = None"
    and "py_strip src \<noteq> []" and "py_strip dst \<noteq> []" and "py_strip src \<noteq> py_strip dst"
  shows "has_topology_path rt' src dst max_hops
    \<longleftrightarrow> 0 < max_hops \<and> py_strip dst \<in> hop_reach (topology_edges code db) (py_strip src) (nat max_hops)"
proof -
  have adj: "topology_adj rt' = fold adj_add (topology_rows code db) []"
    using assms(1,2) by (auto simp: build_topology_def Let_def split: sum.splits)
  show ?thesis
    using assms(3-5) topology_bfs_iff [OF assms(5), of "topology_adj rt'" "nat max_hops"]
    by (simp add: has_topology_path_def Let_def adj adj_rel_topology del: topology_bfs.simps)
qed

theorem has_topology_path_iff_reachable_witness:
  "\<exists>rt. build_topology ''UAH'' mesh_db \<lparr>graph_cache = [], topology_cache = []\<rparr> new_router
      = Inr (rt, \<lparr>graph_cache = [], topology_cache = [(''UAH'', topology_adj rt)]\<rparr>)
    \<and> has_topology_path rt ''A'' ''C'' 2 \<and> \<not> has_topology_path rt ''C'' ''A'' 6
    \<and> ''C'' \<in> hop_reach (topology_edges ''UAH'' mesh_db) ''A'' 2
    \<and> ''A'' \<notin> hop_reach (topology_edges ''UAH'' mesh_db) ''C'' 6"
proof -
  let ?c = "\<lparr>graph_cache = [], topology_cache = []\<rparr>"
  let ?rt = "new_router\<lparr>topology_adj := fold adj_add (topology_rows ''UAH'' mesh_db) []\<rparr>"
  have "validate_equivalent_code ''UAH'' = Inr ()" by code_simp
  then have build: "build_topology ''UAH'' mesh_db ?c new_router
      = Inr (?rt, \<lparr>graph_cache = [], topology_cache = [(''UAH'', topology_adj ?rt)]\<rparr>)"
    by (simp add: build_topology_def Let_def)
  have strip: "py_strip ''A'' = ''A''" "py_strip ''C'' = ''C''" by code_simp+
  have "has_topology_path ?rt ''A'' ''C'' 2 \<and> \<not> has_topology_path ?rt ''C'' ''A'' 6" by code_simp
  then show ?thesis
    using has_topology_path_iff_reachable [OF build, of "''A''" "''C''" 2]
      has_topology_path_iff_reachable [OF build, of "''C''" "''A''" 6] build strip by auto
qed

end
