(* ===== verification/Amounts.thy ===== *)
theory Amounts
  imports Validation
begin

text \<open>
  Decimals as Python's \<^verbatim>\<open>decimal\<close> module has them (sign, coefficient, exponent), their text, and
  the parser of amounts \<^verbatim>\<open>parse_amount_decimal\<close> of \<^verbatim>\<open>app/utils/validation.py\<close>. The last section
  is the rounding of a value that is written to a \<^verbatim>\<open>Numeric(20, 8)\<close> column.
\<close>

section \<open>Digits\<close>

definition digit_char :: "nat \<Rightarrow> char" where
  "digit_char n = char_of (48 + n)"

fun nat_str :: "nat \<Rightarrow> string" where
  "nat_str n = (if n < 10 then [digit_char n] else nat_str (n div 10) @ [digit_char (n mod 10)])"

declare nat_str.simps [simp del]

definition digit_value :: "char \<Rightarrow> nat" where
  "digit_value c = of_char c - 48"

definition digits_value :: "string \<Rightarrow> nat" where
  "digits_value s = foldl (\<lambda>a c. 10 * a + digit_value c) 0 s"

lemma digits_value_Nil [simp]: "digits_value [] = 0"
  by (simp add: digits_value_def)

lemma digits_value_snoc [simp]: "digits_value (s @ [c]) = 10 * digits_value s + digit_value c"
  by (simp add: digits_value_def)

lemma of_char_digit [simp]: "n < 10 \<Longrightarrow> of_char (digit_char n) = 48 + n"
  by (simp add: digit_char_def)

lemma digit_value_digit_char [simp]: "n < 10 \<Longrightarrow> digit_value (digit_char n) = n"
  by (simp add: digit_value_def)

lemma is_digit_iff: "is_digit c \<longleftrightarrow> 48 \<le> (of_char c :: nat) \<and> (of_char c :: nat) \<le> 57"
  by (simp add: char_between_def)

lemma is_digit_digit_char [simp]: "n < 10 \<Longrightarrow> is_digit (digit_char n)"
  by (simp add: is_digit_iff)

lemma digit_value_less: "is_digit c \<Longrightarrow> digit_value c < 10"
  by (auto simp: is_digit_iff digit_value_def)

lemma digits_value_nat_str [simp]: "digits_value (nat_str n) = n"
proof (induction n rule: nat_str.induct)
  case (1 n)
  show ?case
  proof (cases "n < 10")
    case True
    then show ?thesis by (simp add: nat_str.simps [of n] digits_value_def)
  next
    case False
    then show ?thesis using 1 by (simp add: nat_str.simps [of n])
  qed
qed

lemma all_digits_nat_str [simp]: "list_all is_digit (nat_str n)"
  by (induction n rule: nat_str.induct) (subst nat_str.simps, simp)

lemma nat_str_ne [simp]: "nat_str n \<noteq> []"
  by (subst nat_str.simps) simp

lemma digits_value_replicate_zero [simp]:
  "digits_value (replicate k (CHR ''0'') @ s) = digits_value s"
proof (induction s rule: rev_induct)
  case Nil
  have "digits_value (replicate k (CHR ''0'')) = 0"
    by (induction k) (simp_all add: replicate_append_same [symmetric] digit_value_def)
  then show ?case by simp
next
  case (snoc c s)
  then show ?case by (simp flip: append_assoc)
qed

text \<open>The text of a number has no more digits than any digit string of the same value.\<close>

lemma length_nat_str_le: "s \<noteq> [] \<Longrightarrow> list_all is_digit s \<Longrightarrow> length (nat_str (digits_value s)) \<le> length s"
proof (induction s rule: rev_induct)
  case (snoc c s)
  show ?case
  proof (cases "s = []")
    case True
    then show ?thesis using snoc.prems digit_value_less [of c]
      by (simp add: digits_value_def nat_str.simps [of "digit_value c"])
  next
    case False
    then have "length (nat_str (digits_value s)) \<le> length s" using snoc by simp
    moreover have "digit_value c < 10" using snoc.prems digit_value_less by simp
    ultimately show ?thesis using False
      by (subst nat_str.simps) (auto simp: div_add1_eq Suc_le_eq)
  qed
qed simp

section \<open>Decimals\<close>

record decimal =
  dec_neg :: bool
  dec_coeff :: nat
  dec_exp :: int

definition dec_value :: "decimal \<Rightarrow> rat" where
  "dec_value d = (if dec_neg d then -1 else 1) * of_nat (dec_coeff d)
     * (if 0 \<le> dec_exp d then 10 ^ nat (dec_exp d) else 1 / 10 ^ nat (- dec_exp d))"

definition int_str_signed :: "int \<Rightarrow> string" where
  "int_str_signed n = (if n < 0 then ''-'' else ''+'') @ nat_str (nat \<bar>n\<bar>)"

text \<open>\<open>str(Decimal)\<close>: an exponent when the decimal exponent is positive or the value is tiny.\<close>

definition dec_str :: "decimal \<Rightarrow> string" where
  "dec_str d =
     (let digits = nat_str (dec_coeff d);
          leftdigits = dec_exp d + int (length digits);
          dotplace = (if dec_exp d \<le> 0 \<and> leftdigits > -6 then leftdigits else 1);
          mantissa = (if dotplace \<le> 0 then ''0.'' @ replicate (nat (- dotplace)) (CHR ''0'') @ digits
                      else if dotplace \<ge> int (length digits)
                      then digits @ replicate (nat (dotplace - int (length digits))) (CHR ''0'')
                      else take (nat dotplace) digits @ ''.'' @ drop (nat dotplace) digits);
          exponent = (if leftdigits = dotplace then '''' else ''E'' @ int_str_signed (leftdigits - dotplace))
      in (if dec_neg d then ''-'' else '''') @ mantissa @ exponent)"

section \<open>Parsing an amount\<close>

text \<open>
  The parts of \<open>-?\d+(?:\.\d+)?\<close>: the sign, the integer part and what follows it. \<open>amount_shape\<close>
  is the full match.
\<close>

definition amount_unsigned :: "string \<Rightarrow> string" where
  "amount_unsigned s = (case s of c # cs \<Rightarrow> (if c = CHR ''-'' then cs else s) | [] \<Rightarrow> [])"

definition amount_int_part :: "string \<Rightarrow> string" where
  "amount_int_part s = takeWhile (\<lambda>c. c \<noteq> CHR ''.'') (amount_unsigned s)"

definition amount_frac_part :: "string \<Rightarrow> string" where
  "amount_frac_part s = drop 1 (dropWhile (\<lambda>c. c \<noteq> CHR ''.'') (amount_unsigned s))"

definition amount_shape :: "string \<Rightarrow> bool" where
  "amount_shape s \<longleftrightarrow> (let ds = takeWhile is_digit (amount_unsigned s); rest = dropWhile is_digit (amount_unsigned s)
     in ds \<noteq> [] \<and> (case rest of [] \<Rightarrow> True | c # cs \<Rightarrow> c = CHR ''.'' \<and> cs \<noteq> [] \<and> list_all is_digit cs))"

definition forbidden_amount_literals :: "string list" where
  "forbidden_amount_literals =
     [''nan'', ''inf'', ''+inf'', ''-inf'', ''infinity'', ''+infinity'', ''-infinity'']"

text \<open>The constructor \<open>Decimal(text)\<close> on a text of that shape.\<close>

definition decimal_of_amount :: "string \<Rightarrow> decimal" where
  "decimal_of_amount s = \<lparr>dec_neg = (s \<noteq> [] \<and> hd s = CHR ''-''),
     dec_coeff = digits_value (amount_int_part s @ amount_frac_part s),
     dec_exp = - int (length (amount_frac_part s))\<rparr>"

definition default_max_amount_scale :: nat where
  "default_max_amount_scale = 18"

definition default_max_amount_precision :: nat where
  "default_max_amount_precision = 50"

definition exceeds :: "nat \<Rightarrow> nat option \<Rightarrow> bool" where
  "exceeds n bound \<longleftrightarrow> (case bound of None \<Rightarrow> False | Some b \<Rightarrow> n > b)"

definition parse_amount_decimal ::
    "nat option \<Rightarrow> nat option \<Rightarrow> bool \<Rightarrow> string option \<Rightarrow> exc + decimal" where
  "parse_amount_decimal max_scale max_precision require_positive amount = (case amount of
      None \<Rightarrow> Inl BadRequest
    | Some s \<Rightarrow>
       (if s = [] then Inl BadRequest
        else if s \<noteq> py_strip s then Inl BadRequest
        else if py_lower s \<in> set forbidden_amount_literals then Inl BadRequest
        else if CHR ''e'' \<in> set (py_lower s) then Inl BadRequest
        else if \<not> amount_shape s then Inl BadRequest
        else if exceeds (length (amount_frac_part s)) max_scale then Inl BadRequest
        else if exceeds (length (amount_int_part s) + length (amount_frac_part s)) max_precision
        then Inl BadRequest
        else if require_positive \<and> dec_value (decimal_of_amount s) \<le> 0 then Inl BadRequest
        else Inr (decimal_of_amount s)))"

abbreviation parse_amount :: "bool \<Rightarrow> string \<Rightarrow> exc + decimal" where
  "parse_amount require_positive s \<equiv> parse_amount_decimal (Some default_max_amount_scale)
     (Some default_max_amount_precision) require_positive (Some s)"

section \<open>The grammar of amounts\<close>

definition amount_text :: "bool \<Rightarrow> string \<Rightarrow> string \<Rightarrow> string" where
  "amount_text neg ip fp = (if neg then ''-'' else '''') @ ip @ (if fp = [] then [] else CHR ''.'' # fp)"

lemma digit_neq: "is_digit c \<Longrightarrow> c \<noteq> CHR ''.'' \<and> c \<noteq> CHR ''-''"
  by (auto simp: char_between_def)

lemma digits_neq: "list_all is_digit s \<Longrightarrow> c \<in> set s \<Longrightarrow> c \<noteq> CHR ''.'' \<and> c \<noteq> CHR ''-''"
  by (simp add: list_all_iff digit_neq)

lemma amount_unsigned_text:
  "ip \<noteq> [] \<Longrightarrow> list_all is_digit ip \<Longrightarrow>
   amount_unsigned (amount_text neg ip fp) = ip @ (if fp = [] then [] else CHR ''.'' # fp)"
  by (cases ip) (auto simp: amount_unsigned_def amount_text_def dest: digit_neq)

lemma amount_parts_text:
  assumes "ip \<noteq> []" and "list_all is_digit ip"
  shows "amount_int_part (amount_text neg ip fp) = ip" and "amount_frac_part (amount_text neg ip fp) = fp"
proof -
  have "takeWhile (\<lambda>c. c \<noteq> CHR ''.'') ip = ip" and "dropWhile (\<lambda>c. c \<noteq> CHR ''.'') ip = []"
    using digits_neq [OF assms(2)] by auto
  then show "amount_int_part (amount_text neg ip fp) = ip" and "amount_frac_part (amount_text neg ip fp) = fp"
    using assms digits_neq [OF assms(2)]
    by (auto simp: amount_int_part_def amount_frac_part_def amount_unsigned_text takeWhile_append dropWhile_append)
qed

lemma amount_shape_text:
  assumes "ip \<noteq> []" and "list_all is_digit ip" and "list_all is_digit fp"
  shows "amount_shape (amount_text neg ip fp)"
proof -
  have "takeWhile is_digit ip = ip" and "dropWhile is_digit ip = []" using assms(2) by (auto simp: list_all_iff)
  moreover have "\<not> is_digit (CHR ''.'')" by (simp add: char_between_def)
  ultimately show ?thesis using assms
    by (auto simp: amount_shape_def amount_unsigned_text Let_def takeWhile_append dropWhile_append list_all_iff)
qed

lemma amount_shapeE:
  assumes "amount_shape s"
  obtains neg ip fp where "s = amount_text neg ip fp" and "ip \<noteq> []" and "list_all is_digit ip" and "list_all is_digit fp"
proof -
  let ?u = "amount_unsigned s"
  let ?ds = "takeWhile is_digit ?u" and ?rest = "dropWhile is_digit ?u"
  have ds: "?ds \<noteq> []" "list_all is_digit ?ds"
    using assms by (auto simp: amount_shape_def Let_def list_all_iff dest: set_takeWhileD)
  have u: "?u = ?ds @ ?rest" by simp
  obtain fp where fp: "list_all is_digit fp" "?rest = (if fp = [] then [] else CHR ''.'' # fp)"
  proof (cases ?rest)
    case Nil
    then show ?thesis using that [of "[]"] by simp
  next
    case (Cons c cs)
    then show ?thesis using assms that [of cs] by (simp add: amount_shape_def Let_def)
  qed
  have "s = amount_text (s \<noteq> [] \<and> hd s = CHR ''-'') ?ds fp"
    unfolding amount_text_def fp(2) [symmetric] u [symmetric]
    by (cases s) (auto simp: amount_unsigned_def)
  then show ?thesis using that ds fp(1) by blast
qed

lemma py_strip_id:
  assumes "\<And>c. c \<in> set s \<Longrightarrow> \<not> py_space c"
  shows "py_strip s = s"
proof -
  have "dropWhile py_space s = s" "dropWhile py_space (rev s) = rev s"
    using assms by (auto simp: dropWhile_eq_self_iff hd_rev)
  then show ?thesis by (simp add: py_strip_def)
qed

lemma set_amount_text:
  "c \<in> set (amount_text neg ip fp) \<Longrightarrow> list_all is_digit ip \<Longrightarrow> list_all is_digit fp
     \<Longrightarrow> 45 \<le> (of_char c :: nat) \<and> (of_char c :: nat) \<le> 57"
  by (auto simp: amount_text_def list_all_iff is_digit_iff split: if_splits)

lemma parse_amount_text:
  assumes ip: "ip \<noteq> []" "list_all is_digit ip" and fp: "list_all is_digit fp"
  shows "parse_amount_decimal ms mp rp (Some (amount_text neg ip fp)) =
    (let d = \<lparr>dec_neg = neg, dec_coeff = digits_value (ip @ fp), dec_exp = - int (length fp)\<rparr>
     in if exceeds (length fp) ms \<or> exceeds (length ip + length fp) mp \<or> rp \<and> dec_value d \<le> 0
        then Inl BadRequest else Inr d)"
proof -
  let ?s = "amount_text neg ip fp"
  have ran: "45 \<le> (of_char c :: nat) \<and> (of_char c :: nat) \<le> 57" if "c \<in> set ?s" for c
    using set_amount_text [OF that ip(2) fp] .
  have "py_strip ?s = ?s" by (rule py_strip_id) (use ran in \<open>force simp: py_space_def Let_def\<close>)
  moreover have low: "py_lower ?s = ?s"
    unfolding py_lower_def by (rule map_idI) (use ran in \<open>force simp: lower_char_def Let_def\<close>)
  moreover have nin: "CHR ''e'' \<notin> set ?s" "CHR ''n'' \<notin> set ?s"
    using ran [of "CHR ''e''"] ran [of "CHR ''n''"] by auto
  moreover have "?s \<notin> set forbidden_amount_literals"
  proof
    assume "?s \<in> set forbidden_amount_literals"
    then have "CHR ''n'' \<in> set ?s" unfolding forbidden_amount_literals_def by auto
    then show False using nin by simp
  qed
  moreover have "?s \<noteq> []" using ip by (simp add: amount_text_def)
  moreover have sign: "(?s \<noteq> [] \<and> hd ?s = CHR ''-'') = neg"
    using ip by (cases ip) (auto simp: amount_text_def dest: digit_neq)
  moreover have "decimal_of_amount ?s =
      \<lparr>dec_neg = neg, dec_coeff = digits_value (ip @ fp), dec_exp = - int (length fp)\<rparr>"
    using sign by (simp add: decimal_of_amount_def amount_parts_text [OF ip])
  ultimately show ?thesis
    using ip fp by (simp add: parse_amount_decimal_def amount_shape_text amount_parts_text Let_def)
qed

lemma parse_amount_shape: "parse_amount_decimal ms mp rp (Some s) = Inr d \<Longrightarrow> amount_shape s"
  by (auto simp: parse_amount_decimal_def split: if_splits)

section \<open>Texts of decimals\<close>

lemma dec_str_plain:
  assumes "dec_exp d \<le> 0" and "dec_exp d + int (length (nat_str (dec_coeff d))) > -6"
  obtains ip fp where "dec_str d = amount_text (dec_neg d) ip fp" and "ip \<noteq> []" and "list_all is_digit ip"
    and "list_all is_digit fp" and "digits_value (ip @ fp) = dec_coeff d" and "int (length fp) = - dec_exp d"
    and "length ip + length fp = max (length (nat_str (dec_coeff d))) (Suc (length fp))"
proof -
  let ?ds = "nat_str (dec_coeff d)"
  define k where "k = nat (- dec_exp d)"
  have exp: "dec_exp d = - int k" using assms(1) by (simp add: k_def)
  have zeros: "list_all is_digit (replicate n (CHR ''0''))" for n by (auto simp: list_all_iff char_between_def)
  have pos: "0 < length ?ds" by simp
  consider "length ?ds \<le> k" | "k = 0" | "0 < k" "k < length ?ds" by linarith
  then show ?thesis
  proof cases
    case 1
    let ?fp = "replicate (k - length ?ds) (CHR ''0'') @ ?ds"
    have num: "nat (int k - int (length ?ds)) = k - length ?ds" using 1 by linarith
    have v: "digits_value (CHR ''0'' # ?fp) = dec_coeff d"
      using digits_value_replicate_zero [of "Suc (k - length ?ds)" ?ds] by simp
    show ?thesis
    proof (rule that [of "''0''" ?fp])
      show "dec_str d = amount_text (dec_neg d) ''0'' ?fp"
        using 1 assms(2) exp num by (simp add: dec_str_def amount_text_def Let_def)
      show "digits_value (''0'' @ ?fp) = dec_coeff d" using v by simp
    qed (use 1 exp zeros in \<open>auto simp: char_between_def\<close>)
  next
    case 2
    show ?thesis
      by (rule that [of ?ds "[]"]) (use 2 exp pos in \<open>auto simp: dec_str_def amount_text_def Let_def max_def simp del: length_greater_0_conv\<close>)
  next
    case 3
    let ?j = "length ?ds - k"
    have num: "nat (int (length ?ds) - int k) = ?j" using 3 by linarith
    show ?thesis
    proof (rule that [of "take ?j ?ds" "drop ?j ?ds"])
      show "dec_str d = amount_text (dec_neg d) (take ?j ?ds) (drop ?j ?ds)"
        using 3 exp num assms(2) by (simp add: dec_str_def amount_text_def Let_def)
      show "list_all is_digit (take ?j ?ds)" "list_all is_digit (drop ?j ?ds)"
        using all_digits_nat_str [of "dec_coeff d"] by (auto simp: list_all_iff dest: in_set_takeD in_set_dropD)
    qed (use 3 exp pos in auto)
  qed
qed

lemma dec_str_exponent:
  assumes "dec_exp d \<le> 0" and "\<not> dec_exp d + int (length (nat_str (dec_coeff d))) > -6"
  shows "CHR ''E'' \<in> set (dec_str d)"
  using assms by (auto simp: dec_str_def Let_def)

lemma parse_exponent: "CHR ''E'' \<in> set s \<Longrightarrow> parse_amount_decimal ms mp rp (Some s) = Inl BadRequest"
proof -
  assume "CHR ''E'' \<in> set s"
  then have "lower_char (CHR ''E'') \<in> set (py_lower s)" unfolding py_lower_def by (metis image_eqI list.set_map)
  moreover have "lower_char (CHR ''E'') = CHR ''e''" by code_simp
  ultimately have "CHR ''e'' \<in> set (py_lower s)" by simp
  then show ?thesis by (simp add: parse_amount_decimal_def)
qed

section \<open>Properties\<close>

text \<open>
  \<^verbatim>\<open>parse_amount_decimal\<close> accepts exactly the plain decimal texts: a minus sign or none,
  at least one digit and, after a point, at least one more; with at most \<open>max_scale\<close> digits after the
  point and \<open>max_precision\<close> digits in all. The decimal it answers has the sign, the digits and the
  scale of the text, a positive one is demanded of the value and not of the spelling, and everything
  else is a bad request.
\<close>

theorem parse_amount_decimal_iff:
  "parse_amount_decimal max_scale max_precision require_positive (Some s) = Inr d \<longleftrightarrow>
    (\<exists>neg ip fp. s = amount_text neg ip fp \<and> ip \<noteq> [] \<and> list_all is_digit ip \<and> list_all is_digit fp
      \<and> \<not> exceeds (length fp) max_scale \<and> \<not> exceeds (length ip + length fp) max_precision
      \<and> d = \<lparr>dec_neg = neg, dec_coeff = digits_value (ip @ fp), dec_exp = - int (length fp)\<rparr>
      \<and> dec_value d = (if neg then -1 else 1) * of_nat (digits_value (ip @ fp)) / 10 ^ length fp
      \<and> (if require_positive then 0 < dec_value d else True))"
  (is "?P \<longleftrightarrow> ?Q")
proof
  assume p: ?P
  obtain neg ip fp where t: "s = amount_text neg ip fp" "ip \<noteq> []" "list_all is_digit ip" "list_all is_digit fp"
    using parse_amount_shape [OF p] by (rule amount_shapeE)
  let ?d = "\<lparr>dec_neg = neg, dec_coeff = digits_value (ip @ fp), dec_exp = - int (length fp)\<rparr>"
  have "d = ?d" and "\<not> exceeds (length fp) max_scale" and "\<not> exceeds (length ip + length fp) max_precision"
    and "if require_positive then 0 < dec_value d else True"
    using p unfolding t(1) parse_amount_text [OF t(2-4)] Let_def by (auto split: if_splits)
  moreover have "dec_value ?d = (if neg then -1 else 1) * of_nat (digits_value (ip @ fp)) / 10 ^ length fp"
    by (simp add: dec_value_def)
  ultimately show ?Q using t by (intro exI [of _ neg] exI [of _ ip] exI [of _ fp]) simp
next
  assume ?Q
  then obtain neg ip fp where t: "s = amount_text neg ip fp" "ip \<noteq> []" "list_all is_digit ip" "list_all is_digit fp"
    and b: "\<not> exceeds (length fp) max_scale" "\<not> exceeds (length ip + length fp) max_precision"
    "d = \<lparr>dec_neg = neg, dec_coeff = digits_value (ip @ fp), dec_exp = - int (length fp)\<rparr>"
    "if require_positive then 0 < dec_value d else True" by blast
  show ?P unfolding t(1) parse_amount_text [OF t(2-4)] using b by (auto simp: Let_def)
qed

text \<open>
  C31. The text \<open>str\<close> writes for a parsed amount, as it is stored in the payload of the
  transaction and returned to the client, parses to the same decimal again, except when the amount
  is below one millionth, adjusted exponent under -6: then \<open>str\<close> uses exponent notation, which the
  parser rejects.
\<close>

theorem amount_text_round_trip:
  assumes "parse_amount require_positive s = Inr d"
  shows "parse_amount require_positive (dec_str d) =
    (if dec_exp d + int (length (nat_str (dec_coeff d))) > -6 then Inr d else Inl BadRequest)"
proof -
  obtain neg ip fp where t: "s = amount_text neg ip fp" "ip \<noteq> []" "list_all is_digit ip" "list_all is_digit fp"
    using parse_amount_shape [OF assms] by (rule amount_shapeE)
  have d: "d = \<lparr>dec_neg = neg, dec_coeff = digits_value (ip @ fp), dec_exp = - int (length fp)\<rparr>"
    and b: "length fp \<le> 18" "length ip + length fp \<le> 50" "require_positive \<Longrightarrow> 0 < dec_value d"
    using assms parse_amount_text [OF t(2-4)] unfolding t(1)
    by (auto simp: Let_def exceeds_def default_max_amount_scale_def default_max_amount_precision_def split: if_splits)
  have len: "length (nat_str (dec_coeff d)) \<le> length ip + length fp"
    using length_nat_str_le [of "ip @ fp"] t d by simp
  have neg: "dec_exp d \<le> 0" by (simp add: d)
  show ?thesis
  proof (cases "dec_exp d + int (length (nat_str (dec_coeff d))) > -6")
    case True
    obtain ip' fp' where t': "dec_str d = amount_text (dec_neg d) ip' fp'" "ip' \<noteq> []" "list_all is_digit ip'"
      "list_all is_digit fp'" "digits_value (ip' @ fp') = dec_coeff d" "int (length fp') = - dec_exp d"
      "length ip' + length fp' = max (length (nat_str (dec_coeff d))) (Suc (length fp'))"
      using dec_str_plain [OF neg True] by blast
    have "length fp' = length fp" using t'(6) by (simp add: d)
    moreover have "length ip' + length fp' \<le> 50"
      using t'(7) len b(2) t(2) \<open>length fp' = length fp\<close> by (cases ip) auto
    moreover have "\<lparr>dec_neg = dec_neg d, dec_coeff = dec_coeff d, dec_exp = - int (length fp)\<rparr> = d" by (simp add: d)
    ultimately show ?thesis
      unfolding t'(1) parse_amount_text [OF t'(2-4)] t'(5) using b True
      by (auto simp: Let_def exceeds_def default_max_amount_scale_def default_max_amount_precision_def)
  next
    case False
    show ?thesis using parse_exponent [OF dec_str_exponent [OF neg False]] False by simp
  qed
qed

theorem amount_text_round_trip_witness:
  "parse_amount True ''0012.50'' = Inr \<lparr>dec_neg = False, dec_coeff = 1250, dec_exp = -2\<rparr>
   \<and> parse_amount True (dec_str \<lparr>dec_neg = False, dec_coeff = 1250, dec_exp = -2\<rparr>)
     = Inr \<lparr>dec_neg = False, dec_coeff = 1250, dec_exp = -2\<rparr>
   \<and> parse_amount True ''0.0000001'' = Inr \<lparr>dec_neg = False, dec_coeff = 1, dec_exp = -7\<rparr>
   \<and> dec_str \<lparr>dec_neg = False, dec_coeff = 1, dec_exp = -7\<rparr> = ''1E-7''
   \<and> parse_amount True ''1E-7'' = Inl BadRequest"
proof -
  have t: "''0012.50'' = amount_text False ''0012'' ''50''" "''0.0000001'' = amount_text False ''0'' ''0000001''"
    by (simp_all add: amount_text_def)
  have a: "parse_amount True ''0012.50'' = Inr \<lparr>dec_neg = False, dec_coeff = 1250, dec_exp = -2\<rparr>"
    and b: "parse_amount True ''0.0000001'' = Inr \<lparr>dec_neg = False, dec_coeff = 1, dec_exp = -7\<rparr>"
    unfolding t by (simp_all add: parse_amount_text char_between_def Let_def exceeds_def digits_value_def digit_value_def
        default_max_amount_scale_def default_max_amount_precision_def dec_value_def)
  have c: "dec_str \<lparr>dec_neg = False, dec_coeff = 1, dec_exp = -7\<rparr> = ''1E-7''"
    by code_simp
  show ?thesis using a b c amount_text_round_trip [OF a] amount_text_round_trip [OF b]
    by (simp add: nat_str.simps)
qed

end
