(* ===== verification/Canonical_Json.thy ===== *)
theory Canonical_Json
  imports Amounts "HOL-Library.Finite_Map"
begin

text \<open>
  The canonical JSON of \<^verbatim>\<open>app/core/auth/canonical.py\<close>, the byte string every request signature is
  computed over: the normalisation of Python values, the serialisation that \<^verbatim>\<open>json.dumps\<close> makes of
  the result with sorted keys and no spaces, and its UTF-8 encoding. The theorem at the end says
  that two payloads are signed alike exactly when they denote the same JSON value.
\<close>

section \<open>Python values\<close>

text \<open>
  The values a payload can hold. A float is its \<open>repr\<close>, a dict is the list of its items in insertion order, a datetime
  is its ISO text in UTC, any other object its \<open>str\<close>.
\<close>

datatype pyval = VNone | VBool bool | VInt int | VFloat string | VStr string
  | VDec decimal | VDecSpecial | VUuid uuid | VDatetime string | VOther string
  | VList "pyval list" | VDict "(string \<times> pyval) list"

definition int_str :: "int \<Rightarrow> string" where
  "int_str n = (if n < 0 then CHR ''-'' # nat_str (nat (- n)) else nat_str (nat n))"

section \<open>Decimals in canonical JSON\<close>

text \<open>Rounding to the 28 digits of the default context, half to even.\<close>

definition dec_round28 :: "decimal \<Rightarrow> decimal" where
  "dec_round28 d =
     (let n = length (nat_str (dec_coeff d)) in
      if n \<le> 28 then d
      else let k = n - 28; q = dec_coeff d div 10 ^ k; r = dec_coeff d mod 10 ^ k;
               q' = (if 2 * r > 10 ^ k \<or> 2 * r = 10 ^ k \<and> odd q then q + 1 else q)
        in if q' = 10 ^ 28 then d\<lparr>dec_coeff := 10 ^ 27, dec_exp := dec_exp d + int k + 1\<rparr>
           else d\<lparr>dec_coeff := q', dec_exp := dec_exp d + int k\<rparr>)"

fun strip_zeros :: "nat \<Rightarrow> int \<Rightarrow> nat \<times> int" where
  "strip_zeros c e = (if c = 0 then (0, 0) else if c mod 10 = 0 then strip_zeros (c div 10) (e + 1) else (c, e))"

declare strip_zeros.simps [simp del]

definition dec_normalize :: "decimal \<Rightarrow> decimal" where
  "dec_normalize d = (let d' = dec_round28 d; (c, e) = strip_zeros (dec_coeff d') (dec_exp d')
     in d'\<lparr>dec_coeff := c, dec_exp := e\<rparr>)"

definition dec_format_f :: "decimal \<Rightarrow> string" where
  "dec_format_f d =
     (let digits = nat_str (dec_coeff d); dotplace = dec_exp d + int (length digits) in
      (if dec_neg d then ''-'' else '''') @
      (if 0 \<le> dec_exp d then (if dec_coeff d = 0 then ''0'' else digits @ replicate (nat (dec_exp d)) (CHR ''0''))
       else if dotplace \<le> 0 then ''0.'' @ replicate (nat (- dotplace)) (CHR ''0'') @ digits
       else take (nat dotplace) digits @ ''.'' @ drop (nat dotplace) digits))"

definition rstrip_char :: "char \<Rightarrow> string \<Rightarrow> string" where
  "rstrip_char c s = rev (dropWhile (\<lambda>x. x = c) (rev s))"

definition format_decimal :: "decimal \<Rightarrow> exc + string" where
  "format_decimal value =
     (let s = dec_format_f (dec_normalize value);
          s1 = (if CHR ''.'' \<in> set s then rstrip_char (CHR ''.'') (rstrip_char (CHR ''0'') s) else s);
          s2 = (if s1 = ''-0'' then ''0'' else s1)
      in if CHR ''e'' \<in> set (py_lower s2) then Inl BadRequest else Inr s2)"

section \<open>Normalisation\<close>

fun normalize :: "pyval \<Rightarrow> exc + pyval"
  and normalize_list :: "pyval list \<Rightarrow> exc + pyval list"
  and normalize_items :: "(string \<times> pyval) list \<Rightarrow> exc + (string \<times> pyval) list" where
  "normalize VNone = Inr VNone"
| "normalize (VDict items) = (case normalize_items items of Inl x \<Rightarrow> Inl x
     | Inr its \<Rightarrow> Inr (VDict (sort_key fst its)))"
| "normalize (VList vs) = (case normalize_list vs of Inl x \<Rightarrow> Inl x | Inr ws \<Rightarrow> Inr (VList ws))"
| "normalize VDecSpecial = Inl BadRequest"
| "normalize (VDec d) = (if CHR ''e'' \<in> set (py_lower (dec_str d)) then Inl BadRequest
     else (case format_decimal d of Inl x \<Rightarrow> Inl x | Inr s \<Rightarrow> Inr (VStr s)))"
| "normalize (VUuid u) = Inr (VStr (uuid_str u))"
| "normalize (VDatetime s) = Inr (VStr s)"
| "normalize (VInt n) = Inr (VInt n)"
| "normalize (VStr s) = Inr (VStr s)"
| "normalize (VBool b) = Inr (VBool b)"
| "normalize (VFloat _) = Inl BadRequest"
| "normalize (VOther s) = Inr (VStr s)"
| "normalize_list [] = Inr []"
| "normalize_list (v # vs) = (case normalize v of Inl x \<Rightarrow> Inl x
     | Inr w \<Rightarrow> (case normalize_list vs of Inl x \<Rightarrow> Inl x | Inr ws \<Rightarrow> Inr (w # ws)))"
| "normalize_items [] = Inr []"
| "normalize_items ((k, v) # its) = (case normalize v of Inl x \<Rightarrow> Inl x
     | Inr w \<Rightarrow> (case normalize_items its of Inl x \<Rightarrow> Inl x | Inr ws \<Rightarrow> Inr ((k, w) # ws)))"

section \<open>Serialisation\<close>

definition esc :: "char \<Rightarrow> string" where
  "esc c = (let n = of_char c :: nat in
     if c = CHR 0x22 then [CHR 0x5C, CHR 0x22] else if c = CHR 0x5C then [CHR 0x5C, CHR 0x5C]
     else if n = 10 then [CHR 0x5C, CHR ''n''] else if n = 13 then [CHR 0x5C, CHR ''r'']
     else if n = 9 then [CHR 0x5C, CHR ''t''] else if n = 12 then [CHR 0x5C, CHR ''f'']
     else if n = 8 then [CHR 0x5C, CHR ''b'']
     else if n < 32 then [CHR 0x5C, CHR ''u'', CHR ''0'', CHR ''0'', hex_digit (n div 16), hex_digit n]
     else [c])"

definition quote :: "string \<Rightarrow> string" where
  "quote s = CHR 0x22 # concat (map esc s) @ [CHR 0x22]"

fun commas :: "string list \<Rightarrow> string" where
  "commas [] = []"
| "commas [x] = x"
| "commas (x # y # zs) = x @ CHR '','' # commas (y # zs)"

text \<open>Normalised values only: \<open>json.dumps\<close> is never called on the other constructors.\<close>

fun dumps :: "pyval \<Rightarrow> string" where
  "dumps VNone = ''null''"
| "dumps (VBool b) = (if b then ''true'' else ''false'')"
| "dumps (VInt n) = int_str n"
| "dumps (VStr s) = quote s"
| "dumps (VList vs) = CHR ''['' # commas (map dumps vs) @ '']''"
| "dumps (VDict items) = CHR ''{'' # commas (map (\<lambda>(k, v). quote k @ CHR '':'' # dumps v) (sort_key fst items)) @ ''}''"
| "dumps _ = []"

definition utf8_char :: "char \<Rightarrow> string" where
  "utf8_char c = (let n = of_char c :: nat in
     if n < 128 then [c] else [char_of (192 + n div 64), char_of (128 + n mod 64)])"

definition utf8 :: "string \<Rightarrow> string" where
  "utf8 s = concat (map utf8_char s)"

definition canonical_json :: "pyval \<Rightarrow> exc + string" where
  "canonical_json payload = (case normalize payload of Inl x \<Rightarrow> Inl x | Inr v \<Rightarrow> Inr (utf8 (dumps v)))"

section \<open>Reading the encodings back\<close>

lemma hex_digit_inj: "m < 16 \<Longrightarrow> n < 16 \<Longrightarrow> hex_digit m = hex_digit n \<longleftrightarrow> m = n"
proof -
  have "distinct ''0123456789abcdef''" by code_simp
  moreover have "length ''0123456789abcdef'' = 16" by simp
  ultimately show "m < 16 \<Longrightarrow> n < 16 \<Longrightarrow> hex_digit m = hex_digit n \<longleftrightarrow> m = n"
    unfolding hex_digit_def by (metis mod_less nth_eq_iff_index_eq)
qed

lemma hex_digit_mod: "hex_digit n = hex_digit (n mod 16)"
  by (simp add: hex_digit_def)

interpretation esc_code: prefix_code esc
proof
  fix c d x y
  assume eq: "esc c @ x = esc d @ y"
  have u: "(of_char c :: nat) = of_char d"
    if "(of_char c :: nat) < 32" "(of_char d :: nat) < 32" "hex_digit (of_char c div 16) = hex_digit (of_char d div 16)"
      "hex_digit (of_char c) = hex_digit (of_char d)"
  proof -
    have "(of_char c :: nat) div 16 = of_char d div 16" using that by (simp add: hex_digit_inj)
    moreover have "(of_char c :: nat) mod 16 = of_char d mod 16"
      using that hex_digit_inj [of "of_char c mod 16" "of_char d mod 16"] hex_digit_mod by simp
    ultimately show ?thesis by (metis div_mult_mod_eq)
  qed
  show "c = d"
    using eq u by (auto simp: esc_def Let_def split: if_splits)
qed (simp add: esc_def Let_def)

lemma hd_esc: "hd (esc c) \<noteq> CHR 0x22"
  by (auto simp: esc_def Let_def)

interpretation utf8_code: prefix_code utf8_char
proof
  fix c d x y
  assume eq: "utf8_char c @ x = utf8_char d @ y"
  have "(of_char c :: nat) < 256" "(of_char d :: nat) < 256" by simp_all
  then have "(of_char c :: nat) div 64 < 4" "(of_char d :: nat) div 64 < 4" by linarith+
  then have b: "(192 + of_char c div 64 :: nat) mod 256 = 192 + of_char c div 64"
    "(192 + of_char d div 64 :: nat) mod 256 = 192 + of_char d div 64" by simp_all
  show "c = d"
  proof (cases "(of_char c :: nat) < 128 \<or> (of_char d :: nat) < 128")
    case True
    then show ?thesis using eq b by (auto simp: utf8_char_def Let_def split: if_splits)
  next
    case False
    then have "char_of (192 + of_char c div 64 :: nat) = (char_of (192 + of_char d div 64 :: nat) :: char)"
      "char_of (128 + of_char c mod 64 :: nat) = (char_of (128 + of_char d mod 64 :: nat) :: char)"
      using eq by (auto simp: utf8_char_def Let_def)
    then have "(192 + of_char c div 64 :: nat) mod 256 = (192 + of_char d div 64) mod 256"
      "(128 + of_char c mod 64 :: nat) mod 256 = (128 + of_char d mod 64) mod 256"
      by (metis of_char_of)+
    then have "(of_char c :: nat) div 64 = of_char d div 64" "(of_char c :: nat) mod 64 = of_char d mod 64"
      using b by auto
    then show ?thesis by (metis div_mult_mod_eq of_char_eq_iff)
  qed
qed (simp add: utf8_char_def Let_def)

lemma quote_step: "quote s @ r = quote t @ u \<longleftrightarrow> s = t \<and> r = u"
  using esc_code.encode_terminated [OF hd_esc, of s r t u] by (simp add: quote_def)

section \<open>What a payload denotes\<close>

text \<open>
  The JSON value a payload stands for: a dict is a finite map, whatever the order of its items.
  \<open>signable\<close> payloads are the ones without floats and Decimals, with the distinct keys of a dict;
  \<open>normal\<close> ones are those \<^verbatim>\<open>_normalize\<close> produces from them.
\<close>

datatype jval = MNone | MBool bool | MInt int | MStr string | MList "jval list"
  | MDict "(string, jval) fmap"

fun denotes :: "pyval \<Rightarrow> jval" where
  "denotes (VBool b) = MBool b"
| "denotes (VInt n) = MInt n"
| "denotes (VStr s) = MStr s"
| "denotes (VUuid u) = MStr (uuid_str u)"
| "denotes (VDatetime s) = MStr s"
| "denotes (VOther s) = MStr s"
| "denotes (VList vs) = MList (map denotes vs)"
| "denotes (VDict items) = MDict (fmap_of_list (map (\<lambda>(k, v). (k, denotes v)) items))"
| "denotes _ = MNone"

fun signable :: "pyval \<Rightarrow> bool" where
  "signable (VFloat _) = False"
| "signable (VDec _) = False"
| "signable VDecSpecial = False"
| "signable (VList vs) = (\<forall>v \<in> set vs. signable v)"
| "signable (VDict items) = (distinct (map fst items) \<and> (\<forall>(k, v) \<in> set items. signable v))"
| "signable _ = True"

fun normal :: "pyval \<Rightarrow> bool" where
  "normal VNone = True"
| "normal (VBool _) = True"
| "normal (VInt _) = True"
| "normal (VStr _) = True"
| "normal (VList vs) = (\<forall>v \<in> set vs. normal v)"
| "normal (VDict items) = (sorted (map fst items) \<and> distinct (map fst items) \<and> (\<forall>(k, v) \<in> set items. normal v))"
| "normal _ = False"

lemma comp_fst_items [simp]: "fst \<circ> (\<lambda>(k, v). (k, f v)) = fst"
  by auto

lemma fmap_of_list_eq:
  assumes "distinct (map fst xs)" and "distinct (map fst ys)"
  shows "fmap_of_list xs = fmap_of_list ys \<longleftrightarrow> set xs = set ys"
proof -
  have "fmap_of_list xs = fmap_of_list ys \<longleftrightarrow> map_of xs = map_of ys"
    by (metis fmap_of_list.rep_eq fmlookup_inject)
  then show ?thesis using assms by (simp add: map_of_inject_set)
qed

lemma normalize_signable:
  "signable v \<Longrightarrow> \<exists>w. normalize v = Inr w \<and> normal w \<and> denotes w = denotes v"
  "\<forall>v \<in> set vs. signable v \<Longrightarrow>
     \<exists>ws. normalize_list vs = Inr ws \<and> (\<forall>w \<in> set ws. normal w) \<and> map denotes ws = map denotes vs"
  "\<forall>(k, v) \<in> set its. signable v \<Longrightarrow>
     \<exists>ws. normalize_items its = Inr ws \<and> map fst ws = map fst its \<and> (\<forall>(k, w) \<in> set ws. normal w)
       \<and> map (\<lambda>(k, v). (k, denotes v)) ws = map (\<lambda>(k, v). (k, denotes v)) its"
proof (induction v and vs and its rule: normalize_normalize_list_normalize_items.induct)
  case (2 items)
  then obtain ws where ws: "normalize_items items = Inr ws" "map fst ws = map fst items" "\<forall>(k, w) \<in> set ws. normal w"
    "map (\<lambda>(k, v). (k, denotes v)) ws = map (\<lambda>(k, v). (k, denotes v)) items" by auto
  let ?s = "sort_key fst ws" and ?d = "map (\<lambda>(k, v). (k, denotes v))"
  have dist: "distinct (map fst items)" using 2 by simp
  have "distinct (map fst ws)" using dist ws(2) by simp
  then have dist_s: "distinct (map fst ?s)" by (simp add: distinct_map)
  have "set (?d ?s) = set (?d ws)" by simp
  also have "\<dots> = set (?d items)" by (simp only: ws(4))
  finally have "set (?d ?s) = set (?d items)" .
  then have "fmap_of_list (?d ?s) = fmap_of_list (?d items)"
    using fmap_of_list_eq [of "?d ?s" "?d items"] dist dist_s by simp
  moreover have "\<forall>(k, w) \<in> set ?s. normal w" using ws(3) by simp
  ultimately show ?case using ws(1) dist_s by (intro exI [of _ "VDict ?s"]) (simp add: sorted_sort_key)
next
  case (3 vs)
  then obtain ws where "normalize_list vs = Inr ws" "\<forall>w \<in> set ws. normal w" "map denotes ws = map denotes vs" by auto
  then show ?case by simp
next
  case (14 v vs)
  from 14(3) obtain w where w: "normalize v = Inr w" "normal w" "denotes w = denotes v" using 14(1) by auto
  moreover obtain ws where "normalize_list vs = Inr ws" "\<forall>w \<in> set ws. normal w" "map denotes ws = map denotes vs"
    using 14(2) [OF w(1)] 14(3) by auto
  ultimately show ?case by simp
next
  case (16 k v its)
  from 16(3) obtain w where w: "normalize v = Inr w" "normal w" "denotes w = denotes v" using 16(1) by auto
  moreover obtain ws where "normalize_items its = Inr ws" "map fst ws = map fst its" "\<forall>(k, w) \<in> set ws. normal w"
    "map (\<lambda>(k, v). (k, denotes v)) ws = map (\<lambda>(k, v). (k, denotes v)) its"
    using 16(2) [OF w(1)] 16(3) by auto
  ultimately show ?case by simp
qed simp_all

lemma normal_unique: "normal v \<Longrightarrow> normal w \<Longrightarrow> denotes v = denotes w \<Longrightarrow> v = w"
proof (induction v arbitrary: w)
  case (VList vs)
  then obtain ws where w: "w = VList ws" "map denotes vs = map denotes ws" by (cases w) auto
  have "list_all2 (=) vs ws"
    using w VList by (auto simp: list_all2_conv_all_nth list_eq_iff_nth_eq [of "map denotes vs"])
  then show ?case using w by (simp add: list_all2_eq)
next
  case (VDict items)
  let ?d = "map (\<lambda>(k, v). (k, denotes v))"
  obtain its where w: "w = VDict its" using VDict.prems by (cases w) auto
  have "set (?d items) = set (?d its)"
    using VDict.prems w fmap_of_list_eq [of "?d items" "?d its"] by simp
  moreover have "inj_on fst (set (?d items))"
    using VDict.prems(1) distinct_map [of fst "?d items"] by simp
  ultimately have eq: "?d items = ?d its"
    using VDict.prems w by (intro map_sorted_distinct_set_unique [of fst]) simp_all
  have "items ! i = its ! i" if i: "i < length items" for i
  proof -
    have len: "length items = length its" using arg_cong [OF eq, of length] by simp
    obtain k v k' v' where kv: "items ! i = (k, v)" "its ! i = (k', v')" by fastforce
    have "(k, denotes v) = (k', denotes v')"
      using arg_cong [OF eq, of "\<lambda>xs. xs ! i"] i len kv by simp
    moreover have mem: "(k, v) \<in> set items" "(k', v') \<in> set its"
      using i len kv nth_mem [of i items] nth_mem [of i its] by simp_all
    moreover have "normal v" "normal v'" using VDict.prems(1,2) mem unfolding w by auto
    ultimately show ?thesis using VDict.IH [of "(k, v)" v v'] kv by simp
  qed
  moreover have "length items = length its" using arg_cong [OF eq, of length] by simp
  ultimately show ?case unfolding w by (simp add: list_eq_iff_nth_eq)
qed (case_tac w; simp)+

section \<open>Unique readability\<close>

text \<open>What may follow a value inside a container, or at the end of the text.\<close>

definition delim :: "string \<Rightarrow> bool" where
  "delim r \<longleftrightarrow> (case r of [] \<Rightarrow> True | c # _ \<Rightarrow> c \<in> {CHR '','', CHR '']'', CHR ''}''})"

lemma delim_simps [simp]: "delim []" "delim (c # r) \<longleftrightarrow> c \<in> {CHR '','', CHR '']'', CHR ''}''}"
  by (simp_all add: delim_def)

lemma takeWhile_digits: "delim r \<Longrightarrow> takeWhile is_digit (nat_str n @ r) = nat_str n"
proof -
  assume "delim r"
  then have "takeWhile is_digit r = []" by (cases r) (auto simp: char_between_def)
  moreover have "\<forall>c \<in> set (nat_str n). is_digit c" using all_digits_nat_str by (simp add: list_all_iff)
  ultimately show ?thesis by (simp add: takeWhile_append2)
qed

lemma nat_str_step: "delim r \<Longrightarrow> delim s \<Longrightarrow> nat_str m @ r = nat_str n @ s \<Longrightarrow> m = n \<and> r = s"
  by (metis append_same_eq digits_value_nat_str same_append_eq takeWhile_digits)

lemma int_str_hd: "\<exists>c cs. int_str n = c # cs \<and> (c = CHR ''-'' \<or> is_digit c)"
proof -
  have "\<exists>c cs. nat_str m = c # cs \<and> is_digit c" for m
    using all_digits_nat_str [of m] nat_str_ne [of m] by (cases "nat_str m") simp_all
  then show ?thesis by (cases "n < 0") (simp add: int_str_def, simp add: int_str_def, blast)
qed

lemma int_str_step:
  assumes d: "delim r" "delim s" and eq: "int_str m @ r = int_str n @ s"
  shows "m = n \<and> r = s"
proof -
  have ne: "nat_str k @ x \<noteq> CHR ''-'' # y" for k x y
    using all_digits_nat_str [of k] nat_str_ne [of k] by (cases "nat_str k") (auto dest: digit_neq)
  consider "m < 0" "n < 0" | "m < 0" "0 \<le> n" | "0 \<le> m" "n < 0" | "0 \<le> m" "0 \<le> n" by linarith
  then show ?thesis
  proof cases
    case 1
    then show ?thesis using eq nat_str_step [OF d, of "nat (- m)" "nat (- n)"] by (auto simp: int_str_def nat_eq_iff)
  next
    case 2
    then show ?thesis using eq ne [symmetric] by (simp add: int_str_def)
  next
    case 3
    then show ?thesis using eq ne by (simp add: int_str_def)
  next
    case 4
    then show ?thesis using eq nat_str_step [OF d, of "nat m" "nat n"] by (auto simp: int_str_def)
  qed
qed

lemma commas_Cons: "commas (x # xs) = x @ (if xs = [] then [] else CHR '','' # commas xs)"
  by (cases xs) simp_all

lemma commas_step:
  assumes "\<And>x y r s. x \<in> set xs \<Longrightarrow> y \<in> set ys \<Longrightarrow> delim r \<Longrightarrow> delim s \<Longrightarrow> f x @ r = f y @ s \<Longrightarrow> x = y \<and> r = s"
    and "\<And>x. x \<in> set xs \<union> set ys \<Longrightarrow> \<exists>c cs. f x = c # cs \<and> c \<noteq> q" and "q = CHR '']'' \<or> q = CHR ''}''"
    and "commas (map f xs) @ q # r = commas (map f ys) @ q # s"
  shows "xs = ys \<and> r = s"
  using assms(1,2,4)
proof (induction xs arbitrary: ys)
  case Nil
  then show ?case
  proof (cases ys)
    case (Cons y ys')
    obtain c cs where "f y = c # cs" "c \<noteq> q" using Nil.prems(2) [of y] Cons by auto
    then show ?thesis using Nil Cons by (simp add: commas_Cons)
  qed simp
next
  case (Cons x xs)
  show ?case
  proof (cases ys)
    case Nil
    obtain c cs where "f x = c # cs" "c \<noteq> q" using Cons.prems(2) [of x] by auto
    then show ?thesis using Cons.prems(3) Nil by (simp add: commas_Cons)
  next
    case (Cons y ys')
    define t where "t = (\<lambda>zs u. (if zs = [] then [] else CHR '','' # commas (map f zs)) @ q # u)"
    have "f x @ t xs r = f y @ t ys' s" using Cons.prems(3) Cons by (simp add: commas_Cons t_def)
    moreover have "delim (t zs u)" for zs u using assms(3) by (auto simp: t_def)
    ultimately have "x = y \<and> t xs r = t ys' s"
      using Cons.prems(1) [of x y "t xs r" "t ys' s"] Cons by simp
    then have "x = y" and tail: "t xs r = t ys' s" by simp_all
    from tail have "xs = [] \<longleftrightarrow> ys' = []" using assms(3) by (auto simp: t_def split: if_splits)
    then have "commas (map f xs) @ q # r = commas (map f ys') @ q # s" using tail by (auto simp: t_def)
    then have "xs = ys' \<and> r = s"
    proof (rule Cons.IH [rotated 2])
      fix a assume "a \<in> set xs \<union> set ys'"
      then show "\<exists>c cs. f a = c # cs \<and> c \<noteq> q" using Cons.prems(2) [of a] Cons by auto
    next
      fix a b u v assume "a \<in> set xs" "b \<in> set ys'" "delim u" "delim v" "f a @ u = f b @ v"
      then show "a = b \<and> u = v" using Cons.prems(1) [of a b u v] Cons by simp
    qed
    then show ?thesis using Cons \<open>x = y\<close> by simp
  qed
qed

lemma dumps_first:
  assumes "normal v"
  obtains c cs where "dumps v = c # cs" and "case v of VNone \<Rightarrow> c = CHR ''n'' | VBool b \<Rightarrow> c = (if b then CHR ''t'' else CHR ''f'')
    | VInt _ \<Rightarrow> c = CHR ''-'' \<or> is_digit c | VStr _ \<Rightarrow> c = CHR 0x22 | VList _ \<Rightarrow> c = CHR ''['' | _ \<Rightarrow> c = CHR ''{''"
proof (cases v)
  case (VInt n)
  then show ?thesis using int_str_hd [of n] that by auto
next
  case (VBool b)
  then show ?thesis using that by (cases b) auto
qed (use assms that in \<open>auto simp: quote_def\<close>)

lemma dumps_hd:
  assumes "normal v"
  shows "\<exists>c cs. dumps v = c # cs \<and> c \<noteq> CHR '']'' \<and> c \<noteq> CHR ''}''"
  using assms by (rule dumps_first) (cases v; use assms in \<open>auto simp: char_between_def\<close>)

lemma dumps_same_kind:
  assumes "normal v" and "normal w" and "dumps v @ r = dumps w @ s"
  shows "case v of VNone \<Rightarrow> w = VNone | VBool b \<Rightarrow> w = VBool b | VInt _ \<Rightarrow> (\<exists>n. w = VInt n)
    | VStr _ \<Rightarrow> (\<exists>t. w = VStr t) | VList _ \<Rightarrow> (\<exists>ws. w = VList ws) | _ \<Rightarrow> (\<exists>its. w = VDict its)"
proof -
  obtain c cs where c: "dumps v = c # cs" "case v of VNone \<Rightarrow> c = CHR ''n''
    | VBool b \<Rightarrow> c = (if b then CHR ''t'' else CHR ''f'') | VInt _ \<Rightarrow> c = CHR ''-'' \<or> is_digit c
    | VStr _ \<Rightarrow> c = CHR 0x22 | VList _ \<Rightarrow> c = CHR ''['' | _ \<Rightarrow> c = CHR ''{''"
    using assms(1) by (rule dumps_first)
  obtain d ds where d: "dumps w = d # ds" "case w of VNone \<Rightarrow> d = CHR ''n''
    | VBool b \<Rightarrow> d = (if b then CHR ''t'' else CHR ''f'') | VInt _ \<Rightarrow> d = CHR ''-'' \<or> is_digit d
    | VStr _ \<Rightarrow> d = CHR 0x22 | VList _ \<Rightarrow> d = CHR ''['' | _ \<Rightarrow> d = CHR ''{''"
    using assms(2) by (rule dumps_first)
  have "c = d" using assms(3) c(1) d(1) by simp
  then show ?thesis using c(2) d(2) assms(1,2)
    by (cases v; cases w) (auto simp: char_between_def split: if_splits)
qed

lemma dumps_step:
  "normal v \<Longrightarrow> normal w \<Longrightarrow> delim r \<Longrightarrow> delim s \<Longrightarrow> dumps v @ r = dumps w @ s \<Longrightarrow> v = w \<and> r = s"
proof (induction v arbitrary: w r s)
  case (VInt m)
  then obtain n where "w = VInt n" using dumps_same_kind [OF VInt.prems(1,2,5)] by auto
  then show ?case using VInt.prems(3-5) int_str_step by auto
next
  case (VStr t)
  then obtain u where "w = VStr u" using dumps_same_kind [OF VStr.prems(1,2,5)] by auto
  then show ?case using VStr.prems(5) quote_step by auto
next
  case (VList vs)
  then obtain ws where w: "w = VList ws" using dumps_same_kind [OF VList.prems(1,2,5)] by auto
  have "commas (map dumps vs) @ CHR '']'' # r = commas (map dumps ws) @ CHR '']'' # s"
    using VList.prems(5) w by simp
  then have "vs = ws \<and> r = s"
  proof (rule commas_step [where f = dumps, rotated 3])
    fix x y t u assume "x \<in> set vs" "y \<in> set ws" "delim t" "delim u" "dumps x @ t = dumps y @ u"
    then show "x = y \<and> t = u" using VList.IH [of x y t u] VList.prems(1,2) w by simp
  next
    fix x assume "x \<in> set vs \<union> set ws"
    then have "normal x" using VList.prems(1,2) w by auto
    then show "\<exists>c cs. dumps x = c # cs \<and> c \<noteq> CHR '']''" using dumps_hd by blast
  qed simp
  then show ?case using w by simp
next
  case (VDict items)
  let ?f = "\<lambda>(k, v). quote k @ CHR '':'' # dumps v"
  obtain its where w: "w = VDict its" using dumps_same_kind [OF VDict.prems(1,2,5)] by auto
  have "commas (map ?f items) @ CHR ''}'' # r = commas (map ?f its) @ CHR ''}'' # s"
    using VDict.prems(1,2,5) w by (simp add: sort_key_id_if_sorted)
  then have "items = its \<and> r = s"
  proof (rule commas_step [where f = ?f, rotated 3])
    fix x y t u assume mem: "x \<in> set items" "y \<in> set its" and d: "delim t" "delim u" and eq: "?f x @ t = ?f y @ u"
    obtain k v k' v' where xy: "x = (k, v)" "y = (k', v')" by fastforce
    have "k = k'" and "dumps v @ t = dumps v' @ u" using eq quote_step unfolding xy by auto
    moreover have "normal v" "normal v'" using VDict.prems(1,2) w mem xy by auto
    ultimately show "x = y \<and> t = u" using VDict.IH [of x v v' t u] mem d xy by simp
  next
    fix x assume "x \<in> set items \<union> set its"
    show "\<exists>c cs. ?f x = c # cs \<and> c \<noteq> CHR ''}''" by (cases x) (simp add: quote_def)
  qed simp
  then show ?case using w by simp
next
  case VNone
  then have "w = VNone" using dumps_same_kind [OF VNone.prems(1,2,5)] by simp
  then show ?case using VNone.prems(5) by simp
next
  case (VBool b)
  then have "w = VBool b" using dumps_same_kind [OF VBool.prems(1,2,5)] by simp
  then show ?case using VBool.prems(5) by simp
qed simp_all

lemma utf8_dumps_inj: "normal v \<Longrightarrow> normal w \<Longrightarrow> utf8 (dumps v) = utf8 (dumps w) \<Longrightarrow> v = w"
  using dumps_step [of v w "[]" "[]"] utf8_code.encode_inj by (simp add: utf8_def)

section \<open>The signed message binds the payload\<close>

lemma canonical_json_eq_iff:
  assumes "signable v" and "signable w"
  shows "canonical_json v = canonical_json w \<longleftrightarrow> denotes v = denotes w"
proof -
  obtain v' where v': "normalize v = Inr v'" "normal v'" "denotes v' = denotes v"
    using normalize_signable(1) [OF assms(1)] by blast
  obtain w' where w': "normalize w = Inr w'" "normal w'" "denotes w' = denotes w"
    using normalize_signable(1) [OF assms(2)] by blast
  have "utf8 (dumps v') = utf8 (dumps w') \<longleftrightarrow> v' = w'"
    using utf8_dumps_inj [OF v'(2) w'(2)] by auto
  also have "\<dots> \<longleftrightarrow> denotes v = denotes w"
    using normal_unique [OF v'(2) w'(2)] v'(3) w'(3) by auto
  finally show ?thesis using v'(1) w'(1) by (simp add: canonical_json_def)
qed

lemma canonical_json_total: "signable v \<Longrightarrow> \<exists>m. canonical_json v = Inr m"
  by (drule normalize_signable(1)) (auto simp: canonical_json_def)

text \<open>
  C30. Two payloads without floats and Decimals have the same canonical JSON exactly when they
  denote the same JSON value: the message that is signed determines every field of the request,
  also inside nested objects and whatever characters the strings hold, and it does not depend on
  the order in which a dict was filled. Such a payload always has a canonical JSON.
\<close>

theorem canonical_json_binds_payload:
  assumes "signable v" and "signable w"
  shows "(canonical_json v = canonical_json w) = (denotes v = denotes w) \<and> (\<exists>m. canonical_json v = Inr m)"
  using canonical_json_eq_iff [OF assms] canonical_json_total [OF assms(1)] by simp

theorem canonical_json_binds_payload_witness:
  "canonical_json (VDict [(''to'', VStr ''B''), (''limit'', VStr ''10'')])
     = canonical_json (VDict [(''limit'', VStr ''10''), (''to'', VStr ''B'')])
   \<and> canonical_json (VDict [(''to'', VStr ''B''), (''limit'', VStr ''10'')])
     \<noteq> canonical_json (VDict [(''to'', VStr ''B''), (''limit'', VInt 10)])"
proof -
  let ?a = "VDict [(''to'', VStr ''B''), (''limit'', VStr ''10'')]"
  let ?b = "VDict [(''limit'', VStr ''10''), (''to'', VStr ''B'')]"
  let ?c = "VDict [(''to'', VStr ''B''), (''limit'', VInt 10)]"
  have "denotes ?a = denotes ?b" by (simp add: fmupd_reorder_neq [of "''to''" "''limit''"])
  moreover have "denotes ?a \<noteq> denotes ?c" by (auto dest: arg_cong [where f = "\<lambda>m. fmlookup m ''limit''"])
  ultimately show ?thesis
    using canonical_json_binds_payload [of ?a ?b] canonical_json_binds_payload [of ?a ?c] by simp
qed

end
