(* ===== verification/Policies.thy ===== *)
theory Policies
  imports Canonical_Json
begin

text \<open>
  Trust-line policies: Python's \<^verbatim>\<open>Decimal(text)\<close> on any text, the validator
  \<^verbatim>\<open>validate_trustline_policy\<close> of \<^verbatim>\<open>app/utils/validation.py\<close> and what the JSON column keeps of a
  policy.
\<close>

section \<open>The Decimal constructor\<close>

definition split_sign :: "string \<Rightarrow> bool \<times> string" where
  "split_sign s = (case s of [] \<Rightarrow> (False, [])
     | c # cs \<Rightarrow> (if c = CHR ''-'' then (True, cs) else if c = CHR ''+'' then (False, cs) else (False, s)))"

definition decimal_exponent :: "string \<Rightarrow> int option" where
  "decimal_exponent s = (case s of [] \<Rightarrow> Some 0
     | c # cs \<Rightarrow> (if c \<noteq> CHR ''e'' then None
         else let (neg, ds) = split_sign cs in
           if ds = [] \<or> \<not> list_all is_digit ds then None
           else Some ((if neg then -1 else 1) * int (digits_value ds))))"

text \<open>
  \<open>None\<close> when the constructor raises \<^verbatim>\<open>InvalidOperation\<close>. Surrounding white space and underscores
  are dropped, case does not matter.
\<close>

definition decimal_constructor :: "string \<Rightarrow> pydec option" where
  "decimal_constructor text =
     (let (neg, u) = split_sign (py_lower (filter (\<lambda>c. c \<noteq> CHR ''_'') (py_strip text)));
          ip = takeWhile is_digit u; rest = dropWhile is_digit u;
          dot = (rest \<noteq> [] \<and> hd rest = CHR ''.'');
          fp = (if dot then takeWhile is_digit (tl rest) else []);
          tail = (if dot then dropWhile is_digit (tl rest) else rest)
      in if u \<in> {''inf'', ''infinity''} then Some (if neg then NegInf else PosInf)
         else if take 3 u = ''nan'' \<and> list_all is_digit (drop 3 u)
              \<or> take 4 u = ''snan'' \<and> list_all is_digit (drop 4 u) then Some NaN
         else if ip = [] \<and> fp = [] then None
         else (case decimal_exponent tail of None \<Rightarrow> None
           | Some x \<Rightarrow> Some (Fin (dec_value \<lparr>dec_neg = neg, dec_coeff = digits_value (ip @ fp),
                                            dec_exp = x - int (length fp)\<rparr>))))"

text \<open>
  \<open>str(value)\<close> of the values whose text can be a number; the text of a container starts with a
  bracket, that of a UUID or a datetime has more than one dash.
\<close>

definition numeric_text :: "pyval \<Rightarrow> string option" where
  "numeric_text v = (case v of VStr s \<Rightarrow> Some s | VInt n \<Rightarrow> Some (int_str n)
     | VBool b \<Rightarrow> Some (if b then ''True'' else ''False'') | VFloat s \<Rightarrow> Some s
     | VDec d \<Rightarrow> Some (dec_str d) | VOther s \<Rightarrow> Some s | _ \<Rightarrow> None)"

section \<open>The validator\<close>

definition allowed_trustline_policy_keys :: "string list" where
  "allowed_trustline_policy_keys =
     [''auto_clearing'', ''can_be_intermediate'', ''max_hop_usage'', ''daily_limit'', ''blocked_participants'']"

text \<open>The value under a key, \<open>None\<close> when the key is missing or its value is null.\<close>

definition policy_entry :: "(string \<times> pyval) list \<Rightarrow> string \<Rightarrow> pyval option" where
  "policy_entry p key = (case map_of p key of None \<Rightarrow> None | Some VNone \<Rightarrow> None | Some v \<Rightarrow> Some v)"

definition check_policy_flag :: "(string \<times> pyval) list \<Rightarrow> string \<Rightarrow> exc + unit" where
  "check_policy_flag p key = (case policy_entry p key of None \<Rightarrow> Inr ()
     | Some (VBool _) \<Rightarrow> Inr () | Some _ \<Rightarrow> Inl BadRequest)"

definition check_policy_number :: "(string \<times> pyval) list \<Rightarrow> string \<Rightarrow> exc + unit" where
  "check_policy_number p key = (case policy_entry p key of None \<Rightarrow> Inr ()
     | Some v \<Rightarrow> (case Option.bind (numeric_text v) decimal_constructor of None \<Rightarrow> Inl BadRequest
        | Some d \<Rightarrow> (case pd_less d (Fin 0) of Inl x \<Rightarrow> Inl x
           | Inr negative \<Rightarrow> (if negative then Inl BadRequest else Inr ()))))"

definition check_policy_blocked :: "(string \<times> pyval) list \<Rightarrow> exc + unit" where
  "check_policy_blocked p = (case policy_entry p ''blocked_participants'' of None \<Rightarrow> Inr ()
     | Some (VList items) \<Rightarrow>
         (if list_all (\<lambda>v. case v of VStr s \<Rightarrow> s \<noteq> [] | _ \<Rightarrow> False) items then Inr () else Inl BadRequest)
     | Some _ \<Rightarrow> Inl BadRequest)"

definition validate_trustline_policy :: "(string \<times> pyval) list \<Rightarrow> exc + unit" where
  "validate_trustline_policy p =
     (if \<not> list_all (\<lambda>(k, v). k \<in> set allowed_trustline_policy_keys) p then Inl BadRequest
      else case check_policy_flag p ''auto_clearing'' of Inl x \<Rightarrow> Inl x
      | Inr _ \<Rightarrow> (case check_policy_flag p ''can_be_intermediate'' of Inl x \<Rightarrow> Inl x
      | Inr _ \<Rightarrow> (case check_policy_number p ''max_hop_usage'' of Inl x \<Rightarrow> Inl x
      | Inr _ \<Rightarrow> (case check_policy_number p ''daily_limit'' of Inl x \<Rightarrow> Inl x
      | Inr _ \<Rightarrow> check_policy_blocked p))))"

section \<open>The JSON column\<close>

text \<open>A request body holds null, booleans, numbers, texts, lists and objects only.\<close>

fun json_of :: "pyval \<Rightarrow> json" where
  "json_of VNone = JNull"
| "json_of (VBool b) = JBool b"
| "json_of (VInt n) = JNum (of_int n)"
| "json_of (VFloat s) = (case decimal_constructor s of Some (Fin q) \<Rightarrow> JNum q | _ \<Rightarrow> JNull)"
| "json_of (VStr s) = JStr s"
| "json_of (VList vs) = JList (map json_of vs)"
| "json_of (VDict items) = JObj (map (\<lambda>(k, v). (k, json_of v)) items)"
| "json_of (VDec d) = JStr (dec_str d)"
| "json_of VDecSpecial = JNull"
| "json_of (VUuid u) = JStr (uuid_str u)"
| "json_of (VDatetime s) = JStr s"
| "json_of (VOther s) = JStr s"

definition policy_json :: "(string \<times> pyval) list \<Rightarrow> policy" where
  "policy_json p = map (\<lambda>(k, v). (k, json_of v)) p"

section \<open>The metadata of an equivalent\<close>

text \<open>
  \<^verbatim>\<open>validate_equivalent_metadata\<close> with the model of \<^verbatim>\<open>app/schemas/equivalent.py\<close>, on JSON values: the declared
  fields come first, further keys are kept.
\<close>

definition iso_code_ok :: "string \<Rightarrow> bool" where
  "iso_code_ok s \<longleftrightarrow> length s = 3 \<and> list_all (char_between (CHR ''A'') (CHR ''Z'')) s"

definition metadata_iso_code :: "string \<Rightarrow> pyval option \<Rightarrow> exc + pyval" where
  "metadata_iso_code ty v = (case v of None \<Rightarrow> Inr VNone | Some VNone \<Rightarrow> Inr VNone
     | Some (VStr s) \<Rightarrow> if \<not> iso_code_ok s \<or> ty \<noteq> ''fiat'' then Inl BadRequest else Inr (VStr s)
     | Some _ \<Rightarrow> Inl BadRequest)"

definition validate_equivalent_metadata :: "pyval \<Rightarrow> exc + pyval" where
  "validate_equivalent_metadata raw = (case raw of
      VNone \<Rightarrow> Inr VNone
    | VDict items \<Rightarrow>
        (case map_of items ''type'' of
           Some (VStr ty) \<Rightarrow>
             if ty \<notin> {''fiat'', ''time'', ''commodity'', ''custom''} then Inl BadRequest
             else (case metadata_iso_code ty (map_of items ''iso_code'') of Inl x \<Rightarrow> Inl x
               | Inr isoc \<Rightarrow> Inr (VDict ([(''type'', VStr ty), (''iso_code'', isoc)]
                   @ filter (\<lambda>(k, _). k \<notin> {''type'', ''iso_code''}) items)))
         | _ \<Rightarrow> Inl BadRequest)
    | _ \<Rightarrow> Inl BadRequest)"

text \<open>What was accepted once is accepted again, unchanged.\<close>

lemma metadata_iso_code_stable: "metadata_iso_code ty v = Inr w \<Longrightarrow> metadata_iso_code ty (Some w) = Inr w"
  by (auto simp: metadata_iso_code_def split: option.splits pyval.splits if_splits)

lemma validate_equivalent_metadata_stable:
  assumes "validate_equivalent_metadata raw = Inr v"
  shows "validate_equivalent_metadata v = Inr v"
proof -
  consider "v = VNone" | (dict) items ty isoc where "v = VDict ([(''type'', VStr ty), (''iso_code'', isoc)] @ filter (\<lambda>(k, _). k \<notin> {''type'', ''iso_code''}) items)"
      "ty \<in> {''fiat'', ''time'', ''commodity'', ''custom''}" "metadata_iso_code ty (map_of items ''iso_code'') = Inr isoc"
    using assms by (auto simp: validate_equivalent_metadata_def split: pyval.splits option.splits if_splits sum.splits)
  then show ?thesis
  proof cases
    case dict
    have "filter (\<lambda>(k, _). k \<notin> {''type'', ''iso_code''}) (filter (\<lambda>(k, _). k \<notin> {''type'', ''iso_code''}) items)
        = filter (\<lambda>(k, _). k \<notin> {''type'', ''iso_code''}) items" by simp
    then show ?thesis
      unfolding dict(1) using dict(2) metadata_iso_code_stable [OF dict(3)] by (auto simp: validate_equivalent_metadata_def)
  qed (simp add: validate_equivalent_metadata_def)
qed

end
