(* ===== verification/Trust_Lines.thy ===== *)
theory Trust_Lines
  imports Router Policies
begin

text \<open>
  \<^verbatim>\<open>TrustLineService\<close> of \<^verbatim>\<open>app/core/trustlines/service.py\<close>: creating, updating and closing a trust
  line, with the signature over the canonical JSON of the request, the audit entry and the
  invalidation of the router's cache, and the queries. The Ed25519 check is the parameter
  \<open>verify\<close>: public key, message, signature. An operation that raises leaves nothing behind, because
  the session of the request is rolled back.
\<close>

section \<open>Classifying a uniqueness violation\<close>

text \<open>One link of the cause chain of a driver error, by the attributes the classifier reads.\<close>

record driver_link =
  dl_constraint_name :: "string option"
  dl_sqlstate :: "string option"
  dl_pgcode :: "string option"
  dl_table_name :: "string option"
  dl_detail :: "string option"
  dl_text :: string

definition live_trustline_index :: string where
  "live_trustline_index = ''uq_trust_lines_live_from_to_equivalent''"

fun contains :: "string \<Rightarrow> string \<Rightarrow> bool" where
  "contains needle [] = (needle = [])"
| "contains needle (c # cs) = (take (length needle) (c # cs) = needle \<or> contains needle cs)"

definition matches_live_triple :: "string \<Rightarrow> bool" where
  "matches_live_triple text \<longleftrightarrow> (let lowered = py_lower text in
     list_all (\<lambda>column. contains column lowered) [''from_participant_id'', ''to_participant_id'', ''equivalent_id''])"

definition or_empty :: "string option \<Rightarrow> string" where
  "or_empty s = (case s of None \<Rightarrow> [] | Some t \<Rightarrow> t)"

text \<open>The chain starts with \<open>exc.orig\<close>; it is empty when there is none.\<close>

definition is_live_trustline_uniqueness_violation :: "driver_link list \<Rightarrow> bool" where
  "is_live_trustline_uniqueness_violation chain = (case chain of [] \<Rightarrow> False
     | orig # _ \<Rightarrow>
       (case find (\<lambda>l. or_empty (dl_constraint_name l) \<noteq> []) chain of
          Some l \<Rightarrow> dl_constraint_name l = Some live_trustline_index
        | None \<Rightarrow>
          if list_ex (\<lambda>l. or_else (truthy (dl_sqlstate l)) (dl_pgcode l) = Some ''23505'') chain
          then let tables = filter (\<lambda>t. t \<noteq> []) (map (\<lambda>l. or_empty (dl_table_name l)) chain) in
            if tables \<noteq> [] \<and> list_all (\<lambda>t. t \<noteq> ''trust_lines'') tables then False
            else matches_live_triple
                   (concat (map (\<lambda>l. or_empty (dl_detail l) @ '' '' @ dl_text l @ '' '') chain))
          else let text = dl_text orig; lowered = py_lower text in
            if \<not> contains ''unique'' lowered then False
            else if contains live_trustline_index text then True
            else if \<not> contains ''trust_lines'' lowered then False
            else matches_live_triple text))"

section \<open>Requests and responses\<close>

record create_request =
  cr_to :: pid
  cr_equivalent :: string
  cr_limit :: decimal
  cr_policy :: "(string \<times> pyval) list option"
  cr_signature :: string

record update_request =
  ur_limit :: "decimal option"
  ur_policy :: "(string \<times> pyval) list option"
  ur_signature :: string

record tl_response =
  tr_line :: trust_line
  tr_equivalent_code :: string
  tr_from_pid :: pid
  tr_to_pid :: pid
  tr_from_display_name :: string
  tr_to_display_name :: string
  tr_used :: amount
  tr_available :: amount

definition get_participant_by_id :: "uuid \<Rightarrow> db \<Rightarrow> participant option" where
  "get_participant_by_id i db = find (\<lambda>p. part_id p = i) (participants db)"

definition get_participant_by_pid :: "pid \<Rightarrow> db \<Rightarrow> participant option" where
  "get_participant_by_pid pid db = find (\<lambda>p. part_pid p = pid) (participants db)"

definition get_equivalent_by_code :: "string \<Rightarrow> db \<Rightarrow> equivalent option" where
  "get_equivalent_by_code code db = find (\<lambda>q. equiv_code q = code) (equivalents db)"

definition get_equivalent_by_id :: "uuid \<Rightarrow> db \<Rightarrow> equivalent option" where
  "get_equivalent_by_id i db = find (\<lambda>q. equiv_id q = i) (equivalents db)"

definition get_trust_line :: "uuid \<Rightarrow> db \<Rightarrow> trust_line option" where
  "get_trust_line i db = find (\<lambda>t. tl_id t = i) (trust_lines db)"

definition signature_ok ::
    "(string \<Rightarrow> string \<Rightarrow> string \<Rightarrow> bool) \<Rightarrow> string \<Rightarrow> (string \<times> pyval) list \<Rightarrow> string \<Rightarrow> bool" where
  "signature_ok verify public_key payload sig = (case canonical_json (VDict payload) of Inl _ \<Rightarrow> False
     | Inr message \<Rightarrow> verify public_key message sig)"

definition optional_item :: "string \<Rightarrow> pyval option \<Rightarrow> (string \<times> pyval) list" where
  "optional_item key v = (case v of None \<Rightarrow> [] | Some x \<Rightarrow> [(key, x)])"

definition create_signed_payload :: "create_request \<Rightarrow> (string \<times> pyval) list" where
  "create_signed_payload req =
     [(''to'', VStr (cr_to req)), (''equivalent'', VStr (cr_equivalent req)), (''limit'', VStr (dec_str (cr_limit req)))]
     @ optional_item ''policy'' (map_option VDict (cr_policy req))"

definition update_signed_payload :: "uuid \<Rightarrow> update_request \<Rightarrow> (string \<times> pyval) list" where
  "update_signed_payload i req = [(''id'', VStr (uuid_str i))]
     @ optional_item ''limit'' (map_option (\<lambda>d. VStr (dec_str d)) (ur_limit req))
     @ optional_item ''policy'' (map_option VDict (ur_policy req))"

section \<open>Used amounts and the response\<close>

definition get_used_amount :: "trust_line \<Rightarrow> db \<Rightarrow> amount" where
  "get_used_amount t db = (if tl_status t = Closed then 0
     else owes db (tl_to t) (tl_from t) (tl_equivalent t))"

definition get_reverse_used_amount :: "trust_line \<Rightarrow> db \<Rightarrow> amount" where
  "get_reverse_used_amount t db = (if tl_status t = Closed then 0
     else owes db (tl_from t) (tl_to t) (tl_equivalent t))"

definition hydrate_trustline :: "db \<Rightarrow> trust_line \<Rightarrow> exc + tl_response" where
  "hydrate_trustline db t =
     (case (get_equivalent_by_id (tl_equivalent t) db, get_participant_by_id (tl_from t) db,
            get_participant_by_id (tl_to t) db) of
        (Some q, Some x, Some y) \<Rightarrow> let used = get_used_amount t db in
          Inr \<lparr>tr_line = t, tr_equivalent_code = equiv_code q, tr_from_pid = part_pid x, tr_to_pid = part_pid y,
               tr_from_display_name = part_display_name x, tr_to_display_name = part_display_name y,
               tr_used = used, tr_available = tl_limit t - used\<rparr>
      | _ \<Rightarrow> Inl NoResultFound)"

definition audit_trust_line :: "tx_type_t \<Rightarrow> trust_line \<Rightarrow> db \<Rightarrow> db \<Rightarrow> audit_entry" where
  "audit_trust_line op t before after =
     (let cp = compute_integrity_checkpoint (tl_equivalent t) after in
      \<lparr>audit_operation = op, audit_tx = None, audit_equivalent = tl_equivalent t,
       audit_before = Some (cp_checksum (compute_integrity_checkpoint (tl_equivalent t) before)),
       audit_after = Some (cp_checksum cp),
       audit_participants = [pid_or_id after (tl_from t), pid_or_id after (tl_to t)],
       audit_passed = cp_passed cp\<rparr>)"

definition append_audit :: "audit_entry \<Rightarrow> db \<Rightarrow> db" where
  "append_audit a db = db\<lparr>audit_log := audit_log db @ [a]\<rparr>"

section \<open>Creating a line\<close>

definition live_line :: "uuid \<Rightarrow> uuid \<Rightarrow> uuid \<Rightarrow> db \<Rightarrow> trust_line option" where
  "live_line x y e db = find (\<lambda>t. tl_from t = x \<and> tl_to t = y \<and> tl_equivalent t = e \<and> tl_status t \<noteq> Closed)
     (trust_lines db)"

text \<open>The flushed \<open>INSERT\<close>: what the column keeps of the limit, and the constraints of the table.\<close>

definition trust_line_unique_error :: "driver_link list" where
  "trust_line_unique_error = [\<lparr>dl_constraint_name = Some live_trustline_index, dl_sqlstate = Some ''23505'',
     dl_pgcode = Some ''23505'', dl_table_name = Some ''trust_lines'', dl_detail = None, dl_text = []\<rparr>]"

datatype insert_error = UniqueViolation "driver_link list" | OtherDbError exc

definition insert_trust_line ::
    "uuid \<Rightarrow> uuid \<Rightarrow> uuid \<Rightarrow> amount \<Rightarrow> policy \<Rightarrow> db \<Rightarrow> insert_error + (trust_line \<times> db)" where
  "insert_trust_line x y e l p db = (case store_numeric ''INSERT INTO TRUST_LINES'' l of
      Inl err \<Rightarrow> Inl (OtherDbError err)
    | Inr stored \<Rightarrow>
        if stored < 0 then Inl (OtherDbError (DBAPIError \<lparr>sqlstate = Some ''23514'',
             statement = ''INSERT INTO TRUST_LINES'', constraint_name = Some ''chk_trust_line_limit_positive''\<rparr>))
        else if live_line x y e db \<noteq> None then Inl (UniqueViolation trust_line_unique_error)
        else let t = \<lparr>tl_id = next_uuid db, tl_from = x, tl_to = y, tl_equivalent = e, tl_limit = stored,
                     tl_policy = Some p, tl_status = Active, tl_created_at = db_now db\<rparr>
          in Inr (t, db\<lparr>trust_lines := trust_lines db @ [t], next_uuid := Suc (next_uuid db)\<rparr>))"

text \<open>
  What the session sees: \<open>te_read\<close> when the guards are evaluated, \<open>te_flush\<close> when the row is
  written, in which a competing session may have committed a line of its own, and the driver error
  of the commit, when there is one.
\<close>

record create_env =
  te_read :: db
  te_flush :: db
  te_commit :: "driver_link list option"

definition raise_integrity_error :: "driver_link list \<Rightarrow> exc" where
  "raise_integrity_error chain = (if is_live_trustline_uniqueness_violation chain then Conflict
     else DBAPIError \<lparr>sqlstate = Some ''23000'', statement = ''INSERT INTO TRUST_LINES'', constraint_name = None\<rparr>)"

definition create_checked ::
    "create_request \<Rightarrow> uuid \<Rightarrow> uuid \<Rightarrow> equivalent \<Rightarrow> create_env \<Rightarrow> router_cache
      \<Rightarrow> exc + (tl_response \<times> db \<times> router_cache)" where
  "create_checked req x y q env cache =
     (if live_line x y (equiv_id q) (te_read env) \<noteq> None then Inl Conflict
      else (case insert_trust_line x y (equiv_id q) (dec_value (cr_limit req))
              (case cr_policy req of None \<Rightarrow> [] | Some p \<Rightarrow> policy_json p) (te_flush env) of
          Inl (UniqueViolation chain) \<Rightarrow> Inl (raise_integrity_error chain)
        | Inl (OtherDbError err) \<Rightarrow> Inl err
        | Inr (t, db1) \<Rightarrow>
            let db2 = append_audit (audit_trust_line TRUST_LINE_CREATE t (te_read env) db1) db1 in
            (case hydrate_trustline db2 t of Inl err \<Rightarrow> Inl err
             | Inr response \<Rightarrow>
                 (case te_commit env of Some chain \<Rightarrow> Inl (raise_integrity_error chain)
                  | None \<Rightarrow> Inr (response, db2, invalidate_cache (Some (equiv_code q)) cache)))))"

definition create ::
    "(string \<Rightarrow> string \<Rightarrow> string \<Rightarrow> bool) \<Rightarrow> uuid \<Rightarrow> create_request \<Rightarrow> create_env \<Rightarrow> router_cache
      \<Rightarrow> exc + (tl_response \<times> db \<times> router_cache)" where
  "create verify from_id req env cache =
     (let db = te_read env in
      if cr_signature req = [] then Inl InvalidSignature
      else (case get_participant_by_id from_id db of None \<Rightarrow> Inl NotFound
      | Some sender \<Rightarrow>
        if \<not> signature_ok verify (part_public_key sender) (create_signed_payload req) (cr_signature req)
        then Inl InvalidSignature
        else (case validate_equivalent_code (cr_equivalent req) of Inl x \<Rightarrow> Inl x
      | Inr _ \<Rightarrow> (case (case cr_policy req of None \<Rightarrow> Inr () | Some p \<Rightarrow> validate_trustline_policy p) of Inl x \<Rightarrow> Inl x
      | Inr _ \<Rightarrow> (case get_participant_by_pid (cr_to req) db of None \<Rightarrow> Inl NotFound
      | Some recipient \<Rightarrow>
        if from_id = part_id recipient then Inl BadRequest
        else (case get_equivalent_by_code (cr_equivalent req) db of None \<Rightarrow> Inl NotFound
      | Some q \<Rightarrow> create_checked req from_id (part_id recipient) q env cache))))))"

section \<open>Updating and closing a line\<close>

definition update_line :: "uuid \<Rightarrow> (trust_line \<Rightarrow> trust_line) \<Rightarrow> db \<Rightarrow> db" where
  "update_line i g db = db\<lparr>trust_lines := upd_row tl_id i g (trust_lines db)\<rparr>"

definition merge_policy :: "policy option \<Rightarrow> policy \<Rightarrow> policy" where
  "merge_policy current new = fold (\<lambda>(k, v) m. AList.update k v m) new
     (case current of None \<Rightarrow> [] | Some p \<Rightarrow> p)"

text \<open>The guards \<^verbatim>\<open>update\<close> and \<^verbatim>\<open>close\<close> share, up to the signature; the answer is the line.\<close>

definition owned_live_line ::
    "(string \<Rightarrow> string \<Rightarrow> string \<Rightarrow> bool) \<Rightarrow> uuid \<Rightarrow> uuid \<Rightarrow> (string \<times> pyval) list \<Rightarrow> string \<Rightarrow> db \<Rightarrow> exc + trust_line" where
  "owned_live_line verify i user payload sig db =
     (case get_trust_line i db of None \<Rightarrow> Inl NotFound
      | Some t \<Rightarrow>
        if tl_from t \<noteq> user then Inl Forbidden
        else if tl_status t = Closed then Inl Conflict
        else if sig = [] then Inl InvalidSignature
        else (case get_participant_by_id user db of None \<Rightarrow> Inl NotFound
      | Some p \<Rightarrow> if \<not> signature_ok verify (part_public_key p) payload sig then Inl InvalidSignature
        else Inr t))"

definition finish_line ::
    "tx_type_t \<Rightarrow> trust_line \<Rightarrow> db \<Rightarrow> db \<Rightarrow> router_cache \<Rightarrow> exc + (db \<times> router_cache)" where
  "finish_line op t before after cache = (case get_equivalent_by_id (tl_equivalent t) after of
      None \<Rightarrow> Inl NoResultFound
    | Some q \<Rightarrow> Inr (append_audit (audit_trust_line op t before after) after,
                    invalidate_cache (Some (equiv_code q)) cache))"

definition check_new_limit :: "trust_line \<Rightarrow> decimal option \<Rightarrow> db \<Rightarrow> exc + unit" where
  "check_new_limit t l db = (case l of None \<Rightarrow> Inr ()
     | Some d \<Rightarrow> (if dec_value d < get_used_amount t db then Inl BadRequest else Inr ()))"

definition stored_limit :: "trust_line \<Rightarrow> decimal option \<Rightarrow> exc + amount" where
  "stored_limit t l = (case l of None \<Rightarrow> Inr (tl_limit t)
     | Some d \<Rightarrow> store_numeric ''UPDATE TRUST_LINES'' (dec_value d))"

definition update ::
    "(string \<Rightarrow> string \<Rightarrow> string \<Rightarrow> bool) \<Rightarrow> uuid \<Rightarrow> uuid \<Rightarrow> update_request \<Rightarrow> db \<Rightarrow> router_cache
      \<Rightarrow> exc + (tl_response \<times> db \<times> router_cache)" where
  "update verify i user req db cache =
     (case owned_live_line verify i user (update_signed_payload i req) (ur_signature req) db of Inl x \<Rightarrow> Inl x
      | Inr t \<Rightarrow> (case check_new_limit t (ur_limit req) db of Inl x \<Rightarrow> Inl x
      | Inr _ \<Rightarrow> (case (case ur_policy req of None \<Rightarrow> Inr () | Some p \<Rightarrow> validate_trustline_policy p) of Inl x \<Rightarrow> Inl x
      | Inr _ \<Rightarrow> (case stored_limit t (ur_limit req) of Inl x \<Rightarrow> Inl x
      | Inr stored \<Rightarrow>
        let t' = t\<lparr>tl_limit := stored,
                   tl_policy := (case ur_policy req of None \<Rightarrow> tl_policy t
                                 | Some p \<Rightarrow> Some (merge_policy (tl_policy t) (policy_json p)))\<rparr>;
            db1 = update_line i (\<lambda>_. t') db
        in (case finish_line TRUST_LINE_UPDATE t' db db1 cache of Inl x \<Rightarrow> Inl x
      | Inr (db2, cache') \<Rightarrow> (case hydrate_trustline db2 t' of Inl x \<Rightarrow> Inl x
      | Inr response \<Rightarrow> Inr (response, db2, cache')))))))"

definition close ::
    "(string \<Rightarrow> string \<Rightarrow> string \<Rightarrow> bool) \<Rightarrow> uuid \<Rightarrow> uuid \<Rightarrow> string \<Rightarrow> db \<Rightarrow> router_cache \<Rightarrow> exc + (db \<times> router_cache)" where
  "close verify i user sig db cache =
     (case owned_live_line verify i user [(''id'', VStr (uuid_str i))] sig db of Inl x \<Rightarrow> Inl x
      | Inr t \<Rightarrow>
        if get_used_amount t db > 0 \<or> get_reverse_used_amount t db > 0 then Inl BadRequest
        else let db1 = update_line i (\<lambda>r. r\<lparr>tl_status := Closed\<rparr>) db in
          finish_line TRUST_LINE_CLOSE (t\<lparr>tl_status := Closed\<rparr>) db db1 cache)"

section \<open>Queries\<close>

datatype direction = Outgoing | Incoming | AnyDirection

definition in_direction :: "uuid \<Rightarrow> direction \<Rightarrow> trust_line \<Rightarrow> bool" where
  "in_direction p d t = (case d of Outgoing \<Rightarrow> tl_from t = p | Incoming \<Rightarrow> tl_to t = p
     | AnyDirection \<Rightarrow> tl_from t = p \<or> tl_to t = p)"

definition order_lines :: "trust_line list \<Rightarrow> trust_line list" where
  "order_lines ts = sort_key (\<lambda>t. (- tl_created_at t, tl_id t)) ts"

definition page_rows :: "nat option \<Rightarrow> nat option \<Rightarrow> 'a list \<Rightarrow> 'a list" where
  "page_rows row_limit row_offset rows =
     (let r = (case row_offset of None \<Rightarrow> rows | Some n \<Rightarrow> drop n rows) in
      case row_limit of None \<Rightarrow> r | Some n \<Rightarrow> take n r)"

definition get_by_participant ::
    "uuid \<Rightarrow> direction \<Rightarrow> string option \<Rightarrow> tl_status_t option \<Rightarrow> nat option \<Rightarrow> nat option \<Rightarrow> db \<Rightarrow> exc + tl_response list" where
  "get_by_participant p d eq_code status row_limit row_offset db =
     (let st = (case status of None \<Rightarrow> Active | Some s \<Rightarrow> s);
          rows = filter (\<lambda>t. tl_status t = st \<and> in_direction p d t) (trust_lines db)
      in case (case truthy eq_code of None \<Rightarrow> Inr rows
           | Some code \<Rightarrow> (case validate_equivalent_code code of Inl x \<Rightarrow> Inl x
               | Inr _ \<Rightarrow> (case get_equivalent_by_code code db of None \<Rightarrow> Inl NotFound
                   | Some q \<Rightarrow> Inr (filter (\<lambda>t. tl_equivalent t = equiv_id q) rows)))) of
           Inl x \<Rightarrow> Inl x
         | Inr selected \<Rightarrow>
             map_res (hydrate_trustline db) (page_rows row_limit row_offset (order_lines selected)))"

definition get_one :: "uuid \<Rightarrow> db \<Rightarrow> exc + tl_response" where
  "get_one i db = (case get_trust_line i db of None \<Rightarrow> Inl NotFound | Some t \<Rightarrow> hydrate_trustline db t)"

text \<open>The rows \<^verbatim>\<open>list_all\<close> and \<^verbatim>\<open>count_all\<close> select; an unknown PID or code selects nothing.\<close>

definition selected_lines ::
    "string option \<Rightarrow> pid option \<Rightarrow> pid option \<Rightarrow> tl_status_t option \<Rightarrow> db \<Rightarrow> trust_line list" where
  "selected_lines eq_code creditor debtor status db =
     (let rows = filter (\<lambda>t. case status of None \<Rightarrow> True | Some s \<Rightarrow> tl_status t = s) (trust_lines db) in
      case (case truthy creditor of None \<Rightarrow> Some rows
            | Some pid \<Rightarrow> map_option (\<lambda>p. filter (\<lambda>t. tl_from t = part_id p) rows) (get_participant_by_pid pid db)) of
        None \<Rightarrow> []
      | Some rows1 \<Rightarrow>
      (case (case truthy debtor of None \<Rightarrow> Some rows1
            | Some pid \<Rightarrow> map_option (\<lambda>p. filter (\<lambda>t. tl_to t = part_id p) rows1) (get_participant_by_pid pid db)) of
        None \<Rightarrow> []
      | Some rows2 \<Rightarrow>
      (case (case truthy eq_code of None \<Rightarrow> Some rows2
            | Some code \<Rightarrow> map_option (\<lambda>q. filter (\<lambda>t. tl_equivalent t = equiv_id q) rows2) (get_equivalent_by_code code db)) of
        None \<Rightarrow> []
      | Some rows3 \<Rightarrow> rows3)))"

definition list_all_lines ::
    "string option \<Rightarrow> pid option \<Rightarrow> pid option \<Rightarrow> tl_status_t option \<Rightarrow> nat option \<Rightarrow> nat option \<Rightarrow> db
      \<Rightarrow> exc + tl_response list" where
  "list_all_lines eq_code creditor debtor status row_limit row_offset db =
     map_res (hydrate_trustline db)
       (page_rows row_limit row_offset (order_lines (selected_lines eq_code creditor debtor status db)))"

definition count_all ::
    "string option \<Rightarrow> pid option \<Rightarrow> pid option \<Rightarrow> tl_status_t option \<Rightarrow> db \<Rightarrow> nat" where
  "count_all eq_code creditor debtor status db = length (selected_lines eq_code creditor debtor status db)"

end
