(* ===== verification/Clearing.thy ===== *)
theory Clearing
  imports Payment_Engine Validation
begin

text \<open>
  Clearing of debt cycles, \<^verbatim>\<open>app/core/clearing/service.py\<close>: the consent policy, the pairs that
  prepared payments lock, detection of cycles by the SQL joins and by depth-first search, the
  execution of one cycle with its replay and reconciliation reads, and the automatic loop.
  Cancellation of asyncio tasks and the hand-over of pinned connections are not modelled.
\<close>

section \<open>Policies\<close>

definition falsy_words :: "string list" where
  "falsy_words = [''false'', ''0'', ''no'', ''off'']"

definition truthy_words :: "string list" where
  "truthy_words = [''true'', ''1'', ''yes'', ''on'']"

definition policy_flag :: "policy option \<Rightarrow> string \<Rightarrow> bool \<Rightarrow> bool" where
  "policy_flag p key deflt = (case p of None \<Rightarrow> deflt
    | Some kvs \<Rightarrow> (case map_of kvs key of None \<Rightarrow> deflt
      | Some JNull \<Rightarrow> deflt
      | Some (JBool b) \<Rightarrow> b
      | Some (JNum v) \<Rightarrow> v \<noteq> 0
      | Some (JStr s) \<Rightarrow> (let w = py_lower (py_strip s) in
          if w \<in> set falsy_words then False else if w \<in> set truthy_words then True else deflt)
      | Some (JList xs) \<Rightarrow> xs \<noteq> []
      | Some (JObj kvs') \<Rightarrow> kvs' \<noteq> []))"

text \<open>
  The SQL predicate for the same question. On PostgreSQL the value is compared as lower-case
  text, on SQLite as the extracted value; a JSON number 0 is written \<^verbatim>\<open>0\<close>.
\<close>

definition sql_auto_clearing_ok :: "bool \<Rightarrow> policy option \<Rightarrow> bool" where
  "sql_auto_clearing_ok is_sqlite p = (case p of None \<Rightarrow> True
    | Some kvs \<Rightarrow> (case map_of kvs ''auto_clearing'' of None \<Rightarrow> True
      | Some JNull \<Rightarrow> True
      | Some (JBool b) \<Rightarrow> b
      | Some (JNum v) \<Rightarrow> v \<noteq> 0
      | Some (JStr s) \<Rightarrow> (if is_sqlite then s else py_lower s) \<notin> set falsy_words
      | Some _ \<Rightarrow> True))"

section \<open>Candidate edges\<close>

text \<open>
  An edge of a candidate cycle as the API passes it: \<open>None\<close> for a debt id that is not a UUID.
\<close>

record cycle_edge =
  ed_debt :: "uuid option"
  ed_debtor :: uuid
  ed_creditor :: uuid
  ed_amount :: amount

definition edge_of_debt :: "debt \<Rightarrow> cycle_edge" where
  "edge_of_debt d = \<lparr>ed_debt = Some (debt_id d), ed_debtor = debtor_id d, ed_creditor = creditor_id d,
     ed_amount = debt_amount d\<rparr>"

definition unordered :: "uuid \<Rightarrow> uuid \<Rightarrow> uuid \<times> uuid" where
  "unordered x y = (min x y, max x y)"

definition cycle_key :: "cycle_edge list \<Rightarrow> uuid option list" where
  "cycle_key c = sort_key (\<lambda>k. case k of None \<Rightarrow> 0 | Some i \<Rightarrow> Suc i) (map ed_debt c)"

fun dedup_keys :: "('a \<Rightarrow> 'k list) \<Rightarrow> 'k list list \<Rightarrow> 'a list \<Rightarrow> 'a list" where
  "dedup_keys key seen [] = []"
| "dedup_keys key seen (c # cs) = (if key c = [] \<or> key c \<in> set seen then dedup_keys key seen cs
     else c # dedup_keys key (key c # seen) cs)"

definition deduplicate_cycles :: "cycle_edge list list \<Rightarrow> cycle_edge list list" where
  "deduplicate_cycles = dedup_keys cycle_key []"

section \<open>Locked pairs\<close>

definition locked_flow_pair :: "uuid \<Rightarrow> raw_flow \<Rightarrow> (uuid \<times> uuid) option" where
  "locked_flow_pair e f = (case f of RawFlow (Some e') (Some x) (Some y) _ \<Rightarrow>
      (if e' = e then Some (unordered x y) else None) | _ \<Rightarrow> None)"

definition locked_pairs_for_equivalent :: "uuid \<Rightarrow> db \<Rightarrow> exc + (uuid \<times> uuid) list" where
  "locked_pairs_for_equivalent e db = fold_res (\<lambda>l acc. case iter_flows l of Inl x \<Rightarrow> Inl x
     | Inr fs \<Rightarrow> Inr (acc @ List.map_filter (locked_flow_pair e) fs))
     (filter (\<lambda>l. lock_expires_at l > db_now db) (prepare_locks db)) []"

definition touches_locked :: "(uuid \<times> uuid) list \<Rightarrow> cycle_edge list \<Rightarrow> bool" where
  "touches_locked locked c = list_ex (\<lambda>ed. unordered (ed_debtor ed) (ed_creditor ed) \<in> set locked) c"

section \<open>Consent\<close>

definition cycle_respects_auto_clearing :: "debt list \<Rightarrow> db \<Rightarrow> bool" where
  "cycle_respects_auto_clearing ds db = (case ds of [] \<Rightarrow> False
    | d0 # _ \<Rightarrow> list_all (\<lambda>d.
        (case find (\<lambda>t. tl_from t = creditor_id d \<and> tl_to t = debtor_id d \<and> tl_equivalent t = debt_equivalent d0
                     \<and> tl_status t = Active) (rev (trust_lines db)) of
           None \<Rightarrow> False | Some t \<Rightarrow> policy_flag (tl_policy t) ''auto_clearing'' True)) ds)"

definition debts_of_edges :: "cycle_edge list \<Rightarrow> db \<Rightarrow> debt list option" where
  "debts_of_edges c db = those (map (\<lambda>ed. case ed_debt ed of None \<Rightarrow> None
     | Some i \<Rightarrow> find (\<lambda>d. debt_id d = i) (debts db)) c)"

definition filter_cycles_by_policy :: "uuid \<Rightarrow> cycle_edge list list \<Rightarrow> db \<Rightarrow> cycle_edge list list" where
  "filter_cycles_by_policy e cycles db = filter (\<lambda>c. case debts_of_edges c db of None \<Rightarrow> False
     | Some [] \<Rightarrow> False
     | Some (d # ds) \<Rightarrow> debt_equivalent d = e \<and> cycle_respects_auto_clearing (d # ds) db) cycles"

section \<open>Detection by SQL\<close>

definition in_scope :: "uuid list option \<Rightarrow> uuid \<Rightarrow> bool" where
  "in_scope scope p = (case scope of None \<Rightarrow> True | Some ps \<Rightarrow> p \<in> set ps)"

definition line_consents :: "bool \<Rightarrow> debt \<Rightarrow> db \<Rightarrow> bool" where
  "line_consents is_sqlite d db = list_ex (\<lambda>t. sql_auto_clearing_ok is_sqlite (tl_policy t)) (controlling_lines d db)"

definition least :: "debt list \<Rightarrow> amount" where
  "least ds = Min (set (map debt_amount ds))"

definition min_clear_amount :: amount where
  "min_clear_amount = 1 / 100"

definition order_and_limit :: "nat \<Rightarrow> debt list list \<Rightarrow> debt list list" where
  "order_and_limit n rows = take n (sort_key (\<lambda>ds. - least ds) rows)"

definition eq_debts :: "uuid \<Rightarrow> db \<Rightarrow> debt list" where
  "eq_debts e db = filter (\<lambda>d. debt_equivalent d = e) (debts db)"

definition triangle_row :: "bool \<Rightarrow> uuid list option \<Rightarrow> db \<Rightarrow> debt \<times> debt \<times> debt \<Rightarrow> bool" where
  "triangle_row is_sqlite scope db ds = (case ds of (d1, d2, d3) \<Rightarrow>
     creditor_id d1 = debtor_id d2 \<and> creditor_id d2 = debtor_id d3 \<and> creditor_id d3 = debtor_id d1
     \<and> line_consents is_sqlite d1 db \<and> line_consents is_sqlite d2 db \<and> line_consents is_sqlite d3 db
     \<and> debt_amount d1 > 0 \<and> debt_amount d2 > 0 \<and> debt_amount d3 > 0
     \<and> least [d1, d2, d3] > min_clear_amount
     \<and> in_scope scope (debtor_id d1) \<and> in_scope scope (creditor_id d1) \<and> in_scope scope (creditor_id d2))"

definition find_triangles_sql :: "bool \<Rightarrow> uuid \<Rightarrow> uuid list option \<Rightarrow> db \<Rightarrow> cycle_edge list list" where
  "find_triangles_sql is_sqlite e scope db = (let ds = eq_debts e db in
     map (map edge_of_debt) (order_and_limit 100
       (map (\<lambda>(d1, d2, d3). [d1, d2, d3])
         (filter (triangle_row is_sqlite scope db) (List.product ds (List.product ds ds))))))"

definition quadrangle_row :: "bool \<Rightarrow> uuid list option \<Rightarrow> db \<Rightarrow> debt \<times> debt \<times> debt \<times> debt \<Rightarrow> bool" where
  "quadrangle_row is_sqlite scope db ds = (case ds of (d1, d2, d3, d4) \<Rightarrow>
     creditor_id d1 = debtor_id d2 \<and> creditor_id d2 = debtor_id d3 \<and> creditor_id d3 = debtor_id d4
     \<and> creditor_id d4 = debtor_id d1
     \<and> list_all (\<lambda>d. line_consents is_sqlite d db) [d1, d2, d3, d4]
     \<and> list_all (\<lambda>d. debt_amount d > 0) [d1, d2, d3, d4]
     \<and> debtor_id d1 \<noteq> creditor_id d2 \<and> debtor_id d1 \<noteq> creditor_id d3 \<and> creditor_id d1 \<noteq> creditor_id d3
     \<and> least [d1, d2, d3, d4] > min_clear_amount
     \<and> in_scope scope (debtor_id d1) \<and> in_scope scope (creditor_id d1) \<and> in_scope scope (creditor_id d2)
     \<and> in_scope scope (creditor_id d3))"

definition find_quadrangles_sql :: "bool \<Rightarrow> uuid \<Rightarrow> uuid list option \<Rightarrow> db \<Rightarrow> cycle_edge list list" where
  "find_quadrangles_sql is_sqlite e scope db = (let ds = eq_debts e db in
     map (map edge_of_debt) (order_and_limit 50
       (map (\<lambda>(d1, d2, d3, d4). [d1, d2, d3, d4])
         (filter (quadrangle_row is_sqlite scope db)
            (List.product ds (List.product ds (List.product ds ds)))))))"

text \<open>One depth of the SQL search: locks, duplicates, then consent.\<close>

definition refine_candidates ::
    "uuid \<Rightarrow> (uuid \<times> uuid) list \<Rightarrow> cycle_edge list list \<Rightarrow> db \<Rightarrow> cycle_edge list list" where
  "refine_candidates e locked cycles db = filter_cycles_by_policy e
     (deduplicate_cycles (filter (\<lambda>c. \<not> touches_locked locked c) cycles)) db"

section \<open>Detection by depth-first search\<close>

definition adjacency :: "debt list \<Rightarrow> uuid \<Rightarrow> debt list" where
  "adjacency ds x = filter (\<lambda>d. debtor_id d = x) ds"

text \<open>
  The loop over the edges of one node. \<open>k\<close> is how many more edges may follow; a closing edge
  ends the loop, as the \<open>return\<close> of the source does.
\<close>

fun dfs_edges :: "debt list \<Rightarrow> nat \<Rightarrow> uuid \<Rightarrow> debt list \<Rightarrow> uuid list \<Rightarrow> debt list \<Rightarrow> debt list list" where
  "dfs_edges ds k start path visited [] = []"
| "dfs_edges ds 0 start path visited (ed # es) =
     (if creditor_id ed = start then [path @ [ed]] else dfs_edges ds 0 start path visited es)"
| "dfs_edges ds (Suc k) start path visited (ed # es) =
     (if creditor_id ed = start then [path @ [ed]]
      else (if creditor_id ed \<notin> set visited
            then dfs_edges ds k start (path @ [ed]) (creditor_id ed # visited) (adjacency ds (creditor_id ed))
            else []) @ dfs_edges ds (Suc k) start path visited es)"

definition dfs :: "debt list \<Rightarrow> nat \<Rightarrow> uuid \<Rightarrow> debt list list" where
  "dfs ds max_depth start = (case max_depth of 0 \<Rightarrow> []
     | Suc k \<Rightarrow> dfs_edges ds k start [] [start] (adjacency ds start))"

fun dfs_all :: "debt list \<Rightarrow> nat \<Rightarrow> uuid list \<Rightarrow> debt list list \<Rightarrow> debt list list" where
  "dfs_all ds max_depth [] cycles = cycles"
| "dfs_all ds max_depth (x # xs) cycles = (if length cycles > 50 then cycles
     else dfs_all ds max_depth xs (cycles @ dfs ds max_depth x))"

definition graph_debts :: "uuid \<Rightarrow> uuid list option \<Rightarrow> (uuid \<times> uuid) list \<Rightarrow> db \<Rightarrow> debt list" where
  "graph_debts e scope locked db = filter (\<lambda>d. debt_equivalent d = e \<and> debt_amount d > 0
     \<and> in_scope scope (debtor_id d) \<and> in_scope scope (creditor_id d)
     \<and> unordered (debtor_id d) (creditor_id d) \<notin> set locked) (debts db)"

definition find_cycles_dfs :: "uuid \<Rightarrow> uuid list option \<Rightarrow> nat \<Rightarrow> (uuid \<times> uuid) list \<Rightarrow> db \<Rightarrow> cycle_edge list list" where
  "find_cycles_dfs e scope max_depth locked db =
     (let ds = graph_debts e scope locked db;
          cycles = dfs_all ds max_depth (dict_keys (map debtor_id ds)) [];
          uniq = dedup_keys (\<lambda>c. sort (map debt_id c)) [] cycles;
          final = sort_key length (map (map edge_of_debt) uniq)
      in filter_cycles_by_policy e final db)"

section \<open>Cycle search\<close>

definition resolve_scope_ids :: "pid list option \<Rightarrow> db \<Rightarrow> uuid list option" where
  "resolve_scope_ids pids db = (case pids of None \<Rightarrow> None
    | Some ps \<Rightarrow> Some (map part_id (filter (\<lambda>r. part_pid r \<in> set ps) (participants db))))"

definition get_equivalent :: "string \<Rightarrow> db \<Rightarrow> equivalent option" where
  "get_equivalent code db = find (\<lambda>q. equiv_code q = code) (equivalents db)"

definition sql_candidates ::
    "bool \<Rightarrow> uuid \<Rightarrow> uuid list option \<Rightarrow> nat \<Rightarrow> (uuid \<times> uuid) list \<Rightarrow> db \<Rightarrow> cycle_edge list list" where
  "sql_candidates is_sqlite e scope max_depth locked db =
     (let triangles = refine_candidates e locked (find_triangles_sql is_sqlite e scope db) db
      in if max_depth \<ge> 4 \<and> triangles = []
         then refine_candidates e locked (find_quadrangles_sql is_sqlite e scope db) db
         else triangles)"

definition find_cycles ::
    "bool \<Rightarrow> bool \<Rightarrow> string \<Rightarrow> nat \<Rightarrow> pid list option \<Rightarrow> db \<Rightarrow> exc + cycle_edge list list" where
  "find_cycles is_sqlite use_sql code max_depth allowed_pids db =
     (case get_equivalent code db of None \<Rightarrow> Inl (Geo E010)
      | Some q \<Rightarrow> let e = equiv_id q; scope = resolve_scope_ids allowed_pids db in
         if scope = Some [] then Inr []
         else (case locked_pairs_for_equivalent e db of Inl x \<Rightarrow> Inl x
           | Inr locked \<Rightarrow>
               (let sql = (if use_sql \<and> max_depth \<ge> 3 then sql_candidates is_sqlite e scope max_depth locked db else [])
                in Inr (if sql \<noteq> [] then sql else find_cycles_dfs e scope max_depth locked db))))"

section \<open>Replay of an executed cycle\<close>

text \<open>
  The transaction id of an execution is the name-based UUID of the set of debt ids; \<open>uuid5\<close> is the
  hash of the sorted list.
\<close>

definition execution_tx_id :: "(uuid list \<Rightarrow> string) \<Rightarrow> uuid list \<Rightarrow> string" where
  "execution_tx_id uuid5 ids = uuid5 (sort (remdups ids))"

definition touched_pids :: "(pid \<times> pid) list \<Rightarrow> pid list" where
  "touched_pids es = concat (map (\<lambda>(x, y). [x, y]) es)"

definition read_committed_execution_amount ::
    "pid list option \<Rightarrow> string \<Rightarrow> db \<Rightarrow> exc + pydec option" where
  "read_committed_execution_amount allowed_pids tx db =
     (case find (\<lambda>t. tx_id t = tx \<and> tx_type t = CLEARING) (transactions db) of None \<Rightarrow> Inr None
      | Some t \<Rightarrow>
        if tx_state t \<noteq> COMMITTED then Inr None
        else if (case allowed_pids of None \<Rightarrow> False | Some ps \<Rightarrow>
             (case pl_edges (tx_payload t) of None \<Rightarrow> True
              | Some es \<Rightarrow> es = [] \<or> \<not> set (touched_pids es) \<subseteq> set ps))
        then Inl (Geo E010)
        else (case pl_amount (tx_payload t) of None \<Rightarrow> Inl (Geo E010)
          | Some NaN \<Rightarrow> Inl InvalidOperation
          | Some NegInf \<Rightarrow> Inl (Geo E010)
          | Some PosInf \<Rightarrow> Inr (Some PosInf)
          | Some (Fin v) \<Rightarrow> (if v \<le> 0 then Inl (Geo E010) else Inr (Some (Fin v)))))"

definition is_retryable_concurrency_error :: "exc \<Rightarrow> bool" where
  "is_retryable_concurrency_error x = (case x of
      DBAPIError d \<Rightarrow> sqlstate d \<in> {Some ''40001'', Some ''40P01''} | _ \<Rightarrow> False)"

text \<open>
  Reconciliation reads the outcome from up to three fresh snapshots; \<open>reads i\<close> is the \<open>i\<close>-th
  of them, or the error of opening it.
\<close>

fun reconcile_from ::
    "pid list option \<Rightarrow> string \<Rightarrow> (nat \<Rightarrow> exc + db) \<Rightarrow> nat \<Rightarrow> nat \<Rightarrow> exc option \<Rightarrow> exc + pydec option" where
  "reconcile_from allowed_pids tx reads attempt 0 last_error =
     (case last_error of None \<Rightarrow> Inr None | Some x \<Rightarrow> Inl x)"
| "reconcile_from allowed_pids tx reads attempt (Suc left) last_error =
     (case (case reads attempt of Inl x \<Rightarrow> Inl x | Inr db \<Rightarrow> read_committed_execution_amount allowed_pids tx db) of
        Inl x \<Rightarrow> reconcile_from allowed_pids tx reads (Suc attempt) left (Some x)
      | Inr (Some a) \<Rightarrow> Inr (Some a)
      | Inr None \<Rightarrow> reconcile_from allowed_pids tx reads (Suc attempt) left None)"

definition reconcile_committed_execution ::
    "pid list option \<Rightarrow> string \<Rightarrow> (nat \<Rightarrow> exc + db) \<Rightarrow> exc + pydec option" where
  "reconcile_committed_execution allowed_pids tx reads = reconcile_from allowed_pids tx reads 0 3 None"

section \<open>Execution of one cycle\<close>

text \<open>
  What the database may do to an execution: the statements that may fail, the outcome of the
  final \<open>COMMIT\<close> (an error, and whether the commit became durable all the same), and the fresh
  snapshots of the reconciliations; before that, the preflight snapshot of the interlock and the
  error of acquiring it.
\<close>

datatype commit_outcome = CommitOk | CommitError exc bool

record clearing_env =
  xe_replay_error :: "exc option"
  xe_rows_error :: "exc option"
  xe_flush_error :: "exc option"
  xe_commit :: commit_outcome
  xe_fresh :: "nat \<Rightarrow> nat \<Rightarrow> exc + db"
  xe_pre :: db
  xe_lock_error :: "exc option"

text \<open>
  The common handler: a serialization failure is resolved by reconciliation; everything else,
  and an unresolved failure, is rolled back and raised as the sanitized internal error.
\<close>

definition handle_failure ::
    "pid list option \<Rightarrow> string \<Rightarrow> (nat \<Rightarrow> exc + db) \<Rightarrow> exc \<Rightarrow> exc + pydec option" where
  "handle_failure allowed_pids tx reads x =
     (if is_retryable_concurrency_error x
      then (case reconcile_committed_execution allowed_pids tx reads of
              Inr (Some a) \<Rightarrow> Inr (Some a) | _ \<Rightarrow> Inl (Geo E010))
      else Inl (Geo E010))"

definition clear_debt :: "amount \<Rightarrow> debt \<Rightarrow> db \<Rightarrow> exc + db" where
  "clear_debt v d db = (if debt_amount d < v then Inl (Geo E010) else settle_debt d (debt_amount d - v) db)"

definition cycle_participants :: "debt list \<Rightarrow> uuid list" where
  "cycle_participants ds = remdups (concat (map (\<lambda>d. [debtor_id d, creditor_id d]) ds))"

definition clearing_edges :: "uuid list \<Rightarrow> debt list \<Rightarrow> db \<Rightarrow> (pid \<times> pid) list" where
  "clearing_edges ids ds db = List.map_filter (\<lambda>i. map_option
     (\<lambda>d. (pid_or_id db (debtor_id d), pid_or_id db (creditor_id d))) (find (\<lambda>d. debt_id d = i) ds)) ids"

definition equiv_code_of :: "uuid \<Rightarrow> db \<Rightarrow> string" where
  "equiv_code_of e db = (case find (\<lambda>q. equiv_id q = e) (equivalents db) of
      None \<Rightarrow> uuid_str e | Some q \<Rightarrow> equiv_code q)"

definition clearing_tx :: "string \<Rightarrow> uuid list \<Rightarrow> debt list \<Rightarrow> amount \<Rightarrow> db \<Rightarrow> transaction" where
  "clearing_tx tx ids ds v db = \<lparr>tx_id = tx, tx_type = CLEARING, tx_initiator = debtor_id (hd ds),
     tx_payload = \<lparr>pl_from = None, pl_to = None, pl_amount = Some (Fin v),
       pl_equivalent = Some (equiv_code_of (debt_equivalent (hd ds)) db), pl_routes = None, pl_fingerprint = None,
       pl_edges = Some (clearing_edges ids ds db)\<rparr>,
     tx_state = COMMITTED, tx_error = None, tx_created_at = db_now db, tx_updated_at = db_now db\<rparr>"

definition audit_clearing :: "string \<Rightarrow> debt list \<Rightarrow> db \<Rightarrow> db \<Rightarrow> audit_entry" where
  "audit_clearing tx ds db0 db =
     (let e = debt_equivalent (hd ds); after = compute_integrity_checkpoint e db in
      \<lparr>audit_operation = CLEARING, audit_tx = Some tx, audit_equivalent = e,
       audit_before = Some (cp_checksum (compute_integrity_checkpoint e db0)),
       audit_after = Some (cp_checksum after),
       audit_participants = map (pid_or_id db0) (cycle_participants ds), audit_passed = cp_passed after\<rparr>)"

text \<open>
  Apply, audit and verify: everything between the new transaction and the commit.
\<close>

definition apply_clearing ::
    "exc option \<Rightarrow> string \<Rightarrow> uuid list \<Rightarrow> debt list \<Rightarrow> amount \<Rightarrow> db \<Rightarrow> exc + db" where
  "apply_clearing flush_error tx ids ds v db =
     (let e = debt_equivalent (hd ds);
          before = map (\<lambda>p. (p, calculate_net_position p e db)) (cycle_participants ds)
      in case fold_res (clear_debt v) ds db of Inl x \<Rightarrow> Inl x
         | Inr db1 \<Rightarrow>
           (case flush_error of Some x \<Rightarrow> Inl x
            | None \<Rightarrow>
              if get_tx tx db \<noteq> None
              then Inl (DBAPIError \<lparr>sqlstate = Some ''23505'', statement = ''INSERT INTO TRANSACTIONS'',
                          constraint_name = Some ''transactions_tx_id_key''\<rparr>)
              else (case verify_clearing_neutrality (cycle_participants ds) e before db1 of Inl x \<Rightarrow> Inl x
                | Inr _ \<Rightarrow> Inr (db1\<lparr>transactions := transactions db1 @ [clearing_tx tx ids ds v db],
                                   audit_log := audit_log db1 @ [audit_clearing tx ds db db1]\<rparr>))))"

definition finish_clearing ::
    "pid list option \<Rightarrow> string \<Rightarrow> amount \<Rightarrow> clearing_env \<Rightarrow> db \<Rightarrow> pydec option uow_result" where
  "finish_clearing allowed_pids tx v env db' = (case xe_commit env of
      CommitOk \<Rightarrow> (Inr (Some (Fin v)), Some db')
    | CommitError x durable \<Rightarrow>
        ((case reconcile_committed_execution allowed_pids tx (xe_fresh env 0) of
            Inr (Some a) \<Rightarrow> Inr (Some a)
          | Inr None \<Rightarrow> handle_failure allowed_pids tx (xe_fresh env 1) x
          | Inl y \<Rightarrow> handle_failure allowed_pids tx (xe_fresh env 1) y),
         if durable then Some db' else None))"

text \<open>The checks on the locked rows, in the order of the source; \<open>Inr None\<close> is a skipped candidate.\<close>

definition clearing_guards ::
    "uuid option \<Rightarrow> uuid list option \<Rightarrow> debt list \<Rightarrow> db \<Rightarrow> (exc + pydec option) option" where
  "clearing_guards interlocked allowed_ids ds db =
     (if (case interlocked of None \<Rightarrow> False | Some e \<Rightarrow> list_ex (\<lambda>d. debt_equivalent d \<noteq> e) ds)
      then Some (Inl (Geo E010))
      else if (case allowed_ids of None \<Rightarrow> False | Some ps \<Rightarrow> \<not> set (cycle_participants ds) \<subseteq> set ps)
      then Some (Inl (Geo E010))
      else if least ds \<le> 0 then Some (Inr None)
      else (case locked_pairs_for_equivalent (debt_equivalent (hd ds)) db of Inl _ \<Rightarrow> Some (Inl (Geo E010))
        | Inr locked \<Rightarrow>
            if list_ex (\<lambda>d. unordered (debtor_id d) (creditor_id d) \<in> set locked) ds then Some (Inr None)
            else if \<not> cycle_respects_auto_clearing ds db then Some (Inr None) else None))"

definition execute_locked ::
    "pid list option \<Rightarrow> uuid option \<Rightarrow> uuid list option \<Rightarrow> string \<Rightarrow> uuid list \<Rightarrow> clearing_env \<Rightarrow> db
      \<Rightarrow> pydec option uow_result" where
  "execute_locked allowed_pids interlocked allowed_ids tx ids env db =
     (let ds = filter (\<lambda>d. debt_id d \<in> set ids) (debts db) in
      if length ds \<noteq> length ids
      then (case read_committed_execution_amount allowed_pids tx db of
              Inl _ \<Rightarrow> (Inl (Geo E010), None) | Inr a \<Rightarrow> (Inr a, None))
      else (case clearing_guards interlocked allowed_ids ds db of Some r \<Rightarrow> (r, None)
        | None \<Rightarrow>
            (case apply_clearing (xe_flush_error env) tx ids ds (least ds) db of
               Inl x \<Rightarrow> (handle_failure allowed_pids tx (xe_fresh env 0) x, None)
             | Inr db' \<Rightarrow> finish_clearing allowed_pids tx (least ds) env db')))"

definition execute_clearing_with_amount_inner ::
    "(uuid list \<Rightarrow> string) \<Rightarrow> uuid option \<Rightarrow> uuid list option \<Rightarrow> pid list option \<Rightarrow> cycle_edge list
      \<Rightarrow> clearing_env \<Rightarrow> db \<Rightarrow> pydec option uow_result" where
  "execute_clearing_with_amount_inner uuid5 interlocked allowed_ids allowed_pids cycle env db =
     (if cycle = [] then (Inr None, None)
      else (case those (map ed_debt cycle) of None \<Rightarrow> (Inr None, None)
        | Some ids \<Rightarrow> let tx = execution_tx_id uuid5 ids in
            (case (case xe_replay_error env of Some x \<Rightarrow> Inl x
                   | None \<Rightarrow> read_committed_execution_amount allowed_pids tx db) of
               Inl x \<Rightarrow> (handle_failure allowed_pids tx (xe_fresh env 0) x, None)
             | Inr (Some a) \<Rightarrow> (Inr (Some a), None)
             | Inr None \<Rightarrow>
                 (case xe_rows_error env of
                    Some x \<Rightarrow> (handle_failure allowed_pids tx (xe_fresh env 0) x, None)
                  | None \<Rightarrow> execute_locked allowed_pids interlocked allowed_ids tx ids env db))))"

text \<open>
  The public entry: on PostgreSQL the owner lock of the cycle's single equivalent is taken
  between the preflight read and the execution.
\<close>

definition execute_clearing_with_amount ::
    "(uuid list \<Rightarrow> string) \<Rightarrow> bool \<Rightarrow> pid list option \<Rightarrow> cycle_edge list \<Rightarrow> clearing_env \<Rightarrow> db
      \<Rightarrow> pydec option uow_result" where
  "execute_clearing_with_amount uuid5 is_postgres allowed_pids cycle env db =
     (let allowed_ids = resolve_scope_ids allowed_pids (xe_pre env);
          inner = (\<lambda>e. execute_clearing_with_amount_inner uuid5 e allowed_ids allowed_pids cycle env db)
      in if allowed_ids = Some [] then (Inl (Geo E010), None)
         else if \<not> is_postgres \<or> cycle = [] then inner None
         else (case those (map ed_debt cycle) of None \<Rightarrow> inner None
           | Some ids \<Rightarrow>
               let preflight = filter (\<lambda>d. debt_id d \<in> set ids) (debts (xe_pre env)) in
               if length preflight \<noteq> length ids
               then (case reconcile_committed_execution allowed_pids (execution_tx_id uuid5 ids) (xe_fresh env 2) of
                       Inl _ \<Rightarrow> (Inl (Geo E010), None)
                     | Inr (Some a) \<Rightarrow> (Inr (Some a), None)
                     | Inr None \<Rightarrow> inner None)
               else if \<not> list_all (\<lambda>d. debt_equivalent d = debt_equivalent (hd preflight)) preflight
               then (Inl (Geo E010), None)
               else (case xe_lock_error env of Some x \<Rightarrow> (Inl x, None)
                 | None \<Rightarrow> inner (Some (debt_equivalent (hd preflight))))))"

section \<open>The automatic loop\<close>

text \<open>
  \<open>try_cycles\<close> runs the candidates until one succeeds; \<open>auto_clear_from\<close> is the outer loop, which
  the count bounds: it stops once more than 100 cycles are cleared. The environment gives the
  conditions of the \<open>j\<close>-th candidate of the \<open>i\<close>-th round.
\<close>

fun try_cycles ::
    "(uuid list \<Rightarrow> string) \<Rightarrow> bool \<Rightarrow> (nat \<Rightarrow> clearing_env) \<Rightarrow> nat \<Rightarrow> cycle_edge list list \<Rightarrow> db \<Rightarrow> exc + (bool \<times> db)" where
  "try_cycles uuid5 is_postgres env j [] db = Inr (False, db)"
| "try_cycles uuid5 is_postgres env j (c # cs) db =
     (case execute_clearing_with_amount uuid5 is_postgres None c (env j) db of
        (Inl x, w) \<Rightarrow> Inl x
      | (Inr None, w) \<Rightarrow> try_cycles uuid5 is_postgres env (Suc j) cs (case w of None \<Rightarrow> db | Some db' \<Rightarrow> db')
      | (Inr (Some a), w) \<Rightarrow> Inr (True, case w of None \<Rightarrow> db | Some db' \<Rightarrow> db'))"

fun auto_clear_from ::
    "(uuid list \<Rightarrow> string) \<Rightarrow> bool \<Rightarrow> bool \<Rightarrow> (nat \<Rightarrow> nat \<Rightarrow> clearing_env) \<Rightarrow> string \<Rightarrow> nat
      \<Rightarrow> nat \<Rightarrow> nat \<Rightarrow> db \<Rightarrow> exc + (nat \<times> db)" where
  "auto_clear_from uuid5 is_sqlite use_sql env code max_depth 0 cleared db = Inr (cleared, db)"
| "auto_clear_from uuid5 is_sqlite use_sql env code max_depth (Suc left) cleared db =
     (case find_cycles is_sqlite use_sql code max_depth None db of
        Inl x \<Rightarrow> (if is_geo_exception x \<and> exc_code x \<noteq> E010 then Inl x else Inl (Geo E010))
      | Inr cycles \<Rightarrow>
          if cycles = [] then Inr (cleared, db)
          else (case try_cycles uuid5 (\<not> is_sqlite) (env cleared) 0 cycles db of
              Inl x \<Rightarrow> (if is_geo_exception x \<and> exc_code x \<noteq> E010 then Inl x else Inl (Geo E010))
            | Inr (executed, db') \<Rightarrow>
                if executed then auto_clear_from uuid5 is_sqlite use_sql env code max_depth left (Suc cleared) db'
                else Inr (cleared, db')))"

definition auto_clear ::
    "(uuid list \<Rightarrow> string) \<Rightarrow> bool \<Rightarrow> bool \<Rightarrow> (nat \<Rightarrow> nat \<Rightarrow> clearing_env) \<Rightarrow> string \<Rightarrow> nat \<Rightarrow> db
      \<Rightarrow> exc + (nat \<times> db)" where
  "auto_clear uuid5 is_sqlite use_sql env code max_depth db =
     auto_clear_from uuid5 is_sqlite use_sql env code max_depth 101 0 db"

end
