(* ===== verification/Clearing_Effect.thy ===== *)
theory Clearing_Effect
  imports Clearing Two_Phase_Commit
begin

text \<open>
  What the execution of a set of debts does to the ledger: every debt of the set shrinks by the
  cleared amount, the neutrality check passes exactly when the set is balanced at every
  participant, and pairs reserved by prepared payments are not touched.
\<close>

section \<open>Reducing the debts of a set\<close>

definition clear_delta :: "amount \<Rightarrow> uuid \<Rightarrow> uuid \<Rightarrow> debt \<Rightarrow> amount" where
  "clear_delta v p e d = (if debt_equivalent d = e
     then (if p = debtor_id d then v else 0) - (if p = creditor_id d then v else 0) else 0)"

definition cleared_pair :: "debt list \<Rightarrow> uuid \<Rightarrow> uuid \<Rightarrow> uuid \<Rightarrow> bool" where
  "cleared_pair ds x y e \<longleftrightarrow> (x, y, e) \<in> debt_key ` set ds"

definition cleared :: "amount \<Rightarrow> debt list \<Rightarrow> db \<Rightarrow> db \<Rightarrow> bool" where
  "cleared v ds db db' \<longleftrightarrow> debts_wf db' \<and> debts_only db db'
     \<and> (\<forall>x y e. owes db' x y e = owes db x y e - (if cleared_pair ds x y e then v else 0))
     \<and> (\<forall>p e. calculate_net_position p e db' = calculate_net_position p e db + sum_list (map (clear_delta v p e) ds))
     \<and> set (map debt_id (debts db')) = set (map debt_id (debts db)) - {debt_id d |d. d \<in> set ds \<and> debt_amount d = v}"

lemma wf_row: "debts_wf db \<Longrightarrow> d \<in> set (debts db) \<Longrightarrow> get_debt (debtor_id d) (creditor_id d) (debt_equivalent d) db = Some d"
  by (simp add: get_debt_iff debt_key_def)

lemma clear_debt_step:
  assumes wf: "debts_wf db" and d: "d \<in> set (debts db)" and v: "v \<le> debt_amount d" "0 \<le> v" "on_grid v"
  shows "\<exists>db'. clear_debt v d db = Inr db' \<and> cleared v [d] db db'
    \<and> (\<forall>r \<in> set (debts db). debt_id r \<noteq> debt_id d \<longrightarrow> r \<in> set (debts db'))"
proof -
  let ?db' = "settled d (debt_amount d - v) db"
  note row = wf_row [OF wf d] and col = debts_wfD(4) [OF wf d]
  have "on_grid (debt_amount d - v)" using v(3) column_valueD(1) [OF col] by blast
  then have left: "column_value (debt_amount d - v)" "0 \<le> debt_amount d - v"
    using column_value_between [OF _ _ _ col, of "debt_amount d - v"] v(1,2) by auto
  have "sets_debt (debtor_id d) (creditor_id d) (debt_equivalent d) (debt_amount d - v) db ?db'"
    by (rule sets_debt_settled [OF wf row left(2,1)])
  then have "cleared v [d] db ?db'"
  proof -
    assume st: "sets_debt (debtor_id d) (creditor_id d) (debt_equivalent d) (debt_amount d - v) db ?db'"
    have am: "owes db (debtor_id d) (creditor_id d) (debt_equivalent d) = debt_amount d" by (rule owes_row [OF wf d])
    have ids: "set (map debt_id (debts ?db')) = set (map debt_id (debts db)) - {debt_id x |x. x \<in> set [d] \<and> debt_amount x = v}"
    proof (cases "debt_amount d = v")
      case True
      then show ?thesis by (auto simp: ledger_simps)
    next
      case False
      then have "map debt_id (debts ?db') = map debt_id (debts db)" by (simp add: ledger_simps map_upd_row)
      then show ?thesis using False by simp
    qed
    show ?thesis
      using st am ids unfolding cleared_def sets_debt_def
      by (auto simp: cleared_pair_def debt_key_def clear_delta_def)
  qed
  moreover have "\<forall>r \<in> set (debts db). debt_id r \<noteq> debt_id d \<longrightarrow> r \<in> set (debts ?db')"
    by (auto simp: set_settled image_iff)
  ultimately show ?thesis using v(1) by (simp add: clear_debt_def settle_debt_exact [OF left])
qed

lemma clear_fold:
  assumes "debts_wf db" and "set ds \<subseteq> set (debts db)" and "distinct (map debt_id ds)"
    and "\<forall>d \<in> set ds. v \<le> debt_amount d" and v: "0 \<le> v" "on_grid v"
  shows "\<exists>db'. fold_res (clear_debt v) ds db = Inr db' \<and> cleared v ds db db'"
  using assms(1-4)
proof (induction ds arbitrary: db)
  case Nil
  then show ?case by (auto simp: cleared_def cleared_pair_def)
next
  case (Cons d ds)
  obtain db1 where db1: "clear_debt v d db = Inr db1" "cleared v [d] db db1"
    and keep: "\<forall>r \<in> set (debts db). debt_id r \<noteq> debt_id d \<longrightarrow> r \<in> set (debts db1)"
    using clear_debt_step [OF Cons.prems(1) _ _ v] Cons.prems by (metis list.set_intros(1) subsetD)
  have wf1: "debts_wf db1" using db1(2) by (simp add: cleared_def)
  have "debt_id r \<noteq> debt_id d" if "r \<in> set ds" for r using Cons.prems(3) that by (auto simp: rev_image_eqI)
  then have "set ds \<subseteq> set (debts db1)" using keep Cons.prems(2) by auto
  then obtain db2 where db2: "fold_res (clear_debt v) ds db1 = Inr db2" "cleared v ds db1 db2"
    using Cons.IH [OF wf1] Cons.prems(3,4) by auto
  have key: "debt_key d \<notin> debt_key ` set ds"
  proof
    assume "debt_key d \<in> debt_key ` set ds"
    then obtain r where "r \<in> set ds" "debt_key r = debt_key d" by auto
    moreover have "distinct (map debt_key (debts db))" using Cons.prems(1) by (simp add: debts_wf_def)
    ultimately have "r = d" using Cons.prems(2) by (auto dest: distinct_map_unique)
    then show False using \<open>r \<in> set ds\<close> Cons.prems(3) by auto
  qed
  have "cleared v (d # ds) db db2"
    unfolding cleared_def
  proof (intro conjI allI)
    show "debts_wf db2" using db2(2) by (simp add: cleared_def)
    show "debts_only db db2" using db1(2) db2(2) by (auto simp: cleared_def intro: debts_only_trans)
    show "owes db2 x y e = owes db x y e - (if cleared_pair (d # ds) x y e then v else 0)" for x y e
      using db1(2) db2(2) key by (auto simp: cleared_def cleared_pair_def)
    show "calculate_net_position p e db2 = calculate_net_position p e db + sum_list (map (clear_delta v p e) (d # ds))" for p e
      using db1(2) db2(2) by (simp add: cleared_def)
    show "set (map debt_id (debts db2)) = set (map debt_id (debts db))
        - {debt_id x |x. x \<in> set (d # ds) \<and> debt_amount x = v}"
      using db1(2) db2(2) by (auto simp: cleared_def)
  qed
  then show ?case using db1(1) db2(1) by simp
qed

section \<open>Neutrality\<close>

definition balanced :: "debt list \<Rightarrow> bool" where
  "balanced ds \<longleftrightarrow> (\<forall>p \<in> set (cycle_participants ds).
     length (filter (\<lambda>d. debtor_id d = p) ds) = length (filter (\<lambda>d. creditor_id d = p) ds))"

lemma clear_delta_sum:
  assumes "\<forall>d \<in> set ds. debt_equivalent d = e"
  shows "sum_list (map (clear_delta v p e) ds)
    = v * (rat_of_nat (length (filter (\<lambda>d. debtor_id d = p) ds)) - rat_of_nat (length (filter (\<lambda>d. creditor_id d = p) ds)))"
  using assms by (induction ds) (auto simp: clear_delta_def algebra_simps)

lemma clear_delta_sum_other:
  assumes "\<forall>d \<in> set ds. debt_equivalent d = e" and "e' \<noteq> e"
  shows "sum_list (map (clear_delta v p e') ds) = 0"
  using assms by (induction ds) (auto simp: clear_delta_def)

lemma clear_delta_sum_absent:
  assumes "p \<notin> set (cycle_participants ds)"
  shows "sum_list (map (clear_delta v p e) ds) = 0"
proof -
  have "\<forall>d \<in> set ds. debtor_id d \<noteq> p \<and> creditor_id d \<noteq> p"
    using assms by (auto simp: cycle_participants_def)
  then show ?thesis by (induction ds) (auto simp: clear_delta_def)
qed

lemma map_of_map_pair: "p \<in> set ps \<Longrightarrow> map_of (map (\<lambda>p. (p, f p)) ps) p = Some (f p)"
  by (induction ps) auto

lemma neutrality_iff:
  assumes cl: "cleared v ds db db1" and v: "0 < v" and e: "\<forall>d \<in> set ds. debt_equivalent d = e"
  shows "verify_clearing_neutrality (cycle_participants ds) e
      (map (\<lambda>p. (p, calculate_net_position p e db)) (cycle_participants ds)) db1 = Inr True \<longleftrightarrow> balanced ds"
proof -
  have "calculate_net_position p e db = calculate_net_position p e db1 \<longleftrightarrow>
      length (filter (\<lambda>d. debtor_id d = p) ds) = length (filter (\<lambda>d. creditor_id d = p) ds)" for p
    using cl clear_delta_sum [OF e, of v p] v by (auto simp: cleared_def)
  then show ?thesis
    by (simp add: verify_clearing_neutrality_def balanced_def filter_empty_conv map_of_map_pair)
qed

lemma neutral_everywhere:
  assumes cl: "cleared v ds db db1" and v: "0 < v" and e: "\<forall>d \<in> set ds. debt_equivalent d = e" and b: "balanced ds"
  shows "calculate_net_position p e' db1 = calculate_net_position p e' db"
proof (cases "e' = e \<and> p \<in> set (cycle_participants ds)")
  case True
  then show ?thesis using cl clear_delta_sum [OF e, of v p] b by (simp add: cleared_def balanced_def)
next
  case False
  then have "sum_list (map (clear_delta v p e') ds) = 0"
    using clear_delta_sum_other [OF e] clear_delta_sum_absent by blast
  then show ?thesis using cl by (simp add: cleared_def)
qed

section \<open>Pairs reserved by prepared payments\<close>

lemma map_filter_locked:
  assumes "list_all2 (\<lambda>x y. parse_flow x = Inr y) raws fs"
  shows "set (List.map_filter (locked_flow_pair e) raws)
    = {unordered (fl_from f) (fl_to f) |f. f \<in> set fs \<and> fl_equivalent f = e}"
  using assms
proof (induction rule: list_all2_induct)
  case (Cons x xs y ys)
  have "locked_flow_pair e x = (if fl_equivalent y = e then Some (unordered (fl_from y) (fl_to y)) else None)"
    using Cons.hyps(1)
    by (auto simp: parse_flow_def locked_flow_pair_def split: raw_flow.splits option.splits pydec.splits if_splits)
  then show ?case using Cons.IH by (auto simp: List.map_filter_simps)
qed (simp add: List.map_filter_simps)

lemma locked_pairs_fold:
  assumes "list_all lock_wf ls"
  shows "\<exists>ps. fold_res (\<lambda>l acc. case iter_flows l of Inl x \<Rightarrow> Inl x
      | Inr fs \<Rightarrow> Inr (acc @ List.map_filter (locked_flow_pair e) fs)) ls acc = Inr ps
    \<and> set ps = set acc \<union> {unordered (fl_from f) (fl_to f) |f l. l \<in> set ls \<and> f \<in> set (flows_of_lock l) \<and> fl_equivalent f = e}"
  using assms
proof (induction ls arbitrary: acc)
  case (Cons l ls)
  obtain raws where raws: "lock_effects l = Flows raws" "list_all2 (\<lambda>x y. parse_flow x = Inr y) raws (flows_of_lock l)"
    using Cons.prems lock_wf_parse(3) [of l] by auto
  let ?acc = "acc @ List.map_filter (locked_flow_pair e) raws"
  obtain ps where "fold_res (\<lambda>l acc. case iter_flows l of Inl x \<Rightarrow> Inl x
      | Inr fs \<Rightarrow> Inr (acc @ List.map_filter (locked_flow_pair e) fs)) ls ?acc = Inr ps"
    "set ps = set ?acc \<union> {unordered (fl_from f) (fl_to f) |f l. l \<in> set ls \<and> f \<in> set (flows_of_lock l) \<and> fl_equivalent f = e}"
    using Cons.IH [of ?acc] Cons.prems by auto
  then show ?case using raws map_filter_locked [OF raws(2), of e] by (auto simp: iter_flows_def)
qed simp

lemma seg_sum_zero:
  "(\<And>f. f \<in> set fs \<Longrightarrow> fl_from f = s \<Longrightarrow> fl_to f = r \<Longrightarrow> fl_equivalent f = e \<Longrightarrow> False) \<Longrightarrow> seg_sum s r e fs = 0"
  unfolding seg_sum_def by (rule sql_sum_none) auto

lemma locked_pairs_reserved:
  assumes wf: "locks_wf db"
  obtains ps where "locked_pairs_for_equivalent e db = Inr ps"
    and "\<And>s r. unordered s r \<notin> set ps \<Longrightarrow> reserved db s r e = 0"
proof -
  have wfl: "list_all lock_wf (live_locks db)" using wf by (auto simp: locks_wf_def live_locks_def list_all_iff)
  obtain ps where ps: "locked_pairs_for_equivalent e db = Inr ps"
    "set ps = {unordered (fl_from f) (fl_to f) |f l. l \<in> set (live_locks db) \<and> f \<in> set (flows_of_lock l) \<and> fl_equivalent f = e}"
    using locked_pairs_fold [OF wfl, of e "[]"] by (auto simp: locked_pairs_for_equivalent_def live_locks_def)
  have "reserved db s r e = 0" if "unordered s r \<notin> set ps" for s r
  proof -
    have "seg_sum s r e (flows_of_lock l) = 0" if "l \<in> set (live_locks db)" for l
      by (rule seg_sum_zero) (use ps(2) \<open>unordered s r \<notin> set ps\<close> that in blast)
    then have "map (\<lambda>l. seg_sum s r e (flows_of_lock l)) (live_locks db) = map (\<lambda>_. 0) (live_locks db)" by simp
    then show ?thesis by (simp only: reserved_def sum_list_0)
  qed
  then show ?thesis using that ps(1) by blast
qed

lemma unordered_commute: "unordered x y = unordered y x"
  by (auto simp: unordered_def min_def max_def)

section \<open>What an execution leaves\<close>

definition symmetric_ledger :: "db \<Rightarrow> bool" where
  "symmetric_ledger db \<longleftrightarrow> (\<forall>x y e. symmetric_pair x y e db)"

definition hub_inv :: "db \<Rightarrow> bool" where
  "hub_inv db \<longleftrightarrow> engine_inv db \<and> symmetric_ledger db"

lemma least_props:
  assumes "ds \<noteq> []"
  shows "\<forall>d \<in> set ds. least ds \<le> debt_amount d" and "\<exists>d \<in> set ds. debt_amount d = least ds"
proof -
  have "Min (debt_amount ` set ds) \<in> debt_amount ` set ds" using assms by (intro Min_in) auto
  then show "\<exists>d \<in> set ds. debt_amount d = least ds" by (auto simp: least_def)
qed (simp add: least_def)

lemma inner_Some:
  assumes "execute_clearing_with_amount_inner uuid5 il aids apids cycle env db = (r, Some db')"
  obtains ids ds where "those (map ed_debt cycle) = Some ids" and "ids \<noteq> []"
    and "ds = filter (\<lambda>d. debt_id d \<in> set ids) (debts db)" and "length ds = length ids"
    and "clearing_guards il aids ds db = None"
    and "apply_clearing None (execution_tx_id uuid5 ids) ids ds (least ds) db = Inr db'"
    and "(r, Some db') = finish_clearing apids (execution_tx_id uuid5 ids) (least ds) env db'"
proof -
  obtain ids where ids: "those (map ed_debt cycle) = Some ids" "cycle \<noteq> []"
    and lck: "execute_locked apids il aids (execution_tx_id uuid5 ids) ids env db = (r, Some db')"
    using assms by (auto simp: execute_clearing_with_amount_inner_def Let_def split: if_splits option.splits sum.splits)
  have ne: "ids \<noteq> []" using ids by (cases cycle) (auto split: option.splits)
  define ds where "ds = filter (\<lambda>d. debt_id d \<in> set ids) (debts db)"
  have len: "length ds = length ids" and g: "clearing_guards il aids ds db = None"
    using lck by (auto simp: execute_locked_def ds_def [symmetric] Let_def split: if_splits option.splits sum.splits)
  obtain db1 where app: "apply_clearing (xe_flush_error env) (execution_tx_id uuid5 ids) ids ds (least ds) db = Inr db1"
    and fin: "finish_clearing apids (execution_tx_id uuid5 ids) (least ds) env db1 = (r, Some db')"
    using lck len g by (auto simp: execute_locked_def ds_def [symmetric] Let_def split: sum.splits)
  have "xe_flush_error env = None"
    using app by (auto simp: apply_clearing_def Let_def split: sum.splits option.splits)
  moreover have "db' = db1" using fin by (auto simp: finish_clearing_def split: commit_outcome.splits if_splits)
  ultimately show ?thesis using that [OF ids(1) ne ds_def len g] app fin by simp
qed

lemma least_grid:
  assumes "debts_wf db" and "set ds \<subseteq> set (debts db)" and "ds \<noteq> []"
  shows "0 \<le> least ds" and "on_grid (least ds)"
proof -
  obtain d where "d \<in> set ds" "debt_amount d = least ds" using least_props(2) [OF assms(3)] by blast
  then show "0 \<le> least ds" and "on_grid (least ds)"
    using debts_wfD(1,4) [OF assms(1), of d] column_valueD(1) assms(2) by auto
qed

lemma apply_clearing_Inr:
  assumes wf: "debts_wf db" and ds: "set ds \<subseteq> set (debts db)" "distinct (map debt_id ds)" "ds \<noteq> []"
    and app: "apply_clearing None tx ids ds (least ds) db = Inr db'"
  obtains db1 where "cleared (least ds) ds db db1"
    and "db' = db1\<lparr>transactions := transactions db1 @ [clearing_tx tx ids ds (least ds) db],
                    audit_log := audit_log db1 @ [audit_clearing tx ds db db1]\<rparr>"
    and "get_tx tx db = None"
    and "verify_clearing_neutrality (cycle_participants ds) (debt_equivalent (hd ds))
      (map (\<lambda>p. (p, calculate_net_position p (debt_equivalent (hd ds)) db)) (cycle_participants ds)) db1 = Inr True"
proof -
  obtain db1 where db1: "fold_res (clear_debt (least ds)) ds db = Inr db1" "cleared (least ds) ds db db1"
    using clear_fold [OF wf ds(1,2) least_props(1) [OF ds(3)] least_grid [OF wf ds(1,3)]] by blast
  show ?thesis
    using app db1 that
    by (auto simp: apply_clearing_def Let_def verify_clearing_neutrality_def split: if_splits)
qed

lemma distinct_filter_ids: "debts_wf db \<Longrightarrow> distinct (map debt_id (filter P (debts db)))"
  by (simp add: debts_wf_def distinct_map_filter)

lemma guards_None:
  assumes "clearing_guards il aids ds db = None"
  shows "0 < least ds" and "cycle_respects_auto_clearing ds db"
    and "\<forall>e. il = Some e \<longrightarrow> (\<forall>d \<in> set ds. debt_equivalent d = e)"
    and "\<exists>locked. locked_pairs_for_equivalent (debt_equivalent (hd ds)) db = Inr locked
      \<and> (\<forall>d \<in> set ds. unordered (debtor_id d) (creditor_id d) \<notin> set locked)"
  using assms by (auto simp: clearing_guards_def list_ex_iff split: if_splits option.splits sum.splits)

text \<open>
  The summary of one execution that left a database behind, when its debts share an equivalent.
\<close>

definition executed :: "uuid \<Rightarrow> debt list \<Rightarrow> db \<Rightarrow> db \<Rightarrow> bool" where
  "executed e ds db db' \<longleftrightarrow> ds \<noteq> [] \<and> set ds \<subseteq> set (debts db) \<and> (\<forall>d \<in> set ds. debt_equivalent d = e)
     \<and> 0 < least ds \<and> balanced ds
     \<and> (\<exists>db1 t a. cleared (least ds) ds db db1 \<and> db' = db1\<lparr>transactions := transactions db1 @ [t], audit_log := a\<rparr>
          \<and> tx_state t = COMMITTED)
     \<and> (\<exists>locked. locked_pairs_for_equivalent e db = Inr locked
          \<and> (\<forall>d \<in> set ds. unordered (debtor_id d) (creditor_id d) \<notin> set locked))"

lemma inner_executed:
  assumes wf: "debts_wf db"
    and run: "execute_clearing_with_amount_inner uuid5 il aids apids cycle env db = (r, Some db')"
    and same: "\<And>ids. those (map ed_debt cycle) = Some ids \<Longrightarrow>
      \<forall>d \<in> set (debts db). debt_id d \<in> set ids \<longrightarrow> (case il of Some e' \<Rightarrow> e' = e | None \<Rightarrow> debt_equivalent d = e)"
  shows "\<exists>ids. those (map ed_debt cycle) = Some ids
    \<and> executed e (filter (\<lambda>d. debt_id d \<in> set ids) (debts db)) db db'"
  using run
proof (cases rule: inner_Some)
  case (1 ids ds)
  have ne: "ds \<noteq> []" using 1(2,4) by auto
  have sub: "set ds \<subseteq> set (debts db)" and dist: "distinct (map debt_id ds)"
    using 1(3) distinct_filter_ids [OF wf] by auto
  have eqs: "\<forall>d \<in> set ds. debt_equivalent d = e"
    using same [OF 1(1)] 1(3) guards_None(3) [OF 1(5)] by (cases il) auto
  obtain db1 where db1: "cleared (least ds) ds db db1"
      "db' = db1\<lparr>transactions := transactions db1 @ [clearing_tx (execution_tx_id uuid5 ids) ids ds (least ds) db],
             audit_log := audit_log db1 @ [audit_clearing (execution_tx_id uuid5 ids) ds db db1]\<rparr>"
    and ver: "verify_clearing_neutrality (cycle_participants ds) (debt_equivalent (hd ds))
      (map (\<lambda>p. (p, calculate_net_position p (debt_equivalent (hd ds)) db)) (cycle_participants ds)) db1 = Inr True"
    by (rule apply_clearing_Inr [OF wf sub dist ne 1(6)]) (rule that)
  have hd: "debt_equivalent (hd ds) = e" using eqs ne by simp
  have "balanced ds"
    using neutrality_iff [OF db1(1) guards_None(1) [OF 1(5)] eqs] ver by (simp add: hd)
  moreover have "tx_state (clearing_tx (execution_tx_id uuid5 ids) ids ds (least ds) db) = COMMITTED"
    by (simp add: clearing_tx_def)
  ultimately have "executed e ds db db'"
    unfolding executed_def
    using ne sub eqs guards_None(1) [OF 1(5)] guards_None(4) [OF 1(5), unfolded hd] db1 by blast
  then show ?thesis using 1(1,3) by blast
qed

lemma executed_frame:
  assumes "executed e ds db db'"
  shows "debts_wf db'" and "trust_lines db' = trust_lines db" and "prepare_locks db' = prepare_locks db"
    and "db_now db' = db_now db" and "next_uuid db \<le> next_uuid db'" and "participants db' = participants db"
    and "equivalents db' = equivalents db"
    and "owes db' x y e' = owes db x y e' - (if cleared_pair ds x y e' then least ds else 0)"
    and "calculate_net_position p e' db' = calculate_net_position p e' db"
    and "set (map debt_id (debts db')) = set (map debt_id (debts db)) - {debt_id d |d. d \<in> set ds \<and> debt_amount d = least ds}"
    and "get_tx tx db = Some t \<Longrightarrow> get_tx tx db' = Some t"
proof -
  obtain db1 u a where cl: "cleared (least ds) ds db db1"
    and db': "db' = db1\<lparr>transactions := transactions db1 @ [u], audit_log := a\<rparr>"
    using assms by (auto simp: executed_def)
  have only: "debts_only db db1" and wf1: "debts_wf db1" using cl by (auto simp: cleared_def)
  have net: "calculate_net_position p e' db1 = calculate_net_position p e' db"
    by (rule neutral_everywhere [OF cl]) (use assms in \<open>auto simp: executed_def\<close>)
  show "debts_wf db'" using wf1 by (simp add: debts_wf_def db')
  show "trust_lines db' = trust_lines db" "prepare_locks db' = prepare_locks db" "db_now db' = db_now db"
    "next_uuid db \<le> next_uuid db'" "participants db' = participants db" "equivalents db' = equivalents db"
    using debts_onlyD [OF only] by (simp_all add: db')
  show "owes db' x y e' = owes db x y e' - (if cleared_pair ds x y e' then least ds else 0)"
    using cl by (simp add: db' cleared_def owes_def get_debt_def)
  show "calculate_net_position p e' db' = calculate_net_position p e' db"
    using net by (simp add: db' calculate_net_position_def credit_total_def debt_total_def)
  show "set (map debt_id (debts db')) = set (map debt_id (debts db)) - {debt_id d |d. d \<in> set ds \<and> debt_amount d = least ds}"
    using cl by (simp add: db' cleared_def)
  show "get_tx tx db = Some t \<Longrightarrow> get_tx tx db' = Some t"
    using debts_onlyD(4) [OF only] by (simp add: db' get_tx_def find_append)
qed

lemma cleared_pair_owes:
  assumes "executed e ds db db'" and "debts_wf db" and "cleared_pair ds x y e'"
  shows "e' = e" and "least ds \<le> owes db x y e'" and "0 < owes db x y e'"
    and "\<exists>locked. locked_pairs_for_equivalent e db = Inr locked \<and> unordered x y \<notin> set locked"
proof -
  obtain d where d: "d \<in> set ds" "debt_key d = (x, y, e')" using assms(3) by (auto simp: cleared_pair_def)
  then have "d \<in> set (debts db)" "ds \<noteq> []" "debt_equivalent d = e" "0 < least ds" using assms(1) by (auto simp: executed_def)
  then show "e' = e" "least ds \<le> owes db x y e'" "0 < owes db x y e'"
    using d owes_row [OF assms(2), of d] least_props(1) [of ds] by (force simp: debt_key_def)+
  show "\<exists>locked. locked_pairs_for_equivalent e db = Inr locked \<and> unordered x y \<notin> set locked"
    using assms(1) d by (auto simp: executed_def debt_key_def)
qed

lemma executed_inv:
  assumes ex: "executed e ds db db'" and inv: "hub_inv db"
  shows "hub_inv db'"
proof -
  have eng: "engine_inv db" and sym: "symmetric_ledger db" using inv by (auto simp: hub_inv_def)
  note wf = engine_invD(1) [OF eng] and fr = executed_frame [OF ex]
  have owes_le: "owes db' x y e' \<le> owes db x y e'" for x y e'
    using fr(8) [of x y e'] ex by (auto simp: executed_def)
  have "symmetric_ledger db'"
    using sym owes_le unfolding symmetric_ledger_def symmetric_pair_def by (meson order_less_le_trans)
  moreover have "reservations_ok db'"
    unfolding reservations_ok_def
  proof (intro allI)
    fix s r e'
    have res: "reserved db' s r e' = reserved db s r e'" by (simp add: reserved_def live_locks_def fr)
    have lim: "active_limit x y e' db' = active_limit x y e' db" for x y
      by (simp add: active_limit_def get_active_line_def fr)
    have old: "reserved db s r e' \<le> segment_capacity s r e' db"
      using engine_invD(5) [OF eng] by (simp add: reservations_ok_def)
    show "reserved db' s r e' \<le> segment_capacity s r e' db'"
    proof (cases "cleared_pair ds r s e'")
      case False
      then show ?thesis
        using old owes_le [of s r e'] fr(8) [of r s e'] by (simp add: res segment_capacity_def lim)
    next
      case True
      note cp = cleared_pair_owes [OF ex wf True]
      obtain locked where lk: "locked_pairs_for_equivalent e db = Inr locked" "unordered s r \<notin> set locked"
        using cp(4) unordered_commute by metis
      have "reserved db s r e' = 0"
        using locked_pairs_reserved [OF engine_invD(4) [OF eng], of e] lk cp(1) by (metis sum.inject(2))
      moreover have "owes db s r e' = 0"
        using sym cp(3) owes_nonneg [OF wf, of s r e'] by (force simp: symmetric_ledger_def symmetric_pair_def)
      moreover have "0 \<le> owes db' r s e'" using owes_nonneg [OF fr(1)] .
      moreover have "0 \<le> active_limit r s e' db" by (rule active_limit_nonneg [OF engine_invD(2) [OF eng]])
      ultimately show ?thesis using owes_le [of s r e'] by (simp add: res segment_capacity_def lim)
    qed
  qed
  moreover have "locks_wf db'" using engine_invD(4) [OF eng] fr(3,5) by (auto simp: locks_wf_def list_all_iff)
  moreover have "trust_lines_wf db'" using engine_invD(2) [OF eng] fr(2,5) by (auto simp: trust_lines_wf_def)
  moreover have "no_self_lines db'" using engine_invD(3) [OF eng] fr(2) by (simp add: no_self_lines_def)
  ultimately show ?thesis using fr(1) by (simp add: hub_inv_def engine_inv_def)
qed

end
