(* ===== verification/Cycle_Detection.thy ===== *)
theory Cycle_Detection
  imports Clearing_Effect
begin

text \<open>
  Soundness of the cycle search: every candidate it returns, from the SQL joins or from the
  depth-first search, is a simple closed cycle of current debts with consent on every edge and no
  pair reserved by a prepared payment.
\<close>

section \<open>Closed cycles\<close>

definition closed_cycle :: "debt list \<Rightarrow> bool" where
  "closed_cycle ds \<longleftrightarrow> ds \<noteq> [] \<and> map creditor_id ds = rotate1 (map debtor_id ds)"

lemma filter_length_mset: "length (filter (\<lambda>d. f d = p) ds) = count (mset (map f ds)) p"
  by (induction ds) auto

lemma balanced_mset: "mset ds = mset ds' \<Longrightarrow> balanced ds = balanced ds'"
proof -
  assume eq: "mset ds = mset ds'"
  then have "set ds = set ds'" by (metis set_mset_mset)
  then have "set (cycle_participants ds) = set (cycle_participants ds')" by (simp add: cycle_participants_def)
  moreover have "mset (map debtor_id ds) = mset (map debtor_id ds')" "mset (map creditor_id ds) = mset (map creditor_id ds')"
    using eq by simp_all
  ultimately show ?thesis by (simp add: balanced_def filter_length_mset)
qed

lemma closed_cycle_balanced:
  assumes "closed_cycle ds"
  shows "balanced ds"
proof -
  have "mset (map creditor_id ds) = mset (map debtor_id ds)"
    using assms by (simp add: closed_cycle_def del: mset_map) (cases ds, simp_all)
  then show ?thesis by (simp add: balanced_def filter_length_mset)
qed

text \<open>What a candidate of an equivalent has to be.\<close>

definition good_cycle :: "uuid \<Rightarrow> uuid list option \<Rightarrow> (uuid \<times> uuid) list \<Rightarrow> db \<Rightarrow> debt list \<Rightarrow> bool" where
  "good_cycle e scope locked db ds \<longleftrightarrow> closed_cycle ds \<and> distinct (map debtor_id ds) \<and> set ds \<subseteq> set (debts db)
     \<and> (\<forall>d \<in> set ds. debt_equivalent d = e \<and> 0 < debt_amount d \<and> in_scope scope (debtor_id d)
          \<and> unordered (debtor_id d) (creditor_id d) \<notin> set locked)"

section \<open>The depth-first search\<close>

definition path_ok :: "debt list \<Rightarrow> uuid \<Rightarrow> uuid \<Rightarrow> debt list \<Rightarrow> uuid list \<Rightarrow> bool" where
  "path_ok ds start cur path visited \<longleftrightarrow> set path \<subseteq> set ds
     \<and> map debtor_id path @ [cur] = start # map creditor_id path
     \<and> distinct (map debtor_id path @ [cur]) \<and> set visited = set (map debtor_id path @ [cur])"

lemma path_ok_extend:
  assumes "path_ok ds start cur path visited" and "ed \<in> set ds" and "debtor_id ed = cur"
    and "creditor_id ed \<notin> set visited"
  shows "path_ok ds start (creditor_id ed) (path @ [ed]) (creditor_id ed # visited)"
proof -
  from assms(1) [unfolded path_ok_def]
  have p: "set path \<subseteq> set ds" "map debtor_id path @ [cur] = start # map creditor_id path"
    "distinct (map debtor_id path @ [cur])" "set visited = set (map debtor_id path @ [cur])" by blast+
  have eq: "map debtor_id (path @ [ed]) @ [creditor_id ed] = (map debtor_id path @ [cur]) @ [creditor_id ed]"
    using assms(3) by simp
  have "map debtor_id (path @ [ed]) @ [creditor_id ed] = start # map creditor_id (path @ [ed])"
    unfolding eq p(2) by simp
  moreover have "distinct (map debtor_id (path @ [ed]) @ [creditor_id ed])"
    unfolding eq using p(3,4) assms(4) by simp
  moreover have "set (creditor_id ed # visited) = set (map debtor_id (path @ [ed]) @ [creditor_id ed])"
    unfolding eq using p(4) by auto
  ultimately show ?thesis using p(1) assms(2) unfolding path_ok_def by simp
qed

lemma path_ok_close:
  assumes "path_ok ds start cur path visited" and "ed \<in> set ds" and "debtor_id ed = cur" and "creditor_id ed = start"
  shows "closed_cycle (path @ [ed])" and "distinct (map debtor_id (path @ [ed]))" and "set (path @ [ed]) \<subseteq> set ds"
proof -
  from assms(1) [unfolded path_ok_def]
  have p: "set path \<subseteq> set ds" "map debtor_id path @ [cur] = start # map creditor_id path"
    "distinct (map debtor_id path @ [cur])" by blast+
  have eq: "map debtor_id (path @ [ed]) = start # map creditor_id path" using p(2) assms(3) by simp
  show "closed_cycle (path @ [ed])" unfolding closed_cycle_def eq using assms(4) by simp
  show "distinct (map debtor_id (path @ [ed]))" using p(3) assms(3) by simp
  show "set (path @ [ed]) \<subseteq> set ds" using p(1) assms(2) by simp
qed

lemma dfs_edges_sound:
  assumes "c \<in> set (dfs_edges ds k start path visited es)" and "path_ok ds start cur path visited"
    and "set es \<subseteq> set (adjacency ds cur)"
  shows "closed_cycle c \<and> distinct (map debtor_id c) \<and> set c \<subseteq> set ds \<and> length c \<le> length path + k + 1"
  using assms
proof (induction ds k start path visited es arbitrary: cur rule: dfs_edges.induct)
  case (2 ds start path visited ed es)
  have ed: "ed \<in> set ds" "debtor_id ed = cur" using "2.prems"(3) by (auto simp: adjacency_def)
  show ?case
  proof (cases "creditor_id ed = start")
    case True
    then show ?thesis using "2.prems" path_ok_close [OF "2.prems"(2) ed True] by auto
  next
    case False
    then show ?thesis using "2.IH" [OF False _ "2.prems"(2)] "2.prems" by auto
  qed
next
  case (3 ds k start path visited ed es)
  have ed: "ed \<in> set ds" "debtor_id ed = cur" using "3.prems"(3) by (auto simp: adjacency_def)
  show ?case
  proof (cases "creditor_id ed = start")
    case True
    then show ?thesis using "3.prems" path_ok_close [OF "3.prems"(2) ed True] by auto
  next
    case False
    then consider "c \<in> set (dfs_edges ds (Suc k) start path visited es)"
      | "creditor_id ed \<notin> set visited"
        "c \<in> set (dfs_edges ds k start (path @ [ed]) (creditor_id ed # visited) (adjacency ds (creditor_id ed)))"
      using "3.prems"(1) by (auto split: if_splits)
    then show ?thesis
    proof cases
      case 1
      then show ?thesis using "3.IH"(2) [OF False 1 "3.prems"(2)] "3.prems"(3) by auto
    next
      case 2
      then show ?thesis
        using "3.IH"(1) [OF False 2(1) 2(2) path_ok_extend [OF "3.prems"(2) ed 2(1)]] by auto
    qed
  qed
qed auto

lemma dfs_sound:
  assumes "c \<in> set (dfs ds n start)"
  shows "closed_cycle c \<and> distinct (map debtor_id c) \<and> set c \<subseteq> set ds \<and> length c \<le> n"
proof -
  obtain k where n: "n = Suc k" and c: "c \<in> set (dfs_edges ds k start [] [start] (adjacency ds start))"
    using assms by (auto simp: dfs_def split: nat.splits)
  show ?thesis using dfs_edges_sound [OF c, of start] n by (simp add: path_ok_def)
qed

lemma dfs_all_sound:
  assumes "c \<in> set (dfs_all ds n xs cycles)"
  shows "c \<in> set cycles \<or> (closed_cycle c \<and> distinct (map debtor_id c) \<and> set c \<subseteq> set ds \<and> length c \<le> n)"
  using assms by (induction ds n xs cycles rule: dfs_all.induct) (auto split: if_splits dest: dfs_sound)

lemma dedup_keys_subset: "set (dedup_keys key seen cs) \<subseteq> set cs"
  by (induction key seen cs rule: dedup_keys.induct) auto

lemma find_cycles_dfs_sound:
  assumes "c \<in> set (find_cycles_dfs e scope n locked db)"
  obtains ds where "c = map edge_of_debt ds" and "good_cycle e scope locked db ds" and "length ds \<le> n"
proof -
  let ?ds = "graph_debts e scope locked db"
  obtain ds where c: "c = map edge_of_debt ds"
    and ds: "ds \<in> set (dedup_keys (\<lambda>c. sort (map debt_id c)) [] (dfs_all ?ds n (dict_keys (map debtor_id ?ds)) []))"
    using assms by (auto simp: find_cycles_dfs_def Let_def filter_cycles_by_policy_def)
  then have "closed_cycle ds \<and> distinct (map debtor_id ds) \<and> set ds \<subseteq> set ?ds \<and> length ds \<le> n"
    using dedup_keys_subset dfs_all_sound by fastforce
  then have "good_cycle e scope locked db ds" and "length ds \<le> n"
    by (auto simp: good_cycle_def graph_debts_def)
  then show ?thesis using that c by blast
qed

section \<open>The SQL joins\<close>

lemma order_and_limit_subset: "set (order_and_limit n rows) \<subseteq> set rows"
  unfolding order_and_limit_def using set_take_subset by fastforce

lemma triangle_sound:
  assumes "debts_wf db" and "c \<in> set (find_triangles_sql is_sqlite e scope db)" and "\<not> touches_locked locked c"
  obtains ds where "c = map edge_of_debt ds" and "good_cycle e scope locked db ds" and "length ds = 3"
proof -
  obtain d1 d2 d3 where c: "c = map edge_of_debt [d1, d2, d3]"
    and mem: "d1 \<in> set (eq_debts e db)" "d2 \<in> set (eq_debts e db)" "d3 \<in> set (eq_debts e db)"
    and row: "triangle_row is_sqlite scope db (d1, d2, d3)"
    using assms(2) order_and_limit_subset by (fastforce simp: find_triangles_sql_def Let_def)
  have "debtor_id d \<noteq> creditor_id d" if "d \<in> set [d1, d2, d3]" for d
    using that mem debts_wfD(2) [OF assms(1)] by (auto simp: eq_debts_def)
  then have ne: "debtor_id d1 \<noteq> creditor_id d1" "debtor_id d2 \<noteq> creditor_id d2" "debtor_id d3 \<noteq> creditor_id d3" by auto
  have ch: "creditor_id d1 = debtor_id d2" "creditor_id d2 = debtor_id d3" "creditor_id d3 = debtor_id d1"
    and pos: "0 < debt_amount d1" "0 < debt_amount d2" "0 < debt_amount d3"
    and sc: "in_scope scope (debtor_id d1)" "in_scope scope (debtor_id d2)" "in_scope scope (debtor_id d3)"
    using row by (auto simp: triangle_row_def)
  have lk: "unordered (debtor_id d) (creditor_id d) \<notin> set locked" if "d \<in> set [d1, d2, d3]" for d
    using assms(3) that unfolding c touches_locked_def by (auto simp: edge_of_debt_def)
  have "good_cycle e scope locked db [d1, d2, d3]"
    unfolding good_cycle_def
  proof (intro conjI ballI)
    show "closed_cycle [d1, d2, d3]" by (simp add: closed_cycle_def ch)
    show "distinct (map debtor_id [d1, d2, d3])" using ne ch by simp
    show "set [d1, d2, d3] \<subseteq> set (debts db)" using mem by (simp add: eq_debts_def)
  qed (use mem pos sc lk in \<open>auto simp: eq_debts_def\<close>)
  then show ?thesis using that [of "[d1, d2, d3]"] c by simp
qed

lemma quadrangle_sound:
  assumes "debts_wf db" and "c \<in> set (find_quadrangles_sql is_sqlite e scope db)" and "\<not> touches_locked locked c"
  obtains ds where "c = map edge_of_debt ds" and "good_cycle e scope locked db ds" and "length ds = 4"
proof -
  obtain d1 d2 d3 d4 where c: "c = map edge_of_debt [d1, d2, d3, d4]"
    and mem: "d1 \<in> set (eq_debts e db)" "d2 \<in> set (eq_debts e db)" "d3 \<in> set (eq_debts e db)" "d4 \<in> set (eq_debts e db)"
    and row: "quadrangle_row is_sqlite scope db (d1, d2, d3, d4)"
    using assms(2) order_and_limit_subset by (fastforce simp: find_quadrangles_sql_def Let_def)
  have "debtor_id d \<noteq> creditor_id d" if "d \<in> set [d1, d2, d3, d4]" for d
    using that mem debts_wfD(2) [OF assms(1)] by (auto simp: eq_debts_def)
  then have ne: "debtor_id d1 \<noteq> creditor_id d1" "debtor_id d2 \<noteq> creditor_id d2" "debtor_id d3 \<noteq> creditor_id d3"
    "debtor_id d4 \<noteq> creditor_id d4" by auto
  have ch: "creditor_id d1 = debtor_id d2" "creditor_id d2 = debtor_id d3" "creditor_id d3 = debtor_id d4"
      "creditor_id d4 = debtor_id d1"
    and pos: "0 < debt_amount d1" "0 < debt_amount d2" "0 < debt_amount d3" "0 < debt_amount d4"
    and sc: "in_scope scope (debtor_id d1)" "in_scope scope (debtor_id d2)" "in_scope scope (debtor_id d3)"
      "in_scope scope (debtor_id d4)"
    and opp: "debtor_id d1 \<noteq> debtor_id d3" "debtor_id d2 \<noteq> debtor_id d4"
    using row by (auto simp: quadrangle_row_def)
  have lk: "unordered (debtor_id d) (creditor_id d) \<notin> set locked" if "d \<in> set [d1, d2, d3, d4]" for d
    using assms(3) that unfolding c touches_locked_def by (auto simp: edge_of_debt_def)
  have "good_cycle e scope locked db [d1, d2, d3, d4]"
    unfolding good_cycle_def
  proof (intro conjI ballI)
    show "closed_cycle [d1, d2, d3, d4]" by (simp add: closed_cycle_def ch)
    show "distinct (map debtor_id [d1, d2, d3, d4])" using ne ch opp by auto
    show "set [d1, d2, d3, d4] \<subseteq> set (debts db)" using mem by (simp add: eq_debts_def)
  qed (use mem pos sc lk in \<open>auto simp: eq_debts_def\<close>)
  then show ?thesis using that [of "[d1, d2, d3, d4]"] c by simp
qed

lemma refine_candidates_sub:
  assumes "c \<in> set (refine_candidates e locked cs db)"
  shows "c \<in> set cs" and "\<not> touches_locked locked c" and "c \<in> set (filter_cycles_by_policy e [c] db)"
  using assms dedup_keys_subset [of cycle_key "[]"]
  by (fastforce simp: refine_candidates_def filter_cycles_by_policy_def deduplicate_cycles_def)+

section \<open>Consent\<close>

lemma debts_of_edges_rows:
  assumes "debts_wf db" and "set ds \<subseteq> set (debts db)"
  shows "debts_of_edges (map edge_of_debt ds) db = Some ds"
  using assms(2)
proof (induction ds)
  case (Cons d ds)
  have "distinct (map debt_id (debts db))" using assms(1) by (simp add: debts_wf_def)
  then have "find (\<lambda>r. debt_id r = debt_id d) (debts db) = Some d"
    using Cons.prems by (intro find_unique) (auto dest: distinct_map_unique)
  then show ?case using Cons by (simp add: debts_of_edges_def edge_of_debt_def)
qed (simp add: debts_of_edges_def)

lemma policy_filter_consents:
  assumes "debts_wf db" and "set ds \<subseteq> set (debts db)" and "map edge_of_debt ds \<in> set (filter_cycles_by_policy e cs db)"
  shows "cycle_respects_auto_clearing ds db"
  using assms(3) debts_of_edges_rows [OF assms(1,2)]
  by (auto simp: filter_cycles_by_policy_def split: list.splits)

lemma find_cycles_good:
  assumes wf: "debts_wf db" and fc: "find_cycles is_sqlite use_sql code n allowed db = Inr cs" and c: "c \<in> set cs"
  obtains q locked ds where "get_equivalent code db = Some q" and "locked_pairs_for_equivalent (equiv_id q) db = Inr locked"
    and "c = map edge_of_debt ds" and "good_cycle (equiv_id q) (resolve_scope_ids allowed db) locked db ds"
    and "cycle_respects_auto_clearing ds db" and "length ds \<le> n"
proof -
  obtain q where q: "get_equivalent code db = Some q" using fc by (auto simp: find_cycles_def split: option.splits)
  let ?e = "equiv_id q" and ?scope = "resolve_scope_ids allowed db"
  have scope: "?scope \<noteq> Some []" using fc c q by (auto simp: find_cycles_def Let_def split: if_splits)
  obtain locked where lk: "locked_pairs_for_equivalent ?e db = Inr locked"
    using fc q scope by (auto simp: find_cycles_def Let_def split: sum.splits if_splits)
  have mem: "(3 \<le> n \<and> c \<in> set (sql_candidates is_sqlite ?e ?scope n locked db)) \<or> c \<in> set (find_cycles_dfs ?e ?scope n locked db)"
    using fc c q scope lk by (auto simp: find_cycles_def Let_def split: if_splits)
  have "\<exists>ds. c = map edge_of_debt ds \<and> good_cycle ?e ?scope locked db ds \<and> length ds \<le> n
      \<and> (\<exists>cs. c \<in> set (filter_cycles_by_policy ?e cs db))"
    using mem
  proof
    assume "c \<in> set (find_cycles_dfs ?e ?scope n locked db)"
    moreover from this have "\<exists>cs. c \<in> set (filter_cycles_by_policy ?e cs db)"
      unfolding find_cycles_dfs_def Let_def by blast
    ultimately show ?thesis by (metis find_cycles_dfs_sound)
  next
    assume sql: "3 \<le> n \<and> c \<in> set (sql_candidates is_sqlite ?e ?scope n locked db)"
    then consider "c \<in> set (refine_candidates ?e locked (find_triangles_sql is_sqlite ?e ?scope db) db)"
      | "4 \<le> n" "c \<in> set (refine_candidates ?e locked (find_quadrangles_sql is_sqlite ?e ?scope db) db)"
      by (auto simp: sql_candidates_def Let_def split: if_splits)
    then show ?thesis
    proof cases
      case 1
      from triangle_sound [OF wf refine_candidates_sub(1,2) [OF 1]] refine_candidates_sub(3) [OF 1] sql
      show ?thesis by (metis)
    next
      case 2
      from quadrangle_sound [OF wf refine_candidates_sub(1,2) [OF 2(2)]] refine_candidates_sub(3) [OF 2(2)] 2(1)
      show ?thesis by (metis)
    qed
  qed
  then obtain ds cs' where "c = map edge_of_debt ds" "good_cycle ?e ?scope locked db ds" "length ds \<le> n"
    "map edge_of_debt ds \<in> set (filter_cycles_by_policy ?e cs' db)" by blast
  moreover from this have "cycle_respects_auto_clearing ds db"
    using policy_filter_consents [OF wf] by (auto simp: good_cycle_def)
  ultimately show ?thesis using that q lk by blast
qed

end
