(* ===== verification/Clearing_Properties.thy ===== *)
theory Clearing_Properties
  imports Cycle_Detection Sample_Hub
begin

text \<open>
  The properties of clearing: neutrality of every execution, soundness of the search, execution
  of every detected cycle, the report of an ambiguous commit, the bounded automatic loop and the
  agreement of the SQL prefilter with the consent policy.
\<close>

section \<open>Executions through the public entry\<close>

lemma public_Some:
  assumes "execute_clearing_with_amount uuid5 is_postgres apids cycle env db = (r, Some db')"
  obtains il aids where "execute_clearing_with_amount_inner uuid5 il aids apids cycle env db = (r, Some db')"
  using assms
  by (auto simp: execute_clearing_with_amount_def Let_def split: if_splits option.splits sum.splits)

lemma those_Some: "those xs = Some ys \<longleftrightarrow> xs = map Some ys"
  by (induction xs arbitrary: ys) (auto split: option.splits)

lemma inner_executed_same:
  assumes wf: "debts_wf db" and run: "execute_clearing_with_amount_inner uuid5 il aids apids cycle env db = (r, Some db')"
    and same: "\<forall>d \<in> set (debts db). Some (debt_id d) \<in> ed_debt ` set cycle \<longrightarrow> debt_equivalent d = e"
  shows "\<exists>ds. executed e ds db db' \<and> (\<forall>d \<in> set ds. Some (debt_id d) \<in> ed_debt ` set cycle)"
proof -
  have mem: "debt_id d \<in> set ids \<longleftrightarrow> Some (debt_id d) \<in> ed_debt ` set cycle"
    if "those (map ed_debt cycle) = Some ids" for ids d
    using that unfolding those_Some by (metis (no_types, lifting) image_iff list.set_map option.inject)
  from run obtain ids ds where 1: "those (map ed_debt cycle) = Some ids" "ids \<noteq> []"
      "ds = filter (\<lambda>d. debt_id d \<in> set ids) (debts db)" "length ds = length ids" "clearing_guards il aids ds db = None"
    by (rule inner_Some)
  have ne: "ds \<noteq> []" using 1(2,4) by auto
  have eqs: "\<forall>d \<in> set ds. debt_equivalent d = e"
  proof
    fix d assume "d \<in> set ds"
    then show "debt_equivalent d = e" using same mem [OF 1(1), of d] by (simp add: 1(3))
  qed
  have "il = None \<or> il = Some e"
    using guards_None(3) [OF 1(5)] eqs ne by (cases il) (auto dest: hd_in_set)
  then have il: "case il of Some e' \<Rightarrow> e' = e | None \<Rightarrow> debt_equivalent d = e"
    if "d \<in> set (debts db)" "Some (debt_id d) \<in> ed_debt ` set cycle" for d
    using same that by auto
  have "\<exists>ids. those (map ed_debt cycle) = Some ids \<and> executed e (filter (\<lambda>d. debt_id d \<in> set ids) (debts db)) db db'"
  proof (rule inner_executed [OF wf run], intro ballI impI)
    fix ids' d
    assume "those (map ed_debt cycle) = Some ids'" and "d \<in> set (debts db)" and "debt_id d \<in> set ids'"
    then show "case il of Some e' \<Rightarrow> e' = e | None \<Rightarrow> debt_equivalent d = e" using il [of d] mem [of ids' d] by simp
  qed
  then obtain ids' where ids': "those (map ed_debt cycle) = Some ids'"
    and "executed e (filter (\<lambda>d. debt_id d \<in> set ids') (debts db)) db db'" by blast
  then show ?thesis using mem [OF ids'] by (intro exI [of _ "filter (\<lambda>d. debt_id d \<in> set ids') (debts db)"]) auto
qed

text \<open>
  C22. Clearing is neutral. Whatever edges a caller passes, as long as the debts they name belong to
  one equivalent: if the execution leaves a changed database, then no participant's net
  position in any equivalent has changed, no debt has grown, at least one debt is settled in full
  and removed, only debts named by the cycle have changed, and trust lines and prepare locks are
  the same.
\<close>

theorem clearing_is_neutral:
  assumes "debts_wf db"
    and "\<forall>d \<in> set (debts db). Some (debt_id d) \<in> ed_debt ` set cycle \<longrightarrow> debt_equivalent d = e"
    and "execute_clearing_with_amount uuid5 is_postgres allowed_pids cycle env db = (r, Some db')"
  shows "(\<forall>p e'. calculate_net_position p e' db' = calculate_net_position p e' db)
    \<and> (\<forall>x y e'. owes db' x y e' \<le> owes db x y e')
    \<and> (\<exists>d \<in> set (debts db). Some (debt_id d) \<in> ed_debt ` set cycle \<and> debt_id d \<notin> debt_id ` set (debts db'))
    \<and> (\<forall>d \<in> set (debts db). Some (debt_id d) \<notin> ed_debt ` set cycle \<longrightarrow>
         owes db' (debtor_id d) (creditor_id d) (debt_equivalent d) = debt_amount d)
    \<and> debts_wf db' \<and> trust_lines db' = trust_lines db \<and> prepare_locks db' = prepare_locks db"
proof -
  obtain il aids where inner: "execute_clearing_with_amount_inner uuid5 il aids allowed_pids cycle env db = (r, Some db')"
    using public_Some [OF assms(3)] by blast
  obtain ds where ex: "executed e ds db db'" and named: "\<forall>d \<in> set ds. Some (debt_id d) \<in> ed_debt ` set cycle"
    using inner_executed_same [OF assms(1) inner assms(2)] by blast
  note fr = executed_frame [OF ex]
  obtain d where d: "d \<in> set ds" "debt_amount d = least ds" using ex least_props(2) [of ds] by (auto simp: executed_def)
  have sub: "set ds \<subseteq> set (debts db)" "0 < least ds" using ex by (auto simp: executed_def)
  have gone: "debt_id d \<notin> debt_id ` set (debts db')" using fr(10) d by auto
  have other: "owes db' (debtor_id d') (creditor_id d') (debt_equivalent d') = debt_amount d'"
    if d': "d' \<in> set (debts db)" and un: "Some (debt_id d') \<notin> ed_debt ` set cycle" for d'
  proof -
    have "\<not> cleared_pair ds (debtor_id d') (creditor_id d') (debt_equivalent d')"
    proof
      assume "cleared_pair ds (debtor_id d') (creditor_id d') (debt_equivalent d')"
      then obtain d2 where d2: "d2 \<in> set ds" "debt_key d2 = debt_key d'" by (auto simp: cleared_pair_def debt_key_def)
      moreover have "distinct (map debt_key (debts db))" using assms(1) by (simp add: debts_wf_def)
      ultimately have "d2 = d'" using d' sub(1) by (auto dest: distinct_map_unique)
      then show False using d2(1) named un by blast
    qed
    then show ?thesis using fr(8) owes_row [OF assms(1) d'] by simp
  qed
  show ?thesis
    using fr(1-3,9) fr(8) sub d named gone other by (auto intro: bexI [of _ d])
qed

section \<open>A ring of three debts\<close>

definition ring_debt :: "uuid \<Rightarrow> uuid \<Rightarrow> uuid \<Rightarrow> amount \<Rightarrow> debt" where
  "ring_debt i x y v = \<lparr>debt_id = i, debtor_id = x, creditor_id = y, debt_equivalent = 9, debt_amount = v\<rparr>"

definition ring_db :: db where
  "ring_db = sample_db\<lparr>debts := [ring_debt 20 5 6 5, ring_debt 21 6 7 7, ring_debt 22 7 5 6],
     trust_lines := [sample_line 10 6 5 100, sample_line 11 7 6 50, sample_line 12 5 7 30]\<rparr>"

definition ring_cycle :: "cycle_edge list" where
  "ring_cycle = map edge_of_debt [ring_debt 20 5 6 5, ring_debt 21 6 7 7, ring_debt 22 7 5 6]"

definition calm_env :: "db \<Rightarrow> clearing_env" where
  "calm_env db = \<lparr>xe_replay_error = None, xe_rows_error = None, xe_flush_error = None, xe_commit = CommitOk,
     xe_fresh = (\<lambda>_ _. Inr db), xe_pre = db, xe_lock_error = None\<rparr>"

lemma ring_sel [simp]:
  "debts ring_db = [ring_debt 20 5 6 5, ring_debt 21 6 7 7, ring_debt 22 7 5 6]"
  "trust_lines ring_db = [sample_line 10 6 5 100, sample_line 11 7 6 50, sample_line 12 5 7 30]"
  "prepare_locks ring_db = []" "db_now ring_db = 1000" "next_uuid ring_db = 100"
  "equivalents ring_db = [\<lparr>equiv_id = 9, equiv_code = ''UAH''\<rparr>]" "transactions ring_db = [sample_tx]"
  by (simp_all add: ring_db_def)

lemma ring_wf: "debts_wf ring_db" "trust_lines_wf ring_db"
  by (simp_all add: debts_wf_def trust_lines_wf_def debt_key_def tl_key_def ring_debt_def sample_line_def column_value_def)

lemma ring_owes: "owes ring_db x y e = (if (x, y, e) = (5, 6, 9) then 5 else if (x, y, e) = (6, 7, 9) then 7
   else if (x, y, e) = (7, 5, 9) then 6 else 0)"
  by (simp add: owes_def get_debt_def ring_debt_def)

lemma ring_hub_inv: "hub_inv ring_db"
proof -
  have "reservations_ok ring_db"
    by (auto simp: reservations_ok_def reserved_def live_locks_def segment_capacity_def ring_owes active_limit_def
        get_active_line_def sample_line_def)
  then have "engine_inv ring_db"
    using ring_wf by (simp add: engine_inv_def no_self_lines_def locks_wf_def sample_line_def)
  then show ?thesis by (simp add: hub_inv_def symmetric_ledger_def symmetric_pair_def ring_owes)
qed

section \<open>Detected cycles execute\<close>

text \<open>
  C23. Every cycle that the search returns is a simple closed cycle of debts that exist in the
  ledger: they belong to the requested equivalent, each creditor is the debtor of the next edge,
  no participant occurs twice, every amount is positive, every participant is inside the requested
  perimeter, no pair carries a live reservation of a prepared payment, every controlling
  trust line consents to automatic clearing, and the length is at most \<open>max_depth\<close>.
\<close>

theorem find_cycles_sound:
  assumes "debts_wf db" and "locks_wf db"
    and "find_cycles is_sqlite use_sql code max_depth allowed_pids db = Inr cycles" and "c \<in> set cycles"
  shows "\<exists>q ds. get_equivalent code db = Some q \<and> c = map edge_of_debt ds \<and> set ds \<subseteq> set (debts db)
    \<and> ds \<noteq> [] \<and> map creditor_id ds = rotate1 (map debtor_id ds) \<and> distinct (map debtor_id ds) \<and> length ds \<le> max_depth
    \<and> (\<forall>d \<in> set ds. debt_equivalent d = equiv_id q \<and> 0 < debt_amount d
         \<and> in_scope (resolve_scope_ids allowed_pids db) (debtor_id d)
         \<and> reserved db (debtor_id d) (creditor_id d) (equiv_id q) = 0
         \<and> reserved db (creditor_id d) (debtor_id d) (equiv_id q) = 0)
    \<and> cycle_respects_auto_clearing ds db"
proof -
  obtain q locked ds where q: "get_equivalent code db = Some q" "locked_pairs_for_equivalent (equiv_id q) db = Inr locked"
    "c = map edge_of_debt ds" "good_cycle (equiv_id q) (resolve_scope_ids allowed_pids db) locked db ds"
    "cycle_respects_auto_clearing ds db" "length ds \<le> max_depth"
    by (rule find_cycles_good [OF assms(1,3,4)])
  have free: "reserved db x y (equiv_id q) = 0" if "unordered x y \<notin> set locked" for x y
    using locked_pairs_reserved [OF assms(2), of "equiv_id q"] q(2) that by (metis sum.inject(2))
  have "reserved db (debtor_id d) (creditor_id d) (equiv_id q) = 0"
    and "reserved db (creditor_id d) (debtor_id d) (equiv_id q) = 0" if "d \<in> set ds" for d
    using that q(4) free unordered_commute [of "creditor_id d"] by (auto simp: good_cycle_def)
  then show ?thesis
    using q by (intro exI [of _ q] exI [of _ ds]) (auto simp: good_cycle_def closed_cycle_def)
qed

lemma rows_of_cycle:
  assumes wf: "debts_wf db" and sub: "set ds \<subseteq> set (debts db)" and dist: "distinct (map debtor_id ds)"
  shows "mset (filter (\<lambda>d. debt_id d \<in> set (map debt_id ds)) (debts db)) = mset ds"
proof -
  have "distinct (debts db)" using wf by (auto simp: debts_wf_def distinct_map)
  moreover have "distinct ds" using dist by (simp add: distinct_map)
  moreover have "set (filter (\<lambda>d. debt_id d \<in> set (map debt_id ds)) (debts db)) = set ds"
  proof -
    have "distinct (map debt_id (debts db))" using wf by (simp add: debts_wf_def)
    then show ?thesis using sub by (auto dest: distinct_map_unique)
  qed
  ultimately show ?thesis by (metis distinct_filter set_eq_iff_mset_eq_distinct)
qed

lemma least_mset: "mset ds = mset ds' \<Longrightarrow> least ds = least ds'"
  unfolding least_def by (metis mset_map set_mset_mset)

lemma respects_set:
  assumes "cycle_respects_auto_clearing ds db" and "set ds' = set ds" and "\<forall>d \<in> set ds. debt_equivalent d = e"
  shows "cycle_respects_auto_clearing ds' db"
proof -
  obtain a as b bs where ds: "ds = a # as" "ds' = b # bs"
    using assms(1,2) by (cases ds; cases ds') (auto simp: cycle_respects_auto_clearing_def)
  then have "debt_equivalent a = e" "debt_equivalent b = e" using assms(2,3) by auto
  then show ?thesis
    using assms(1,2) unfolding cycle_respects_auto_clearing_def ds by (simp add: list_all_iff)
qed

lemma calm_inner:
  assumes wf: "debts_wf db" and good: "good_cycle e scope locked db ds" and lk: "locked_pairs_for_equivalent e db = Inr locked"
    and resp: "cycle_respects_auto_clearing ds db" and fresh: "get_tx (execution_tx_id uuid5 (map debt_id ds)) db = None"
    and il: "il = None \<or> il = Some e"
  shows "\<exists>db'. execute_clearing_with_amount_inner uuid5 il None None (map edge_of_debt ds) (calm_env db0) db
    = (Inr (Some (Fin (least ds))), Some db')"
proof -
  let ?ids = "map debt_id ds" and ?tx = "execution_tx_id uuid5 (map debt_id ds)"
  let ?rows = "filter (\<lambda>d. debt_id d \<in> set ?ids) (debts db)"
  have g: "closed_cycle ds" "distinct (map debtor_id ds)" "set ds \<subseteq> set (debts db)" "ds \<noteq> []"
    and eqs: "\<forall>d \<in> set ds. debt_equivalent d = e" and pos: "\<forall>d \<in> set ds. 0 < debt_amount d"
    and unl: "\<forall>d \<in> set ds. unordered (debtor_id d) (creditor_id d) \<notin> set locked"
    using good by (auto simp: good_cycle_def closed_cycle_def)
  note rows = rows_of_cycle [OF wf g(3,2)]
  then have set_rows: "set ?rows = set ds" and len: "length ?rows = length ?ids" and ne: "?rows \<noteq> []"
    using g(4) by (metis set_mset_mset, metis length_map size_mset, metis mset_zero_iff)
  have least: "least ?rows = least ds" by (rule least_mset [OF rows])
  have hd: "debt_equivalent (hd ?rows) = e" using ne set_rows eqs hd_in_set by metis
  have lpos: "0 < least ds" using least_props(2) [OF g(4)] pos by auto
  have guards: "clearing_guards il None ?rows db = None"
    using il eqs set_rows lpos least lk unl hd respects_set [OF resp set_rows eqs]
    by (auto simp: clearing_guards_def list_ex_iff)
  have dist: "distinct (map debt_id ?rows)" by (rule distinct_filter_ids [OF wf])
  obtain db1 where db1: "fold_res (clear_debt (least ds)) ?rows db = Inr db1" "cleared (least ds) ?rows db db1"
    using clear_fold [OF wf _ dist, of "least ds"] least_props(1) [OF ne] least least_grid [OF wf g(3,4)] by auto
  have eqs': "\<forall>d \<in> set ?rows. debt_equivalent d = e" using eqs set_rows by simp
  have "verify_clearing_neutrality (cycle_participants ?rows) e
      (map (\<lambda>p. (p, calculate_net_position p e db)) (cycle_participants ?rows)) db1 = Inr True"
    using neutrality_iff [OF db1(2) lpos eqs'] balanced_mset [OF rows] closed_cycle_balanced [OF g(1)] by simp
  then have "\<exists>db'. apply_clearing None ?tx ?ids ?rows (least ds) db = Inr db'"
    using db1(1) hd fresh by (simp add: apply_clearing_def Let_def)
  then obtain db' where app: "apply_clearing None ?tx ?ids ?rows (least ds) db = Inr db'" by blast
  have "execute_locked None il None ?tx ?ids (calm_env db0) db = (Inr (Some (Fin (least ds))), Some db')"
    using len guards app least by (simp add: execute_locked_def Let_def calm_env_def finish_clearing_def)
  moreover have "read_committed_execution_amount None ?tx db = Inr None"
  proof -
    have "find (\<lambda>t. tx_id t = ?tx \<and> tx_type t = CLEARING) (transactions db) = None"
      using fresh by (auto simp: get_tx_def find_None_iff)
    then show ?thesis by (simp add: read_committed_execution_amount_def)
  qed
  moreover have "those (map ed_debt (map edge_of_debt ds)) = Some ?ids"
    by (simp add: those_Some edge_of_debt_def comp_def)
  ultimately show ?thesis
    using g(4) by (simp add: execute_clearing_with_amount_inner_def calm_env_def Let_def)
qed

text \<open>
  C24. Every detected cycle can be cleared: executing a cycle the search has just returned, in an
  undisturbed database that has not seen the execution before, succeeds on every backend and
  reports the smallest debt of the cycle as the cleared amount.
\<close>

theorem detected_cycle_clears:
  assumes "debts_wf db" and "find_cycles is_sqlite use_sql code max_depth None db = Inr cycles" and "c \<in> set cycles"
    and "\<forall>ids. those (map ed_debt c) = Some ids \<longrightarrow> get_tx (execution_tx_id uuid5 ids) db = None"
  shows "\<exists>db'. execute_clearing_with_amount uuid5 is_postgres None c (calm_env db) db
    = (Inr (Some (Fin (Min (ed_amount ` set c)))), Some db')"
proof -
  obtain q locked ds where q: "get_equivalent code db = Some q" "locked_pairs_for_equivalent (equiv_id q) db = Inr locked"
    "c = map edge_of_debt ds" "good_cycle (equiv_id q) (resolve_scope_ids None db) locked db ds"
    "cycle_respects_auto_clearing ds db" "length ds \<le> max_depth"
    by (rule find_cycles_good [OF assms(1-3)])
  have ids: "those (map ed_debt c) = Some (map debt_id ds)"
    by (simp add: q(3) those_Some edge_of_debt_def comp_def)
  have fresh: "get_tx (execution_tx_id uuid5 (map debt_id ds)) db = None" using assms(4) ids by blast
  have min: "Min (ed_amount ` set c) = least ds"
    by (simp add: q(3) least_def image_image edge_of_debt_def)
  let ?pre = "filter (\<lambda>d. debt_id d \<in> set (map debt_id ds)) (debts db)"
  have g: "set ds \<subseteq> set (debts db)" "distinct (map debtor_id ds)" "ds \<noteq> []" "\<forall>d \<in> set ds. debt_equivalent d = equiv_id q"
    using q(4) by (auto simp: good_cycle_def closed_cycle_def)
  have rows: "mset ?pre = mset ds" by (rule rows_of_cycle [OF assms(1) g(1,2)])
  then have len: "length ?pre = length (map debt_id ds)" and set_pre: "set ?pre = set ds" and ne: "?pre \<noteq> []"
    using g(3) by (metis length_map size_mset, metis set_mset_mset, metis mset_zero_iff)
  have hd: "debt_equivalent (hd ?pre) = equiv_id q" using hd_in_set [OF ne] g(4) unfolding set_pre by blast
  have all: "list_all (\<lambda>d. debt_equivalent d = debt_equivalent (hd ?pre)) ?pre"
    unfolding hd list_all_iff set_pre by (rule g(4))
  have "execute_clearing_with_amount uuid5 is_postgres None c (calm_env db) db
    = execute_clearing_with_amount_inner uuid5 (if is_postgres then Some (equiv_id q) else None) None None c (calm_env db) db"
    using ids len all hd g(3) q(3)
    by (auto simp: execute_clearing_with_amount_def resolve_scope_ids_def calm_env_def Let_def)
  then show ?thesis
    unfolding min using calm_inner [OF assms(1) q(4,2,5) fresh, of "if is_postgres then Some (equiv_id q) else None" db] q(3)
    by (auto split: if_splits)
qed

lemma ring_found: "find_cycles False False ''UAH'' 3 None ring_db = Inr [ring_cycle]"
  by code_simp

lemma ring_found_sql: "find_cycles False True ''UAH'' 3 None ring_db = Inr [ring_cycle]"
  by code_simp

theorem find_cycles_sound_witness:
  "\<exists>ds. ring_cycle = map edge_of_debt ds \<and> map creditor_id ds = rotate1 (map debtor_id ds) \<and> length ds \<le> 3
    \<and> cycle_respects_auto_clearing ds ring_db"
proof -
  have "locks_wf ring_db" by (simp add: locks_wf_def)
  from find_cycles_sound [OF ring_wf(1) this ring_found, of ring_cycle] show ?thesis by auto
qed

definition some_uuid5 :: "uuid list \<Rightarrow> string" where
  "some_uuid5 ids = ''c'' @ concat (map uuid_str ids)"

lemma ring_fresh: "those (map ed_debt ring_cycle) = Some ids \<longrightarrow> get_tx (execution_tx_id some_uuid5 ids) ring_db = None"
  by (simp add: get_tx_def execution_tx_id_def some_uuid5_def sample_tx_def)

theorem detected_cycle_clears_witness:
  "\<exists>db'. execute_clearing_with_amount some_uuid5 True None ring_cycle (calm_env ring_db) ring_db
    = (Inr (Some (Fin 5)), Some db')"
proof -
  have "Min (ed_amount ` set ring_cycle) = 5" by (simp add: ring_cycle_def edge_of_debt_def ring_debt_def)
  then show ?thesis
    using detected_cycle_clears [OF ring_wf(1) ring_found, of ring_cycle some_uuid5 True] ring_fresh by simp
qed

lemma ring_executes:
  "\<exists>db'. execute_clearing_with_amount some_uuid5 True None ring_cycle (calm_env ring_db) ring_db
    = (Inr (Some (Fin 5)), Some db')"
proof -
  let ?ds = "[ring_debt 20 5 6 5, ring_debt 21 6 7 7, ring_debt 22 7 5 6]"
  have good: "good_cycle 9 None [] ring_db ?ds"
    by (simp add: good_cycle_def closed_cycle_def ring_debt_def in_scope_def)
  have lk: "locked_pairs_for_equivalent 9 ring_db = Inr []" by (simp add: locked_pairs_for_equivalent_def)
  have resp: "cycle_respects_auto_clearing ?ds ring_db"
    by (simp add: cycle_respects_auto_clearing_def ring_debt_def sample_line_def policy_flag_def)
  have fresh: "get_tx (execution_tx_id some_uuid5 (map debt_id ?ds)) ring_db = None"
    by (simp add: get_tx_def execution_tx_id_def some_uuid5_def sample_tx_def)
  have "least ?ds = 5" by (simp add: least_def ring_debt_def)
  then have "\<exists>db'. execute_clearing_with_amount_inner some_uuid5 (Some 9) None None ring_cycle (calm_env ring_db) ring_db
      = (Inr (Some (Fin 5)), Some db')"
    using calm_inner [OF ring_wf(1) good lk resp fresh, of "Some 9" ring_db] by (simp add: ring_cycle_def)
  then show ?thesis
    by (simp add: execute_clearing_with_amount_def resolve_scope_ids_def calm_env_def Let_def ring_cycle_def
        edge_of_debt_def ring_debt_def)
qed

theorem clearing_is_neutral_witness:
  "\<exists>db'. execute_clearing_with_amount some_uuid5 True None ring_cycle (calm_env ring_db) ring_db
      = (Inr (Some (Fin 5)), Some db')
    \<and> calculate_net_position 5 9 db' = calculate_net_position 5 9 ring_db \<and> owes db' 6 7 9 \<le> 7"
proof -
  obtain db' where db': "execute_clearing_with_amount some_uuid5 True None ring_cycle (calm_env ring_db) ring_db
      = (Inr (Some (Fin 5)), Some db')" using ring_executes by blast
  have "\<forall>d \<in> set (debts ring_db). Some (debt_id d) \<in> ed_debt ` set ring_cycle \<longrightarrow> debt_equivalent d = 9"
    by (simp add: ring_debt_def)
  from clearing_is_neutral [OF ring_wf(1) this db']
  have "calculate_net_position 5 9 db' = calculate_net_position 5 9 ring_db" and "owes db' 6 7 9 \<le> owes ring_db 6 7 9"
    by blast+
  then show ?thesis using db' by (auto simp: ring_owes)
qed

section \<open>Ambiguous commits\<close>

lemma reconcile_const:
  "reconcile_committed_execution apids tx (\<lambda>_. Inr db) = read_committed_execution_amount apids tx db"
  by (simp add: reconcile_committed_execution_def numeral_3_eq_3 split: sum.splits option.splits)

text \<open>
  C25. A clearing whose final \<open>COMMIT\<close> reports an error is answered by what became durable: when
  reconciliation can read the database, the caller gets the cleared amount if the commit took
  effect and the internal error if it did not, for every error the driver may raise, retryable
  or not.
\<close>

theorem ambiguous_commit_reported_truthfully:
  assumes "debts_wf db" and "set ds \<subseteq> set (debts db)" and "distinct (map debt_id ds)" and "ds \<noteq> []" and "0 < least ds"
    and "apply_clearing None tx ids ds (least ds) db = Inr db'" and "xe_commit env = CommitError x durable"
    and "\<forall>i j. xe_fresh env i j = Inr (if durable then db' else db)"
  shows "finish_clearing None tx (least ds) env db'
    = (if durable then (Inr (Some (Fin (least ds))), Some db') else (Inl (Geo E010), None))"
proof -
  obtain db1 where db': "db' = db1\<lparr>transactions := transactions db1 @ [clearing_tx tx ids ds (least ds) db],
                    audit_log := audit_log db1 @ [audit_clearing tx ds db db1]\<rparr>"
    and cl: "cleared (least ds) ds db db1" and none: "get_tx tx db = None"
    by (rule apply_clearing_Inr [OF assms(1-4,6)]) (rule that)
  have tr: "transactions db1 = transactions db" using cl debts_onlyD(4) by (auto simp: cleared_def)
  have nf: "find (\<lambda>t. tx_id t = tx \<and> tx_type t = CLEARING) (transactions db) = None"
    using none by (auto simp: get_tx_def find_None_iff)
  have before: "read_committed_execution_amount None tx db = Inr None"
    using nf by (simp add: read_committed_execution_amount_def)
  have after: "read_committed_execution_amount None tx db' = Inr (Some (Fin (least ds)))"
    using nf tr assms(5) by (simp add: read_committed_execution_amount_def db' find_append clearing_tx_def)
  have fresh: "xe_fresh env i = (\<lambda>_. Inr (if durable then db' else db))" for i using assms(8) by auto
  show ?thesis
    using assms(7) before after by (simp add: finish_clearing_def fresh reconcile_const handle_failure_def)
qed

theorem ambiguous_commit_reported_truthfully_witness:
  "\<exists>db' env. xe_commit env = CommitError AsyncioTimeout True
    \<and> finish_clearing None ''x'' 5 env db' = (Inr (Some (Fin 5)), Some db')"
proof -
  let ?ds = "[ring_debt 20 5 6 5, ring_debt 21 6 7 7, ring_debt 22 7 5 6]"
  have sub: "set ?ds \<subseteq> set (debts ring_db)" "distinct (map debt_id ?ds)" "?ds \<noteq> []" by (simp_all add: ring_debt_def)
  have l5: "least ?ds = 5" by (simp add: least_def ring_debt_def)
  obtain db1 where db1: "fold_res (clear_debt 5) ?ds ring_db = Inr db1" "cleared 5 ?ds ring_db db1"
    using clear_fold [OF ring_wf(1) sub(1,2), of 5] by (auto simp: ring_debt_def)
  have "balanced ?ds" by (rule closed_cycle_balanced) (simp add: closed_cycle_def ring_debt_def)
  then have "verify_clearing_neutrality (cycle_participants ?ds) 9
      (map (\<lambda>p. (p, calculate_net_position p 9 ring_db)) (cycle_participants ?ds)) db1 = Inr True"
    using neutrality_iff [OF db1(2), of 9] by (simp add: ring_debt_def)
  moreover have "get_tx ''x'' ring_db = None" "debt_equivalent (hd ?ds) = 9"
    by (simp_all add: get_tx_def sample_tx_def ring_debt_def)
  ultimately have "\<exists>db'. apply_clearing None ''x'' [20, 21, 22] ?ds (least ?ds) ring_db = Inr db'"
    using db1(1) unfolding apply_clearing_def l5 Let_def by (simp del: fold_res.simps)
  then obtain db' where app: "apply_clearing None ''x'' [20, 21, 22] ?ds (least ?ds) ring_db = Inr db'" by blast
  let ?env = "(calm_env ring_db)\<lparr>xe_commit := CommitError AsyncioTimeout True, xe_fresh := (\<lambda>_ _. Inr db')\<rparr>"
  have "finish_clearing None ''x'' (least ?ds) ?env db' = (Inr (Some (Fin (least ?ds))), Some db')"
    using ambiguous_commit_reported_truthfully [OF ring_wf(1) sub _ app, of ?env AsyncioTimeout True] l5 by simp
  then show ?thesis unfolding l5 by (intro exI [of _ db'] exI [of _ ?env]) simp
qed

section \<open>The automatic loop\<close>

lemma handle_failure_not_None: "handle_failure apids tx reads x \<noteq> Inr None"
  by (auto simp: handle_failure_def split: if_splits sum.splits option.splits)

lemma skipped_unchanged:
  assumes "execute_clearing_with_amount uuid5 is_postgres apids c env db = (Inr None, w)"
  shows "w = None"
proof (rule ccontr)
  assume "w \<noteq> None"
  then obtain db' where w: "w = Some db'" by auto
  then obtain il aids where "execute_clearing_with_amount_inner uuid5 il aids apids c env db = (Inr None, Some db')"
    using assms public_Some by metis
  then show False
    by (rule inner_Some)
      (auto simp: finish_clearing_def handle_failure_not_None handle_failure_not_None [symmetric] split: commit_outcome.splits sum.splits option.splits)
qed

definition settled_from :: "db \<Rightarrow> db \<Rightarrow> bool" where
  "settled_from db db' \<longleftrightarrow> hub_inv db' \<and> trust_lines db' = trust_lines db
     \<and> (\<forall>p e. calculate_net_position p e db' = calculate_net_position p e db)
     \<and> (\<forall>x y e. owes db' x y e \<le> owes db x y e)"

lemma settled_from_trans: "settled_from a b \<Longrightarrow> settled_from b c \<Longrightarrow> settled_from a c"
  unfolding settled_from_def by (metis order_trans)

lemma found_cycle_settles:
  assumes inv: "hub_inv db" and fc: "find_cycles is_sqlite use_sql code n None db = Inr cs" and c: "c \<in> set cs"
    and run: "execute_clearing_with_amount uuid5 is_postgres apids c env db = (r, Some db')"
  shows "settled_from db db'"
proof -
  have wf: "debts_wf db" using inv engine_invD(1) by (auto simp: hub_inv_def)
  obtain q :: equivalent and locked ds where
    q: "c = map edge_of_debt ds" "good_cycle (equiv_id q) (resolve_scope_ids None db) locked db ds"
    by (rule find_cycles_good [OF wf fc c]) blast
  have dist: "distinct (map debt_id (debts db))" using wf by (simp add: debts_wf_def)
  have same: "\<forall>d \<in> set (debts db). Some (debt_id d) \<in> ed_debt ` set c \<longrightarrow> debt_equivalent d = equiv_id q"
  proof (intro ballI impI)
    fix d assume d: "d \<in> set (debts db)" and "Some (debt_id d) \<in> ed_debt ` set c"
    then obtain x where x: "x \<in> set ds" "debt_id x = debt_id d" by (auto simp: q(1) edge_of_debt_def)
    then have "x \<in> set (debts db)" using q(2) by (auto simp: good_cycle_def)
    then have "x = d" using distinct_map_unique [OF dist _ d x(2)] by blast
    then show "debt_equivalent d = equiv_id q" using x(1) q(2) by (auto simp: good_cycle_def)
  qed
  obtain il aids where "execute_clearing_with_amount_inner uuid5 il aids apids c env db = (r, Some db')"
    using public_Some [OF run] by blast
  then obtain ds' where ex: "executed (equiv_id q) ds' db db'"
    using inner_executed_same [OF wf _ same] by blast
  note fr = executed_frame [OF ex]
  have "0 < least ds'" using ex by (simp add: executed_def)
  then show ?thesis
    using executed_inv [OF ex inv] fr(2,9) fr(8) by (auto simp: settled_from_def)
qed

lemma try_cycles_settles:
  assumes "hub_inv db" and "find_cycles is_sqlite use_sql code n None db = Inr cs" and "set cs' \<subseteq> set cs"
    and "try_cycles uuid5 is_postgres env j cs' db = Inr (ex, db')"
  shows "settled_from db db'"
  using assms(3,4)
proof (induction cs' arbitrary: j)
  case Nil
  then show ?case using assms(1) by (simp add: settled_from_def)
next
  case (Cons c cs')
  obtain r w where run: "execute_clearing_with_amount uuid5 is_postgres None c (env j) db = (r, w)" by fastforce
  show ?case
  proof (cases r)
    case (Inl x)
    then show ?thesis using Cons.prems run by simp
  next
    case (Inr a)
    show ?thesis
    proof (cases a)
      case None
      then have "w = None" using skipped_unchanged run Inr by metis
      then show ?thesis using Cons run Inr None by simp
    next
      case (Some v)
      then have db': "db' = (case w of None \<Rightarrow> db | Some db1 \<Rightarrow> db1)" using Cons.prems run Inr by simp
      show ?thesis
      proof (cases w)
        case None
        then show ?thesis using db' assms(1) by (simp add: settled_from_def)
      next
        case (Some db1)
        then show ?thesis using found_cycle_settles [OF assms(1,2)] Cons.prems(1) run db' by auto
      qed
    qed
  qed
qed

lemma auto_clear_from_settles:
  assumes "auto_clear_from uuid5 is_sqlite use_sql env code n left done_count db = Inr (m, db')" and "hub_inv db"
  shows "settled_from db db' \<and> m \<le> done_count + left"
  using assms
proof (induction left arbitrary: done_count db)
  case 0
  then show ?case by (simp add: settled_from_def)
next
  case (Suc left)
  obtain cs where cs: "find_cycles is_sqlite use_sql code n None db = Inr cs"
    using Suc.prems(1) by (auto split: sum.splits if_splits)
  show ?case
  proof (cases "cs = []")
    case True
    then show ?thesis using Suc.prems cs by (simp add: settled_from_def)
  next
    case False
    then obtain ex db1 where t: "try_cycles uuid5 (\<not> is_sqlite) (env done_count) 0 cs db = Inr (ex, db1)"
      using Suc.prems(1) cs by (auto split: sum.splits if_splits)
    have s1: "settled_from db db1" by (rule try_cycles_settles [OF Suc.prems(2) cs order_refl t])
    show ?thesis
    proof (cases ex)
      case True
      then have "auto_clear_from uuid5 is_sqlite use_sql env code n left (Suc done_count) db1 = Inr (m, db')"
        using Suc.prems(1) cs False t by simp
      then show ?thesis using Suc.IH s1 settled_from_trans by (fastforce simp: settled_from_def)
    next
      case False
      then show ?thesis using Suc.prems(1) cs \<open>cs \<noteq> []\<close> t s1 by auto
    qed
  qed
qed

text \<open>
  C26. Automatic clearing, in whatever way its executions fail, skip or are replayed: when it
  returns, at most 101 cycles were cleared, every net position and every trust line is what it
  was, no debt between any two participants has grown, and the hub's invariant, including the
  capacity promised to prepared payments, still holds.
\<close>

theorem auto_clear_settles:
  assumes "hub_inv db" and "auto_clear uuid5 is_sqlite use_sql env code max_depth db = Inr (n, db')"
  shows "n \<le> 101 \<and> hub_inv db' \<and> trust_lines db' = trust_lines db
    \<and> (\<forall>p e. calculate_net_position p e db' = calculate_net_position p e db)
    \<and> (\<forall>x y e. owes db' x y e \<le> owes db x y e)"
  using auto_clear_from_settles [OF assms(2) [unfolded auto_clear_def] assms(1)] by (simp add: settled_from_def)

lemma ring_auto_clear:
  "map_sum id fst (auto_clear some_uuid5 True False (\<lambda>_ _. calm_env ring_db) ''UAH'' 3 ring_db) = Inr 1"
  by code_simp

theorem auto_clear_settles_witness:
  "\<exists>db'. auto_clear some_uuid5 True False (\<lambda>_ _. calm_env ring_db) ''UAH'' 3 ring_db = Inr (1, db')
    \<and> calculate_net_position 6 9 db' = calculate_net_position 6 9 ring_db \<and> hub_inv db'"
proof -
  obtain db' where db': "auto_clear some_uuid5 True False (\<lambda>_ _. calm_env ring_db) ''UAH'' 3 ring_db = Inr (1, db')"
    using ring_auto_clear
    by (cases "auto_clear some_uuid5 True False (\<lambda>_ _. calm_env ring_db) ''UAH'' 3 ring_db") auto
  then show ?thesis using auto_clear_settles [OF ring_hub_inv db'] by blast
qed

section \<open>The SQL prefilter\<close>

lemma space_lower: "py_space c \<Longrightarrow> lower_char c = c"
  by (auto simp: py_space_def lower_char_def Let_def)

lemma falsy_no_space: "w \<in> set falsy_words \<Longrightarrow> c \<in> set w \<Longrightarrow> \<not> py_space c"
  by (auto simp: falsy_words_def py_space_def)

lemma dropWhile_none: "(\<And>x. x \<in> set xs \<Longrightarrow> \<not> P x) \<Longrightarrow> dropWhile P xs = xs"
  by (cases xs) auto

lemma falsy_strip:
  assumes "py_lower s \<in> set falsy_words"
  shows "py_strip s = s"
proof -
  have "\<not> py_space c" if "c \<in> set s" for c
  proof
    assume sp: "py_space c"
    have "lower_char c \<in> set (py_lower s)" using that by (simp add: py_lower_def)
    then have "c \<in> set (py_lower s)" using space_lower [OF sp] by simp
    then show False using falsy_no_space [OF assms] sp by blast
  qed
  then have "dropWhile py_space s = s" and "dropWhile py_space (rev s) = rev s" by (auto intro!: dropWhile_none)
  then show ?thesis by (simp add: py_strip_def)
qed

lemma lower_falsy: "s \<in> set falsy_words \<Longrightarrow> py_lower s = s"
  by (auto simp: falsy_words_def py_lower_def lower_char_def)

text \<open>
  The SQL prefilter of the cycle search never loses a consenting edge: whenever the policy of
  a trust line permits automatic clearing in the sense of \<^verbatim>\<open>_policy_flag\<close>, the predicate that is
  compiled into the joins accepts it too, on PostgreSQL and on SQLite, so the exact filter that
  follows decides.
\<close>

theorem sql_prefilter_keeps_consent:
  assumes "policy_flag p ''auto_clearing'' True"
  shows "sql_auto_clearing_ok is_sqlite p"
proof (cases p)
  case None
  then show ?thesis by (simp add: sql_auto_clearing_ok_def)
next
  case (Some kvs)
  show ?thesis
  proof (cases "\<exists>s. map_of kvs ''auto_clearing'' = Some (JStr s)")
    case True
    then obtain s where s: "map_of kvs ''auto_clearing'' = Some (JStr s)" by blast
    then have nf: "py_lower (py_strip s) \<notin> set falsy_words"
      using assms Some by (auto simp: policy_flag_def Let_def split: if_splits)
    have "py_lower s \<notin> set falsy_words" using nf falsy_strip by metis
    moreover have "s \<notin> set falsy_words" using calculation lower_falsy by metis
    ultimately show ?thesis using s Some by (simp add: sql_auto_clearing_ok_def)
  next
    case False
    then show ?thesis
      using assms Some by (auto simp: policy_flag_def sql_auto_clearing_ok_def split: option.splits json.splits)
  qed
qed

theorem sql_prefilter_keeps_consent_witness:
  "sql_auto_clearing_ok False (Some [(''auto_clearing'', JStr '' Yes'')])"
  by (rule sql_prefilter_keeps_consent)
    (simp add: policy_flag_def py_lower_def py_strip_def py_space_def lower_char_def falsy_words_def truthy_words_def)

end
