(* ===== verification/Hub_Invariant.thy ===== *)
theory Hub_Invariant
  imports Engine_Properties Clearing_Properties Amounts
begin

text \<open>
  What holds of the tables whatever the hub does: well-formed rows, no mutual debts, every debt
  within the limit of its active trust line, and debts of at most eight decimals. Unlike the
  engine's own invariant it says nothing of reservations, because changing a trust line may take
  away capacity that was promised. The contract of an operation that keeps it is a locale, with the
  engine and the clearing as instances; the trust-line service adds its own.
\<close>

section \<open>The invariant\<close>

definition tables_wf :: "db \<Rightarrow> bool" where
  "tables_wf db \<longleftrightarrow> debts_wf db \<and> trust_lines_wf db \<and> no_self_lines db \<and> locks_wf db"

definition limits_kept :: "db \<Rightarrow> bool" where
  "limits_kept db \<longleftrightarrow> (\<forall>x y e. within_limit db x y e)"

definition grid_debts :: "db \<Rightarrow> bool" where
  "grid_debts db \<longleftrightarrow> (\<forall>x y e. on_grid (owes db x y e))"

definition ledger_inv :: "db \<Rightarrow> bool" where
  "ledger_inv db \<longleftrightarrow> tables_wf db \<and> symmetric_ledger db \<and> limits_kept db \<and> grid_debts db \<and> grid_locks db"

lemma tables_wfD:
  assumes "tables_wf db"
  shows "debts_wf db" and "trust_lines_wf db" and "no_self_lines db" and "locks_wf db"
  using assms by (simp_all add: tables_wf_def)

lemma ledger_invD:
  assumes "ledger_inv db"
  shows "tables_wf db" and "symmetric_ledger db" and "limits_kept db" and "grid_debts db" and "grid_locks db"
  using assms by (simp_all add: ledger_inv_def)

text \<open>A change that leaves the debts and the trust lines alone keeps everything but the locks.\<close>

lemma ledger_inv_cong:
  assumes "debts db' = debts db" and "trust_lines db' = trust_lines db" and "next_uuid db \<le> next_uuid db'"
    and "locks_wf db'" and "grid_locks db'" and inv: "ledger_inv db"
  shows "ledger_inv db'"
proof -
  have "owes db' x y e = owes db x y e" "active_limit x y e db' = active_limit x y e db" for x y e
    using assms(1,2) by (simp_all add: owes_def get_debt_def active_limit_def get_active_line_def)
  moreover have "debts_wf db'" "trust_lines_wf db'"
    using tables_wfD(1,2) [OF ledger_invD(1) [OF inv]] assms(1-3)
    by (fastforce simp: debts_wf_def, fastforce simp: trust_lines_wf_def)
  ultimately show ?thesis
    using inv assms(2,4,5)
    by (simp add: ledger_inv_def tables_wf_def no_self_lines_def symmetric_ledger_def symmetric_pair_def
        limits_kept_def within_limit_def grid_debts_def)
qed

lemma owes_balance:
  assumes "debts_wf db" and "symmetric_ledger db"
  shows "owes db x y e = max 0 (pair_balance (x, y, e) db)"
proof -
  have "0 \<le> owes db x y e" "0 \<le> owes db y x e" "\<not> (0 < owes db x y e \<and> 0 < owes db y x e)"
    using assms owes_nonneg by (simp_all add: symmetric_ledger_def symmetric_pair_def)
  then show ?thesis by (auto simp: pair_balance_def max_def)
qed

section \<open>The contract of an operation\<close>

locale ledger_operation =
  fixes step :: "db \<Rightarrow> db \<Rightarrow> bool"
  assumes keeps: "ledger_inv db \<Longrightarrow> step db db' \<Longrightarrow> ledger_inv db'"
begin

lemma run_keeps: "step\<^sup>*\<^sup>* db db' \<Longrightarrow> ledger_inv db \<Longrightarrow> ledger_inv db'"
  by (induction rule: rtranclp_induct) (auto intro: keeps)

end

section \<open>The engine\<close>

lemma grid_locks_sub: "grid_locks db \<Longrightarrow> set (prepare_locks db') \<subseteq> set (prepare_locks db) \<Longrightarrow> grid_locks db'"
  by (auto simp: grid_locks_def)

lemma locks_wf_fewer:
  "locks_wf db \<Longrightarrow> prepare_locks db' = filter P (prepare_locks db) \<Longrightarrow> next_uuid db \<le> next_uuid db' \<Longrightarrow> locks_wf db'"
  by (force simp: locks_wf_def list_all_iff distinct_map_filter)

text \<open>The flows of a committed payment, checked against the limits afterwards.\<close>

lemma checked_flows_keep:
  assumes inv: "ledger_inv db" and ok: "list_all exact_flow fs"
    and run: "fold_res flow_step fs db = Inr db1" and chk: "check_flows fs db db1 = Inr ()"
  shows "ledger_inv db1"
proof -
  note wf = tables_wfD [OF ledger_invD(1) [OF inv]]
  have only: "debts_only db db1" by (rule flows_debts_only [OF wf(1) ok run])
  note fr = debts_onlyD [OF only]
  have wf1: "debts_wf db1" using net_run.run_effect [OF wf(1) ok run] by blast
  have sym: "symmetric_ledger db1"
    using ledger_invD(2) [OF inv] flows_symmetric(1) [OF wf(1) ok run] by (simp add: symmetric_ledger_def)
  have bal: "pair_balance k db1 = pair_balance k db + sum_list (map (\<lambda>f. balance_delta f k) fs)" for k
    using balance_run.run_effect [OF wf(1) ok run] by blast
  have lim: "\<forall>f \<in> set fs. flow_within_limits db1 f"
    using chk check_flows_eq [OF wf(1,2) ok run] by (auto split: if_splits)
  have within: "within_limit db1 x y e" for x y e
  proof (cases "\<exists>f \<in> set fs. (x, y, e) \<in> {(fl_from f, fl_to f, fl_equivalent f), (fl_to f, fl_from f, fl_equivalent f)}")
    case True
    then show ?thesis using lim by (auto simp: flow_within_limits_def)
  next
    case False
    then have "map (\<lambda>f. balance_delta f (x, y, e)) fs = map (\<lambda>_. 0) fs" by (auto simp: balance_delta_def)
    then have "sum_list (map (\<lambda>f. balance_delta f (x, y, e)) fs) = 0" by (simp only: sum_list_0)
    then have "pair_balance (x, y, e) db1 = pair_balance (x, y, e) db" using bal [of "(x, y, e)"] by simp
    then have "owes db1 x y e = owes db x y e"
      using owes_balance [OF wf1 sym] owes_balance [OF wf(1) ledger_invD(2) [OF inv]] by simp
    then show ?thesis
      using ledger_invD(3) [OF inv] active_limit_debts_only [OF only] by (simp add: limits_kept_def within_limit_def)
  qed
  have "on_grid (owes db1 x y e)" for x y e by (rule owes_grid [OF wf1])
  moreover have "locks_wf db1" using wf(4) fr(5,8) by (auto simp: locks_wf_def list_all_iff)
  ultimately show ?thesis
    using wf1 sym within trust_lines_wf_debts_only [OF only wf(2)] wf(3) fr(1,5) ledger_invD(5) [OF inv]
    by (simp add: ledger_inv_def tables_wf_def no_self_lines_def limits_kept_def grid_debts_def grid_locks_def)
qed

lemma add_locks_next: "add_locks tx ex entries db = Inr db' \<Longrightarrow> next_uuid db \<le> next_uuid db'"
  by (auto simp: add_locks_def split: if_splits)

lemma mark_prepared_locks [simp]:
  "locks_wf (mark_prepared tx db) = locks_wf db" "next_uuid (mark_prepared tx db) = next_uuid db"
  by (simp_all add: mark_prepared_def locks_wf_def)

lemma prepare_locks_wf:
  assumes wf: "tables_wf db" and v: "0 < v" and prep: "prepare utcnow ttl tx path v e db = Inr db'"
  shows "locks_wf db' \<and> next_uuid db \<le> next_uuid db'"
  using prep
proof (cases rule: prepare_Inr_cases)
  case same
  then show ?thesis using tables_wfD(4) [OF wf] by simp
next
  case (locked t entries db1)
  let ?segs = "segments_of (map (\<lambda>p. the (id_of_pid p db)) path)"
  have entries: "entries = map (\<lambda>(s, r). (s, [mk_raw_flow s r v e])) ?segs"
    and fit: "\<forall>(s, r) \<in> set ?segs. v + reserved db s r e \<le> segment_capacity s r e db"
    using prepare_segments [OF tables_wfD(4) [OF wf] locked(2,5)] by auto
  have "list_all entry_ok entries"
    using fit segment_positive [OF tables_wfD(3,4) [OF wf] v] v by (auto simp: entries entry_ok_def list_all_iff flow_ok_def)
  then have "locks_wf db1" by (rule add_locks_wf [OF tables_wfD(4) [OF wf] locked(6)])
  then show ?thesis using add_locks_next [OF locked(6)] by (simp add: locked(7))
qed

lemma prepare_routes_locks_wf:
  assumes wf: "tables_wf db" and prep: "prepare_routes utcnow ttl tx routes e db = Inr db'"
  shows "locks_wf db' \<and> next_uuid db \<le> next_uuid db'"
  using prep
proof (cases rule: prepare_routes_Inr_cases)
  case same
  then show ?thesis using tables_wfD(4) [OF wf] by simp
next
  case (locked t st db1)
  let ?I = "\<lambda>st. list_all entry_ok (fst st) \<and> (\<forall>k. 0 \<le> snd st k)"
  have "?I st"
  proof (rule fold_res_preserves [where I = ?I, OF locked(5)])
    fix x st1 st2
    assume x: "x \<in> set (route_segments db routes)" and st1: "?I st1"
      and step: "prepare_route_segment tx e db x st1 = Inr st2"
    obtain s r v where xv: "x = (s, r, v)" by (cases x)
    have v: "0 < v" using route_segments_positive [OF locked(4)] x xv by blast
    have fit: "v + (reserved db s r e + snd st1 (s, r)) \<le> segment_capacity s r e db"
      and st2: "st2 = (append_flow s (mk_raw_flow s r v e) (fst st1), (snd st1)((s, r) := snd st1 (s, r) + v))"
      using step by (auto simp: xv prepare_route_segment_def capacity_and_reserved [OF tables_wfD(4) [OF wf] locked(2)]
          not_less split: if_splits)
    have "v + reserved db s r e \<le> segment_capacity s r e db"
      using order_trans [OF _ fit, of "v + reserved db s r e"] st1 by simp
    then have "s \<noteq> r" by (rule segment_positive [OF tables_wfD(3,4) [OF wf] v])
    then have "flow_ok \<lparr>fl_equivalent = e, fl_from = s, fl_to = r, fl_amount = v\<rparr>" using v by (simp add: flow_ok_def)
    then show "?I st2"
      using st1 v entries_append_flow(1) [of "fst st1" _ "mk_raw_flow s r v e" s] by (auto simp: st2 add_increasing2)
  qed simp
  then have "locks_wf db1" by (intro add_locks_wf [OF tables_wfD(4) [OF wf] locked(6)]) simp
  then show ?thesis using add_locks_next [OF locked(6)] by (simp add: locked(7))
qed

lemma ledger_inv_drop_locks:
  assumes "ledger_inv db"
  shows "ledger_inv (delete_prepare_locks tx db)"
  by (rule ledger_inv_cong [OF _ _ _ _ _ assms])
    (use tables_wfD(4) [OF ledger_invD(1) [OF assms]] ledger_invD(5) [OF assms] in
      \<open>auto intro: locks_wf_fewer grid_locks_sub\<close>)

lemma ledger_inv_same:
  assumes "debts db' = debts db" and "trust_lines db' = trust_lines db" and "prepare_locks db' = prepare_locks db"
    and "next_uuid db' = next_uuid db"
  shows "ledger_inv db' = ledger_inv db"
proof -
  have "locks_wf db' = locks_wf db" "grid_locks db' = grid_locks db"
    using assms by (simp_all add: locks_wf_def grid_locks_def)
  moreover have "ledger_inv a \<Longrightarrow> locks_wf a \<and> grid_locks a" for a
    using ledger_invD(1,5) tables_wfD(4) by blast
  ultimately show ?thesis
    using ledger_inv_cong [of db' db] ledger_inv_cong [of db db'] assms by (metis order_refl)
qed

lemma ledger_inv_update_tx [simp]: "ledger_inv (update_tx tx g db) = ledger_inv db"
  by (rule ledger_inv_same) simp_all

lemma ledger_inv_audit [simp]: "ledger_inv (db\<lparr>audit_log := a\<rparr>) = ledger_inv db"
  by (rule ledger_inv_same) simp_all

lemma ledger_inv_transactions [simp]: "ledger_inv (db\<lparr>transactions := ts\<rparr>) = ledger_inv db"
  by (rule ledger_inv_same) simp_all

lemma abort_keeps:
  assumes "ledger_inv db" and "abort_reads db env" and "abort pg n cf held tx reason code details env = (r, Some db')"
  shows "ledger_inv db'"
  using assms(2,3) by (cases rule: abort_step_cases) (simp_all add: ledger_inv_drop_locks [OF assms(1)])

lemma write_committed_keeps:
  assumes "ledger_inv db1"
  shows "ledger_inv (write_committed tx pl fs db db1)"
proof -
  have "ledger_inv (db1\<lparr>audit_log := audit_log db1 @ map (audit_payment tx pl db db1) (affected_equivalents fs)\<rparr>)"
    using assms by simp
  from ledger_inv_drop_locks [OF this, of tx] show ?thesis by (simp add: write_committed_def)
qed

lemma commit_keeps:
  assumes inv: "ledger_inv db" and "commit_reads db env" and "commit_tx pg n cf tx env = (r, Some db')"
  shows "ledger_inv db'"
  using assms(2,3)
proof (cases rule: commit_step_cases)
  case (committed t vs db1)
  have lw: "locks_wf db" using tables_wfD(4) [OF ledger_invD(1) [OF inv]] .
  have same: "mset (validated_flows vs) = mset (tx_flows tx db)"
    using parse_tx_locks [OF lw committed(6)] committed(4) by (metis sum.inject(2))
  have "list_all exact_flow (validated_flows vs)"
    using list_all_mset [OF same] tx_flows_exact [OF lw tx_flows_grid [OF ledger_invD(5) [OF inv]]] by simp
  then have "ledger_inv db1" by (rule checked_flows_keep [OF inv _ committed(7,8)])
  then show ?thesis unfolding committed(9) by (rule write_committed_keeps)
next
  case (aborted x held reason code details out i)
  then show ?thesis using abort_keeps [OF inv] by blast
qed

interpretation engine_op: ledger_operation "\<lambda>db db'. engine_step db db' \<and> grid_locks db'"
proof
  fix db db' assume inv: "ledger_inv db" and "engine_step db db' \<and> grid_locks db'"
  then have step: "engine_step db db'" and grid: "grid_locks db'" by simp_all
  note wf = ledger_invD(1) [OF inv]
  from step show "ledger_inv db'"
  proof (cases rule: engine_step.cases)
    case (step_prepare v utcnow ttl tx path e)
    show ?thesis
      using prepare_frame(1,2) [OF step_prepare(2)] prepare_locks_wf [OF wf step_prepare]
      by (intro ledger_inv_cong [OF _ _ _ _ grid inv]) simp_all
  next
    case (step_prepare_routes utcnow ttl tx routes e)
    show ?thesis
      using prepare_routes_frame(1,2) [OF step_prepare_routes] prepare_routes_locks_wf [OF wf step_prepare_routes]
      by (intro ledger_inv_cong [OF _ _ _ _ grid inv]) simp_all
  next
    case (step_commit env pg n cf tx r)
    then show ?thesis using commit_keeps [OF inv] by blast
  next
    case (step_abort env pg n cf held tx reason code details r)
    then show ?thesis using abort_keeps [OF inv] by blast
  next
    case (step_time now)
    then show ?thesis using inv ledger_inv_same [of db' db] by simp
  next
    case (step_new_tx t)
    then show ?thesis using inv by simp
  qed
qed

section \<open>Clearing\<close>

inductive clearing_step :: "db \<Rightarrow> db \<Rightarrow> bool" where
  step_clear: "\<forall>d \<in> set (debts db). Some (debt_id d) \<in> ed_debt ` set cycle \<longrightarrow> debt_equivalent d = e
    \<Longrightarrow> execute_clearing_with_amount uuid5 is_postgres allowed_pids cycle env db = (r, Some db')
    \<Longrightarrow> clearing_step db db'"

lemma executed_keeps:
  assumes ex: "executed e ds db db'" and inv: "ledger_inv db"
  shows "ledger_inv db'"
proof -
  note wf = tables_wfD [OF ledger_invD(1) [OF inv]] and fr = executed_frame [OF ex]
  have ds: "ds \<noteq> []" "set ds \<subseteq> set (debts db)" "0 < least ds" using ex by (auto simp: executed_def)
  have grid: "on_grid (least ds)" by (rule least_grid(2) [OF wf(1) ds(2,1)])
  have le: "owes db' x y e' \<le> owes db x y e'" for x y e' using fr(8) ds(3) by simp
  have lim: "active_limit x y e' db' = active_limit x y e' db" for x y e'
    using fr(2) by (simp add: active_limit_def get_active_line_def)
  have "trust_lines_wf db'" "locks_wf db'"
    using wf(2,4) fr(2,3,5) by (fastforce simp: trust_lines_wf_def, fastforce simp: locks_wf_def list_all_iff)
  moreover have "symmetric_ledger db'"
    using ledger_invD(2) [OF inv] le unfolding symmetric_ledger_def symmetric_pair_def by (meson order_less_le_trans)
  moreover have "limits_kept db'"
    using ledger_invD(3) [OF inv] le lim unfolding limits_kept_def within_limit_def by (metis order_trans)
  moreover have "grid_debts db'" using ledger_invD(4) [OF inv] fr(8) grid by (auto simp: grid_debts_def)
  ultimately show ?thesis
    using fr(1-3) wf(3) ledger_invD(5) [OF inv]
    by (simp add: ledger_inv_def tables_wf_def no_self_lines_def grid_locks_def)
qed

interpretation clearing_op: ledger_operation clearing_step
proof
  fix db db' assume inv: "ledger_inv db" and step: "clearing_step db db'"
  from step show "ledger_inv db'"
  proof (cases rule: clearing_step.cases)
    case (step_clear cycle e uuid5 is_postgres allowed_pids env r)
    obtain il aids where "execute_clearing_with_amount_inner uuid5 il aids allowed_pids cycle env db = (r, Some db')"
      using public_Some [OF step_clear(2)] by blast
    then show ?thesis
      using inner_executed_same [OF tables_wfD(1) [OF ledger_invD(1) [OF inv]] _ step_clear(1)] executed_keeps [OF _ inv]
      by blast
  qed
qed

end
