(* ===== verification/Line_Operations.thy ===== *)
theory Line_Operations
  imports Trust_Lines Hub_Invariant
begin

text \<open>
  The trust-line service as operations on the ledger: what creating, updating and closing a line
  leave of the tables, and that each keeps the hub's invariant. The step relation \<open>line_step\<close>
  collects them.
\<close>

section \<open>Rounding to the column\<close>

lemma round8_nonneg: "0 \<le> v \<Longrightarrow> 0 \<le> round8 v"
  by (simp add: round8_def)

lemma round8_above_grid:
  assumes "on_grid u" and "u \<le> v" and "0 \<le> v"
  shows "u \<le> round8 v"
proof -
  obtain k :: int where k: "u * 10 ^ 8 = of_int k" using assms(1) by (auto simp: on_grid_def elim: Ints_cases)
  have "of_int k \<le> v * 10 ^ 8" using assms(2) by (simp flip: k)
  then have "k \<le> \<lfloor>v * 10 ^ 8 + 1 / 2\<rfloor>" by (simp add: le_floor_iff)
  then have "u * 10 ^ 8 \<le> of_int \<lfloor>v * 10 ^ 8 + 1 / 2\<rfloor>" unfolding k by (simp only: of_int_le_iff)
  then show ?thesis using assms(3) by (simp add: round8_def)
qed

section \<open>One changed row\<close>

lemma distinct_filter_upd:
  assumes "distinct (map f (filter P rows))"
    and "\<And>r. r \<in> set rows \<Longrightarrow> key r = k \<Longrightarrow> f (g r) = f r \<and> (P (g r) \<longrightarrow> P r)"
  shows "distinct (map f (filter P (upd_row key k g rows)))"
proof -
  have sub: "f ` set (filter P (upd_row key k g rs)) \<subseteq> f ` set (filter P rs)"
    if "\<And>r. r \<in> set rs \<Longrightarrow> key r = k \<Longrightarrow> f (g r) = f r \<and> (P (g r) \<longrightarrow> P r)" for rs
  proof
    fix y assume "y \<in> f ` set (filter P (upd_row key k g rs))"
    then obtain r where "r \<in> set rs" "P (if key r = k then g r else r)" "y = f (if key r = k then g r else r)"
      by (auto simp: set_upd_row)
    then have "r \<in> set (filter P rs)" "y = f r" using that [of r] by (auto split: if_splits)
    then show "y \<in> f ` set (filter P rs)" by blast
  qed
  show ?thesis using assms
  proof (induction rows)
    case (Cons r rows)
    have "f ` set (filter P (upd_row key k g rows)) \<subseteq> f ` set (filter P rows)" using Cons.prems(2) by (intro sub) simp
    then show ?case using Cons by (auto split: if_splits)
  qed simp
qed

lemma upd_row_unique:
  assumes "distinct (map key rows)" and "t \<in> set rows" and "key t = k" and "key (g t) = k"
  shows "set (upd_row key k g rows) = insert (g t) {r \<in> set rows. key r \<noteq> k}"
    and "map key (upd_row key k g rows) = map key rows"
proof -
  have one: "r = t" if "r \<in> set rows" "key r = k" for r
    using distinct_map_unique [OF assms(1) that(1) assms(2)] that(2) assms(3) by simp
  show "set (upd_row key k g rows) = insert (g t) {r \<in> set rows. key r \<noteq> k}"
  proof -
    let ?rest = "{r \<in> set rows. key r \<noteq> k}" and ?h = "\<lambda>r. if key r = k then g r else r"
    have "set rows = insert t ?rest" using one assms(2) by blast
    then have "set (upd_row key k g rows) = ?h ` insert t ?rest" unfolding set_upd_row by simp
    also have "\<dots> = insert (g t) (?h ` ?rest)" using assms(3) by (simp only: image_insert refl if_True)
    also have "?h ` ?rest = (\<lambda>r. r) ` ?rest" by (rule image_cong) simp_all
    finally show ?thesis by simp
  qed
  have "map key (upd_row key k g rs) = map key rs" if "\<And>r. r \<in> set rs \<Longrightarrow> key r = k \<Longrightarrow> key (g r) = k" for rs
    using that by (induction rs) auto
  then show "map key (upd_row key k g rows) = map key rows" using one assms(4) by blast
qed

lemma option_eqI: "(\<And>r. a = Some r \<longleftrightarrow> b = Some r) \<Longrightarrow> a = b"
  by (metis not_Some_eq)

text \<open>A live line whose limit, policy or status changes; its key and its identifier do not.\<close>

lemma changed_line:
  assumes wf: "trust_lines_wf db" and t: "get_trust_line i db = Some t" and live: "tl_status t \<noteq> Closed"
    and t': "g t = t'" "tl_id t' = i" "tl_key t' = tl_key t" "0 \<le> tl_limit t'" "column_value (tl_limit t')"
    and db': "trust_lines db' = upd_row tl_id i g (trust_lines db)" "next_uuid db' = next_uuid db"
  shows "trust_lines_wf db'"
    and "active_limit x y e db' = (if (x, y, e) = tl_key t then if tl_status t' = Active then tl_limit t' else 0
      else active_limit x y e db)"
proof -
  have dist: "distinct (map tl_id (trust_lines db))" using wf by (simp add: trust_lines_wf_def)
  have mem: "t \<in> set (trust_lines db)" "tl_id t = i" using t by (auto simp: get_trust_line_def dest: find_SomeD)
  note upd = upd_row_unique [OF dist mem, of g, unfolded t'(1), OF t'(2)]
  have rows: "set (trust_lines db') = insert t' {r \<in> set (trust_lines db). tl_id r \<noteq> i}"
    and ids: "map tl_id (trust_lines db') = map tl_id (trust_lines db)" using upd by (simp_all add: db')
  have one: "r = t" if "r \<in> set (trust_lines db)" "tl_id r = i" for r
    using distinct_map_unique [OF dist that(1) mem(1)] that(2) mem(2) by simp
  have "distinct (map tl_key (filter (\<lambda>t. tl_status t \<noteq> Closed) (trust_lines db')))"
    unfolding db'(1) by (rule distinct_filter_upd)
      (use wf one t'(1,3) live in \<open>auto simp: trust_lines_wf_def\<close>)
  then show wf': "trust_lines_wf db'"
    using wf rows ids t'(2,4,5) mem db'(2) by (auto simp: trust_lines_wf_def)
  have other: "tl_key r \<noteq> tl_key t" if "r \<in> set (trust_lines db)" "tl_id r \<noteq> i" "tl_status r \<noteq> Closed" for r
  proof
    assume key: "tl_key r = tl_key t"
    have keys: "distinct (map tl_key (filter (\<lambda>t. tl_status t \<noteq> Closed) (trust_lines db)))"
      using wf by (simp add: trust_lines_wf_def)
    have "r \<in> set (filter (\<lambda>t. tl_status t \<noteq> Closed) (trust_lines db))"
      "t \<in> set (filter (\<lambda>t. tl_status t \<noteq> Closed) (trust_lines db))" using that mem live by simp_all
    then have "r = t" by (rule distinct_map_unique [OF keys]) (rule key)
    then show False using that(2) mem(2) by simp
  qed
  have line: "get_active_line x y e db' = (if (x, y, e) = tl_key t then if tl_status t' = Active then Some t' else None
      else get_active_line x y e db)"
  proof (rule option_eqI)
    fix r
    have own: "tl_key r = tl_key t" if "r \<in> set (trust_lines db)" "tl_id r = i" using one [OF that] by simp
    have mem': "r \<in> set (trust_lines db') \<longleftrightarrow> r = t' \<or> r \<in> set (trust_lines db) \<and> tl_id r \<noteq> i" using rows by simp
    have "r \<in> set (trust_lines db') \<and> tl_key r = (x, y, e) \<and> tl_status r = Active \<longleftrightarrow>
      (if (x, y, e) = tl_key t then r = t' \<and> tl_status t' = Active
       else r \<in> set (trust_lines db) \<and> tl_key r = (x, y, e) \<and> tl_status r = Active)"
      unfolding mem' using other [of r] own t'(3) by (metis tl_status_t.distinct(3))
    then show "get_active_line x y e db' = Some r \<longleftrightarrow>
      (if (x, y, e) = tl_key t then if tl_status t' = Active then Some t' else None else get_active_line x y e db) = Some r"
      by (auto simp: get_active_line_iff [OF wf] get_active_line_iff [OF wf'])
  qed
  show "active_limit x y e db' = (if (x, y, e) = tl_key t then if tl_status t' = Active then tl_limit t' else 0
      else active_limit x y e db)"
    by (simp add: active_limit_def line)
qed

section \<open>What the operations leave\<close>

lemma append_audit_frame [simp]:
  "debts (append_audit a db) = debts db" "trust_lines (append_audit a db) = trust_lines db"
  "prepare_locks (append_audit a db) = prepare_locks db" "next_uuid (append_audit a db) = next_uuid db"
  "participants (append_audit a db) = participants db" "equivalents (append_audit a db) = equivalents db"
  "transactions (append_audit a db) = transactions db" "db_now (append_audit a db) = db_now db"
  "audit_log (append_audit a db) = audit_log db @ [a]"
  by (simp_all add: append_audit_def)

lemma ledger_inv_append_audit [simp]: "ledger_inv (append_audit a db) = ledger_inv db"
  by (simp add: append_audit_def)

lemma create_Inr:
  assumes "create verify p req env cache = Inr (resp, db', cache')"
  obtains y and q :: equivalent and stored and t :: trust_line and a where "p \<noteq> y" and "get_participant_by_id p (te_read env) \<noteq> None"
    and "signature_ok verify (part_public_key (the (get_participant_by_id p (te_read env)))) (create_signed_payload req) (cr_signature req)"
    and "store_numeric ''INSERT INTO TRUST_LINES'' (dec_value (cr_limit req)) = Inr stored" and "0 \<le> stored"
    and "live_line p y (equiv_id q) (te_flush env) = None"
    and "t = \<lparr>tl_id = next_uuid (te_flush env), tl_from = p, tl_to = y, tl_equivalent = equiv_id q, tl_limit = stored,
          tl_policy = Some (case cr_policy req of None \<Rightarrow> [] | Some pol \<Rightarrow> policy_json pol), tl_status = Active,
          tl_created_at = db_now (te_flush env)\<rparr>"
    and "(case cr_policy req of None \<Rightarrow> Inr () | Some pol \<Rightarrow> validate_trustline_policy pol) = Inr ()"
    and "db' = append_audit a ((te_flush env)\<lparr>trust_lines := trust_lines (te_flush env) @ [t],
          next_uuid := Suc (next_uuid (te_flush env))\<rparr>)"
    and "a = audit_trust_line TRUST_LINE_CREATE t (te_read env) ((te_flush env)\<lparr>trust_lines := trust_lines (te_flush env) @ [t],
          next_uuid := Suc (next_uuid (te_flush env))\<rparr>)"
    and "hydrate_trustline db' t = Inr resp" and "equiv_code q = cr_equivalent req"
    and "cache' = invalidate_cache (Some (cr_equivalent req)) cache"
proof -
  obtain s y and q :: equivalent where s: "get_participant_by_id p (te_read env) = Some s"
      "signature_ok verify (part_public_key s) (create_signed_payload req) (cr_signature req)"
    and pol: "(case cr_policy req of None \<Rightarrow> Inr () | Some pol \<Rightarrow> validate_trustline_policy pol) = Inr ()"
    and y: "p \<noteq> y" and q: "get_equivalent_by_code (cr_equivalent req) (te_read env) = Some q"
    and chk: "create_checked req p y q env cache = Inr (resp, db', cache')"
    using assms by (auto simp: create_def Let_def split: if_splits option.splits sum.splits)
  have code: "equiv_code q = cr_equivalent req" using q by (auto simp: get_equivalent_by_code_def dest: find_SomeD)
  obtain t db1 where ins: "insert_trust_line p y (equiv_id q) (dec_value (cr_limit req))
      (case cr_policy req of None \<Rightarrow> [] | Some p \<Rightarrow> policy_json p) (te_flush env) = Inr (t, db1)"
    and hyd: "hydrate_trustline (append_audit (audit_trust_line TRUST_LINE_CREATE t (te_read env) db1) db1) t = Inr resp"
    and db': "db' = append_audit (audit_trust_line TRUST_LINE_CREATE t (te_read env) db1) db1"
    and c': "cache' = invalidate_cache (Some (equiv_code q)) cache"
    using chk by (auto simp: create_checked_def Let_def split: if_splits option.splits sum.splits insert_error.splits)
  obtain stored where st: "store_numeric ''INSERT INTO TRUST_LINES'' (dec_value (cr_limit req)) = Inr stored"
    using ins by (auto simp: insert_trust_line_def split: sum.splits)
  show ?thesis
    by (rule that [OF y, of stored q t]) (use s pol ins hyd db' c' code st in
      \<open>auto simp: insert_trust_line_def Let_def split: if_splits\<close>)
qed

lemma owned_live_line_Inr:
  assumes "owned_live_line verify i user payload sig db = Inr t"
  shows "get_trust_line i db = Some t" and "tl_from t = user" and "tl_status t \<noteq> Closed"
    and "\<exists>p. get_participant_by_id user db = Some p \<and> signature_ok verify (part_public_key p) payload sig"
  using assms by (auto simp: owned_live_line_def split: option.splits if_splits)

lemma finish_line_Inr:
  assumes "finish_line op t before after cache = Inr (db', cache')"
  obtains q :: equivalent where "get_equivalent_by_id (tl_equivalent t) after = Some q"
    and "db' = append_audit (audit_trust_line op t before after) after"
    and "cache' = invalidate_cache (Some (equiv_code q)) cache"
  using assms by (auto simp: finish_line_def split: option.splits)

lemma update_Inr:
  assumes "update verify i user req db cache = Inr (resp, db', cache')"
  obtains t t' :: trust_line and stored and q :: equivalent where "owned_live_line verify i user (update_signed_payload i req) (ur_signature req) db = Inr t"
    and "check_new_limit t (ur_limit req) db = Inr ()" and "stored_limit t (ur_limit req) = Inr stored"
    and "(case ur_policy req of None \<Rightarrow> Inr () | Some pol \<Rightarrow> validate_trustline_policy pol) = Inr ()"
    and "t' = t\<lparr>tl_limit := stored, tl_policy := (case ur_policy req of None \<Rightarrow> tl_policy t
          | Some p \<Rightarrow> Some (merge_policy (tl_policy t) (policy_json p)))\<rparr>"
    and "get_equivalent_by_id (tl_equivalent t) db = Some q"
    and "db' = append_audit (audit_trust_line TRUST_LINE_UPDATE t' db (update_line i (\<lambda>_. t') db)) (update_line i (\<lambda>_. t') db)"
    and "hydrate_trustline db' t' = Inr resp" and "cache' = invalidate_cache (Some (equiv_code q)) cache"
proof -
  obtain t stored where t: "owned_live_line verify i user (update_signed_payload i req) (ur_signature req) db = Inr t"
      "check_new_limit t (ur_limit req) db = Inr ()" "stored_limit t (ur_limit req) = Inr stored"
      "(case ur_policy req of None \<Rightarrow> Inr () | Some pol \<Rightarrow> validate_trustline_policy pol) = Inr ()"
    using assms by (auto simp: update_def split: sum.splits)
  define t' where "t' = t\<lparr>tl_limit := stored, tl_policy := (case ur_policy req of None \<Rightarrow> tl_policy t
          | Some p \<Rightarrow> Some (merge_policy (tl_policy t) (policy_json p)))\<rparr>"
  have fin: "finish_line TRUST_LINE_UPDATE t' db (update_line i (\<lambda>_. t') db) cache = Inr (db', cache')"
    and hyd: "hydrate_trustline db' t' = Inr resp"
    using assms t unfolding update_def t'_def [symmetric] by (auto simp: Let_def t'_def split: sum.splits)
  from fin obtain q :: equivalent where "get_equivalent_by_id (tl_equivalent t') (update_line i (\<lambda>_. t') db) = Some q"
    "db' = append_audit (audit_trust_line TRUST_LINE_UPDATE t' db (update_line i (\<lambda>_. t') db)) (update_line i (\<lambda>_. t') db)"
    "cache' = invalidate_cache (Some (equiv_code q)) cache" by (rule finish_line_Inr)
  then show ?thesis using that [OF t t'_def, of q] hyd by (simp add: t'_def get_equivalent_by_id_def update_line_def)
qed

lemma close_Inr:
  assumes "close verify i user sig db cache = Inr (db', cache')"
  obtains t :: trust_line and q :: equivalent where "owned_live_line verify i user [(''id'', VStr (uuid_str i))] sig db = Inr t"
    and "get_used_amount t db \<le> 0" and "get_reverse_used_amount t db \<le> 0"
    and "get_equivalent_by_id (tl_equivalent t) db = Some q"
    and "db' = append_audit (audit_trust_line TRUST_LINE_CLOSE (t\<lparr>tl_status := Closed\<rparr>) db
          (update_line i (\<lambda>r. r\<lparr>tl_status := Closed\<rparr>) db)) (update_line i (\<lambda>r. r\<lparr>tl_status := Closed\<rparr>) db)"
    and "cache' = invalidate_cache (Some (equiv_code q)) cache"
proof -
  obtain t where t: "owned_live_line verify i user [(''id'', VStr (uuid_str i))] sig db = Inr t"
      "get_used_amount t db \<le> 0" "get_reverse_used_amount t db \<le> 0"
    and fin: "finish_line TRUST_LINE_CLOSE (t\<lparr>tl_status := Closed\<rparr>) db (update_line i (\<lambda>r. r\<lparr>tl_status := Closed\<rparr>) db) cache
      = Inr (db', cache')"
    using assms by (auto simp: close_def Let_def not_less split: sum.splits if_splits)
  from fin obtain q :: equivalent where "get_equivalent_by_id (tl_equivalent (t\<lparr>tl_status := Closed\<rparr>)) (update_line i (\<lambda>r. r\<lparr>tl_status := Closed\<rparr>) db) = Some q"
    "db' = append_audit (audit_trust_line TRUST_LINE_CLOSE (t\<lparr>tl_status := Closed\<rparr>) db
          (update_line i (\<lambda>r. r\<lparr>tl_status := Closed\<rparr>) db)) (update_line i (\<lambda>r. r\<lparr>tl_status := Closed\<rparr>) db)"
    "cache' = invalidate_cache (Some (equiv_code q)) cache" by (rule finish_line_Inr)
  then show ?thesis using that [OF t] by (simp add: get_equivalent_by_id_def update_line_def)
qed

section \<open>The operations keep the invariant\<close>

lemma create_active_limit:
  assumes wf: "trust_lines_wf db" and none: "live_line (tl_from t) (tl_to t) (tl_equivalent t) db = None"
    and t: "tl_id t = next_uuid db" "tl_status t = Active" "0 \<le> tl_limit t" "column_value (tl_limit t)"
    and db': "trust_lines db' = trust_lines db @ [t]" "next_uuid db' = Suc (next_uuid db)"
  shows "trust_lines_wf db'"
    and "active_limit x y e db' = (if (x, y, e) = tl_key t then tl_limit t else active_limit x y e db)"
proof -
  have fresh: "tl_key r \<noteq> tl_key t" if "r \<in> set (trust_lines db)" "tl_status r \<noteq> Closed" for r
    using none that by (auto simp: live_line_def find_None_iff tl_key_def)
  show wf': "trust_lines_wf db'"
  proof -
    have "tl_key t \<notin> tl_key ` set (filter (\<lambda>t. tl_status t \<noteq> Closed) (trust_lines db))"
    proof
      assume "tl_key t \<in> tl_key ` set (filter (\<lambda>t. tl_status t \<noteq> Closed) (trust_lines db))"
      then obtain r where "r \<in> set (trust_lines db)" "tl_status r \<noteq> Closed" "tl_key r = tl_key t" by auto
      then show False using fresh by blast
    qed
    moreover have "next_uuid db \<notin> tl_id ` set (trust_lines db)" using wf by (auto simp: trust_lines_wf_def)
    ultimately show ?thesis using wf t unfolding trust_lines_wf_def db' by (auto simp: less_Suc_eq)
  qed
  have line: "get_active_line x y e db' = (if (x, y, e) = tl_key t then Some t else get_active_line x y e db)"
  proof (rule option_eqI)
    fix r
    show "get_active_line x y e db' = Some r \<longleftrightarrow> (if (x, y, e) = tl_key t then Some t else get_active_line x y e db) = Some r"
      using fresh [of r] t(2)
      by (auto simp: get_active_line_iff [OF wf] get_active_line_iff [OF wf'] db')
  qed
  show "active_limit x y e db' = (if (x, y, e) = tl_key t then tl_limit t else active_limit x y e db)"
    by (simp add: active_limit_def line)
qed

text \<open>A change of the trust lines alone, after which no debt is above its limit.\<close>

lemma lines_change_keeps:
  assumes inv: "ledger_inv db" and wf: "trust_lines_wf db'" and self: "no_self_lines db'"
    and fr: "debts db' = debts db" "prepare_locks db' = prepare_locks db" "next_uuid db \<le> next_uuid db'"
    and lim: "\<And>x y e. owes db x y e \<le> active_limit y x e db'"
  shows "ledger_inv db'"
proof -
  have owes: "owes db' x y e = owes db x y e" for x y e using fr(1) by (simp add: owes_def get_debt_def)
  have "debts_wf db'" "locks_wf db'"
    using tables_wfD(1,4) [OF ledger_invD(1) [OF inv]] fr
    by (fastforce simp: debts_wf_def, fastforce simp: locks_wf_def list_all_iff)
  then show ?thesis
    using inv wf self lim fr(2) owes
    by (simp add: ledger_inv_def tables_wf_def symmetric_ledger_def symmetric_pair_def limits_kept_def
        within_limit_def grid_debts_def grid_locks_def)
qed

lemma no_live_no_debt:
  assumes inv: "ledger_inv db" and "live_line x y e db = None"
  shows "owes db y x e \<le> 0"
proof -
  have "get_active_line x y e db = None"
    using assms(2) by (auto simp: live_line_def get_active_line_def find_None_iff)
  then show ?thesis
    using ledger_invD(3) [OF inv] unfolding limits_kept_def within_limit_def active_limit_def by (metis option.simps(4))
qed

lemma create_keeps:
  assumes inv: "ledger_inv (te_flush env)" and cr: "create verify p req env cache = Inr (resp, db', cache')"
  shows "ledger_inv db'"
  using cr
proof (rule create_Inr)
  fix y and q :: equivalent and stored and t :: trust_line and a
  assume y: "p \<noteq> y" and st: "0 \<le> stored" and col: "store_numeric ''INSERT INTO TRUST_LINES'' (dec_value (cr_limit req)) = Inr stored"
    and none: "live_line p y (equiv_id q) (te_flush env) = None"
    and t: "t = \<lparr>tl_id = next_uuid (te_flush env), tl_from = p, tl_to = y, tl_equivalent = equiv_id q, tl_limit = stored,
          tl_policy = Some (case cr_policy req of None \<Rightarrow> [] | Some pol \<Rightarrow> policy_json pol), tl_status = Active,
          tl_created_at = db_now (te_flush env)\<rparr>"
    and db': "db' = append_audit a ((te_flush env)\<lparr>trust_lines := trust_lines (te_flush env) @ [t],
          next_uuid := Suc (next_uuid (te_flush env))\<rparr>)"
  note wf = tables_wfD [OF ledger_invD(1) [OF inv]]
  have tl: "trust_lines_wf db'" and lim: "active_limit u v e db' = (if (u, v, e) = (p, y, equiv_id q) then stored
      else active_limit u v e (te_flush env))" for u v e
    using create_active_limit [OF wf(2), of t db'] none st store_numeric_Inr(2) [OF col] by (simp_all add: t db' tl_key_def)
  show ?thesis
  proof (rule lines_change_keeps [OF inv tl])
    fix u v e
    show "owes (te_flush env) u v e \<le> active_limit v u e db'"
      using ledger_invD(3) [OF inv] no_live_no_debt [OF inv none] st
      by (auto simp: lim limits_kept_def within_limit_def)
  qed (use wf(3) y in \<open>auto simp: db' t no_self_lines_def\<close>)
qed

lemma no_self_upd:
  "no_self_lines db \<Longrightarrow> (\<And>r. r \<in> set (trust_lines db) \<Longrightarrow> tl_id r = i \<Longrightarrow> tl_from (g r) \<noteq> tl_to (g r)) \<Longrightarrow> no_self_lines (update_line i g db)"
  by (auto simp: no_self_lines_def update_line_def list_all_iff set_upd_row)

lemma update_keeps:
  assumes inv: "ledger_inv db" and up: "update verify i user req db cache = Inr (resp, db', cache')"
  shows "ledger_inv db'"
  using up
proof (rule update_Inr)
  fix t t' :: trust_line and stored and q :: equivalent
  assume own: "owned_live_line verify i user (update_signed_payload i req) (ur_signature req) db = Inr t"
    and chk: "check_new_limit t (ur_limit req) db = Inr ()" and st: "stored_limit t (ur_limit req) = Inr stored"
    and t': "t' = t\<lparr>tl_limit := stored, tl_policy := (case ur_policy req of None \<Rightarrow> tl_policy t
          | Some p \<Rightarrow> Some (merge_policy (tl_policy t) (policy_json p)))\<rparr>"
    and db': "db' = append_audit (audit_trust_line TRUST_LINE_UPDATE t' db (update_line i (\<lambda>_. t') db)) (update_line i (\<lambda>_. t') db)"
  note wf = tables_wfD [OF ledger_invD(1) [OF inv]] and t = owned_live_line_Inr(1-3) [OF own]
  have mem: "t \<in> set (trust_lines db)" "tl_id t = i" using t(1) by (auto simp: get_trust_line_def dest: find_SomeD)
  let ?used = "owes db (tl_to t) (tl_from t) (tl_equivalent t)"
  have used: "0 \<le> ?used" "on_grid ?used" using owes_nonneg [OF wf(1)] ledger_invD(4) [OF inv] by (simp_all add: grid_debts_def)
  have kept: "?used \<le> active_limit (tl_from t) (tl_to t) (tl_equivalent t) db"
    using ledger_invD(3) [OF inv] by (simp add: limits_kept_def within_limit_def)
  have col: "column_value stored"
    using st mem(1) wf(2) by (auto simp: stored_limit_def trust_lines_wf_def dest: store_numeric_Inr(2) split: option.splits)
  have stored: "0 \<le> stored \<and> (tl_status t = Active \<longrightarrow> ?used \<le> stored)"
  proof (cases "ur_limit req")
    case None
    have "active_limit (tl_from t) (tl_to t) (tl_equivalent t) db = tl_limit t" if "tl_status t = Active"
      using that mem(1) get_active_line_iff [OF wf(2), of "tl_from t" "tl_to t" "tl_equivalent t" t]
      by (simp add: active_limit_def tl_key_def)
    then show ?thesis using None st kept mem(1) wf(2) by (auto simp: stored_limit_def trust_lines_wf_def)
  next
    case (Some d)
    then have "?used \<le> dec_value d" using chk t(3) by (simp add: check_new_limit_def get_used_amount_def split: if_splits)
    moreover have "stored = round8 (dec_value d)" using Some st by (auto simp: stored_limit_def dest: store_numeric_Inr)
    ultimately have "?used \<le> stored" using round8_above_grid [OF used(2)] used(1) by simp
    then show ?thesis using used(1) by simp
  qed
  have key: "tl_key t' = tl_key t" "tl_id t' = i" "tl_status t' = tl_status t" "tl_limit t' = stored"
    using mem(2) by (simp_all add: t' tl_key_def)
  have tl: "trust_lines_wf db'" and lim: "active_limit u v e db' = (if (u, v, e) = tl_key t
      then if tl_status t = Active then stored else 0 else active_limit u v e db)" for u v e
    using changed_line [OF wf(2) t(1,3), of "\<lambda>_. t'" t' db'] key stored col by (simp_all add: db' update_line_def)
  have idle: "tl_status t \<noteq> Active \<Longrightarrow> ?used \<le> 0"
  proof -
    assume "tl_status t \<noteq> Active"
    have "get_active_line (tl_from t) (tl_to t) (tl_equivalent t) db \<noteq> Some r" for r
    proof
      assume "get_active_line (tl_from t) (tl_to t) (tl_equivalent t) db = Some r"
      then have r: "r \<in> set (trust_lines db)" "tl_key r = tl_key t" "tl_status r = Active"
        by (simp_all add: get_active_line_iff [OF wf(2)] tl_key_def)
      have "distinct (map tl_key (filter (\<lambda>t. tl_status t \<noteq> Closed) (trust_lines db)))"
        using wf(2) by (simp add: trust_lines_wf_def)
      then have "r = t" by (rule distinct_map_unique) (use r mem(1) t(3) in auto)
      then show False using r(3) \<open>tl_status t \<noteq> Active\<close> by simp
    qed
    then show "?used \<le> 0" using kept by (cases "get_active_line (tl_from t) (tl_to t) (tl_equivalent t) db") (auto simp: active_limit_def)
  qed
  show ?thesis
  proof (rule lines_change_keeps [OF inv tl])
    fix u v e
    show "owes db u v e \<le> active_limit v u e db'"
      using ledger_invD(3) [OF inv] stored idle
      by (cases "(v, u, e) = tl_key t") (auto simp: lim tl_key_def limits_kept_def within_limit_def)
    show "no_self_lines db'"
      using no_self_upd [OF wf(3), of i "\<lambda>_. t'"] wf(3) mem(1) by (auto simp: db' no_self_lines_def list_all_iff t')
  qed (simp_all add: db' update_line_def)
qed

lemma close_keeps:
  assumes inv: "ledger_inv db" and cl: "close verify i user sig db cache = Inr (db', cache')"
  shows "ledger_inv db'"
  using cl
proof (rule close_Inr)
  fix t :: trust_line and q :: equivalent
  assume own: "owned_live_line verify i user [(''id'', VStr (uuid_str i))] sig db = Inr t"
    and used: "get_used_amount t db \<le> 0"
    and db': "db' = append_audit (audit_trust_line TRUST_LINE_CLOSE (t\<lparr>tl_status := Closed\<rparr>) db
          (update_line i (\<lambda>r. r\<lparr>tl_status := Closed\<rparr>) db)) (update_line i (\<lambda>r. r\<lparr>tl_status := Closed\<rparr>) db)"
  note wf = tables_wfD [OF ledger_invD(1) [OF inv]] and t = owned_live_line_Inr(1-3) [OF own]
  have mem: "t \<in> set (trust_lines db)" "tl_id t = i" using t(1) by (auto simp: get_trust_line_def dest: find_SomeD)
  have nonneg: "0 \<le> tl_limit t" "column_value (tl_limit t)" using wf(2) mem(1) by (simp_all add: trust_lines_wf_def)
  have tl: "trust_lines_wf db'" and lim: "active_limit u v e db' = (if (u, v, e) = tl_key t then 0
      else active_limit u v e db)" for u v e
    using changed_line [OF wf(2) t(1,3), of "\<lambda>r. r\<lparr>tl_status := Closed\<rparr>" "t\<lparr>tl_status := Closed\<rparr>" db'] mem(2) nonneg
    by (simp_all add: db' update_line_def tl_key_def)
  show ?thesis
  proof (rule lines_change_keeps [OF inv tl])
    fix u v e
    show "owes db u v e \<le> active_limit v u e db'"
      using ledger_invD(3) [OF inv] used t(3)
      by (cases "(v, u, e) = tl_key t") (auto simp: lim tl_key_def limits_kept_def within_limit_def get_used_amount_def)
    show "no_self_lines db'"
      using no_self_upd [OF wf(3), of i "\<lambda>r. r\<lparr>tl_status := Closed\<rparr>"] wf(3) by (auto simp: db' no_self_lines_def list_all_iff)
  qed (simp_all add: db' update_line_def)
qed

inductive line_step :: "db \<Rightarrow> db \<Rightarrow> bool" where
  step_create: "te_flush env = db \<Longrightarrow> create verify p req env cache = Inr (resp, db', cache') \<Longrightarrow> line_step db db'"
| step_update: "update verify i user ureq db cache = Inr (resp, db', cache') \<Longrightarrow> line_step db db'"
| step_close: "close verify i user sig db cache = Inr (db', cache') \<Longrightarrow> line_step db db'"

interpretation line_op: ledger_operation line_step
  by unfold_locales (auto elim!: line_step.cases intro: create_keeps update_keeps close_keeps)

end
