(* ===== verification/Line_Properties.thy ===== *)
theory Line_Properties
  imports Line_Operations Engine_Outcomes
begin

text \<open>
  The trust-line service beside the engine: what a prepared payment is worth after a trust line
  changed, who can change a line, and what the policies stored with the lines look like.
\<close>

section \<open>A payment whose capacity was taken away\<close>

text \<open>The balance of every pair of the payment, after it, is within the limit of the trust line.\<close>

definition payment_fits :: "string \<Rightarrow> db \<Rightarrow> bool" where
  "payment_fits tx db \<longleftrightarrow> list_all (\<lambda>f. list_all (\<lambda>(x, y).
       pair_balance (x, y, fl_equivalent f) db
         + sum_list (map (\<lambda>g. balance_delta g (x, y, fl_equivalent f)) (tx_flows tx db))
       \<le> active_limit y x (fl_equivalent f) db) [(fl_from f, fl_to f), (fl_to f, fl_from f)]) (tx_flows tx db)"

lemma flows_fit_iff:
  assumes inv: "ledger_inv db" and fs: "mset fs = mset (tx_flows tx db)" and ok: "list_all exact_flow fs"
    and run: "fold_res flow_step fs db = Inr db1"
  shows "(\<forall>f \<in> set fs. flow_within_limits db1 f) \<longleftrightarrow> payment_fits tx db"
proof -
  note wf = tables_wfD [OF ledger_invD(1) [OF inv]]
  have wf1: "debts_wf db1" using net_run.run_effect [OF wf(1) ok run] by blast
  have sym: "symmetric_ledger db1"
    using ledger_invD(2) [OF inv] flows_symmetric(1) [OF wf(1) ok run] by (simp add: symmetric_ledger_def)
  have bal: "pair_balance k db1 = pair_balance k db + sum_list (map (\<lambda>g. balance_delta g k) (tx_flows tx db))" for k
    using balance_run.run_effect [OF wf(1) ok run, of k] sum_list_mset [OF fs, of "\<lambda>g. balance_delta g k"] by simp
  have lim: "active_limit x y e db1 = active_limit x y e db" for x y e
    by (rule active_limit_debts_only [OF flows_debts_only [OF wf(1) ok run]])
  have "within_limit db1 x y e \<longleftrightarrow> pair_balance (x, y, e) db1 \<le> active_limit y x e db" for x y e
    using active_limit_nonneg [OF wf(2)] by (simp add: within_limit_def owes_balance [OF wf1 sym] lim)
  moreover have "set fs = set (tx_flows tx db)" using fs by (metis set_mset_mset)
  ultimately show ?thesis by (auto simp: payment_fits_def flow_within_limits_def list_all_iff bal)
qed

lemma quiet_commit_uow:
  assumes "get_tx tx db = Some t" and "tx_state t = PREPARED" and "load_prepare_locks tx db \<noteq> []"
    and "parse_persisted_prepare_locks (load_prepare_locks tx db) = Inr vs"
  shows "commit_uow pg n cf tx (quiet_env db) = commit_apply pg n cf tx t (validated_flows vs) (quiet_env db)"
  using assms by (simp add: commit_uow_def commit_state_guard_def quiet_env_def preacquire_equivalent_owner_locks_def Let_def)

lemma quiet_abort:
  obtains out db' where "abort pg n cf held tx reason code details (\<lambda>_. \<lparr>ab_pre = db, ab_tx = db, ab_seg = db\<rparr>) = (Inr out, Some db')"
    and "debts db' = debts db" and "trust_lines db' = trust_lines db" and "load_prepare_locks tx db' = []"
    and "map_option tx_state (get_tx tx db') = (if get_tx tx db = None then None
         else if map_option tx_state (get_tx tx db) = Some COMMITTED then Some COMMITTED else Some ABORTED)"
proof -
  let ?env = "\<lparr>ab_pre = db, ab_tx = db, ab_seg = db\<rparr>" and ?held = "held \<and> (\<not> cf \<or> (0::nat) = 0)"
  obtain out db' where uow: "abort_uow pg ?held tx reason code details ?env = (Inr out, Some db')"
    using abort_quiet_frame by blast
  then have "abort pg n cf held tx reason code details (\<lambda>_. ?env) = (Inr out, Some db')"
    unfolding abort_def by (intro run_uow_first) simp
  then show ?thesis using that abort_uow_frame [OF uow] by auto
qed

lemma run_uow_raises:
  assumes "fn 0 = (Inl x, w)" and "x \<noteq> EquivalentOwnerPreflightChanged" and "\<And>d. x \<noteq> DBAPIError d"
  shows "run_uow_with_retry pg n op sp fn = (Inl x, if sp then None else w)"
  unfolding run_uow_with_retry_def by (subst run_uow_from.simps) (use assms in \<open>simp add: savepoint_def split: exc.split\<close>)

text \<open>A failure that the wrapper neither retries nor translates is raised as it is.\<close>

lemma run_uow_overflow:
  assumes "fn 0 = (Inl (numeric_overflow stmt), None)"
  shows "run_uow_with_retry pg n op sp fn = (Inl (numeric_overflow stmt), None)"
  unfolding run_uow_with_retry_def
  by (subst run_uow_from.simps)
    (use assms in \<open>simp add: savepoint_def numeric_overflow_def is_retryable_db_error_def\<close>)

text \<open>The commit of flows that all went through.\<close>

lemma settled_commit:
  assumes "ledger_inv db" and "get_tx tx db = Some t" and "tx_state t = PREPARED"
    and "load_prepare_locks tx db \<noteq> []" and "locks_live tx db"
    and vs: "parse_persisted_prepare_locks (load_prepare_locks tx db) = Inr vs"
      "mset (validated_flows vs) = mset (tx_flows tx db)"
    and ok: "list_all exact_flow (validated_flows vs)" and run: "fold_res flow_step (validated_flows vs) db = Inr db1"
  shows "\<exists>db'. if payment_fits tx db
    then commit_tx is_postgres retry_attempts commit_flag tx (\<lambda>_. quiet_env db) = (Inr (), Some db')
      \<and> ledger_inv db' \<and> map_option tx_state (get_tx tx db') = Some COMMITTED
    else commit_tx is_postgres retry_attempts commit_flag tx (\<lambda>_. quiet_env db)
        = (Inl (IntegrityViolation TRUST_LIMIT_VIOLATION), if commit_flag then Some db' else None)
      \<and> debts db' = debts db \<and> trust_lines db' = trust_lines db \<and> load_prepare_locks tx db' = []
      \<and> map_option tx_state (get_tx tx db') = Some ABORTED"
proof -
  note wf = tables_wfD [OF ledger_invD(1) [OF assms(1)]]
  have chk: "check_flows (validated_flows vs) db db1 = (if payment_fits tx db then Inr ()
      else Inl (IntegrityViolation TRUST_LIMIT_VIOLATION))"
    using check_flows_eq [OF wf(1,2) ok run] flows_fit_iff [OF assms(1) vs(2) ok run] by simp
  have fresh: "\<not> list_ex (\<lambda>l. lock_expires_at l \<le> db_now db) (load_prepare_locks tx db)"
    using assms(5) by (auto simp: locks_live_def list_all_iff list_ex_iff not_le)
  note uow = quiet_commit_uow [OF assms(2-4) vs(1)]
  show ?thesis
  proof (cases "payment_fits tx db")
    case True
    let ?db' = "write_committed tx (tx_payload t) (validated_flows vs) db db1"
    have "commit_uow is_postgres retry_attempts commit_flag tx (quiet_env db) = (Inr (), Some ?db')"
      unfolding uow using True chk fresh run by (simp add: commit_apply_def Let_def quiet_env_def apply_flows_no_stale)
    then have com: "commit_tx is_postgres retry_attempts commit_flag tx (\<lambda>_. quiet_env db) = (Inr (), Some ?db')"
      unfolding commit_tx_def by (intro run_uow_first) simp
    have "ledger_inv ?db'"
      using checked_flows_keep [OF assms(1) ok run] chk True write_committed_keeps by simp
    moreover have "map_option tx_state (get_tx tx ?db') = Some COMMITTED"
      using write_committed_tx [OF assms(2) flows_frame [OF run]] by simp
    ultimately show ?thesis using True com by auto
  next
    case False
    obtain out db' where ab: "abort is_postgres retry_attempts commit_flag (\<not> commit_flag) tx
        (''Invariant violation: '' @ error_code_value (exc_code (IntegrityViolation TRUST_LIMIT_VIOLATION)))
        (Some (error_code_value (exc_code (IntegrityViolation TRUST_LIMIT_VIOLATION))))
        (violation_details (IntegrityViolation TRUST_LIMIT_VIOLATION))
        (\<lambda>_. \<lparr>ab_pre = db, ab_tx = db, ab_seg = db\<rparr>) = (Inr out, Some db')"
      and db': "debts db' = debts db" "trust_lines db' = trust_lines db" "load_prepare_locks tx db' = []"
        "map_option tx_state (get_tx tx db') = (if get_tx tx db = None then None
         else if map_option tx_state (get_tx tx db) = Some COMMITTED then Some COMMITTED else Some ABORTED)"
      by (rule quiet_abort)
    have "commit_uow is_postgres retry_attempts commit_flag tx (quiet_env db)
        = (Inl (IntegrityViolation TRUST_LIMIT_VIOLATION), Some db')"
      unfolding uow using False chk fresh run ab
      by (simp add: commit_apply_def Let_def quiet_env_def apply_flows_no_stale abort_then_raise_def)
    then have "commit_tx is_postgres retry_attempts commit_flag tx (\<lambda>_. quiet_env db)
        = (Inl (IntegrityViolation TRUST_LIMIT_VIOLATION), if \<not> commit_flag then None else Some db')"
      unfolding commit_tx_def by (intro run_uow_raises) simp_all
    then show ?thesis using False db' assms(2,3) by auto
  qed
qed

text \<open>
  C32. Changing a trust line takes no account of reservations, so a prepared payment may find its
  capacity gone. The commit then still protects the ledger: in any state that keeps the hub's
  invariant, a PREPARED payment with live locks commits exactly when, after it, every pair it
  touches is within its limit. Otherwise it raises the trust-limit violation, and when the engine
  owns the database transaction the payment is ABORTED, its locks are gone, and debts and trust
  lines are as before; under an outer transaction nothing is written. Both hold whenever the debts
  that arise on the way fit into their column; a payment that takes some pair to twelve integer
  digits or more may instead end in the numeric overflow of the database, with nothing written.
\<close>

theorem commit_after_line_change:
  assumes "ledger_inv db" and "get_tx tx db = Some t" and "tx_state t = PREPARED"
    and "load_prepare_locks tx db \<noteq> []" and "locks_live tx db"
  shows "(\<exists>db'. if payment_fits tx db
    then commit_tx is_postgres retry_attempts commit_flag tx (\<lambda>_. quiet_env db) = (Inr (), Some db')
      \<and> ledger_inv db' \<and> map_option tx_state (get_tx tx db') = Some COMMITTED
    else commit_tx is_postgres retry_attempts commit_flag tx (\<lambda>_. quiet_env db)
        = (Inl (IntegrityViolation TRUST_LIMIT_VIOLATION), if commit_flag then Some db' else None)
      \<and> debts db' = debts db \<and> trust_lines db' = trust_lines db \<and> load_prepare_locks tx db' = []
      \<and> map_option tx_state (get_tx tx db') = Some ABORTED)
    \<or> \<not> in_range (tx_flows tx db) db
      \<and> (\<exists>stmt. commit_tx is_postgres retry_attempts commit_flag tx (\<lambda>_. quiet_env db) = (Inl (numeric_overflow stmt), None))"
proof -
  note wf = tables_wfD [OF ledger_invD(1) [OF assms(1)]]
  obtain vs where vs: "parse_persisted_prepare_locks (load_prepare_locks tx db) = Inr vs"
    "mset (validated_flows vs) = mset (tx_flows tx db)"
    using parse_tx_locks [OF wf(4) assms(4)] by blast
  have ok: "list_all exact_flow (validated_flows vs)"
    using list_all_mset [OF vs(2)] tx_flows_exact [OF wf(4) tx_flows_grid [OF ledger_invD(5) [OF assms(1)]]] by simp
  have fresh: "\<not> list_ex (\<lambda>l. lock_expires_at l \<le> db_now db) (load_prepare_locks tx db)"
    using assms(5) by (auto simp: locks_live_def list_all_iff list_ex_iff not_le)
  note uow = quiet_commit_uow [OF assms(2-4) vs(1)]
  show ?thesis
  proof (cases "fold_res flow_step (validated_flows vs) db")
    case (Inl x)
    then obtain stmt where x: "x = numeric_overflow stmt" using flows_overflow [OF wf(1) ok] by blast
    have "\<not> in_range (tx_flows tx db) db" using flows_run [OF wf(1) ok] in_range_mset [OF vs(2)] Inl by auto
    moreover have "commit_uow is_postgres retry_attempts commit_flag tx (quiet_env db) = (Inl x, None)"
      unfolding uow using fresh Inl by (simp add: commit_apply_def Let_def quiet_env_def apply_flows_no_stale)
    then have "commit_tx is_postgres retry_attempts commit_flag tx (\<lambda>_. quiet_env db) = (Inl x, None)"
      unfolding commit_tx_def x by (intro run_uow_overflow)
    ultimately show ?thesis using x by blast
  next
    case (Inr db1)
    note settled_commit [OF assms vs ok Inr]
    then show ?thesis by blast
  qed
qed

section \<open>A capacity taken away, concretely\<close>

lemma sample_ledger_inv: "ledger_inv sample_db"
proof -
  have "on_grid 4" "on_grid 0" by (simp_all add: on_grid_def)
  then show ?thesis
    using sample_engine_inv
    by (simp add: ledger_inv_def tables_wf_def engine_inv_def symmetric_ledger_def symmetric_pair_def sample_owes limits_kept_def
        within_limit_def sample_active_limit grid_debts_def grid_locks_def)
qed

lemma prepared_ledger_inv: "ledger_inv prepared_db"
  using engine_op.keeps [OF sample_ledger_inv] sample_prepare_step prepared_grid_locks by blast

lemma signature_ok_any: "signable (VDict payload) \<Longrightarrow> signature_ok (\<lambda>_ _ _. True) pk payload sig"
  using canonical_json_total [of "VDict payload"] by (auto simp: signature_ok_def)

definition lower_limit :: update_request where
  "lower_limit = \<lparr>ur_limit = Some \<lparr>dec_neg = False, dec_coeff = 5, dec_exp = 0\<rparr>, ur_policy = None, ur_signature = ''s''\<rparr>"

lemma lower_limit_signable: "signable (VDict (update_signed_payload 10 lower_limit))"
  by (simp add: update_signed_payload_def optional_item_def lower_limit_def)

lemma lower_limit_update:
  assumes "\<And>pk. signature_ok verify pk (update_signed_payload 10 lower_limit) ''s''"
  shows "\<exists>resp db1 cache'. update verify 10 6 lower_limit prepared_db cache = Inr (resp, db1, cache')
    \<and> debts db1 = debts prepared_db \<and> prepare_locks db1 = prepare_locks prepared_db
    \<and> transactions db1 = transactions prepared_db \<and> db_now db1 = 1000
    \<and> trust_lines db1 = [sample_line 10 6 5 5, sample_line 11 7 6 50, sample_line 12 5 6 30]"
proof -
  have "owned_live_line verify 10 6 (update_signed_payload 10 lower_limit) ''s'' prepared_db = Inr (sample_line 10 6 5 100)"
    using assms
    by (simp add: owned_live_line_def get_trust_line_def get_participant_by_id_def prepared_db_def sample_line_def)
  then show ?thesis
    by (simp add: update_def lower_limit_def check_new_limit_def stored_limit_def get_used_amount_def owes_def get_debt_def
        prepared_db_def sample_rows dec_value_def store_numeric_def round8_def numeric_overflow_def finish_line_def
        hydrate_trustline_def get_equivalent_by_id_def get_participant_by_id_def update_line_def Let_def floor_eq_iff)
qed

theorem commit_after_line_change_witness:
  "\<exists>resp db1 cache' db'. update (\<lambda>_ _ _. True) 10 6 lower_limit prepared_db \<lparr>graph_cache = [], topology_cache = []\<rparr> = Inr (resp, db1, cache')
    \<and> commit_tx True 3 True ''t1'' (\<lambda>_. quiet_env db1) = (Inl (IntegrityViolation TRUST_LIMIT_VIOLATION), Some db')
    \<and> debts db' = [sample_debt] \<and> map_option tx_state (get_tx ''t1'' db') = Some ABORTED"
proof -
  obtain resp db1 cache' where up: "update (\<lambda>_ _ _. True) 10 6 lower_limit prepared_db \<lparr>graph_cache = [], topology_cache = []\<rparr> = Inr (resp, db1, cache')"
    and db1: "debts db1 = debts prepared_db" "prepare_locks db1 = prepare_locks prepared_db"
      "transactions db1 = transactions prepared_db" "db_now db1 = 1000"
      "trust_lines db1 = [sample_line 10 6 5 5, sample_line 11 7 6 50, sample_line 12 5 6 30]"
    using lower_limit_update [OF signature_ok_any [OF lower_limit_signable]] by blast
  have inv: "ledger_inv db1" by (rule update_keeps [OF prepared_ledger_inv up])
  have tx: "get_tx ''t1'' db1 = Some (sample_tx\<lparr>tx_state := PREPARED, tx_updated_at := 1000\<rparr>)"
    and locks: "load_prepare_locks ''t1'' db1 = [sample_lock 100 5 6, sample_lock 101 6 7]" "locks_live ''t1'' db1"
    and flows: "tx_flows ''t1'' db1 = tx_flows ''t1'' prepared_db"
    using prepared_sel db1 by (simp_all add: get_tx_def load_prepare_locks_def locks_live_def tx_flows_def prepared_db_def)
  have "\<not> payment_fits ''t1'' db1"
    unfolding payment_fits_def flows prepared_tx_flows
    by (simp add: pair_balance_def balance_delta_def active_limit_def get_active_line_def owes_def get_debt_def db1
        prepared_db_def sample_rows)
  moreover have "in_range (tx_flows ''t1'' db1) db1"
    unfolding flows prepared_tx_flows in_range_def
    by (simp add: pair_balance_def owes_def get_debt_def db1 prepared_db_def sample_rows)
  ultimately show ?thesis
    using commit_after_line_change [OF inv tx, of True 3 True] up locks db1(1) by (auto simp: prepared_db_def)
qed

section \<open>Who can change a line\<close>

text \<open>
  What is asked of the signature scheme: an accepted signature is of a message that the holder of
  the key has signed. Nothing is asked of the messages: besides the canonical JSON of payloads the
  holders sign, with the same key, the challenges of their logins.
\<close>

definition only_signed :: "(string \<Rightarrow> string \<Rightarrow> string \<Rightarrow> bool) \<Rightarrow> (string \<Rightarrow> string set) \<Rightarrow> bool" where
  "only_signed verify signed \<longleftrightarrow> (\<forall>pk m s. verify pk m s \<longrightarrow> m \<in> signed pk)"

text \<open>A challenge is the base64url text of 32 random bytes, without padding.\<close>

definition challenge_text :: "string \<Rightarrow> bool" where
  "challenge_text c \<longleftrightarrow> list_all (\<lambda>x. is_digit x \<or> char_between (CHR ''a'') (CHR ''z'') x
     \<or> char_between (CHR ''A'') (CHR ''Z'') x \<or> x = CHR ''-'' \<or> x = CHR ''_'') c"

text \<open>The JSON object a change of line \<open>i\<close> has to be signed as.\<close>

definition change_object :: "uuid \<Rightarrow> string option \<Rightarrow> pyval option \<Rightarrow> jval" where
  "change_object i lm pol = MDict (fmap_of_list ((''id'', MStr (uuid_str i))
     # (case lm of None \<Rightarrow> [] | Some s \<Rightarrow> [(''limit'', MStr s)])
     @ (case pol of None \<Rightarrow> [] | Some p \<Rightarrow> [(''policy'', denotes p)])))"

lemma denotes_update_payload:
  "denotes (VDict (update_signed_payload i req)) = change_object i (map_option dec_str (ur_limit req)) (map_option VDict (ur_policy req))"
  by (cases "ur_limit req"; cases "ur_policy req") (simp_all add: update_signed_payload_def optional_item_def change_object_def)

lemma change_object_inject:
  "change_object i lm pol = change_object j lm' pol'
    \<longleftrightarrow> uuid_str i = uuid_str j \<and> lm = lm' \<and> map_option denotes pol = map_option denotes pol'"
proof
  let ?m = "\<lambda>i lm pol. fmap_of_list ((''id'', MStr (uuid_str i)) # (case lm of None \<Rightarrow> [] | Some s \<Rightarrow> [(''limit'', MStr s)])
     @ (case pol of None \<Rightarrow> [] | Some p \<Rightarrow> [(''policy'', denotes p)]))"
  have look: "fmlookup (?m i lm pol) ''id'' = Some (MStr (uuid_str i))"
    "fmlookup (?m i lm pol) ''limit'' = map_option MStr lm"
    "fmlookup (?m i lm pol) ''policy'' = map_option denotes pol" for i lm pol
    by (auto simp: fmlookup_of_list split: option.splits)
  assume "change_object i lm pol = change_object j lm' pol'"
  then have eq: "?m i lm pol = ?m j lm' pol'" by (simp add: change_object_def)
  have "fmlookup (?m i lm pol) k = fmlookup (?m j lm' pol') k" for k by (simp only: eq)
  from this [of "''id''"] this [of "''limit''"] this [of "''policy''"]
  show "uuid_str i = uuid_str j \<and> lm = lm' \<and> map_option denotes pol = map_option denotes pol'"
    unfolding look by (cases lm; cases lm') simp_all
next
  assume "uuid_str i = uuid_str j \<and> lm = lm' \<and> map_option denotes pol = map_option denotes pol'"
  then show "change_object i lm pol = change_object j lm' pol'"
    by (cases pol; cases pol') (auto simp: change_object_def)
qed

text \<open>A message that is the signed form of such a change.\<close>

definition signs_change :: "string \<Rightarrow> uuid \<Rightarrow> string option \<Rightarrow> pyval option \<Rightarrow> bool" where
  "signs_change m i lm pol \<longleftrightarrow> (\<exists>payload. signable (VDict payload) \<and> canonical_json (VDict payload) = Inr m
     \<and> denotes (VDict payload) = change_object i lm pol)"

lemma signs_change_iff:
  assumes "signs_change m i lm pol" and "signs_change m' j lm' pol'"
  shows "m = m' \<longleftrightarrow> uuid_str i = uuid_str j \<and> lm = lm' \<and> map_option denotes pol = map_option denotes pol'"
proof -
  obtain p p' where "signable (VDict p)" "canonical_json (VDict p) = Inr m" "denotes (VDict p) = change_object i lm pol"
    "signable (VDict p')" "canonical_json (VDict p') = Inr m'" "denotes (VDict p') = change_object j lm' pol'"
    using assms unfolding signs_change_def by blast
  then show ?thesis
    using canonical_json_eq_iff [of "VDict p" "VDict p'"] change_object_inject [of i lm pol j lm' pol'] by auto
qed

lemma object_no_challenge:
  assumes "canonical_json (VDict payload) = Inr m"
  shows "\<not> challenge_text m"
proof -
  obtain items where "normalize (VDict payload) = Inr (VDict items)" "m = utf8 (dumps (VDict items))"
    using assms by (auto simp: canonical_json_def split: sum.splits)
  then have "hd m = CHR ''{''" "m \<noteq> []" by (simp_all add: utf8_def utf8_char_def)
  then show ?thesis by (cases m) (auto simp: challenge_text_def char_between_def)
qed

lemma signs_change_no_challenge: "signs_change m i lm pol \<Longrightarrow> \<not> challenge_text m"
  using object_no_challenge unfolding signs_change_def by blast

definition owner_signed ::
    "(string \<Rightarrow> string set) \<Rightarrow> uuid \<Rightarrow> uuid \<Rightarrow> db \<Rightarrow> string option \<Rightarrow> pyval option \<Rightarrow> bool" where
  "owner_signed signed i user db lm pol \<longleftrightarrow> (\<exists>t p. get_trust_line i db = Some t \<and> tl_from t = user \<and> tl_status t \<noteq> Closed
     \<and> get_participant_by_id user db = Some p \<and> (\<exists>m \<in> signed (part_public_key p). signs_change m i lm pol))"

lemma owner_signedI:
  assumes "only_signed verify signed" and own: "owned_live_line verify i user payload s db = Inr t"
    and "signable (VDict payload)" and "denotes (VDict payload) = change_object i lm pol"
  shows "owner_signed signed i user db lm pol"
proof -
  obtain p where p: "get_participant_by_id user db = Some p" "signature_ok verify (part_public_key p) payload s"
    using owned_live_line_Inr(4) [OF own] by blast
  obtain m where "canonical_json (VDict payload) = Inr m" "verify (part_public_key p) m s"
    using p(2) by (auto simp: signature_ok_def split: sum.splits)
  then have "m \<in> signed (part_public_key p)" "signs_change m i lm pol"
    using assms(1,3,4) unfolding only_signed_def signs_change_def by blast+
  then show ?thesis
    using owned_live_line_Inr(1-3) [OF own] p(1) unfolding owner_signed_def by metis
qed

text \<open>
  C33. A live trust line changes only with its owner's signature over the very change. Let a
  signature be accepted only for a message that the holder of the key has signed. If the service
  updates or closes line \<open>i\<close> for a user, then the user owns the line, and has signed, with the
  registered key, the canonical JSON of an object with the line's identifier, with the new limit
  exactly when one is set, with the new policy exactly when one is given, and with nothing else.
  Such a message is never the challenge of a login, which is signed with the same key, and two
  changes have the same message exactly when they name the same line, limit and policy; so an
  update that sets nothing is signed like a closing, and no other update is.
\<close>

theorem line_changes_are_signed:
  assumes "only_signed verify signed"
  shows "(signable (VDict (update_signed_payload i req)) \<and> update verify i user req db cache = Inr (resp, db', cache')
      \<longrightarrow> owner_signed signed i user db (map_option dec_str (ur_limit req)) (map_option VDict (ur_policy req)))
    \<and> (close verify i user sig db cache = Inr (db'', cache'') \<longrightarrow> owner_signed signed i user db None None)
    \<and> (signs_change m i lm pol \<longrightarrow> \<not> challenge_text m)
    \<and> (signs_change m i lm pol \<and> signs_change m' j lm' pol' \<longrightarrow>
        (m = m' \<longleftrightarrow> uuid_str i = uuid_str j \<and> lm = lm' \<and> map_option denotes pol = map_option denotes pol'))"
proof (intro conjI impI)
  assume "signable (VDict (update_signed_payload i req)) \<and> update verify i user req db cache = Inr (resp, db', cache')"
  then have sig: "signable (VDict (update_signed_payload i req))" and "update verify i user req db cache = Inr (resp, db', cache')"
    by simp_all
  then obtain t where "owned_live_line verify i user (update_signed_payload i req) (ur_signature req) db = Inr t"
    by (metis update_Inr)
  then show "owner_signed signed i user db (map_option dec_str (ur_limit req)) (map_option VDict (ur_policy req))"
    using sig denotes_update_payload by (rule owner_signedI [OF assms])
next
  assume "close verify i user sig db cache = Inr (db'', cache'')"
  then obtain t where "owned_live_line verify i user [(''id'', VStr (uuid_str i))] sig db = Inr t" by (metis close_Inr)
  then show "owner_signed signed i user db None None"
    by (rule owner_signedI [OF assms]) (simp_all add: change_object_def)
qed (use signs_change_no_challenge signs_change_iff in blast)+

text \<open>
  A signature scheme in which the holder of every key has signed the lower limit of line 10 and the
  challenge of a login.
\<close>

definition one_verify :: "string \<Rightarrow> string \<Rightarrow> string \<Rightarrow> bool" where
  "one_verify pk m s \<longleftrightarrow> canonical_json (VDict (update_signed_payload 10 lower_limit)) = Inr m \<or> m = ''nonce-1''"

definition one_signed :: "string \<Rightarrow> string set" where
  "one_signed pk = {m. canonical_json (VDict (update_signed_payload 10 lower_limit)) = Inr m} \<union> {''nonce-1''}"

theorem line_changes_are_signed_witness:
  "(\<exists>resp db1 cache'. update one_verify 10 6 lower_limit prepared_db \<lparr>graph_cache = [], topology_cache = []\<rparr>
      = Inr (resp, db1, cache')) \<and> owner_signed one_signed 10 6 prepared_db (Some (dec_str \<lparr>dec_neg = False, dec_coeff = 5, dec_exp = 0\<rparr>)) None"
proof -
  have scheme: "only_signed one_verify one_signed"
    by (auto simp: only_signed_def one_verify_def one_signed_def)
  obtain m where "canonical_json (VDict (update_signed_payload 10 lower_limit)) = Inr m"
    using canonical_json_total [OF lower_limit_signable] by blast
  then have "signature_ok one_verify pk (update_signed_payload 10 lower_limit) ''s''" for pk
    by (simp add: signature_ok_def one_verify_def)
  from lower_limit_update [OF this] obtain resp db1 cache' where
    "update one_verify 10 6 lower_limit prepared_db \<lparr>graph_cache = [], topology_cache = []\<rparr> = Inr (resp, db1, cache')" by blast
  then show ?thesis
    using line_changes_are_signed [OF scheme, of 10 lower_limit 6 prepared_db] lower_limit_signable
    by (simp add: lower_limit_def)
qed

text \<open>
  The message signed to close a line is also the message of an update that sets nothing: a
  signature that the service accepts for such an update of an unused line is accepted for closing
  the line, and the line is closed.
\<close>

theorem unchanged_update_signature_closes:
  assumes "update verify i user req db cache = Inr (resp, db', cache')" and "ur_limit req = None" and "ur_policy req = None"
    and "\<forall>t. get_trust_line i db = Some t \<longrightarrow> get_used_amount t db = 0 \<and> get_reverse_used_amount t db = 0"
  shows "\<exists>db1 cache1. close verify i user (ur_signature req) db cache = Inr (db1, cache1)
    \<and> trust_lines db1 = upd_row tl_id i (\<lambda>r. r\<lparr>tl_status := Closed\<rparr>) (trust_lines db)"
  using assms(1)
proof (rule update_Inr)
  fix t t' :: trust_line and stored and q :: equivalent
  assume own: "owned_live_line verify i user (update_signed_payload i req) (ur_signature req) db = Inr t"
    and q: "get_equivalent_by_id (tl_equivalent t) db = Some q"
  have "update_signed_payload i req = [(''id'', VStr (uuid_str i))]"
    using assms(2,3) by (simp add: update_signed_payload_def optional_item_def)
  then have "owned_live_line verify i user [(''id'', VStr (uuid_str i))] (ur_signature req) db = Inr t" using own by simp
  moreover have "get_used_amount t db = 0" "get_reverse_used_amount t db = 0"
    using assms(4) owned_live_line_Inr(1) [OF own] by simp_all
  moreover have "get_equivalent_by_id (tl_equivalent t) (update_line i (\<lambda>r. r\<lparr>tl_status := Closed\<rparr>) db) = Some q"
    using q by (simp add: get_equivalent_by_id_def update_line_def)
  ultimately show ?thesis by (simp add: close_def finish_line_def Let_def) (simp add: update_line_def)
qed

definition no_change :: update_request where
  "no_change = \<lparr>ur_limit = None, ur_policy = None, ur_signature = ''s''\<rparr>"

theorem unchanged_update_signature_closes_witness:
  "\<exists>db1 cache1. close (\<lambda>_ _ _. True) 11 7 ''s'' sample_db \<lparr>graph_cache = [], topology_cache = []\<rparr> = Inr (db1, cache1)
    \<and> trust_lines db1 = [sample_line 10 6 5 100, (sample_line 11 7 6 50)\<lparr>tl_status := Closed\<rparr>, sample_line 12 5 6 30]"
proof -
  have "signature_ok (\<lambda>_ _ _. True) pk (update_signed_payload 11 no_change) ''s''" for pk
    by (rule signature_ok_any) (simp add: update_signed_payload_def optional_item_def no_change_def)
  then have "owned_live_line (\<lambda>_ _ _. True) 11 7 (update_signed_payload 11 no_change) ''s'' sample_db = Inr (sample_line 11 7 6 50)"
    by (simp add: owned_live_line_def get_trust_line_def get_participant_by_id_def sample_line_def)
  then have "\<exists>r. update (\<lambda>_ _ _. True) 11 7 no_change sample_db \<lparr>graph_cache = [], topology_cache = []\<rparr> = Inr r"
    by (simp add: update_def no_change_def check_new_limit_def stored_limit_def sample_rows finish_line_def
        hydrate_trustline_def get_equivalent_by_id_def get_participant_by_id_def update_line_def Let_def)
  then obtain resp db' cache' where
    "update (\<lambda>_ _ _. True) 11 7 no_change sample_db \<lparr>graph_cache = [], topology_cache = []\<rparr> = Inr (resp, db', cache')"
    by (metis prod_cases3)
  from unchanged_update_signature_closes [OF this] show ?thesis
    by (simp add: no_change_def get_trust_line_def get_used_amount_def get_reverse_used_amount_def sample_owes sample_line_def)
qed

end
