(* ===== verification/Policy_Types.thy ===== *)
theory Policy_Types
  imports Line_Properties
begin

text \<open>
  The types of stored policies: what \<^verbatim>\<open>validate_trustline_policy\<close> lets through is what the
  router and the clearing expect to read, and creating, updating and closing lines keep it so.
\<close>

section \<open>Typed policies\<close>

definition nonneg_number :: "pydec option \<Rightarrow> bool" where
  "nonneg_number d \<longleftrightarrow> (case d of Some (Fin q) \<Rightarrow> 0 \<le> q | Some PosInf \<Rightarrow> True | _ \<Rightarrow> False)"

definition flag_typed :: "json \<Rightarrow> bool" where
  "flag_typed v \<longleftrightarrow> (case v of JNull \<Rightarrow> True | JBool _ \<Rightarrow> True | _ \<Rightarrow> False)"

definition number_typed :: "json \<Rightarrow> bool" where
  "number_typed v \<longleftrightarrow> (case v of JNull \<Rightarrow> True | JNum q \<Rightarrow> 0 \<le> q
     | JStr s \<Rightarrow> nonneg_number (decimal_constructor s) | _ \<Rightarrow> False)"

definition blocked_typed :: "json \<Rightarrow> bool" where
  "blocked_typed v \<longleftrightarrow> (case v of JNull \<Rightarrow> True
     | JList vs \<Rightarrow> list_all (\<lambda>w. case w of JStr s \<Rightarrow> s \<noteq> [] | _ \<Rightarrow> False) vs | _ \<Rightarrow> False)"

definition entry_typed :: "string \<Rightarrow> json \<Rightarrow> bool" where
  "entry_typed key v \<longleftrightarrow> (if key \<in> {''auto_clearing'', ''can_be_intermediate''} then flag_typed v
     else if key \<in> {''max_hop_usage'', ''daily_limit''} then number_typed v
     else key = ''blocked_participants'' \<and> blocked_typed v)"

definition policy_typed :: "policy \<Rightarrow> bool" where
  "policy_typed p \<longleftrightarrow> list_all (\<lambda>(k, v). k \<in> set allowed_trustline_policy_keys \<and> entry_typed k v) p"

definition policies_typed :: "db \<Rightarrow> bool" where
  "policies_typed db \<longleftrightarrow> list_all (\<lambda>t. case tl_policy t of None \<Rightarrow> True | Some p \<Rightarrow> policy_typed p) (trust_lines db)"

section \<open>The number of an integer's text\<close>

lemma digits_plain:
  assumes "list_all is_digit ds" and "c \<in> set ds \<or> c = CHR ''-''"
  shows "\<not> py_space c" and "lower_char c = c" and "c \<noteq> CHR ''_''"
  using assms by (auto simp: list_all_iff is_digit_iff py_space_def lower_char_def Let_def)

lemma plain_text:
  assumes "list_all is_digit ds" and "set s \<subseteq> insert (CHR ''-'') (set ds)"
  shows "py_lower (filter (\<lambda>c. c \<noteq> CHR ''_'') (py_strip s)) = s"
proof -
  have "py_strip s = s" by (rule py_strip_id) (use digits_plain(1) [OF assms(1)] assms(2) in blast)
  moreover have "filter (\<lambda>c. c \<noteq> CHR ''_'') s = s"
    using digits_plain(3) [OF assms(1)] assms(2) by (auto simp: filter_id_conv)
  moreover have "py_lower s = s"
    unfolding py_lower_def by (rule map_idI) (use digits_plain(2) [OF assms(1)] assms(2) in blast)
  ultimately show ?thesis by simp
qed

lemma digits_not_word:
  assumes "list_all is_digit ds" and "ds \<noteq> []" and "\<not> is_digit c"
  shows "ds \<noteq> c # w" and "take (Suc n) ds \<noteq> c # w"
  using assms by (cases ds; auto)+

lemma decimal_constructor_int: "decimal_constructor (int_str n) = Some (Fin (of_int n))"
proof -
  define ds where "ds = nat_str (nat \<bar>n\<bar>)"
  have ds: "list_all is_digit ds" "ds \<noteq> []" "digits_value ds = nat \<bar>n\<bar>" by (simp_all add: ds_def)
  have shape: "int_str n = (if n < 0 then CHR ''-'' # ds else ds)" by (auto simp: int_str_def ds_def)
  have "py_lower (filter (\<lambda>c. c \<noteq> CHR ''_'') (py_strip (int_str n))) = int_str n"
    by (rule plain_text [OF ds(1)]) (auto simp: shape)
  moreover have "split_sign (int_str n) = (n < 0, ds)"
    using ds(1,2) by (cases ds) (auto simp: shape split_sign_def char_between_def)
  moreover have tw: "takeWhile is_digit ds = ds" "dropWhile is_digit ds = []"
    using ds(1) by (auto simp: list_all_iff takeWhile_eq_all_conv dropWhile_eq_Nil_conv)
  moreover have "ds \<notin> {''inf'', ''infinity''}" "take 3 ds \<noteq> ''nan''" "take 4 ds \<noteq> ''snan''"
    using digits_not_word [OF ds(1,2)] by (auto simp: numeral_eq_Suc char_between_def)
  ultimately show ?thesis
    using ds(2,3) by (simp add: decimal_constructor_def decimal_exponent_def dec_value_def Let_def tw)
qed

lemma decimal_constructor_words: "decimal_constructor ''True'' = None" "decimal_constructor ''False'' = None"
  by code_simp+

section \<open>The validator\<close>

lemma check_policy_number_typed:
  assumes "check_policy_number p key = Inr ()" and "policy_entry p key = Some v"
  shows "number_typed (json_of v)"
proof -
  obtain s d where s: "numeric_text v = Some s" "decimal_constructor s = Some d" "pd_less d (Fin 0) = Inr False"
    using assms by (auto simp: check_policy_number_def bind_eq_Some_conv split: option.splits sum.splits if_splits)
  then have nonneg: "nonneg_number (decimal_constructor s)" by (cases d) (auto simp: nonneg_number_def)
  show ?thesis
  proof (cases v)
    case (VBool b)
    then have "decimal_constructor s = None" using s(1) by (auto simp: numeric_text_def decimal_constructor_words)
    then show ?thesis using s(2) by simp
  qed (use s nonneg in \<open>auto simp: number_typed_def numeric_text_def nonneg_number_def decimal_constructor_int
      split: pydec.splits\<close>)
qed

lemma check_policy_flag_typed:
  "check_policy_flag p key = Inr () \<Longrightarrow> policy_entry p key = Some v \<Longrightarrow> flag_typed (json_of v)"
  by (cases v) (simp_all add: check_policy_flag_def flag_typed_def)

lemma check_policy_blocked_typed:
  assumes "check_policy_blocked p = Inr ()" and "policy_entry p ''blocked_participants'' = Some v"
  shows "blocked_typed (json_of v)"
proof -
  have "v = VNone \<or> (\<exists>items. v = VList items \<and> list_all (\<lambda>v. case v of VStr s \<Rightarrow> s \<noteq> [] | _ \<Rightarrow> False) items)"
    using assms by (cases v) (simp_all add: check_policy_blocked_def split: if_splits)
  moreover have "list_all (\<lambda>v. case json_of v of JStr s \<Rightarrow> s \<noteq> [] | _ \<Rightarrow> False) items"
    if "list_all (\<lambda>v. case v of VStr s \<Rightarrow> s \<noteq> [] | _ \<Rightarrow> False) items" for items
    using that
  proof (rule list.pred_mono_strong)
    fix w :: pyval assume "case w of VStr s \<Rightarrow> s \<noteq> [] | _ \<Rightarrow> False"
    then show "case json_of w of JStr s \<Rightarrow> s \<noteq> [] | _ \<Rightarrow> False" by (cases w) simp_all
  qed
  ultimately show ?thesis by (auto simp: blocked_typed_def list.pred_map comp_def)
qed

lemma entry_typed_keys:
  "entry_typed ''auto_clearing'' v = flag_typed v" "entry_typed ''can_be_intermediate'' v = flag_typed v"
  "entry_typed ''max_hop_usage'' v = number_typed v" "entry_typed ''daily_limit'' v = number_typed v"
  "entry_typed ''blocked_participants'' v = blocked_typed v"
  by (simp_all add: entry_typed_def)

lemma allowed_key_cases:
  assumes "k \<in> set allowed_trustline_policy_keys"
  obtains "k = ''auto_clearing''" | "k = ''can_be_intermediate''" | "k = ''max_hop_usage''"
    | "k = ''daily_limit''" | "k = ''blocked_participants''"
  using assms unfolding allowed_trustline_policy_keys_def list.set insert_iff empty_iff
  by (elim disjE) (erule that(1), erule that(2), erule that(3), erule that(4), erule that(5), erule FalseE)

lemma entry_typed_null: "k \<in> set allowed_trustline_policy_keys \<Longrightarrow> entry_typed k JNull"
  by (erule allowed_key_cases) (simp_all only: entry_typed_keys flag_typed_def number_typed_def blocked_typed_def json.case)

lemma validated_entry_typed:
  assumes val: "validate_trustline_policy p = Inr ()" and dist: "distinct (map fst p)" and mem: "(k, v) \<in> set p"
  shows "k \<in> set allowed_trustline_policy_keys \<and> entry_typed k (json_of v)"
proof -
  have allowed: "k \<in> set allowed_trustline_policy_keys"
    and checks: "check_policy_flag p ''auto_clearing'' = Inr ()" "check_policy_flag p ''can_be_intermediate'' = Inr ()"
      "check_policy_number p ''max_hop_usage'' = Inr ()" "check_policy_number p ''daily_limit'' = Inr ()"
      "check_policy_blocked p = Inr ()"
    using val mem by (auto simp: validate_trustline_policy_def list_all_iff split: if_splits sum.splits)
  consider (null) "v = VNone" | (set) "policy_entry p k = Some v"
    using mem dist by (cases v) (auto simp: policy_entry_def)
  then have "entry_typed k (json_of v)"
  proof cases
    case null
    then show ?thesis using entry_typed_null [OF allowed] by simp
  next
    case set
    show ?thesis
      using allowed
    proof (cases rule: allowed_key_cases)
      case 1
      then show ?thesis using check_policy_flag_typed [OF checks(1)] set by (simp only: entry_typed_keys)
    next
      case 2
      then show ?thesis using check_policy_flag_typed [OF checks(2)] set by (simp only: entry_typed_keys)
    next
      case 3
      then show ?thesis using check_policy_number_typed [OF checks(3)] set by (simp only: entry_typed_keys)
    next
      case 4
      then show ?thesis using check_policy_number_typed [OF checks(4)] set by (simp only: entry_typed_keys)
    next
      case 5
      then show ?thesis using check_policy_blocked_typed [OF checks(5)] set by (simp only: entry_typed_keys)
    qed
  qed
  then show ?thesis using allowed by simp
qed

lemma policy_json_typed:
  "validate_trustline_policy p = Inr () \<Longrightarrow> distinct (map fst p) \<Longrightarrow> policy_typed (policy_json p)"
  using validated_entry_typed by (fastforce simp: policy_typed_def policy_json_def list_all_iff)

lemma policy_typed_update:
  "policy_typed m \<Longrightarrow> k \<in> set allowed_trustline_policy_keys \<Longrightarrow> entry_typed k v \<Longrightarrow> policy_typed (AList.update k v m)"
  by (induction m) (auto simp: policy_typed_def split: if_splits)

lemma merge_policy_typed:
  assumes "policy_typed p" and "case current of None \<Rightarrow> True | Some m \<Rightarrow> policy_typed m"
  shows "policy_typed (merge_policy current p)"
proof -
  have "policy_typed (fold (\<lambda>(k, v) m. AList.update k v m) q m)"
    if "policy_typed m" and "\<forall>(k, v) \<in> set q. k \<in> set allowed_trustline_policy_keys \<and> entry_typed k v" for q m
    using that by (induction q arbitrary: m) (auto intro: policy_typed_update)
  moreover have "\<forall>(k, v) \<in> set p. k \<in> set allowed_trustline_policy_keys \<and> entry_typed k v"
    using assms(1) by (simp add: policy_typed_def list_all_iff)
  moreover have "policy_typed []" by (simp add: policy_typed_def)
  ultimately show ?thesis using assms(2) by (cases current) (simp_all add: merge_policy_def)
qed

section \<open>The operations\<close>

lemma policies_typed_upd:
  assumes "policies_typed db" and "\<And>t. t \<in> set (trust_lines db) \<Longrightarrow> tl_id t = i \<Longrightarrow>
      case tl_policy (g t) of None \<Rightarrow> True | Some p \<Rightarrow> policy_typed p"
    and "trust_lines db' = upd_row tl_id i g (trust_lines db)"
  shows "policies_typed db'"
  using assms by (auto simp: policies_typed_def list_all_iff set_upd_row)

text \<open>
  C34. The policies in the table are well typed whatever requests arrive: known keys only, flags
  that are booleans or null, limits that are null, a non-negative number or the text of one, and
  a list of non-empty participant identifiers. Creating, updating (where the new policy is merged
  into the stored one) and closing a line keep this.
\<close>

theorem stored_policies_stay_typed:
  assumes "policies_typed db" and "\<forall>p. cr_policy creq = Some p \<or> ur_policy ureq = Some p \<longrightarrow> distinct (map fst p)"
  shows "(te_flush env = db \<and> create verify user creq env cache = Inr (resp, db', cache') \<longrightarrow> policies_typed db')
    \<and> (update verify i user ureq db cache = Inr (resp, db', cache') \<longrightarrow> policies_typed db')
    \<and> (close verify i user sig db cache = Inr (db', cache') \<longrightarrow> policies_typed db')"
proof (intro conjI impI)
  assume "te_flush env = db \<and> create verify user creq env cache = Inr (resp, db', cache')"
  then have env: "te_flush env = db" and "create verify user creq env cache = Inr (resp, db', cache')" by simp_all
  from this(2) show "policies_typed db'"
  proof (rule create_Inr)
    fix y stored a and q :: equivalent and t :: trust_line
    assume t: "t = \<lparr>tl_id = next_uuid (te_flush env), tl_from = user, tl_to = y, tl_equivalent = equiv_id q, tl_limit = stored,
          tl_policy = Some (case cr_policy creq of None \<Rightarrow> [] | Some pol \<Rightarrow> policy_json pol), tl_status = Active,
          tl_created_at = db_now (te_flush env)\<rparr>"
      and val: "(case cr_policy creq of None \<Rightarrow> Inr () | Some pol \<Rightarrow> validate_trustline_policy pol) = Inr ()"
      and db': "db' = append_audit a ((te_flush env)\<lparr>trust_lines := trust_lines (te_flush env) @ [t],
          next_uuid := Suc (next_uuid (te_flush env))\<rparr>)"
    have "policy_typed (case cr_policy creq of None \<Rightarrow> [] | Some pol \<Rightarrow> policy_json pol)"
      using val assms(2) by (cases "cr_policy creq") (simp_all add: policy_json_typed, simp add: policy_typed_def)
    then show ?thesis using assms(1) by (simp add: policies_typed_def db' t env)
  qed
next
  assume "update verify i user ureq db cache = Inr (resp, db', cache')"
  then show "policies_typed db'"
  proof (rule update_Inr)
    fix t t' :: trust_line and stored and q :: equivalent
    assume own: "owned_live_line verify i user (update_signed_payload i ureq) (ur_signature ureq) db = Inr t"
      and val: "(case ur_policy ureq of None \<Rightarrow> Inr () | Some pol \<Rightarrow> validate_trustline_policy pol) = Inr ()"
      and t': "t' = t\<lparr>tl_limit := stored, tl_policy := (case ur_policy ureq of None \<Rightarrow> tl_policy t
          | Some p \<Rightarrow> Some (merge_policy (tl_policy t) (policy_json p)))\<rparr>"
      and db': "db' = append_audit (audit_trust_line TRUST_LINE_UPDATE t' db (update_line i (\<lambda>_. t') db)) (update_line i (\<lambda>_. t') db)"
    have "t \<in> set (trust_lines db)"
      using owned_live_line_Inr(1) [OF own] by (auto simp: get_trust_line_def dest: find_SomeD)
    then have old: "case tl_policy t of None \<Rightarrow> True | Some p \<Rightarrow> policy_typed p"
      using assms(1) by (simp add: policies_typed_def list_all_iff)
    have "case tl_policy t' of None \<Rightarrow> True | Some p \<Rightarrow> policy_typed p"
      using val assms(2) old by (cases "ur_policy ureq") (simp_all add: t' merge_policy_typed policy_json_typed)
    then show ?thesis
      by (intro policies_typed_upd [OF assms(1), of i "\<lambda>_. t'"]) (simp_all add: db' update_line_def)
  qed
next
  assume "close verify i user sig db cache = Inr (db', cache')"
  then show "policies_typed db'"
  proof (rule close_Inr)
    fix t :: trust_line and q :: equivalent
    assume db': "db' = append_audit (audit_trust_line TRUST_LINE_CLOSE (t\<lparr>tl_status := Closed\<rparr>) db
          (update_line i (\<lambda>r. r\<lparr>tl_status := Closed\<rparr>) db)) (update_line i (\<lambda>r. r\<lparr>tl_status := Closed\<rparr>) db)"
    show ?thesis
      by (rule policies_typed_upd [OF assms(1), of i "\<lambda>r. r\<lparr>tl_status := Closed\<rparr>"])
        (use assms(1) in \<open>simp_all add: db' update_line_def policies_typed_def list_all_iff\<close>)
  qed
qed

definition sample_policy :: "(string \<times> pyval) list" where
  "sample_policy = [(''auto_clearing'', VBool True), (''max_hop_usage'', VInt 3)]"

definition set_policy :: update_request where
  "set_policy = \<lparr>ur_limit = None, ur_policy = Some sample_policy, ur_signature = ''s''\<rparr>"

lemma sample_policy_valid: "validate_trustline_policy sample_policy = Inr ()"
  by (simp add: validate_trustline_policy_def sample_policy_def allowed_trustline_policy_keys_def check_policy_flag_def
      check_policy_number_def check_policy_blocked_def policy_entry_def numeric_text_def decimal_constructor_int)

theorem stored_policies_stay_typed_witness:
  "\<exists>resp db' cache'. update (\<lambda>_ _ _. True) 11 7 set_policy sample_db \<lparr>graph_cache = [], topology_cache = []\<rparr> = Inr (resp, db', cache')
    \<and> policies_typed db' \<and> map tl_policy (trust_lines db') = [None, Some [(''auto_clearing'', JBool True), (''max_hop_usage'', JNum 3)], None]"
proof -
  have "signature_ok (\<lambda>_ _ _. True) pk (update_signed_payload 11 set_policy) ''s''" for pk
    by (rule signature_ok_any) (simp add: update_signed_payload_def optional_item_def set_policy_def sample_policy_def)
  then have "owned_live_line (\<lambda>_ _ _. True) 11 7 (update_signed_payload 11 set_policy) ''s'' sample_db = Inr (sample_line 11 7 6 50)"
    by (simp add: owned_live_line_def get_trust_line_def get_participant_by_id_def sample_line_def)
  then obtain resp db' cache' where up: "update (\<lambda>_ _ _. True) 11 7 set_policy sample_db \<lparr>graph_cache = [], topology_cache = []\<rparr> = Inr (resp, db', cache')"
    and pol: "map tl_policy (trust_lines db') = [None, Some [(''auto_clearing'', JBool True), (''max_hop_usage'', JNum 3)], None]"
    using sample_policy_valid
    by (simp add: update_def set_policy_def check_new_limit_def stored_limit_def sample_rows finish_line_def
        hydrate_trustline_def get_equivalent_by_id_def get_participant_by_id_def update_line_def Let_def)
      (simp add: merge_policy_def policy_json_def sample_policy_def)
  have "policies_typed db'"
  proof (rule stored_policies_stay_typed [THEN conjunct2, THEN conjunct1, rule_format, OF _ _ up])
    show "policies_typed sample_db" by (simp add: policies_typed_def sample_rows)
    show "cr_policy \<lparr>cr_to = [], cr_equivalent = [], cr_limit = \<lparr>dec_neg = False, dec_coeff = 0, dec_exp = 0\<rparr>,
      cr_policy = None, cr_signature = []\<rparr> = Some p \<or> ur_policy set_policy = Some p \<Longrightarrow> distinct (map fst p)" for p
      by (auto simp: set_policy_def sample_policy_def)
  qed
  with up pol show ?thesis by (intro exI conjI)
qed

end
