(* ===== verification/Payment_Service.thy ===== *)
theory Payment_Service
  imports Trust_Lines Route_Search
begin

text \<open>
  \<^verbatim>\<open>PaymentService\<close> of \<^verbatim>\<open>app/core/payments/service.py\<close>: creating a payment from the request to the
  committed transaction, with the signature, the idempotent replay, the perimeter of a scoped
  caller, the calls of router and engine, the handling of failures, timeouts and cancellations,
  and the effects after the commit; then the queries. Ed25519 and SHA-256 are the parameters
  \<open>verify\<close> and \<open>sha256\<close>. Metrics and log lines are left out. Amounts are kept as the values of
  their decimal texts.
\<close>

section \<open>Classifying errors\<close>

definition classify_payment_db_error :: "exc \<Rightarrow> exc" where
  "classify_payment_db_error x = (case x of
      DBAPIError d \<Rightarrow> (if sqlstate d \<in> {Some ''40001'', Some ''40P01''} then RetryablePaymentConflict else Geo E010)
    | _ \<Rightarrow> Geo E010)"

definition is_client_error :: "exc \<Rightarrow> bool" where
  "is_client_error x \<longleftrightarrow> is_geo_exception x \<and> 400 \<le> exc_status x \<and> exc_status x < 500"

section \<open>Requests and results\<close>

text \<open>A field of the constraints is unset, null or a value.\<close>

record payment_constraints =
  pc_max_hops :: "int option option"
  pc_max_paths :: "int option option"
  pc_timeout_ms :: "int option option"
  pc_avoid :: "pid list option option"

record payment_request =
  rq_tx_id :: string
  rq_to :: pid
  rq_equivalent :: string
  rq_amount :: string
  rq_description :: "string option"
  rq_constraints :: "payment_constraints option"
  rq_signature :: string

record payment_result =
  pr_tx_id :: string
  pr_status :: tx_state_t
  pr_from :: pid
  pr_to :: pid
  pr_equivalent :: string
  pr_amount :: "pydec option"
  pr_routes :: "(pid list \<times> amount) list option"
  pr_error :: "(string \<times> string \<times> (string \<times> string) list option) option"
  pr_created_at :: timestamp
  pr_committed_at :: "timestamp option"

definition null_or :: "('a \<Rightarrow> pyval) \<Rightarrow> 'a option \<Rightarrow> pyval" where
  "null_or f v = (case v of None \<Rightarrow> VNone | Some x \<Rightarrow> f x)"

definition dump_constraints :: "payment_constraints \<Rightarrow> (string \<times> pyval) list" where
  "dump_constraints c =
     optional_item ''max_hops'' (map_option (null_or VInt) (pc_max_hops c))
     @ optional_item ''max_paths'' (map_option (null_or VInt) (pc_max_paths c))
     @ optional_item ''timeout_ms'' (map_option (null_or VInt) (pc_timeout_ms c))
     @ optional_item ''avoid'' (map_option (null_or (\<lambda>ps. VList (map VStr ps))) (pc_avoid c))"

definition payment_signed_payload :: "string \<Rightarrow> payment_request \<Rightarrow> (string \<times> pyval) list" where
  "payment_signed_payload tx req =
     [(''tx_id'', VStr tx), (''to'', VStr (rq_to req)), (''equivalent'', VStr (rq_equivalent req)),
      (''amount'', VStr (rq_amount req))]
     @ optional_item ''description'' (map_option VStr (rq_description req))
     @ optional_item ''constraints'' (map_option (\<lambda>c. VDict (dump_constraints c)) (rq_constraints req))"

definition tx_to_payment_result :: "transaction \<Rightarrow> payment_result" where
  "tx_to_payment_result t = (let pl = tx_payload t; text = (\<lambda>v. case v of None \<Rightarrow> [] | Some s \<Rightarrow> s) in
     \<lparr>pr_tx_id = tx_id t,
      pr_status = (if tx_state t \<in> {COMMITTED, ABORTED} then tx_state t else ABORTED),
      pr_from = text (pl_from pl), pr_to = text (pl_to pl), pr_equivalent = text (pl_equivalent pl),
      pr_amount = pl_amount pl,
      pr_routes = (case pl_routes pl of Some (r # rs) \<Rightarrow> Some (r # rs) | _ \<Rightarrow> None),
      pr_error = map_option (\<lambda>e. (case truthy (err_code e) of None \<Rightarrow> ''E010'' | Some c \<Rightarrow> c,
          text (err_message e), err_details e)) (tx_error t),
      pr_created_at = tx_created_at t,
      pr_committed_at = (if tx_state t = COMMITTED then Some (tx_updated_at t) else None)\<rparr>)"

section \<open>Replaying a request\<close>

definition escapes :: "pid list option \<Rightarrow> (pid list \<times> amount) list \<Rightarrow> bool" where
  "escapes allowed routes = (case allowed of None \<Rightarrow> False
     | Some ps \<Rightarrow> list_ex (\<lambda>(path, v). list_ex (\<lambda>p. p \<notin> set ps) path) routes)"

definition in_progress_states :: "tx_state_t list" where
  "in_progress_states = [NEW, ROUTED, PREPARE_IN_PROGRESS, PREPARED, PROPOSED, WAITING]"

definition resolve_existing_payment ::
    "transaction \<Rightarrow> uuid \<Rightarrow> string \<Rightarrow> pid list option \<Rightarrow> exc + payment_result" where
  "resolve_existing_payment t sender_id fingerprint allowed =
     (let routes = (case pl_routes (tx_payload t) of None \<Rightarrow> [] | Some rs \<Rightarrow> rs) in
      if tx_type t \<noteq> PAYMENT then Inl Conflict
      else if tx_initiator t \<noteq> sender_id then Inl Conflict
      else if pl_fingerprint (tx_payload t) \<notin> {None, Some fingerprint} then Inl Conflict
      else if allowed \<noteq> None \<and> (routes = [] \<or> list_ex (\<lambda>(path, v). path = []) routes) then Inl (Routing False)
      else if escapes allowed routes then Inl (Routing False)
      else if tx_state t \<in> set in_progress_states then Inl Conflict
      else Inr (tx_to_payment_result t))"

section \<open>Validating a request\<close>

record valid_payment =
  vp_amount :: decimal
  vp_tx :: string
  vp_sender :: participant
  vp_receiver :: participant
  vp_equivalent :: equivalent
  vp_message :: string

definition validate_payment ::
    "(string \<Rightarrow> string \<Rightarrow> string \<Rightarrow> bool) \<Rightarrow> bool \<Rightarrow> uuid \<Rightarrow> payment_request \<Rightarrow> db \<Rightarrow> exc + valid_payment" where
  "validate_payment verify require_signature sender_id req db =
     (case parse_amount True (rq_amount req) of Inl x \<Rightarrow> Inl x
      | Inr v \<Rightarrow> (case validate_equivalent_code (rq_equivalent req) of Inl x \<Rightarrow> Inl x
      | Inr _ \<Rightarrow> (case validate_tx_id (rq_tx_id req) of Inl x \<Rightarrow> Inl x
      | Inr tx \<Rightarrow> (case get_participant_by_id sender_id db of None \<Rightarrow> Inl NotFound
      | Some sender \<Rightarrow> if require_signature \<and> rq_signature req = [] then Inl InvalidSignature
        else (case get_participant_by_pid (rq_to req) db of None \<Rightarrow> Inl NotFound
      | Some receiver \<Rightarrow> if part_id sender = part_id receiver then Inl BadRequest
        else (case get_equivalent_by_code (rq_equivalent req) db of None \<Rightarrow> Inl NotFound
      | Some q \<Rightarrow> (case canonical_json (VDict (payment_signed_payload tx req)) of Inl x \<Rightarrow> Inl x
      | Inr message \<Rightarrow>
        if require_signature \<and> \<not> verify (part_public_key sender) message (rq_signature req)
        then Inl InvalidSignature
        else Inr \<lparr>vp_amount = v, vp_tx = tx, vp_sender = sender, vp_receiver = receiver,
                  vp_equivalent = q, vp_message = message\<rparr>)))))))"

section \<open>Settings, surroundings and the hub\<close>

record pay_settings =
  multipath_enabled :: bool
  routing_max_hops :: int
  routing_max_paths :: int
  graph_cache_ttl :: int
  lock_ttl_seconds :: int
  on_postgres :: bool
  uow_retry_attempts :: nat

text \<open>The places where the coroutine waits.\<close>

datatype pay_stage = AtRead | AtGraph | AtRoutes | AtInsert | AtPrepare | AtCommit | AtCleanup | AtResult

text \<open>
  What happens around one call. Before each stage other sessions may have committed: \<open>pe_others\<close>
  says what they make of the database. At a stage the call may be stopped by an exception from
  outside (a timeout, a cancellation, a database error), and then the flag tells whether the
  writes of the stage survive, which the caller cannot see. \<open>pe_commit\<close> and \<open>pe_abort\<close> are the
  snapshots the engine reads, \<open>pe_message\<close> and \<open>pe_details\<close> the attributes of an exception object
  that the model's exceptions do not carry.
\<close>

record pay_env =
  pe_others :: "pay_stage \<Rightarrow> db \<Rightarrow> db"
  pe_stop :: "pay_stage \<Rightarrow> (exc \<times> bool) option"
  pe_time :: timestamp
  pe_utcnow :: timestamp
  pe_ticks :: nat
  pe_router :: router
  pe_commit :: "db \<Rightarrow> nat \<Rightarrow> commit_env"
  pe_abort :: "db \<Rightarrow> nat \<Rightarrow> abort_env"
  pe_rollback_fails :: bool
  pe_reread_fails :: bool
  pe_cleanup_cancelled :: bool
  pe_message :: "exc \<Rightarrow> string"
  pe_details :: "exc \<Rightarrow> (string \<times> string) list"

record pay_event =
  ev_recipient :: pid
  ev_tx :: string
  ev_from :: pid
  ev_equivalent :: string
  ev_amount :: amount

record hub =
  hub_db :: db
  hub_cache :: router_cache
  hub_events :: "pay_event list"

definition interrupted :: "(exc \<times> bool) option \<Rightarrow> db \<Rightarrow> (exc + 'a) \<times> db \<Rightarrow> (exc + 'a) \<times> db" where
  "interrupted stop db r = (case stop of None \<Rightarrow> r | Some (x, survived) \<Rightarrow> (Inl x, if survived then snd r else db))"

section \<open>Routing\<close>

definition keep_inside :: "pid list \<Rightarrow> (pid \<times> (pid \<times> 'a) list) list \<Rightarrow> (pid \<times> (pid \<times> 'a) list) list" where
  "keep_inside ps m = map (\<lambda>(u, adj). (u, filter (\<lambda>(v, x). v \<in> set ps) adj)) (filter (\<lambda>(u, adj). u \<in> set ps) m)"

definition confine_router_to_perimeter :: "pid list \<Rightarrow> router \<Rightarrow> router" where
  "confine_router_to_perimeter ps rt = rt\<lparr>rt_graph := keep_inside ps (rt_graph rt),
     edge_can_be_intermediate := keep_inside ps (edge_can_be_intermediate rt),
     edge_blocked_participants := keep_inside ps (edge_blocked_participants rt)\<rparr>"

definition effective_int :: "int option \<Rightarrow> int \<Rightarrow> int" where
  "effective_int client_value server_default = (case client_value of None \<Rightarrow> server_default | Some n \<Rightarrow> min n server_default)"

definition client_value :: "(payment_constraints \<Rightarrow> 'a option option) \<Rightarrow> payment_request \<Rightarrow> 'a option" where
  "client_value field req = (case rq_constraints req of None \<Rightarrow> None
     | Some c \<Rightarrow> (case field c of None \<Rightarrow> None | Some v \<Rightarrow> v))"

definition server_max_hops :: "pay_settings \<Rightarrow> int" where
  "server_max_hops cfg = (if routing_max_hops cfg = 0 then 6 else routing_max_hops cfg)"

definition server_max_paths :: "pay_settings \<Rightarrow> int" where
  "server_max_paths cfg = (if \<not> multipath_enabled cfg then 1 else if routing_max_paths cfg = 0 then 3 else routing_max_paths cfg)"

definition effective_avoid :: "payment_request \<Rightarrow> pid list option" where
  "effective_avoid req = (case client_value pc_avoid req of None \<Rightarrow> None
     | Some [] \<Rightarrow> None | Some ps \<Rightarrow> Some (filter (\<lambda>p. p \<noteq> []) ps))"

text \<open>A timeout of the graph or of the search is reported as such; nothing is written yet.\<close>

definition unless_stopped :: "(exc \<times> bool) option \<Rightarrow> exc + 'a \<Rightarrow> exc + 'a" where
  "unless_stopped stop r = (case stop of None \<Rightarrow> r | Some (x, _) \<Rightarrow> Inl (if x = AsyncioTimeout then TimeoutExc else x))"

definition route_payment ::
    "pay_settings \<Rightarrow> pay_env \<Rightarrow> bool \<Rightarrow> pid list option \<Rightarrow> payment_request \<Rightarrow> valid_payment \<Rightarrow> db \<Rightarrow> router_cache
      \<Rightarrow> (exc + (pid list \<times> amount) list) \<times> router_cache" where
  "route_payment cfg env deferred allowed req vp db cache =
     (case unless_stopped (pe_stop env AtGraph)
             (build_graph (graph_cache_ttl cfg) (\<not> deferred) (pe_time env) (equiv_code (vp_equivalent vp)) db cache (pe_router env)) of
        Inl x \<Rightarrow> (Inl x, cache)
      | Inr (rt, cache1) \<Rightarrow>
        (if allowed = Some [] then Inl (Routing False)
         else let rt1 = (case allowed of None \<Rightarrow> rt | Some ps \<Rightarrow> confine_router_to_perimeter ps rt) in
          (case unless_stopped (pe_stop env AtRoutes)
                  (find_flow_routes rt1 (part_pid (vp_sender vp)) (part_pid (vp_receiver vp)) (dec_value (vp_amount vp))
                     (effective_int (client_value pc_max_hops req) (server_max_hops cfg))
                     (effective_int (client_value pc_max_paths req) (server_max_paths cfg))
                     (effective_avoid req) (pe_ticks env)) of
             Inl x \<Rightarrow> Inl x
           | Inr routes \<Rightarrow>
               if routes = [] then Inl (Routing True)
               else if escapes allowed routes then Inl (Routing False)
               else Inr routes), cache1))"

section \<open>Cleaning up\<close>

definition service_abort ::
    "pay_settings \<Rightarrow> pay_env \<Rightarrow> bool \<Rightarrow> string \<Rightarrow> string \<Rightarrow> error_code \<Rightarrow> (string \<times> string) list option \<Rightarrow> db \<Rightarrow> (exc + unit) \<times> db" where
  "service_abort cfg env commit tx reason code details db =
     (case abort (on_postgres cfg) (uow_retry_attempts cfg) commit False tx reason (Some (error_code_value code)) details (pe_abort env db) of
        (r, w) \<Rightarrow> (case r of Inl x \<Rightarrow> Inl x | Inr _ \<Rightarrow> Inr (), case w of None \<Rightarrow> db | Some db' \<Rightarrow> db'))"

text \<open>Abort the payment because of \<open>x\<close>, then raise \<open>x\<close>.\<close>

definition abort_and_raise ::
    "pay_settings \<Rightarrow> pay_env \<Rightarrow> bool \<Rightarrow> string \<Rightarrow> exc \<Rightarrow> db \<Rightarrow> (exc + payment_result) \<times> db" where
  "abort_and_raise cfg env commit tx x db =
     (if commit \<and> pe_rollback_fails env then (Inl (Geo E010), db)
      else (case service_abort cfg env commit tx (pe_message env x) (exc_code x) (Some (pe_details env x)) db of
          (Inl y, db') \<Rightarrow> (Inl (if commit then Geo E010 else x), db')
        | (Inr _, db') \<Rightarrow> (Inl x, db')))"

definition prepare_failed ::
    "pay_settings \<Rightarrow> pay_env \<Rightarrow> bool \<Rightarrow> string \<Rightarrow> exc \<Rightarrow> db \<Rightarrow> (exc + payment_result) \<times> db" where
  "prepare_failed cfg env commit tx x db =
     abort_and_raise cfg env commit tx (if is_client_error x then x else classify_payment_db_error x) db"

text \<open>The transaction, when it turns out to be committed after all.\<close>

definition committed_result :: "string \<Rightarrow> db \<Rightarrow> payment_result option" where
  "committed_result tx db = (case get_tx tx db of None \<Rightarrow> None
     | Some t \<Rightarrow> if tx_state t = COMMITTED then Some (tx_to_payment_result t) else None)"

definition commit_failed ::
    "pay_settings \<Rightarrow> pay_env \<Rightarrow> bool \<Rightarrow> string \<Rightarrow> exc \<Rightarrow> db \<Rightarrow> (exc + payment_result) \<times> db" where
  "commit_failed cfg env commit tx x db =
     (if is_client_error x then abort_and_raise cfg env commit tx x db
      else let public_error = classify_payment_db_error x in
        if commit \<and> (pe_rollback_fails env \<or> pe_reread_fails env) then (Inl public_error, db)
        else (case (if commit then committed_result tx db else None) of
            Some r \<Rightarrow> (Inr r, db)
          | None \<Rightarrow> (Inl public_error, snd (service_abort cfg env commit tx (pe_message env public_error)
              (exc_code public_error) (Some (pe_details env public_error)) db))))"

text \<open>
  The shielded cleanup after a timeout or a cancellation: the committed result if there is one,
  an abort otherwise.
\<close>

definition terminalize ::
    "pay_settings \<Rightarrow> pay_env \<Rightarrow> bool \<Rightarrow> string \<Rightarrow> string \<Rightarrow> db \<Rightarrow> (exc + payment_result option) \<times> db" where
  "terminalize cfg env commit tx reason db =
     (if commit \<and> (pe_rollback_fails env \<or> pe_reread_fails env) then (Inl RuntimeError, db)
      else (case (if commit then committed_result tx db else None) of
          Some r \<Rightarrow> (Inr (Some r), db)
        | None \<Rightarrow> (case service_abort cfg env commit tx reason E007 None db of
            (Inl x, db') \<Rightarrow> (Inl x, db') | (Inr _, db') \<Rightarrow> (Inr None, db'))))"

definition payment_timed_out ::
    "pay_settings \<Rightarrow> pay_env \<Rightarrow> bool \<Rightarrow> string \<Rightarrow> db \<Rightarrow> (exc + payment_result) \<times> db" where
  "payment_timed_out cfg env commit tx db =
     (case terminalize cfg env commit tx ''Payment timeout'' db of (r, db') \<Rightarrow>
        (if pe_cleanup_cancelled env then Inl CancelledError
         else (case r of Inl _ \<Rightarrow> Inl (if commit then Geo E010 else TimeoutExc)
           | Inr (Some res) \<Rightarrow> Inr res | Inr None \<Rightarrow> Inl TimeoutExc), db'))"

definition payment_cancelled ::
    "pay_settings \<Rightarrow> pay_env \<Rightarrow> bool \<Rightarrow> string \<Rightarrow> db \<Rightarrow> (exc + payment_result) \<times> db" where
  "payment_cancelled cfg env commit tx db =
     (Inl CancelledError, snd (terminalize cfg env commit tx ''Payment cancelled'' db))"

section \<open>The stages that write\<close>

definition new_payment_tx ::
    "uuid \<Rightarrow> string \<Rightarrow> valid_payment \<Rightarrow> (pid list \<times> amount) list \<Rightarrow> db \<Rightarrow> transaction" where
  "new_payment_tx sender_id fingerprint vp routes db =
     \<lparr>tx_id = vp_tx vp, tx_type = PAYMENT, tx_initiator = sender_id,
      tx_payload = \<lparr>pl_from = Some (part_pid (vp_sender vp)), pl_to = Some (part_pid (vp_receiver vp)),
        pl_amount = Some (Fin (dec_value (vp_amount vp))), pl_equivalent = Some (equiv_code (vp_equivalent vp)),
        pl_routes = Some routes, pl_fingerprint = Some fingerprint, pl_edges = None\<rparr>,
      tx_state = NEW, tx_error = None, tx_created_at = db_now db, tx_updated_at = db_now db\<rparr>"

definition run_prepare ::
    "pay_settings \<Rightarrow> pay_env \<Rightarrow> string \<Rightarrow> (pid list \<times> amount) list \<Rightarrow> amount \<Rightarrow> uuid \<Rightarrow> db \<Rightarrow> (exc + unit) \<times> db" where
  "run_prepare cfg env tx routes v e db = interrupted (pe_stop env AtPrepare) db
     (case (if length routes = 1 then prepare (pe_utcnow env) (lock_ttl_seconds cfg) tx (fst (hd routes)) v e db
            else prepare_routes (pe_utcnow env) (lock_ttl_seconds cfg) tx routes e db) of
        Inl x \<Rightarrow> (Inl x, db) | Inr db' \<Rightarrow> (Inr (), db'))"

definition run_commit :: "pay_settings \<Rightarrow> pay_env \<Rightarrow> bool \<Rightarrow> string \<Rightarrow> db \<Rightarrow> (exc + unit) \<times> db" where
  "run_commit cfg env commit tx db = interrupted (pe_stop env AtCommit) db
     (case commit_tx (on_postgres cfg) (uow_retry_attempts cfg) commit tx (pe_commit env db) of
        (r, w) \<Rightarrow> (r, case w of None \<Rightarrow> db | Some db' \<Rightarrow> db'))"

text \<open>An exception at a stage at which the transaction may be persisted, by the handler it reaches.\<close>

definition stage_failed ::
    "(exc \<Rightarrow> db \<Rightarrow> (exc + payment_result) \<times> db) \<Rightarrow> pay_settings \<Rightarrow> pay_env \<Rightarrow> bool \<Rightarrow> string \<Rightarrow> exc \<Rightarrow> db
      \<Rightarrow> (exc + payment_result) \<times> db" where
  "stage_failed handler cfg env commit tx x db =
     (if x = AsyncioTimeout then payment_timed_out cfg env commit tx db
      else if x = CancelledError then payment_cancelled cfg env commit tx db
      else handler x db)"

definition insert_failed ::
    "pay_env \<Rightarrow> bool \<Rightarrow> exc \<Rightarrow> db \<Rightarrow> (exc + payment_result) \<times> db" where
  "insert_failed env commit x db =
     (if classify_payment_db_error x \<noteq> RetryablePaymentConflict then (Inl x, db)
      else if commit \<and> pe_rollback_fails env then (Inl (Geo E010), db)
      else (Inl RetryablePaymentConflict, db))"

section \<open>Effects after the commit\<close>

record pay_effects =
  eff_equivalent :: string
  eff_event :: pay_event
  eff_invalidates :: bool
  eff_applied :: bool
  eff_cache_invalidated :: bool

definition invalidate_routing_cache_once :: "pay_effects \<Rightarrow> hub \<Rightarrow> bool \<times> pay_effects \<times> hub" where
  "invalidate_routing_cache_once eff h = (if eff_cache_invalidated eff then (False, eff, h)
     else (True, eff\<lparr>eff_cache_invalidated := True\<rparr>,
           if eff_invalidates eff then h\<lparr>hub_cache := invalidate_cache (Some (eff_equivalent eff)) (hub_cache h)\<rparr> else h))"

definition apply_once :: "pay_effects \<Rightarrow> hub \<Rightarrow> bool \<times> pay_effects \<times> hub" where
  "apply_once eff h = (if eff_applied eff then (False, eff, h)
     else (case invalidate_routing_cache_once (eff\<lparr>eff_applied := True\<rparr>) h of
        (_, eff', h') \<Rightarrow> (True, eff', h'\<lparr>hub_events := hub_events h' @ [eff_event eff]\<rparr>)))"

definition payment_effects :: "bool \<Rightarrow> valid_payment \<Rightarrow> pay_effects" where
  "payment_effects deferred vp =
     \<lparr>eff_equivalent = equiv_code (vp_equivalent vp),
      eff_event = \<lparr>ev_recipient = part_pid (vp_receiver vp), ev_tx = vp_tx vp, ev_from = part_pid (vp_sender vp),
        ev_equivalent = equiv_code (vp_equivalent vp), ev_amount = dec_value (vp_amount vp)\<rparr>,
      eff_invalidates = deferred, eff_applied = False, eff_cache_invalidated = False\<rparr>"

section \<open>Creating a payment\<close>

type_synonym pay_outcome = "(exc + payment_result) \<times> hub \<times> pay_effects option"

definition failed_with :: "hub \<Rightarrow> (exc + payment_result) \<times> db \<Rightarrow> pay_outcome" where
  "failed_with h r = (fst r, h\<lparr>hub_db := snd r\<rparr>, None)"

definition invalidated :: "bool \<Rightarrow> string \<Rightarrow> hub \<Rightarrow> hub" where
  "invalidated deferred code h = (if deferred then h
     else h\<lparr>hub_cache := invalidate_cache (Some code) (hub_cache h)\<rparr>)"

definition finish_payment ::
    "bool \<Rightarrow> valid_payment \<Rightarrow> (pid list \<times> amount) list \<Rightarrow> hub \<Rightarrow> pay_outcome" where
  "finish_payment deferred vp routes h = (case get_tx (vp_tx vp) (hub_db h) of
      None \<Rightarrow> (Inl ValueError, h, None)
    | Some t \<Rightarrow>
        let result = \<lparr>pr_tx_id = vp_tx vp, pr_status = COMMITTED, pr_from = part_pid (vp_sender vp),
              pr_to = part_pid (vp_receiver vp), pr_equivalent = equiv_code (vp_equivalent vp),
              pr_amount = Some (Fin (dec_value (vp_amount vp))), pr_routes = Some routes, pr_error = None,
              pr_created_at = tx_created_at t,
              pr_committed_at = (if tx_state t = COMMITTED then Some (tx_updated_at t) else None)\<rparr>;
            eff = payment_effects deferred vp
        in if deferred then (Inr result, h, Some eff)
           else (Inr result, snd (snd (apply_once eff h)), None))"

definition clean_up ::
    "(exc \<Rightarrow> db \<Rightarrow> (exc + payment_result) \<times> db) \<Rightarrow> pay_settings \<Rightarrow> pay_env \<Rightarrow> bool \<Rightarrow> string \<Rightarrow> exc \<Rightarrow> hub \<Rightarrow> pay_outcome" where
  "clean_up handler cfg env commit tx x h = failed_with h
     (stage_failed handler cfg env commit tx x (pe_others env AtCleanup (hub_db h)))"

text \<open>Step 5, step 4 and step 3 of the payment, each with what follows it.\<close>

definition commit_payment ::
    "pay_settings \<Rightarrow> pay_env \<Rightarrow> bool \<Rightarrow> valid_payment \<Rightarrow> (pid list \<times> amount) list \<Rightarrow> string \<Rightarrow> hub \<Rightarrow> pay_outcome" where
  "commit_payment cfg env commit vp routes code h =
     (case run_commit cfg env commit (vp_tx vp) (pe_others env AtCommit (hub_db h)) of
        (Inl x, db) \<Rightarrow> clean_up (commit_failed cfg env commit (vp_tx vp)) cfg env commit (vp_tx vp) x (h\<lparr>hub_db := db\<rparr>)
      | (Inr _, db) \<Rightarrow> finish_payment (\<not> commit) vp routes
          ((invalidated (\<not> commit) code h)\<lparr>hub_db := pe_others env AtResult db\<rparr>))"

definition prepare_payment ::
    "pay_settings \<Rightarrow> pay_env \<Rightarrow> bool \<Rightarrow> valid_payment \<Rightarrow> (pid list \<times> amount) list \<Rightarrow> string \<Rightarrow> hub \<Rightarrow> pay_outcome" where
  "prepare_payment cfg env commit vp routes code h =
     (case run_prepare cfg env (vp_tx vp) routes (dec_value (vp_amount vp)) (equiv_id (vp_equivalent vp))
             (pe_others env AtPrepare (hub_db h)) of
        (Inl x, db) \<Rightarrow> clean_up (prepare_failed cfg env commit (vp_tx vp)) cfg env commit (vp_tx vp) x (h\<lparr>hub_db := db\<rparr>)
      | (Inr _, db) \<Rightarrow> commit_payment cfg env commit vp routes code ((invalidated (\<not> commit) code h)\<lparr>hub_db := db\<rparr>))"

text \<open>The insertion answers the row it collided with, if there is one.\<close>

definition insert_payment ::
    "pay_env \<Rightarrow> uuid \<Rightarrow> string \<Rightarrow> valid_payment \<Rightarrow> (pid list \<times> amount) list \<Rightarrow> db \<Rightarrow> (exc + transaction option) \<times> db" where
  "insert_payment env sender_id fingerprint vp routes db = interrupted (pe_stop env AtInsert) db
     (case get_tx (vp_tx vp) db of
        Some t \<Rightarrow> (Inr (Some t), db)
      | None \<Rightarrow> (Inr None, db\<lparr>transactions := transactions db @ [new_payment_tx sender_id fingerprint vp routes db]\<rparr>))"

definition execute_payment ::
    "pay_settings \<Rightarrow> pay_env \<Rightarrow> bool \<Rightarrow> uuid \<Rightarrow> string \<Rightarrow> pid list option \<Rightarrow> valid_payment
      \<Rightarrow> (pid list \<times> amount) list \<Rightarrow> string \<Rightarrow> hub \<Rightarrow> pay_outcome" where
  "execute_payment cfg env commit sender_id fingerprint allowed vp routes code h =
     (case insert_payment env sender_id fingerprint vp routes (pe_others env AtInsert (hub_db h)) of
        (Inl x, db) \<Rightarrow> clean_up (insert_failed env commit) cfg env commit (vp_tx vp) x (h\<lparr>hub_db := db\<rparr>)
      | (Inr (Some t), db) \<Rightarrow> (resolve_existing_payment t sender_id fingerprint allowed, h\<lparr>hub_db := db\<rparr>, None)
      | (Inr None, db) \<Rightarrow> prepare_payment cfg env commit vp routes code (h\<lparr>hub_db := db\<rparr>))"

definition create_payment_impl ::
    "(string \<Rightarrow> string \<Rightarrow> string \<Rightarrow> bool) \<Rightarrow> (string \<Rightarrow> string) \<Rightarrow> pay_settings \<Rightarrow> pay_env \<Rightarrow> uuid \<Rightarrow> payment_request
      \<Rightarrow> bool \<Rightarrow> bool \<Rightarrow> pid list option \<Rightarrow> hub \<Rightarrow> pay_outcome" where
  "create_payment_impl verify sha256 cfg env sender_id req require_signature commit allowed h =
     (let db0 = pe_others env AtRead (hub_db h); h0 = h\<lparr>hub_db := db0\<rparr> in
      case validate_payment verify require_signature sender_id req db0 of Inl x \<Rightarrow> (Inl x, h0, None)
      | Inr vp \<Rightarrow> let fingerprint = sha256 (vp_message vp) in
        (case get_tx (vp_tx vp) db0 of
          Some t \<Rightarrow> (resolve_existing_payment t sender_id fingerprint allowed, h0, None)
        | None \<Rightarrow>
          (case route_payment cfg env (\<not> commit) allowed req vp (pe_others env AtGraph db0) (hub_cache h) of
            (Inl x, cache) \<Rightarrow> (Inl x, h\<lparr>hub_db := pe_others env AtGraph db0, hub_cache := cache\<rparr>, None)
          | (Inr routes, cache) \<Rightarrow> execute_payment cfg env commit sender_id fingerprint allowed vp routes (rq_equivalent req)
              (h\<lparr>hub_db := pe_others env AtGraph db0, hub_cache := cache\<rparr>))))"

definition create_payment ::
    "(string \<Rightarrow> string \<Rightarrow> string \<Rightarrow> bool) \<Rightarrow> (string \<Rightarrow> string) \<Rightarrow> pay_settings \<Rightarrow> pay_env \<Rightarrow> uuid \<Rightarrow> payment_request
      \<Rightarrow> hub \<Rightarrow> (exc + payment_result) \<times> hub" where
  "create_payment verify sha256 cfg env sender_id req h =
     (case create_payment_impl verify sha256 cfg env sender_id req True True None h of (r, h', _) \<Rightarrow> (r, h'))"

definition internal_request ::
    "string \<Rightarrow> pid \<Rightarrow> string \<Rightarrow> string \<Rightarrow> string option \<Rightarrow> payment_constraints option \<Rightarrow> string option \<Rightarrow> payment_request" where
  "internal_request uuid4 to_pid code v description constraints key =
     (let stripped = (case key of None \<Rightarrow> [] | Some k \<Rightarrow> py_strip k) in
      \<lparr>rq_tx_id = (if stripped = [] then uuid4 else stripped), rq_to = to_pid, rq_equivalent = code, rq_amount = v,
       rq_description = description, rq_constraints = constraints, rq_signature = ''__internal__''\<rparr>)"

text \<open>\<open>uuid4\<close> is the text of a fresh identifier, used when no idempotency key is given.\<close>

definition create_payment_internal ::
    "(string \<Rightarrow> string \<Rightarrow> string \<Rightarrow> bool) \<Rightarrow> (string \<Rightarrow> string) \<Rightarrow> pay_settings \<Rightarrow> pay_env \<Rightarrow> uuid \<Rightarrow> string \<Rightarrow> pid \<Rightarrow> string \<Rightarrow> string
      \<Rightarrow> string option \<Rightarrow> payment_constraints option \<Rightarrow> string option \<Rightarrow> bool \<Rightarrow> pid list option \<Rightarrow> hub \<Rightarrow> (exc + payment_result) \<times> hub" where
  "create_payment_internal verify sha256 cfg env sender_id uuid4 to_pid code v description constraints key commit allowed h =
     (if \<not> commit then (Inl ValueError, h)
      else (case create_payment_impl verify sha256 cfg env sender_id
              (internal_request uuid4 to_pid code v description constraints key) False True allowed h of (r, h', _) \<Rightarrow> (r, h')))"

definition create_payment_internal_staged ::
    "(string \<Rightarrow> string \<Rightarrow> string \<Rightarrow> bool) \<Rightarrow> (string \<Rightarrow> string) \<Rightarrow> pay_settings \<Rightarrow> pay_env \<Rightarrow> uuid \<Rightarrow> string \<Rightarrow> pid \<Rightarrow> string \<Rightarrow> string
      \<Rightarrow> string option \<Rightarrow> payment_constraints option \<Rightarrow> string option \<Rightarrow> pid list option \<Rightarrow> hub \<Rightarrow> pay_outcome" where
  "create_payment_internal_staged verify sha256 cfg env sender_id uuid4 to_pid code v description constraints key allowed h =
     create_payment_impl verify sha256 cfg env sender_id
       (internal_request uuid4 to_pid code v description constraints key) False False allowed h"

section \<open>Queries\<close>

definition get_payment :: "string \<Rightarrow> db \<Rightarrow> exc + payment_result" where
  "get_payment tx db = (case get_tx tx db of None \<Rightarrow> Inl NotFound
     | Some t \<Rightarrow> if tx_type t \<noteq> PAYMENT then Inl NotFound else Inr (tx_to_payment_result t))"

definition get_payment_for_participant :: "string \<Rightarrow> uuid \<Rightarrow> pid \<Rightarrow> db \<Rightarrow> exc + payment_result" where
  "get_payment_for_participant tx requester_id requester_pid db = (case get_tx tx db of None \<Rightarrow> Inl NotFound
     | Some t \<Rightarrow> if tx_type t \<noteq> PAYMENT then Inl NotFound
         else if tx_initiator t \<noteq> requester_id
           \<and> (case pl_to (tx_payload t) of None \<Rightarrow> [] | Some p \<Rightarrow> p) \<noteq> requester_pid then Inl NotFound
         else Inr (tx_to_payment_result t))"

datatype pay_direction = Sent | Received | AllPayments

definition concerns :: "uuid \<Rightarrow> pid \<Rightarrow> pay_direction \<Rightarrow> transaction \<Rightarrow> bool" where
  "concerns requester_id requester_pid d t = (let pl = tx_payload t in case d of
      Sent \<Rightarrow> tx_initiator t = requester_id \<or> pl_from pl = Some requester_pid
    | Received \<Rightarrow> pl_to pl = Some requester_pid
    | AllPayments \<Rightarrow> tx_initiator t = requester_id \<or> pl_to pl = Some requester_pid \<or> pl_from pl = Some requester_pid)"

text \<open>Timestamps are instants; \<open>page\<close> and \<open>per_page\<close> are positive.\<close>

definition list_payments ::
    "uuid \<Rightarrow> pid \<Rightarrow> pay_direction \<Rightarrow> string option \<Rightarrow> tx_state_t option \<Rightarrow> timestamp option \<Rightarrow> timestamp option
      \<Rightarrow> nat \<Rightarrow> nat \<Rightarrow> db \<Rightarrow> payment_result list" where
  "list_payments requester_id requester_pid d code status from_date to_date page per_page db =
     map tx_to_payment_result (page_rows (Some per_page) (Some ((page - 1) * per_page))
       (sort_key (\<lambda>t. - tx_created_at t) (filter (\<lambda>t. tx_type t = PAYMENT
          \<and> (case status of None \<Rightarrow> True | Some s \<Rightarrow> tx_state t = s)
          \<and> (case from_date of None \<Rightarrow> True | Some x \<Rightarrow> x \<le> tx_created_at t)
          \<and> (case to_date of None \<Rightarrow> True | Some x \<Rightarrow> tx_created_at t \<le> x)
          \<and> concerns requester_id requester_pid d t
          \<and> (case truthy code of None \<Rightarrow> True | Some c \<Rightarrow> pl_equivalent (tx_payload t) = Some c)) (transactions db))))"

section \<open>Owner locks of a staged batch\<close>

definition upper_char :: "char \<Rightarrow> char" where
  "upper_char c = (let n = of_char c :: nat in if 97 \<le> n \<and> n \<le> 122 then char_of (n - 32) else c)"

definition staged_codes :: "string list \<Rightarrow> string list" where
  "staged_codes codes = sort (remdups (filter (\<lambda>c. c \<noteq> []) (map (\<lambda>c. map upper_char (py_strip c)) codes)))"

text \<open>
  The equivalents whose owner locks are taken, in the order of their codes; \<open>failure\<close> is what the
  engine's acquisition raises, if anything.
\<close>

definition acquire_staged_equivalent_owner_locks ::
    "bool \<Rightarrow> exc option \<Rightarrow> string list \<Rightarrow> db \<Rightarrow> exc + uuid list" where
  "acquire_staged_equivalent_owner_locks is_postgres failure codes db =
     (let wanted = staged_codes codes in
      if wanted = [] \<or> \<not> is_postgres then Inr []
      else let ids = List.map_filter (\<lambda>c. map_option equiv_id (get_equivalent_by_code c db)) wanted in
        if ids = [] then Inr []
        else (case failure of None \<Rightarrow> Inr ids
          | Some (DBAPIError d) \<Rightarrow> (if sqlstate d = Some ''55P03'' then Inl AsyncioTimeout
              else Inl (classify_payment_db_error (DBAPIError d)))
          | Some x \<Rightarrow> Inl x))"

end
