(* ===== verification/Sample_Payment.thy ===== *)
theory Sample_Payment
  imports Payment_Service Route_Properties
begin

text \<open>
  A payment on the sample mesh on which the witnesses evaluate: A pays C 60 UAH, more than one
  route can carry.
\<close>

definition sample_request :: payment_request where
  "sample_request = \<lparr>rq_tx_id = ''p1'', rq_to = ''C'', rq_equivalent = ''UAH'', rq_amount = ''60'',
     rq_description = None, rq_constraints = None, rq_signature = ''s''\<rparr>"

definition sample_cfg :: pay_settings where
  "sample_cfg = \<lparr>multipath_enabled = True, routing_max_hops = 6, routing_max_paths = 3, graph_cache_ttl = 0,
     lock_ttl_seconds = 60, on_postgres = True, uow_retry_attempts = 3\<rparr>"

definition sample_env :: pay_env where
  "sample_env = \<lparr>pe_others = (\<lambda>_ db. db), pe_stop = (\<lambda>_. None), pe_time = 0, pe_utcnow = 1000, pe_ticks = 100,
     pe_router = new_router, pe_commit = (\<lambda>db _. quiet_env db),
     pe_abort = (\<lambda>db _. \<lparr>ab_pre = db, ab_tx = db, ab_seg = db\<rparr>), pe_rollback_fails = False, pe_reread_fails = False,
     pe_cleanup_cancelled = False, pe_message = (\<lambda>x. error_message (exc_code x)), pe_details = (\<lambda>_. [])\<rparr>"

definition sample_hub :: hub where
  "sample_hub = \<lparr>hub_db = mesh_db, hub_cache = \<lparr>graph_cache = [], topology_cache = []\<rparr>, hub_events = []\<rparr>"

definition sample_routes :: "(pid list \<times> amount) list" where
  "sample_routes = [([''A'', ''B'', ''C''], 50), ([''A'', ''D'', ''C''], 10)]"

definition sample_valid :: "string \<Rightarrow> string \<Rightarrow> valid_payment" where
  "sample_valid tx m = \<lparr>vp_amount = \<lparr>dec_neg = False, dec_coeff = 60, dec_exp = 0\<rparr>, vp_tx = tx,
     vp_sender = \<lparr>part_id = 5, part_pid = ''A'', part_public_key = [], part_display_name = []\<rparr>,
     vp_receiver = \<lparr>part_id = 7, part_pid = ''C'', part_public_key = [], part_display_name = []\<rparr>,
     vp_equivalent = \<lparr>equiv_id = 9, equiv_code = ''UAH''\<rparr>, vp_message = m\<rparr>"

lemma sample_valid_sel [simp]: "vp_tx (sample_valid tx m) = tx" "vp_message (sample_valid tx m) = m"
  by (simp_all add: sample_valid_def)

lemma sample_amount: "parse_amount True ''60'' = Inr \<lparr>dec_neg = False, dec_coeff = 60, dec_exp = 0\<rparr>"
proof -
  have "parse_amount True (amount_text False ''60'' []) = Inr \<lparr>dec_neg = False, dec_coeff = 60, dec_exp = 0\<rparr>"
    by (simp add: parse_amount_text char_between_def Let_def exceeds_def digits_value_def digit_value_def
        default_max_amount_scale_def default_max_amount_precision_def dec_value_def)
  then show ?thesis by (simp add: amount_text_def)
qed

lemma sample_ids: "validate_equivalent_code ''UAH'' = Inr ()" "validate_tx_id ''p1'' = Inr ''p1''" "validate_tx_id ''t1'' = Inr ''t1''"
  by code_simp+

lemma sample_payload_signable: "signable (VDict (payment_signed_payload tx sample_request))"
  by (simp add: payment_signed_payload_def optional_item_def sample_request_def)

lemma sample_validates:
  assumes "validate_tx_id tx = Inr tx"
  obtains m where "canonical_json (VDict (payment_signed_payload tx (sample_request\<lparr>rq_tx_id := tx\<rparr>))) = Inr m"
    and "validate_payment (\<lambda>_ _ _. True) rs 5 (sample_request\<lparr>rq_tx_id := tx\<rparr>) mesh_db = Inr (sample_valid tx m)"
proof -
  have "signable (VDict (payment_signed_payload tx (sample_request\<lparr>rq_tx_id := tx\<rparr>)))"
    by (simp add: payment_signed_payload_def optional_item_def sample_request_def)
  then obtain m where m: "canonical_json (VDict (payment_signed_payload tx (sample_request\<lparr>rq_tx_id := tx\<rparr>))) = Inr m"
    using canonical_json_total by blast
  have "validate_payment (\<lambda>_ _ _. True) rs 5 (sample_request\<lparr>rq_tx_id := tx\<rparr>) mesh_db = Inr (sample_valid tx m)"
    using m sample_amount sample_ids assms
    by (simp add: validate_payment_def sample_request_def get_participant_by_id_def get_participant_by_pid_def
        get_equivalent_by_code_def sample_valid_def)
  with m show ?thesis by (rule that)
qed

text \<open>Confined to A, B and C the hub has one route, for at most 50.\<close>

lemma confined_routes:
  "find_flow_routes (confine_router_to_perimeter [''A'', ''B'', ''C''] mesh_router) ''A'' ''C'' 60 6 3 None 100 = Inr []"
  "find_flow_routes (confine_router_to_perimeter [''A'', ''B'', ''C'', ''D''] mesh_router) ''A'' ''C'' 60 6 3 None 100
    = Inr [([''A'', ''B'', ''C''], 50), ([''A'', ''D'', ''C''], 10)]"
  by code_simp+

lemma sample_route:
  assumes "pe_stop env AtGraph = None" "pe_stop env AtRoutes = None" "pe_ticks env = 100" "pe_router env = new_router"
    and "allowed \<in> {None, Some [''A'', ''B'', ''C'', ''D'']}"
  shows "route_payment sample_cfg env deferred allowed (sample_request\<lparr>rq_tx_id := tx\<rparr>) (sample_valid tx m) mesh_db cache = (Inr sample_routes, cache)"
proof -
  have build: "build_graph 0 use t ''UAH'' mesh_db cache new_router = Inr (mesh_router, cache)" for use t
    using mesh_build sample_ids(1) by (simp add: build_graph_def Let_def)
  have v: "dec_value \<lparr>dec_neg = False, dec_coeff = 60, dec_exp = 0\<rparr> = 60" by (simp add: dec_value_def)
  show ?thesis
    using assms mesh_routes confined_routes(2)
    by (auto simp: route_payment_def sample_cfg_def sample_valid_def sample_request_def build v effective_int_def client_value_def
        server_max_hops_def server_max_paths_def effective_avoid_def unless_stopped_def escapes_def sample_routes_def)
qed

lemma sample_hub_sel [simp]:
  "hub_db sample_hub = mesh_db" "hub_cache sample_hub = \<lparr>graph_cache = [], topology_cache = []\<rparr>" "hub_events sample_hub = []"
  by (simp_all add: sample_hub_def)

lemma sample_env_sel [simp]:
  "pe_others sample_env s db = db" "pe_stop sample_env s = None" "pe_ticks sample_env = 100" "pe_router sample_env = new_router"
  "pe_commit sample_env db = (\<lambda>_. quiet_env db)" "pe_abort sample_env db = (\<lambda>_. \<lparr>ab_pre = db, ab_tx = db, ab_seg = db\<rparr>)"
  "pe_utcnow sample_env = 1000" "\<not> pe_rollback_fails sample_env" "\<not> pe_reread_fails sample_env" "\<not> pe_cleanup_cancelled sample_env"
  by (simp_all add: sample_env_def)

lemma sample_new_tx: "get_tx ''p1'' mesh_db = None" "load_prepare_locks ''p1'' mesh_db = []"
  by (simp_all add: get_tx_def sample_tx_def load_prepare_locks_def)

lemma sample_request_p1 [simp]: "sample_request\<lparr>rq_tx_id := ''p1''\<rparr> = sample_request"
  by (simp add: sample_request_def)

lemmas sample_p1 = sample_validates [OF sample_ids(2), unfolded sample_request_p1]

end
