(* ===== verification/Payment_Outcomes.thy ===== *)
theory Payment_Outcomes
  imports Sample_Payment Line_Properties
begin

text \<open>
  What the payment service guarantees: a payment that reports an error has moved no debt, a
  repeated request is answered from the record, a reused identifier is a conflict, a scoped
  payment stays inside its perimeter, and a payment for which there are routes commits.
\<close>

section \<open>Frames\<close>

text \<open>The call runs alone: nobody writes in between, and the engine reads what the call left.\<close>

definition runs_alone :: "pay_env \<Rightarrow> bool" where
  "runs_alone env \<longleftrightarrow> (\<forall>s db. pe_others env s db = db)
     \<and> (\<forall>db i. ce_tx (pe_commit env db i) = db \<and> ce_nolock (pe_commit env db i) = db)
     \<and> (\<forall>db. commit_reads db (pe_commit env db) \<and> abort_reads db (pe_abort env db))"

text \<open>What stops a call from outside is no error of the client.\<close>

definition stops_fairly :: "pay_env \<Rightarrow> bool" where
  "stops_fairly env \<longleftrightarrow> (\<forall>s x survived. pe_stop env s = Some (x, survived) \<longrightarrow> \<not> is_client_error x)"

definition same_ledger :: "db \<Rightarrow> db \<Rightarrow> bool" where
  "same_ledger db db' \<longleftrightarrow> debts db' = debts db \<and> trust_lines db' = trust_lines db
     \<and> participants db' = participants db \<and> equivalents db' = equivalents db"

lemma same_ledger_refl [simp]: "same_ledger db db"
  by (simp add: same_ledger_def)

lemma same_ledger_trans: "same_ledger a b \<Longrightarrow> same_ledger b c \<Longrightarrow> same_ledger a c"
  by (simp add: same_ledger_def)

lemma add_tx_same_ledger [simp]: "same_ledger db (db\<lparr>transactions := ts\<rparr>)"
  by (simp add: same_ledger_def)

lemma update_tx_same [simp]: "same_ledger db (update_tx tx g db') = same_ledger db db'"
  "same_ledger db (delete_prepare_locks tx db') = same_ledger db db'"
  by (simp_all add: same_ledger_def update_tx_def delete_prepare_locks_def)

lemma abort_same_ledger:
  assumes "abort_reads db env" and "abort pg n cf held tx reason code details env = (r, Some db')"
  shows "same_ledger db db'"
  using assms by (cases rule: abort_step_cases) simp_all

lemma runs_aloneD:
  assumes "runs_alone env"
  shows "pe_others env s db = db" and "commit_reads db (pe_commit env db)" and "abort_reads db (pe_abort env db)"
    and "ce_tx (pe_commit env db i) = db" and "ce_nolock (pe_commit env db i) = db" and "ce_seg (pe_commit env db i) = db"
  using assms by (auto simp: runs_alone_def commit_reads_def)

lemma service_abort_same_ledger:
  assumes "runs_alone env"
  shows "same_ledger db (snd (service_abort cfg env commit tx reason code details db))"
proof -
  obtain r w where ab: "abort (on_postgres cfg) (uow_retry_attempts cfg) commit False tx reason
      (Some (error_code_value code)) details (pe_abort env db) = (r, w)" by fastforce
  then show ?thesis using abort_same_ledger [OF runs_aloneD(3) [OF assms]]
    by (cases w) (simp_all add: service_abort_def)
qed

lemma prepare_equivalents: "prepare utcnow ttl tx path v e db = Inr db' \<Longrightarrow> equivalents db' = equivalents db"
  by (cases rule: prepare_Inr_cases, assumption) (auto simp: mark_prepared_def add_locks_def split: if_splits)

lemma prepare_routes_equivalents: "prepare_routes utcnow ttl tx routes e db = Inr db' \<Longrightarrow> equivalents db' = equivalents db"
  by (cases rule: prepare_routes_Inr_cases, assumption) (auto simp: mark_prepared_def add_locks_def split: if_splits)

lemma run_prepare_same_ledger: "same_ledger db (snd (run_prepare cfg env tx routes v e db))"
proof -
  define r where "r = (if length routes = 1 then prepare (pe_utcnow env) (lock_ttl_seconds cfg) tx (fst (hd routes)) v e db
            else prepare_routes (pe_utcnow env) (lock_ttl_seconds cfg) tx routes e db)"
  have "same_ledger db db'" if "r = Inr db'" for db'
  proof (cases "length routes = 1")
    case True
    then have p: "prepare (pe_utcnow env) (lock_ttl_seconds cfg) tx (fst (hd routes)) v e db = Inr db'" using that by (simp add: r_def)
    show ?thesis using prepare_frame [OF p] prepare_equivalents [OF p] by (simp add: same_ledger_def)
  next
    case False
    then have p: "prepare_routes (pe_utcnow env) (lock_ttl_seconds cfg) tx routes e db = Inr db'" using that by (simp add: r_def)
    show ?thesis using prepare_routes_frame [OF p] prepare_routes_equivalents [OF p] by (simp add: same_ledger_def)
  qed
  then show ?thesis unfolding run_prepare_def r_def [symmetric]
    by (cases r) (auto simp: interrupted_def split: option.splits)
qed

lemma write_committed_result:
  assumes "get_tx tx db = Some t" and "fold_res flow_step fs db = Inr db1"
  shows "committed_result tx (write_committed tx pl fs db db1) \<noteq> None"
proof -
  have "transactions db1 = transactions db"
    by (rule fold_res_preserves [OF assms(2), where I = "\<lambda>d. transactions d = transactions db"]) (use flow_step_frame(1) in auto)
  then show ?thesis using write_committed_tx [OF assms(1)] by (simp add: committed_result_def)
qed

lemma commit_tx_committed:
  assumes "commit_reads db env" and "commit_tx pg n cf tx env = (Inr (), Some db')"
  shows "committed_result tx db' \<noteq> None"
  using assms
proof (cases rule: commit_step_cases)
  case (committed t vs db1)
  then show ?thesis using write_committed_result [OF committed(2,7)] by simp
qed simp

lemma run_commit_cases:
  assumes "runs_alone env" and "run_commit cfg env commit tx db = (r, db')"
  obtains (failed) x where "r = Inl x" and "same_ledger db db'"
  | (hidden) x survived where "r = Inl x" and "pe_stop env AtCommit = Some (x, survived)" and "committed_result tx db' \<noteq> None"
  | (succeeded) "r = Inr ()" and "get_tx tx db' \<noteq> None"
proof -
  obtain r0 w where com: "commit_tx (on_postgres cfg) (uow_retry_attempts cfg) commit tx (pe_commit env db) = (r0, w)" by fastforce
  have actual: "case w of None \<Rightarrow> r0 = Inr () \<longrightarrow> get_tx tx db \<noteq> None
    | Some d \<Rightarrow> r0 = Inr () \<and> committed_result tx d \<noteq> None \<or> (\<exists>x. r0 = Inl x) \<and> same_ledger db d"
  proof (cases w)
    case None
    have "get_tx tx db \<noteq> None" if "r0 = Inr ()"
    proof -
      obtain j r' where j: "savepoint (\<not> commit) (commit_uow (on_postgres cfg) (uow_retry_attempts cfg) commit tx (pe_commit env db j)) = (r', w)"
        and "reports r' r0"
        using com unfolding commit_tx_def by (rule run_uow_cases)
      then have "r' = Inr ()" using that by (simp add: reports_Inr)
      then have "fst (commit_uow (on_postgres cfg) (uow_retry_attempts cfg) commit tx (pe_commit env db j)) = Inr ()"
        using j by (auto simp: savepoint_def split: prod.splits sum.splits)
      then show ?thesis
        by (auto simp: commit_uow_def runs_aloneD [OF assms(1)] Let_def split: sum.splits option.splits if_splits)
    qed
    then show ?thesis using None by simp
  next
    case (Some d)
    from runs_aloneD(2) [OF assms(1)] com [unfolded Some] show ?thesis
    proof (cases rule: commit_step_cases)
      case (committed t vs db1)
      then show ?thesis using write_committed_result [OF committed(2,7)] Some by simp
    next
      case (aborted x held reason code details out i)
      then show ?thesis using abort_same_ledger [OF aborted(2,3)] Some by simp
    qed
  qed
  have found: "committed_result tx d \<noteq> None \<Longrightarrow> get_tx tx d \<noteq> None" for d
    by (cases "get_tx tx d") (auto simp: committed_result_def)
  show ?thesis
  proof (cases "pe_stop env AtCommit")
    case None
    then show ?thesis
      using assms(2) com actual found that(1,3)
      by (cases r0; cases w) (auto simp: run_commit_def interrupted_def)
  next
    case (Some stop)
    then show ?thesis
      using assms(2) com actual that(1,2)
      by (cases stop; cases w) (auto simp: run_commit_def interrupted_def split: if_splits)
  qed
qed

text \<open>After a failure that the service could look into, nothing was committed and the debts stay.\<close>

definition cleanup_works :: "pay_env \<Rightarrow> bool" where
  "cleanup_works env \<longleftrightarrow> \<not> pe_rollback_fails env \<and> \<not> pe_reread_fails env"

lemma terminalize_frame:
  assumes "runs_alone env" and "terminalize cfg env commit tx reason db = (r, db')"
  shows "same_ledger db db' \<and> (cleanup_works env \<and> commit \<and> committed_result tx db \<noteq> None \<longrightarrow> r = Inr (committed_result tx db))"
  using assms(2) service_abort_same_ledger [OF assms(1), of db cfg commit tx reason E007 None]
  by (auto simp: terminalize_def cleanup_works_def split: if_splits option.splits prod.splits sum.splits)

lemma abort_and_raise_same_ledger:
  assumes "runs_alone env"
  shows "same_ledger db (snd (abort_and_raise cfg env commit tx x db))"
  using service_abort_same_ledger [OF assms, of db cfg commit tx "pe_message env x" "exc_code x" "Some (pe_details env x)"]
  by (auto simp: abort_and_raise_def split: prod.splits sum.splits)

lemma stage_failed_commit:
  assumes "runs_alone env" and "cleanup_works env" and "y \<noteq> CancelledError"
    and "stage_failed (commit_failed cfg env True tx) cfg env True tx x db = (Inl y, db')"
  shows "same_ledger db db' \<and> (is_client_error x \<or> committed_result tx db = None)"
proof -
  consider "x = AsyncioTimeout" | "x = CancelledError" | "x \<noteq> AsyncioTimeout" "x \<noteq> CancelledError" by blast
  then show ?thesis
  proof cases
    case 1
    obtain r d where t: "terminalize cfg env True tx ''Payment timeout'' db = (r, d)" by fastforce
    show ?thesis using assms 1 t terminalize_frame [OF assms(1) t]
      by (auto simp: stage_failed_def payment_timed_out_def split: if_splits sum.splits option.splits)
  next
    case 2
    then show ?thesis using assms by (auto simp: stage_failed_def payment_cancelled_def)
  next
    case 3
    let ?p = "classify_payment_db_error x"
    show ?thesis
      using assms 3 abort_and_raise_same_ledger [OF assms(1), of db cfg True tx x]
        service_abort_same_ledger [OF assms(1), of db cfg True tx "pe_message env ?p" "exc_code ?p" "Some (pe_details env ?p)"]
      by (auto simp: stage_failed_def commit_failed_def cleanup_works_def Let_def split: if_splits option.splits)
  qed
qed

lemma stage_failed_same_ledger:
  assumes "runs_alone env" and "\<And>x db. same_ledger db (snd (handler x db))"
  shows "same_ledger db (snd (stage_failed handler cfg env commit tx x db))"
proof -
  obtain r d where t: "terminalize cfg env commit tx ''Payment timeout'' db = (r, d)" by fastforce
  obtain r' d' where c: "terminalize cfg env commit tx ''Payment cancelled'' db = (r', d')" by fastforce
  show ?thesis
    using assms(2) terminalize_frame [OF assms(1) t] terminalize_frame [OF assms(1) c] t c
    by (auto simp: stage_failed_def payment_timed_out_def payment_cancelled_def)
qed

section \<open>Failures\<close>

lemma insert_payment_frame:
  "same_ledger db (snd (insert_payment env sender fp vp routes db))"
  "insert_payment env sender fp vp routes db = (Inr (Some t), db') \<Longrightarrow> get_tx (vp_tx vp) db = Some t \<and> db' = db"
  by (auto simp: insert_payment_def interrupted_def split: option.splits)

lemma insert_failed_same_ledger: "same_ledger db (snd (insert_failed env commit x db))"
  by (simp add: insert_failed_def)

lemma prepare_failed_same_ledger: "runs_alone env \<Longrightarrow> same_ledger db (snd (prepare_failed cfg env commit tx x db))"
  by (simp add: prepare_failed_def abort_and_raise_same_ledger)

text \<open>An outcome that is an error of the service (not a cancellation) leaves the ledger alone.\<close>

definition error_keeps_ledger :: "db \<Rightarrow> pay_outcome \<Rightarrow> bool" where
  "error_keeps_ledger db out \<longleftrightarrow> (case fst out of Inl x \<Rightarrow> x \<noteq> CancelledError \<longrightarrow> same_ledger db (hub_db (fst (snd out)))
     | Inr _ \<Rightarrow> True)"

lemma error_keeps_ledger_trans:
  "same_ledger db db1 \<Longrightarrow> error_keeps_ledger db1 out \<Longrightarrow> error_keeps_ledger db out"
  by (auto simp: error_keeps_ledger_def intro: same_ledger_trans split: sum.splits)

lemma clean_up_keeps:
  assumes "runs_alone env" and "\<And>x db. same_ledger db (snd (handler x db))"
  shows "error_keeps_ledger (hub_db h) (clean_up handler cfg env commit tx x h)"
  using stage_failed_same_ledger [OF assms] runs_aloneD(1) [OF assms(1)]
  by (simp add: error_keeps_ledger_def clean_up_def failed_with_def split: sum.splits)

lemma commit_payment_keeps:
  assumes alone: "runs_alone env" and works: "cleanup_works env" and fair: "stops_fairly env"
  shows "error_keeps_ledger (hub_db h) (commit_payment cfg env True vp routes code h)"
proof -
  note others = runs_aloneD(1) [OF alone]
  obtain r db where com: "run_commit cfg env True (vp_tx vp) (hub_db h) = (r, db)" by fastforce
  let ?fail = "\<lambda>x. stage_failed (commit_failed cfg env True (vp_tx vp)) cfg env True (vp_tx vp) x db"
  have outcome: "error_keeps_ledger (hub_db h) (commit_payment cfg env True vp routes code h)"
    if r: "r = Inl x" and keeps: "\<And>y db'. ?fail x = (Inl y, db') \<Longrightarrow> y \<noteq> CancelledError \<Longrightarrow> same_ledger (hub_db h) db'" for x
  proof -
    obtain s db' where f: "?fail x = (s, db')" by fastforce
    show ?thesis using com r f keeps
      by (cases s) (simp_all add: commit_payment_def others clean_up_def failed_with_def error_keeps_ledger_def)
  qed
  from alone com show ?thesis
  proof (cases rule: run_commit_cases)
    case (failed x)
    show ?thesis
      by (rule outcome [OF failed(1)])
        (metis stage_failed_commit [OF alone works] failed(2) same_ledger_trans)
  next
    case (hidden x survived)
    have "\<not> is_client_error x" using fair hidden(2) by (auto simp: stops_fairly_def)
    then have "\<not> (?fail x = (Inl y, db') \<and> y \<noteq> CancelledError)" for y db'
      using stage_failed_commit [OF alone works, of y cfg "vp_tx vp" x db db'] hidden(3) by auto
    then show ?thesis by (intro outcome [OF hidden(1)]) simp
  next
    case succeeded
    then obtain t where "get_tx (vp_tx vp) db = Some t" by blast
    then show ?thesis using com succeeded(1)
      by (simp add: commit_payment_def others finish_payment_def Let_def error_keeps_ledger_def)
  qed
qed

lemma prepare_payment_keeps:
  assumes "runs_alone env" and "cleanup_works env" and "stops_fairly env"
  shows "error_keeps_ledger (hub_db h) (prepare_payment cfg env True vp routes code h)"
proof -
  note others = runs_aloneD(1) [OF assms(1)]
  obtain r db where prep: "run_prepare cfg env (vp_tx vp) routes (dec_value (vp_amount vp)) (equiv_id (vp_equivalent vp)) (hub_db h) = (r, db)"
    by fastforce
  have same: "same_ledger (hub_db h) db" using run_prepare_same_ledger [of "hub_db h" cfg env "vp_tx vp" routes] prep by (metis snd_conv)
  show ?thesis
  proof (cases r)
    case (Inl x)
    have "error_keeps_ledger db (clean_up (prepare_failed cfg env True (vp_tx vp)) cfg env True (vp_tx vp) x (h\<lparr>hub_db := db\<rparr>))"
      using clean_up_keeps [OF assms(1) prepare_failed_same_ledger [OF assms(1)], of "h\<lparr>hub_db := db\<rparr>"] by simp
    then show ?thesis using error_keeps_ledger_trans [OF same] Inl prep by (simp add: prepare_payment_def others)
  next
    case (Inr u)
    have "error_keeps_ledger db (commit_payment cfg env True vp routes code ((invalidated (\<not> True) code h)\<lparr>hub_db := db\<rparr>))"
      using commit_payment_keeps [OF assms, of "(invalidated (\<not> True) code h)\<lparr>hub_db := db\<rparr>"] by simp
    then show ?thesis using error_keeps_ledger_trans [OF same] Inr prep by (simp add: prepare_payment_def others)
  qed
qed

lemma execute_payment_keeps:
  assumes "runs_alone env" and "cleanup_works env" and "stops_fairly env"
  shows "error_keeps_ledger (hub_db h) (execute_payment cfg env True sender fp allowed vp routes code h)"
proof -
  note others = runs_aloneD(1) [OF assms(1)]
  obtain r db where ins: "insert_payment env sender fp vp routes (hub_db h) = (r, db)" by fastforce
  have same: "same_ledger (hub_db h) db" using insert_payment_frame(1) ins by (metis snd_conv)
  show ?thesis
  proof (cases r)
    case (Inl x)
    have "error_keeps_ledger db (clean_up (insert_failed env True) cfg env True (vp_tx vp) x (h\<lparr>hub_db := db\<rparr>))"
      using clean_up_keeps [OF assms(1) insert_failed_same_ledger, of "h\<lparr>hub_db := db\<rparr>"] by simp
    then show ?thesis using error_keeps_ledger_trans [OF same] Inl ins by (simp add: execute_payment_def others)
  next
    case (Inr found)
    have "error_keeps_ledger db (prepare_payment cfg env True vp routes code (h\<lparr>hub_db := db\<rparr>))"
      using prepare_payment_keeps [OF assms, of "h\<lparr>hub_db := db\<rparr>"] by simp
    then show ?thesis using error_keeps_ledger_trans [OF same] Inr ins same
      by (cases found) (simp_all add: execute_payment_def others error_keeps_ledger_def split: sum.splits)
  qed
qed

lemma impl_keeps:
  assumes "runs_alone env" and "cleanup_works env" and "stops_fairly env"
  shows "error_keeps_ledger (hub_db h) (create_payment_impl verify sha256 cfg env sender req require_signature True allowed h)"
proof -
  note others = runs_aloneD(1) [OF assms(1)]
  show ?thesis
  proof (cases "validate_payment verify require_signature sender req (hub_db h)")
    case (Inl x)
    then show ?thesis by (simp add: create_payment_impl_def others error_keeps_ledger_def)
  next
    case (Inr vp)
    obtain r cache where route: "route_payment cfg env False allowed req vp (hub_db h) (hub_cache h) = (r, cache)" by fastforce
    show ?thesis
    proof (cases "get_tx (vp_tx vp) (hub_db h)")
      case (Some t)
      then show ?thesis using Inr by (simp add: create_payment_impl_def others error_keeps_ledger_def split: sum.splits)
    next
      case None
      have "error_keeps_ledger (hub_db h) (execute_payment cfg env True sender (sha256 (vp_message vp)) allowed vp routes
          (rq_equivalent req) (h\<lparr>hub_cache := cache\<rparr>))" for routes
        using execute_payment_keeps [OF assms, of "h\<lparr>hub_cache := cache\<rparr>"] by simp
      then show ?thesis using Inr None route
        by (cases r) (simp_all add: create_payment_impl_def others error_keeps_ledger_def)
    qed
  qed
qed

text \<open>
  C4. A payment that reports an error has moved no money. When a call of \<^verbatim>\<open>create_payment\<close> that
  runs alone raises, the debts, trust lines, participants and equivalents are what they were,
  whatever happened on the way: an invalid request, no route, a collision of identifiers, a failed
  prepare, a failed commit, a timeout at any stage, and also a database error or timeout that hit
  after the commit had taken effect, because the service looks before it aborts. The exceptions
  are a cancelled call and a cleanup whose rollback or read fails itself.
\<close>

theorem failed_payment_keeps_ledger:
  assumes "runs_alone env" and "stops_fairly env" and "cleanup_works env"
    and "create_payment verify sha256 cfg env sender req h = (Inl x, h')" and "x \<noteq> CancelledError"
  shows "debts (hub_db h') = debts (hub_db h) \<and> trust_lines (hub_db h') = trust_lines (hub_db h)
    \<and> participants (hub_db h') = participants (hub_db h) \<and> equivalents (hub_db h') = equivalents (hub_db h)"
proof -
  obtain eff where "create_payment_impl verify sha256 cfg env sender req True True None h = (Inl x, h', eff)"
    using assms(4) by (auto simp: create_payment_def split: prod.splits)
  then show ?thesis
    using impl_keeps [OF assms(1,3,2), of h verify sha256 cfg sender req True None] assms(5)
    by (simp add: error_keeps_ledger_def same_ledger_def)
qed

text \<open>The sample payment when its prepare times out.\<close>

definition timeout_env :: pay_env where
  "timeout_env = sample_env\<lparr>pe_stop := (\<lambda>s. if s = AtPrepare then Some (AsyncioTimeout, False) else None)\<rparr>"

lemma timeout_env_props: "runs_alone timeout_env" "stops_fairly timeout_env" "cleanup_works timeout_env"
  by (simp_all add: timeout_env_def runs_alone_def stops_fairly_def cleanup_works_def is_client_error_def is_geo_exception_def
      quiet_env_def commit_reads_def abort_reads_def)

lemma sample_times_out:
  "\<exists>h'. create_payment (\<lambda>_ _ _. True) (\<lambda>m. m) sample_cfg timeout_env 5 sample_request sample_hub = (Inl TimeoutExc, h')"
proof (rule sample_p1 [where rs = True])
  fix m assume valid: "validate_payment (\<lambda>_ _ _. True) True 5 sample_request mesh_db = Inr (sample_valid ''p1'' m)"
  have route: "route_payment sample_cfg timeout_env False None sample_request (sample_valid ''p1'' m) mesh_db cache = (Inr sample_routes, cache)" for cache
    using sample_route [of timeout_env None False "''p1''" m cache] by (simp add: timeout_env_def)
  define db2 where "db2 = mesh_db\<lparr>transactions := transactions mesh_db @ [new_payment_tx 5 m (sample_valid ''p1'' m) sample_routes mesh_db]\<rparr>"
  have none: "committed_result ''p1'' db2 = None"
    by (simp add: committed_result_def db2_def get_tx_def new_payment_tx_def sample_tx_def)
  obtain out db' where "abort True 3 True False ''p1'' ''Payment timeout'' (Some ''E007'') None
      (\<lambda>_. \<lparr>ab_pre = db2, ab_tx = db2, ab_seg = db2\<rparr>) = (Inr out, Some db')"
    by (rule quiet_abort)
  then have "service_abort sample_cfg timeout_env True ''p1'' ''Payment timeout'' E007 None db2 = (Inr (), db')"
    by (simp add: service_abort_def sample_cfg_def timeout_env_def error_code_value_def)
  then have "payment_timed_out sample_cfg timeout_env True ''p1'' db2 = (Inl TimeoutExc, db')"
    using none by (simp add: payment_timed_out_def terminalize_def timeout_env_def)
  moreover have "snd (run_prepare sample_cfg timeout_env ''p1'' sample_routes v e db2) = db2"
    "fst (run_prepare sample_cfg timeout_env ''p1'' sample_routes v e db2) = Inl AsyncioTimeout" for v e
    by (simp_all add: run_prepare_def interrupted_def timeout_env_def)
  then have "run_prepare sample_cfg timeout_env ''p1'' sample_routes v e db2 = (Inl AsyncioTimeout, db2)" for v e
    by (metis prod.collapse)
  moreover have "insert_payment timeout_env 5 m (sample_valid ''p1'' m) sample_routes mesh_db = (Inr None, db2)"
    using sample_new_tx(1) by (simp add: insert_payment_def interrupted_def timeout_env_def db2_def)
  ultimately show ?thesis
    using valid route sample_new_tx(1) runs_aloneD(1) [OF timeout_env_props(1)]
    by (simp add: create_payment_def create_payment_impl_def execute_payment_def prepare_payment_def clean_up_def failed_with_def
        stage_failed_def)
qed

theorem failed_payment_keeps_ledger_witness:
  "\<exists>h'. create_payment (\<lambda>_ _ _. True) (\<lambda>m. m) sample_cfg timeout_env 5 sample_request sample_hub = (Inl TimeoutExc, h')
    \<and> debts (hub_db h') = [sample_debt]"
  using sample_times_out failed_payment_keeps_ledger [OF timeout_env_props] by fastforce

end
