(* ===== verification/Payment_Properties.thy ===== *)
theory Payment_Properties
  imports Payment_Outcomes
begin

text \<open>
  The payment service when things go well: a request for which there are routes commits and moves
  exactly its amount, a repeated request is answered from the record, a reused identifier is a
  conflict, and a scoped payment stays inside its perimeter.
\<close>

section \<open>One route and several\<close>

lemma pd_add_zero [simp]: "pd_add x (Fin 0) = Inr x"
  by (cases x) simp_all

lemma append_flow_new: "p \<notin> fst ` set entries \<Longrightarrow> append_flow p f entries = entries @ [(p, [f])]"
  by (induction entries) auto

lemma prepare_route_segments_single:
  assumes "distinct (map fst segs)" and "fst ` set segs \<inter> fst ` set entries = {}" and "\<And>seg. seg \<in> set segs \<Longrightarrow> res seg = 0"
  shows "(case fold_res (prepare_route_segment tx e db) (map (\<lambda>(s, r). (s, r, v)) segs) (entries, res) of
      Inl x \<Rightarrow> Inl x | Inr st \<Rightarrow> Inr (fst st)) = fold_res (prepare_segment tx e v db) segs entries"
  using assms
proof (induction segs arbitrary: entries res)
  case (Cons seg segs)
  obtain s r where seg: "seg = (s, r)" by (cases seg)
  let ?entries = "entries @ [(s, [mk_raw_flow s r v e])]" and ?res = "res((s, r) := res (s, r) + v)"
  have zero: "res (s, r) = 0" using Cons.prems(3) seg by simp
  have new: "append_flow s (mk_raw_flow s r v e) entries = ?entries"
    using Cons.prems(2) seg by (intro append_flow_new) auto
  have rest: "(case fold_res (prepare_route_segment tx e db) (map (\<lambda>(s, r). (s, r, v)) segs) (?entries, ?res) of
      Inl x \<Rightarrow> Inl x | Inr st \<Rightarrow> Inr (fst st)) = fold_res (prepare_segment tx e v db) segs ?entries"
  proof (rule Cons.IH)
    show "fst ` set segs \<inter> fst ` set ?entries = {}" using Cons.prems(1,2) seg by auto
    fix g assume g: "g \<in> set segs"
    then have "g \<noteq> (s, r)" using Cons.prems(1) seg by (auto simp: image_iff)
    then show "?res g = 0" using Cons.prems(3) g by simp
  qed (use Cons.prems(1) seg in simp)
  have step: "prepare_route_segment tx e db (s, r, v) (entries, res) = (case prepare_segment tx e v db (s, r) entries of
      Inl x \<Rightarrow> Inl x | Inr en \<Rightarrow> Inr (en, ?res))"
    by (simp add: prepare_route_segment_def prepare_segment_def new zero split: sum.split prod.split)
  have "prepare_segment tx e v db (s, r) entries = Inr en \<Longrightarrow> en = ?entries" for en
    by (simp add: prepare_segment_def split: sum.splits prod.splits)
  then show ?case using rest by (cases "prepare_segment tx e v db (s, r) entries") (simp_all add: seg step)
qed simp

lemma prepare_single_route:
  assumes "fresh_tx tx db" and "0 < v" and "2 \<le> length path" and "list_all (\<lambda>p. id_of_pid p db \<noteq> None) path"
    and "distinct (butlast (path_ids path db))"
  shows "prepare utcnow ttl tx path v e db = prepare_routes utcnow ttl tx [(path, v)] e db"
proof -
  obtain t where t: "get_tx tx db = Some t" "tx_state t \<notin> {COMMITTED, ABORTED, REJECTED}" "load_prepare_locks tx db = []"
    using assms(1) by (rule fresh_txE)
  let ?segs = "segments_of (map (\<lambda>p. the (id_of_pid p db)) path)"
  have known: "\<not> list_ex (\<lambda>p. id_of_pid p db = None) path" using assms(4) by (auto simp: list_all_iff list_ex_iff)
  have segs: "route_segments db [(path, v)] = map (\<lambda>(s, r). (s, r, v)) ?segs" by (simp add: route_segments_def)
  have "distinct (map fst ?segs)" using assms(5) by (simp add: map_fst_segments path_ids_def)
  then have eq: "(case fold_res (prepare_route_segment tx e db) (map (\<lambda>(s, r). (s, r, v)) ?segs) ([], \<lambda>_. 0) of
      Inl x \<Rightarrow> Inl x | Inr st \<Rightarrow> Inr (fst st)) = fold_res (prepare_segment tx e v db) ?segs []"
    by (rule prepare_route_segments_single) simp_all
  show ?thesis
  proof (cases "fold_res (prepare_route_segment tx e db) (map (\<lambda>(s, r). (s, r, v)) ?segs) ([], \<lambda>_. 0)")
    case (Inl x)
    then have "fold_res (prepare_segment tx e v db) ?segs [] = Inl x" using eq by simp
    then show ?thesis using t known assms(2,3) Inl by (simp add: prepare_def prepare_routes_def segs)
  next
    case (Inr st)
    then have "fold_res (prepare_segment tx e v db) ?segs [] = Inr (fst st)" using eq by simp
    then show ?thesis using t known assms(2,3) Inr by (simp add: prepare_def prepare_routes_def segs case_prod_beta)
  qed
qed

section \<open>A payment that goes through\<close>

lemma invalidated_graph [simp]: "map_of (graph_cache (invalidate_cache (Some code) cache)) code = None"
  by (simp add: invalidate_cache_def delete_conv')

lemma build_graph_impl_transactions: "build_graph_impl code (db\<lparr>transactions := ts\<rparr>) rt = build_graph_impl code db rt"
proof -
  have same: "equivalents (db\<lparr>transactions := ts\<rparr>) = equivalents db" "debts (db\<lparr>transactions := ts\<rparr>) = debts db"
    "participants (db\<lparr>transactions := ts\<rparr>) = participants db" "active_lines_of e (db\<lparr>transactions := ts\<rparr>) = active_lines_of e db"
    "live_prepare_locks (db\<lparr>transactions := ts\<rparr>) = live_prepare_locks db" for e
    by (simp_all add: active_lines_of_def live_prepare_locks_def)
  show ?thesis unfolding build_graph_impl_def same ..
qed

lemma engine_inv_transactions: "engine_inv (db\<lparr>transactions := ts\<rparr>) = engine_inv db"
proof -
  have "debts_wf (db\<lparr>transactions := ts\<rparr>) = debts_wf db" "trust_lines_wf (db\<lparr>transactions := ts\<rparr>) = trust_lines_wf db"
    "locks_wf (db\<lparr>transactions := ts\<rparr>) = locks_wf db" "no_self_lines (db\<lparr>transactions := ts\<rparr>) = no_self_lines db"
    "reservations_ok (db\<lparr>transactions := ts\<rparr>) = reservations_ok db"
    by (simp_all add: debts_wf_def trust_lines_wf_def locks_wf_def no_self_lines_def reservations_ok_def reserved_def
        live_locks_def segment_capacity_def active_limit_def get_active_line_def owes_def get_debt_def)
  then show ?thesis by (simp add: engine_inv_def)
qed

lemma validate_payment_Inr:
  assumes "validate_payment verify rs sender req db = Inr vp"
  shows "get_participant_by_id sender db = Some (vp_sender vp)" and "get_participant_by_pid (rq_to req) db = Some (vp_receiver vp)"
    and "get_equivalent_by_code (rq_equivalent req) db = Some (vp_equivalent vp)" and "part_id (vp_sender vp) \<noteq> part_id (vp_receiver vp)"
    and "parse_amount True (rq_amount req) = Inr (vp_amount vp)" and "validate_tx_id (rq_tx_id req) = Inr (vp_tx vp)"
    and "canonical_json (VDict (payment_signed_payload (vp_tx vp) req)) = Inr (vp_message vp)"
    and "rs \<longrightarrow> verify (part_public_key (vp_sender vp)) (vp_message vp) (rq_signature req)"
    and "validate_equivalent_code (rq_equivalent req) = Inr ()"
  using assms by (auto simp: validate_payment_def split: sum.splits option.splits if_splits)

lemma valid_payment_ends:
  assumes pwf: "participants_wf db" and v: "validate_payment verify rs sender req db = Inr vp"
  shows "part_pid (vp_sender vp) \<noteq> part_pid (vp_receiver vp)"
    and "id_of_pid (part_pid (vp_sender vp)) db = Some (part_id (vp_sender vp))"
    and "id_of_pid (part_pid (vp_receiver vp)) db = Some (part_id (vp_receiver vp))"
proof -
  have mem: "vp_sender vp \<in> set (participants db)" "vp_receiver vp \<in> set (participants db)"
    using validate_payment_Inr(1,2) [OF v] by (auto simp: get_participant_by_id_def get_participant_by_pid_def dest: find_SomeD)
  then show "id_of_pid (part_pid (vp_sender vp)) db = Some (part_id (vp_sender vp))"
    and "id_of_pid (part_pid (vp_receiver vp)) db = Some (part_id (vp_receiver vp))"
    unfolding id_of_pid_iff [OF pwf] has_pid_def by blast+
  then show "part_pid (vp_sender vp) \<noteq> part_pid (vp_receiver vp)"
    using validate_payment_Inr(4) [OF v] by (metis option.inject)
qed

text \<open>Nothing disturbs the call.\<close>

definition pays_quietly :: "pay_env \<Rightarrow> bool" where
  "pays_quietly env \<longleftrightarrow> (\<forall>s db. pe_others env s db = db) \<and> (\<forall>s. pe_stop env s = None)
     \<and> (\<forall>db. pe_commit env db = (\<lambda>_. quiet_env db)) \<and> (\<forall>db. pe_abort env db = (\<lambda>_. \<lparr>ab_pre = db, ab_tx = db, ab_seg = db\<rparr>))"

lemma pays_quietlyD:
  assumes "pays_quietly env"
  shows "runs_alone env" and "pe_others env s db = db" and "pe_stop env s = None" and "pe_commit env db = (\<lambda>_. quiet_env db)"
  using assms by (simp_all add: pays_quietly_def runs_alone_def quiet_env_def commit_reads_def abort_reads_def)

lemma route_payment_fresh:
  assumes quiet: "pays_quietly env" and miss: "map_of (graph_cache cache) (equiv_code (vp_equivalent vp)) = None"
    and route: "route_payment cfg env deferred None req vp db cache = (Inr routes, cache')"
  obtains rt where "build_graph_impl (equiv_code (vp_equivalent vp)) db (pe_router env) = Inr rt" and "routes \<noteq> []"
    and "find_flow_routes rt (part_pid (vp_sender vp)) (part_pid (vp_receiver vp)) (dec_value (vp_amount vp))
        (effective_int (client_value pc_max_hops req) (server_max_hops cfg))
        (effective_int (client_value pc_max_paths req) (server_max_paths cfg)) (effective_avoid req) (pe_ticks env) = Inr routes"
proof -
  obtain rt cache1 where b: "build_graph (graph_cache_ttl cfg) (\<not> deferred) (pe_time env) (equiv_code (vp_equivalent vp)) db cache
      (pe_router env) = Inr (rt, cache1)"
    using route by (auto simp: route_payment_def pays_quietlyD [OF quiet] unless_stopped_def split: sum.splits prod.splits)
  then have "build_graph_impl (equiv_code (vp_equivalent vp)) db (pe_router env) = Inr rt"
    using miss by (auto simp: build_graph_def Let_def split: sum.splits if_splits)
  then show ?thesis
    using that route b by (auto simp: route_payment_def pays_quietlyD [OF quiet] unless_stopped_def Let_def escapes_def split: sum.splits if_splits)
qed

lemma run_prepare_routes:
  assumes "pays_quietly env" and "fresh_tx tx db" and "participants_wf db"
    and ok: "routes_ok rt src dst max_hops fn routes" and sum: "sum_list (map snd routes) = v" and ne: "src \<noteq> dst" "routes \<noteq> []"
    and edges: "\<And>u w. edge_get (rt_graph rt) u w 0 = usable_capacity e db u w"
    and prep: "prepare_routes (pe_utcnow env) (lock_ttl_seconds cfg) tx routes e db = Inr db'"
  shows "run_prepare cfg env tx routes v e db = (Inr (), db')"
proof (cases "length routes = 1")
  case True
  then obtain path a where r: "routes = [(path, a)]" by (cases routes) (auto simp: length_Suc_conv)
  have a: "a = v" "0 < v" and valid: "valid_path rt (rt_graph rt) src dst 0 max_hops {} fn path"
    using ok sum by (auto simp: r routes_ok_def)
  have "src \<in> set path" using valid by (auto simp: valid_path_def walk_ok_def)
  then have len: "2 \<le> length path" using valid_path_nodes [OF valid ne(1)] by blast
  have known: "id_of_pid p db \<noteq> None" if "p \<in> set path" for p
    using valid_path_nodes [OF valid ne(1) that] unfolding edges by (blast elim: usable_capacity_pos)
  have "distinct path" using valid by (simp add: valid_path_def walk_ok_def)
  moreover have "inj_on (\<lambda>p. the (id_of_pid p db)) (set path)"
    by (intro inj_onI) (metis known option.collapse id_of_pid_inj [OF assms(3)])
  ultimately have "distinct (butlast (path_ids path db))"
    unfolding path_ids_def by (intro distinct_butlast) (simp add: distinct_map)
  then have "prepare (pe_utcnow env) (lock_ttl_seconds cfg) tx path v e db = Inr db'"
    using prepare_single_route [OF assms(2) a(2) len] known prep by (simp add: r a list_all_iff)
  then show ?thesis by (simp add: run_prepare_def r pays_quietlyD [OF assms(1)] interrupted_def)
next
  case False
  then show ?thesis using prep by (simp add: run_prepare_def pays_quietlyD [OF assms(1)] interrupted_def)
qed

lemma payment_completes:
  assumes "engine_inv (hub_db h)" and "participants_wf (hub_db h)" and "pays_quietly env"
    and "validate_payment verify True sender req (hub_db h) = Inr vp"
    and "get_tx (vp_tx vp) (hub_db h) = None" and "load_prepare_locks (vp_tx vp) (hub_db h) = []"
    and "map_of (graph_cache (hub_cache h)) (rq_equivalent req) = None"
    and "route_payment cfg env False None req vp (hub_db h) (hub_cache h) = (Inr routes, cache)"
    and "db_now (hub_db h) < pe_utcnow env + lock_ttl_seconds cfg"
    and "grid_locks (hub_db h)" and "on_grid (dec_value (vp_amount vp))"
  shows "\<exists>r h'. create_payment verify sha256 cfg env sender req h = (Inr r, h')
    \<and> pr_status r = COMMITTED \<and> pr_routes r = Some routes \<and> committed_result (vp_tx vp) (hub_db h') \<noteq> None
    \<and> hub_events h' = hub_events h @ [eff_event (payment_effects False vp)]
    \<and> map_of (graph_cache (hub_cache h')) (rq_equivalent req) = None
    \<and> (\<forall>p e'. calculate_net_position p e' (hub_db h') = calculate_net_position p e' (hub_db h)
         + (if e' = equiv_id (vp_equivalent vp) then (if p = part_id (vp_receiver vp) then dec_value (vp_amount vp) else 0)
              - (if p = part_id (vp_sender vp) then dec_value (vp_amount vp) else 0) else 0))"
proof -
  let ?tx = "vp_tx vp" and ?e = "equiv_id (vp_equivalent vp)" and ?v = "dec_value (vp_amount vp)"
  let ?src = "part_pid (vp_sender vp)" and ?dst = "part_pid (vp_receiver vp)" and ?code = "rq_equivalent req"
  let ?fp = "sha256 (vp_message vp)"
  define db2 where "db2 = (hub_db h)\<lparr>transactions := transactions (hub_db h) @ [new_payment_tx sender ?fp vp routes (hub_db h)]\<rparr>"
  note quiet = pays_quietlyD [OF assms(3)] and ends = valid_payment_ends [OF assms(2,4)]
  have code: "equiv_code (vp_equivalent vp) = ?code"
    using validate_payment_Inr(3) [OF assms(4)] by (auto simp: get_equivalent_by_code_def dest: find_SomeD)
  obtain rt where build: "build_graph_impl ?code (hub_db h) (pe_router env) = Inr rt" and ne: "routes \<noteq> []"
    and find: "find_flow_routes rt ?src ?dst ?v (effective_int (client_value pc_max_hops req) (server_max_hops cfg))
        (effective_int (client_value pc_max_paths req) (server_max_paths cfg)) (effective_avoid req) (pe_ticks env) = Inr routes"
    using route_payment_fresh [OF assms(3) _ assms(8)] assms(7) code by metis
  have same: "engine_inv db2" "participants_wf db2" "build_graph_impl ?code db2 (pe_router env) = Inr rt"
      "find (\<lambda>q. equiv_code q = ?code) (equivalents db2) = Some (vp_equivalent vp)" "db_now db2 = db_now (hub_db h)" "grid_locks db2"
      "id_of_pid p db2 = id_of_pid p (hub_db h)" "calculate_net_position x e' db2 = calculate_net_position x e' (hub_db h)" for p x e'
    using assms(1,2,10) build validate_payment_Inr(3) [OF assms(4)]
    by (simp_all add: db2_def engine_inv_transactions participants_wf_def build_graph_impl_transactions get_equivalent_by_code_def grid_locks_def
        id_of_pid_def calculate_net_position_def credit_total_def debt_total_def)
  have found: "get_tx ?tx db2 = Some (new_payment_tx sender ?fp vp routes (hub_db h))"
    using assms(5) by (simp add: db2_def get_tx_def find_append new_payment_tx_def)
  then have fresh: "fresh_tx ?tx db2"
    using assms(6) by (simp add: fresh_tx_def db2_def load_prepare_locks_def new_payment_tx_def)
  obtain db1 db' where prep: "prepare_routes (pe_utcnow env) (lock_ttl_seconds cfg) ?tx routes ?e db2 = Inr db1"
    and com: "commit_tx (on_postgres cfg) (uow_retry_attempts cfg) True ?tx (\<lambda>_. quiet_env db1) = (Inr (), Some db')"
    and net: "\<forall>p e'. calculate_net_position p e' db' = calculate_net_position p e' db2
         + (if e' = ?e then (if id_of_pid ?dst db2 = Some p then ?v else 0) - (if id_of_pid ?src db2 = Some p then ?v else 0) else 0)"
    using routed_commit [OF same(1,2) fresh ends(1) same(4,3) find ne, of "pe_utcnow env" "lock_ttl_seconds cfg"
        "on_postgres cfg" "uow_retry_attempts cfg" True] assms(9,11) same(5,6) by auto
  obtain rt' where "build_graph_impl ?code db2 (pe_router env) = Inr rt'" "graph_wf (rt_graph rt')"
    "\<And>u v. edge_get (rt_graph rt') u v 0 = usable_capacity ?e db2 u v"
    using build_graph_edges [OF same(1,2,4)] by blast
  then have wf: "graph_wf (rt_graph rt)" and edges: "\<And>u v. edge_get (rt_graph rt) u v 0 = usable_capacity ?e db2 u v"
    using same(3) by auto
  have "run_prepare cfg env ?tx routes ?v ?e db2 = (Inr (), db1)"
    using find_flow_routes_cases [OF wf find ne] run_prepare_routes [OF assms(3) fresh same(2) _ _ ends(1) ne edges prep] by blast
  moreover have commit: "run_commit cfg env True ?tx db1 = (Inr (), db')"
    using com by (simp add: run_commit_def quiet interrupted_def)
  moreover have committed: "committed_result ?tx db' \<noteq> None"
    using commit_tx_committed [OF _ com] by (simp add: quiet_env_def commit_reads_def abort_reads_def)
  moreover obtain t where "get_tx ?tx db' = Some t"
    using committed by (cases "get_tx ?tx db'") (auto simp: committed_result_def)
  moreover have "insert_payment env sender ?fp vp routes (hub_db h) = (Inr None, db2)"
    using assms(5) by (simp add: insert_payment_def quiet interrupted_def db2_def)
  moreover have "calculate_net_position p e' db' = calculate_net_position p e' (hub_db h)
         + (if e' = ?e then (if p = part_id (vp_receiver vp) then ?v else 0) - (if p = part_id (vp_sender vp) then ?v else 0) else 0)" for p e'
    using net [rule_format, of p e'] unfolding same(7,8) ends(2,3) by auto
  ultimately show ?thesis
    using assms(4,5,8)
    by (simp add: create_payment_def create_payment_impl_def quiet execute_payment_def prepare_payment_def commit_payment_def
        finish_payment_def Let_def apply_once_def invalidate_routing_cache_once_def payment_effects_def invalidated_def)
qed

text \<open>
  C3. A payment for which there are routes goes through. On a database that keeps the engine's
  invariant, let a request be valid, its identifier unused, and let the service find routes on a
  freshly built graph; and let its amount, like the amounts of all prepare locks, have at most eight
  decimals, which the column of the debts stores exactly. Then \<^verbatim>\<open>create_payment\<close>, undisturbed,
  answers COMMITTED with these routes; the transaction is recorded as committed; the receiver's net
  position in the equivalent is up by the amount, the sender's down by it, and nobody else's has
  moved; the receiver's event is published once; and the cached graph of the equivalent is gone.
\<close>

theorem payment_with_routes_commits:
  assumes "engine_inv (hub_db h)" and "participants_wf (hub_db h)" and "pays_quietly env"
    and "validate_payment verify True sender req (hub_db h) = Inr vp"
    and "get_tx (vp_tx vp) (hub_db h) = None" and "load_prepare_locks (vp_tx vp) (hub_db h) = []"
    and "map_of (graph_cache (hub_cache h)) (rq_equivalent req) = None"
    and "route_payment cfg env False None req vp (hub_db h) (hub_cache h) = (Inr routes, cache)"
    and "db_now (hub_db h) < pe_utcnow env + lock_ttl_seconds cfg"
    and "grid_locks (hub_db h)" and "on_grid (dec_value (vp_amount vp))"
  shows "\<exists>r h'. create_payment verify sha256 cfg env sender req h = (Inr r, h')
    \<and> pr_status r = COMMITTED \<and> pr_routes r = Some routes \<and> committed_result (vp_tx vp) (hub_db h') \<noteq> None
    \<and> hub_events h' = hub_events h @ [eff_event (payment_effects False vp)]
    \<and> map_of (graph_cache (hub_cache h')) (rq_equivalent req) = None
    \<and> (\<forall>p e'. calculate_net_position p e' (hub_db h') = calculate_net_position p e' (hub_db h)
         + (if e' = equiv_id (vp_equivalent vp) then (if p = part_id (vp_receiver vp) then dec_value (vp_amount vp) else 0)
              - (if p = part_id (vp_sender vp) then dec_value (vp_amount vp) else 0) else 0))"
  by (rule payment_completes [OF assms])

lemma mesh_grid_locks: "grid_locks mesh_db"
  by (simp add: grid_locks_def)

lemma sample_quiet: "pays_quietly sample_env"
  by (simp add: pays_quietly_def)

lemma sample_live: "db_now (hub_db sample_hub) < pe_utcnow sample_env + lock_ttl_seconds sample_cfg"
  by (simp add: sample_cfg_def)

lemma sample_net: "calculate_net_position 7 9 mesh_db = 0" "calculate_net_position 5 9 mesh_db = 4"
  by (simp_all add: calculate_net_position_def credit_total_def debt_total_def sample_debt_def)

theorem payment_with_routes_commits_witness:
  "\<exists>r h'. create_payment (\<lambda>_ _ _. True) (\<lambda>m. m) sample_cfg sample_env 5 sample_request sample_hub = (Inr r, h')
    \<and> pr_status r = COMMITTED \<and> pr_routes r = Some [([''A'', ''B'', ''C''], 50), ([''A'', ''D'', ''C''], 10)]
    \<and> calculate_net_position 7 9 (hub_db h') = 60 \<and> calculate_net_position 5 9 (hub_db h') = - 56"
proof (rule sample_p1 [where rs = True])
  fix m assume "validate_payment (\<lambda>_ _ _. True) True 5 sample_request mesh_db = Inr (sample_valid ''p1'' m)"
  then have valid: "validate_payment (\<lambda>_ _ _. True) True 5 sample_request (hub_db sample_hub) = Inr (sample_valid ''p1'' m)" by simp
  have route: "route_payment sample_cfg sample_env False None sample_request (sample_valid ''p1'' m) (hub_db sample_hub) (hub_cache sample_hub)
      = (Inr sample_routes, hub_cache sample_hub)"
    using sample_route [of sample_env None False "''p1''" m "hub_cache sample_hub"] by simp
  from payment_with_routes_commits [OF _ _ sample_quiet valid _ _ _ route sample_live, of "\<lambda>m. m"] mesh_wf(1,2) sample_new_tx mesh_grid_locks
  show ?thesis by (auto simp: sample_routes_def sample_valid_def sample_net dec_value_def)
qed

end
