(* ===== verification/Payment_Replay.thy ===== *)
theory Payment_Replay
  imports Payment_Properties
begin

text \<open>
  Repeated requests: the record a payment leaves is followed through the stages of the service, so
  that the same request is answered from it, and another request under the same identifier is a
  conflict.
\<close>

section \<open>The record of a payment\<close>

text \<open>The row of \<open>t0\<close>, of which the engine has changed the state and the time only.\<close>

definition recorded :: "transaction \<Rightarrow> db \<Rightarrow> bool" where
  "recorded t0 db \<longleftrightarrow> (\<exists>st u. get_tx (tx_id t0) db = Some (t0\<lparr>tx_state := st, tx_updated_at := u\<rparr>))"

definition same_people :: "db \<Rightarrow> db \<Rightarrow> bool" where
  "same_people db db' \<longleftrightarrow> participants db' = participants db \<and> equivalents db' = equivalents db"

lemma same_people_ledger: "same_ledger db db' \<Longrightarrow> same_people db db'"
  by (simp add: same_ledger_def same_people_def)

lemma same_people_refl [simp]: "same_people db db"
  by (simp add: same_people_def)

lemma same_people_trans: "same_people a b \<Longrightarrow> same_people b c \<Longrightarrow> same_people a c"
  by (simp add: same_people_def)

lemma validate_payment_people:
  assumes "same_people db db'"
  shows "validate_payment verify rs sender req db' = validate_payment verify rs sender req db"
proof -
  have "get_participant_by_id i db' = get_participant_by_id i db" "get_participant_by_pid p db' = get_participant_by_pid p db"
    "get_equivalent_by_code c db' = get_equivalent_by_code c db" for i p c
    using assms by (simp_all add: same_people_def get_participant_by_id_def get_participant_by_pid_def get_equivalent_by_code_def)
  then show ?thesis unfolding validate_payment_def by presburger
qed

lemma recorded_update:
  assumes "recorded t0 db" and "\<And>t. g t = t\<lparr>tx_state := st, tx_updated_at := u\<rparr>" and "transactions db' = transactions db"
  shows "recorded t0 (update_tx (tx_id t0) g db')"
proof -
  obtain st' u' where "get_tx (tx_id t0) db = Some (t0\<lparr>tx_state := st', tx_updated_at := u'\<rparr>)"
    using assms(1) by (auto simp: recorded_def)
  then have "get_tx (tx_id t0) db' = Some (t0\<lparr>tx_state := st', tx_updated_at := u'\<rparr>)" using assms(3) by (simp add: get_tx_def)
  moreover have "g = (\<lambda>t. t\<lparr>tx_state := st, tx_updated_at := u\<rparr>)" using assms(2) by auto
  ultimately have "get_tx (tx_id t0) (update_tx (tx_id t0) g db') = Some (t0\<lparr>tx_state := st, tx_updated_at := u\<rparr>)"
    by (simp add: get_tx_update)
  then show ?thesis unfolding recorded_def by blast
qed

lemma recorded_mark_prepared: "recorded t0 db \<Longrightarrow> transactions db' = transactions db \<Longrightarrow> recorded t0 (mark_prepared (tx_id t0) db')"
  unfolding mark_prepared_def by (rule recorded_update) auto

lemma run_prepare_recorded:
  assumes "recorded t0 db"
  shows "recorded t0 (snd (run_prepare cfg env (tx_id t0) routes v e db))"
proof -
  have step: "recorded t0 db'" if "prepare utcnow ttl (tx_id t0) path v e db = Inr db'" for utcnow ttl path db'
    using that by (cases rule: prepare_Inr_cases)
      (use assms in \<open>auto simp: add_locks_def split: if_splits intro: recorded_mark_prepared\<close>)
  have steps: "recorded t0 db'" if "prepare_routes utcnow ttl (tx_id t0) rs e db = Inr db'" for utcnow ttl rs db'
    using that by (cases rule: prepare_routes_Inr_cases)
      (use assms in \<open>auto simp: add_locks_def split: if_splits intro: recorded_mark_prepared\<close>)
  show ?thesis
    using assms step steps by (auto simp: run_prepare_def interrupted_def split: option.splits sum.splits if_splits)
qed

lemma recorded_committed:
  assumes "recorded t0 db" and "fold_res flow_step fs db = Inr db1"
  shows "recorded t0 (write_committed (tx_id t0) pl fs db db1) \<and> same_people db (write_committed (tx_id t0) pl fs db db1)"
proof -
  let ?I = "\<lambda>d. transactions d = transactions db \<and> participants d = participants db \<and> equivalents d = equivalents db"
  have fr: "?I db1"
    by (rule fold_res_preserves [OF assms(2), where I = ?I]) (use flow_step_frame(1-3) in auto)
  then have "recorded t0 (write_committed (tx_id t0) pl fs db db1)"
    unfolding write_committed_def
    by (intro recorded_update [OF assms(1)]) (auto simp: delete_prepare_locks_def)
  moreover have "same_people db (write_committed (tx_id t0) pl fs db db1)"
    using fr by (simp add: same_people_def write_committed_def update_tx_def delete_prepare_locks_def)
  ultimately show ?thesis by blast
qed

text \<open>Whatever a commit reports, an Inr or a hidden success leaves the record and the people.\<close>

lemma run_commit_recorded:
  assumes alone: "runs_alone env" and rec: "recorded t0 db" and run: "run_commit cfg env commit (tx_id t0) db = (r, db')"
    and ok: "r = Inr () \<or> committed_result (tx_id t0) db' \<noteq> None"
  shows "recorded t0 db' \<and> same_people db db'"
proof -
  obtain r0 w where com: "commit_tx (on_postgres cfg) (uow_retry_attempts cfg) commit (tx_id t0) (pe_commit env db) = (r0, w)" by fastforce
  have db': "db' = db \<or> w = Some db'"
    using run com by (cases w) (auto simp: run_commit_def interrupted_def split: option.splits if_splits)
  show ?thesis
  proof (cases "db' = db")
    case False
    then have w: "w = Some db'" using db' by simp
    from runs_aloneD(2) [OF alone] com [unfolded w] show ?thesis
    proof (cases rule: commit_step_cases)
      case (committed t vs db1)
      then show ?thesis using recorded_committed [OF rec committed(7)] by simp
    next
      case (aborted x held reason code details out i)
      have "r \<noteq> Inr ()"
        using run com aborted(1) by (auto simp: run_commit_def interrupted_def split: option.splits)
      then have seen: "committed_result (tx_id t0) db' \<noteq> None" using ok by simp
      obtain t where t: "get_tx (tx_id t0) db = Some t" using rec by (auto simp: recorded_def)
      from aborted(2,3) show ?thesis
      proof (cases rule: abort_step_cases)
        case already_committed
        then show ?thesis using rec by (simp add: recorded_def delete_prepare_locks_def get_tx_def same_people_def)
      next
        case (aborted g)
        have "get_tx (tx_id t0) db' = Some (g t)"
          using t aborted(3) by (simp add: aborted(2) get_tx_update)
        then show ?thesis using seen aborted(4) [OF t] by (simp add: committed_result_def)
      qed
    qed
  qed (use rec in simp)
qed

section \<open>Every answer is on record\<close>

text \<open>An answer with these routes that the record, asked again by the same sender, repeats.\<close>

definition on_record ::
    "string \<Rightarrow> uuid \<Rightarrow> string \<Rightarrow> (pid list \<times> amount) list \<Rightarrow> payment_result \<Rightarrow> db \<Rightarrow> bool" where
  "on_record tx sender fp routes r db \<longleftrightarrow> (\<exists>t. get_tx tx db = Some t \<and> pl_routes (tx_payload t) = Some routes
     \<and> resolve_existing_payment t sender fp None = Inr r)"

definition answers_on_record ::
    "string \<Rightarrow> uuid \<Rightarrow> string \<Rightarrow> (pid list \<times> amount) list \<Rightarrow> db \<Rightarrow> pay_outcome \<Rightarrow> bool" where
  "answers_on_record tx sender fp routes db out \<longleftrightarrow> (case fst out of Inl _ \<Rightarrow> True
     | Inr r \<Rightarrow> same_people db (hub_db (fst (snd out))) \<and> on_record tx sender fp routes r (hub_db (fst (snd out))))"

lemma answers_on_record_trans:
  "same_people db db1 \<Longrightarrow> answers_on_record tx sender fp routes db1 out \<Longrightarrow> answers_on_record tx sender fp routes db out"
  by (auto simp: answers_on_record_def intro: same_people_trans split: sum.splits)

lemma stage_failed_Inr:
  assumes "stage_failed handler cfg env commit tx x db = (Inr r, db')"
    and "\<And>x r db'. handler x db = (Inr r, db') \<Longrightarrow> db' = db \<and> committed_result tx db = Some r"
  shows "db' = db \<and> committed_result tx db = Some r"
  using assms
  by (auto simp: stage_failed_def payment_timed_out_def payment_cancelled_def terminalize_def
      split: if_splits option.splits prod.splits sum.splits)

lemma handlers_Inr:
  "insert_failed env commit x db = (Inr r, db') \<Longrightarrow> db' = db \<and> committed_result tx db = Some r"
  "prepare_failed cfg env commit tx x db = (Inr r, db') \<Longrightarrow> db' = db \<and> committed_result tx db = Some r"
  "commit_failed cfg env commit tx x db = (Inr r, db') \<Longrightarrow> db' = db \<and> committed_result tx db = Some r"
  by (auto simp: insert_failed_def prepare_failed_def commit_failed_def abort_and_raise_def Let_def
      split: if_splits option.splits prod.splits sum.splits)

lemma recorded_answer:
  assumes "recorded t0 db" and "committed_result (tx_id t0) db = Some r" and "tx_type t0 = PAYMENT" and "tx_initiator t0 = sender"
    and "pl_fingerprint (tx_payload t0) = Some fp" and "pl_routes (tx_payload t0) = Some routes"
  shows "on_record (tx_id t0) sender fp routes r db"
proof -
  obtain st u where t: "get_tx (tx_id t0) db = Some (t0\<lparr>tx_state := st, tx_updated_at := u\<rparr>)" using assms(1) by (auto simp: recorded_def)
  then have "st = COMMITTED" "r = tx_to_payment_result (t0\<lparr>tx_state := st, tx_updated_at := u\<rparr>)"
    using assms(2) by (auto simp: committed_result_def split: if_splits)
  then show ?thesis
    using t assms(3-6) by (simp add: on_record_def resolve_existing_payment_def escapes_def in_progress_states_def)
qed

lemma clean_up_on_record:
  assumes alone: "runs_alone env" and t0: "tx_id t0 = tx" "tx_type t0 = PAYMENT" "tx_initiator t0 = sender" "pl_fingerprint (tx_payload t0) = Some fp"
      "pl_routes (tx_payload t0) = Some routes"
    and handler: "\<And>x r db'. handler x (hub_db h) = (Inr r, db') \<Longrightarrow> db' = hub_db h \<and> committed_result tx (hub_db h) = Some r"
    and rec: "committed_result tx (hub_db h) \<noteq> None \<Longrightarrow> recorded t0 (hub_db h) \<and> same_people db (hub_db h)"
  shows "answers_on_record tx sender fp routes db (clean_up handler cfg env commit tx x h)"
proof (cases "stage_failed handler cfg env commit tx x (hub_db h)")
  case (Pair s db')
  show ?thesis
  proof (cases s)
    case (Inl y)
    then show ?thesis using Pair by (simp add: answers_on_record_def clean_up_def failed_with_def runs_aloneD(1) [OF alone])
  next
    case (Inr r)
    then have "db' = hub_db h \<and> committed_result tx (hub_db h) = Some r"
      using stage_failed_Inr [of handler cfg env commit tx x "hub_db h" r db'] Pair handler by blast
    then show ?thesis using Pair Inr rec recorded_answer [of t0 "hub_db h" r sender fp routes] t0
      by (simp add: answers_on_record_def clean_up_def failed_with_def runs_aloneD(1) [OF alone])
  qed
qed

lemma committed_state:
  assumes alone: "runs_alone env" and rec: "recorded t0 db" and run: "run_commit cfg env commit (tx_id t0) db = (Inr (), db')"
  shows "committed_result (tx_id t0) db' \<noteq> None"
proof -
  obtain w where com: "commit_tx (on_postgres cfg) (uow_retry_attempts cfg) commit (tx_id t0) (pe_commit env db) = (Inr (), w)"
    and db': "db' = (case w of None \<Rightarrow> db | Some d \<Rightarrow> d)"
    using run by (auto simp: run_commit_def interrupted_def split: option.splits prod.splits)
  show ?thesis
  proof (cases w)
    case (Some d)
    then show ?thesis using commit_tx_committed [OF runs_aloneD(2) [OF alone]] com db' by simp
  next
    case None
    obtain j r' where j: "savepoint (\<not> commit) (commit_uow (on_postgres cfg) (uow_retry_attempts cfg) commit (tx_id t0) (pe_commit env db j)) = (r', w)"
      and "reports r' (Inr ())"
      using com unfolding commit_tx_def by (rule run_uow_cases)
    then have "commit_uow (on_postgres cfg) (uow_retry_attempts cfg) commit (tx_id t0) (pe_commit env db j) = (Inr (), None)"
      using None by (auto simp: reports_Inr savepoint_def split: prod.splits sum.splits)
    then have "\<exists>t. get_tx (tx_id t0) db = Some t \<and> tx_state t = COMMITTED"
      by (auto simp: commit_uow_def commit_apply_def abort_then_raise_def runs_aloneD [OF alone] commit_state_guard_def Let_def
          split: sum.splits option.splits if_splits prod.splits)
    then show ?thesis using db' None by (auto simp: committed_result_def)
  qed
qed

lemma commit_payment_on_record:
  assumes alone: "runs_alone env" and t0: "tx_id t0 = vp_tx vp" "tx_type t0 = PAYMENT" "tx_initiator t0 = sender"
      "pl_fingerprint (tx_payload t0) = Some fp" "pl_routes (tx_payload t0) = Some routes"
    and pl: "t0 = new_payment_tx sender fp vp routes db0" and ne: "routes \<noteq> []" and rec: "recorded t0 (hub_db h)"
  shows "answers_on_record (vp_tx vp) sender fp routes (hub_db h) (commit_payment cfg env commit vp routes code h)"
proof -
  note others = runs_aloneD(1) [OF alone]
  obtain r db where com: "run_commit cfg env commit (vp_tx vp) (hub_db h) = (r, db)" by fastforce
  note kept = run_commit_recorded [OF alone rec, unfolded t0(1), OF com]
  show ?thesis
  proof (cases r)
    case (Inl x)
    have "answers_on_record (vp_tx vp) sender fp routes (hub_db h)
        (clean_up (commit_failed cfg env commit (vp_tx vp)) cfg env commit (vp_tx vp) x (h\<lparr>hub_db := db\<rparr>))"
      by (rule clean_up_on_record [OF alone t0]) (use handlers_Inr(3) kept in \<open>auto 0 3\<close>)
    then show ?thesis using com Inl by (simp add: commit_payment_def others)
  next
    case (Inr u)
    then have "recorded t0 db" and people: "same_people (hub_db h) db" using kept by simp_all
    then obtain st w where t: "get_tx (vp_tx vp) db = Some (t0\<lparr>tx_state := st, tx_updated_at := w\<rparr>)"
      using t0(1) by (auto simp: recorded_def)
    have "committed_result (vp_tx vp) db \<noteq> None" using committed_state [OF alone rec, unfolded t0(1)] com Inr by simp
    then have st: "st = COMMITTED" using t by (simp add: committed_result_def split: if_splits)
    have routes: "(case Some routes of Some (r # rs) \<Rightarrow> Some (r # rs) | _ \<Rightarrow> None) = Some routes" using ne by (cases routes) simp_all
    have answer: "tx_to_payment_result (t0\<lparr>tx_state := st, tx_updated_at := w\<rparr>) =
        \<lparr>pr_tx_id = vp_tx vp, pr_status = COMMITTED, pr_from = part_pid (vp_sender vp), pr_to = part_pid (vp_receiver vp),
         pr_equivalent = equiv_code (vp_equivalent vp), pr_amount = Some (Fin (dec_value (vp_amount vp))), pr_routes = Some routes,
         pr_error = None, pr_created_at = tx_created_at t0, pr_committed_at = Some w\<rparr>"
      using ne by (cases routes) (simp_all add: pl new_payment_tx_def tx_to_payment_result_def st)
    have "on_record (vp_tx vp) sender fp routes (tx_to_payment_result (t0\<lparr>tx_state := st, tx_updated_at := w\<rparr>)) db"
      using t t0 st by (simp add: on_record_def resolve_existing_payment_def escapes_def in_progress_states_def)
    then show ?thesis
      using com Inr t people
      by (simp add: commit_payment_def others finish_payment_def answers_on_record_def st answer [unfolded st] Let_def
          apply_once_def invalidate_routing_cache_once_def payment_effects_def)
  qed
qed

lemma prepare_payment_on_record:
  assumes alone: "runs_alone env" and t0: "tx_id t0 = vp_tx vp" "tx_type t0 = PAYMENT" "tx_initiator t0 = sender"
      "pl_fingerprint (tx_payload t0) = Some fp" "pl_routes (tx_payload t0) = Some routes"
    and pl: "t0 = new_payment_tx sender fp vp routes db0" and ne: "routes \<noteq> []" and rec: "recorded t0 (hub_db h)"
  shows "answers_on_record (vp_tx vp) sender fp routes (hub_db h) (prepare_payment cfg env commit vp routes code h)"
proof -
  note others = runs_aloneD(1) [OF alone]
  obtain r db where prep: "run_prepare cfg env (vp_tx vp) routes (dec_value (vp_amount vp)) (equiv_id (vp_equivalent vp)) (hub_db h) = (r, db)"
    by fastforce
  have rec': "recorded t0 db"
    using run_prepare_recorded [OF rec, of cfg env routes "dec_value (vp_amount vp)" "equiv_id (vp_equivalent vp)"] t0(1) prep by simp
  have people: "same_people (hub_db h) db"
    using run_prepare_same_ledger [of "hub_db h" cfg env "vp_tx vp" routes "dec_value (vp_amount vp)" "equiv_id (vp_equivalent vp)"] prep
    by (intro same_people_ledger) simp
  show ?thesis
  proof (cases r)
    case (Inl x)
    have "answers_on_record (vp_tx vp) sender fp routes (hub_db h)
        (clean_up (prepare_failed cfg env commit (vp_tx vp)) cfg env commit (vp_tx vp) x (h\<lparr>hub_db := db\<rparr>))"
      by (rule clean_up_on_record [OF alone t0]) (use handlers_Inr(2) rec' people in \<open>auto 0 3\<close>)
    then show ?thesis using prep Inl by (simp add: prepare_payment_def others)
  next
    case (Inr u)
    have "answers_on_record (vp_tx vp) sender fp routes db (commit_payment cfg env commit vp routes code
        ((invalidated (\<not> commit) code h)\<lparr>hub_db := db\<rparr>))"
      using commit_payment_on_record [OF alone t0 pl ne, of "(invalidated (\<not> commit) code h)\<lparr>hub_db := db\<rparr>"] rec' by simp
    then show ?thesis using answers_on_record_trans [OF people] prep Inr by (simp add: prepare_payment_def others)
  qed
qed

lemma recorded_new:
  assumes "get_tx (tx_id t0) db = None"
  shows "recorded t0 (db\<lparr>transactions := transactions db @ [t0]\<rparr>)"
proof -
  have "get_tx (tx_id t0) (db\<lparr>transactions := transactions db @ [t0]\<rparr>) = Some (t0\<lparr>tx_state := tx_state t0, tx_updated_at := tx_updated_at t0\<rparr>)"
    using assms by (simp add: get_tx_def find_append)
  then show ?thesis unfolding recorded_def by blast
qed

lemma execute_payment_on_record:
  assumes alone: "runs_alone env" and ne: "routes \<noteq> []" and new: "get_tx (vp_tx vp) (hub_db h) = None"
  shows "answers_on_record (vp_tx vp) sender fp routes (hub_db h) (execute_payment cfg env commit sender fp allowed vp routes code h)"
proof -
  note others = runs_aloneD(1) [OF alone]
  define t0 where "t0 = new_payment_tx sender fp vp routes (hub_db h)"
  have t0: "tx_id t0 = vp_tx vp" "tx_type t0 = PAYMENT" "tx_initiator t0 = sender" "pl_fingerprint (tx_payload t0) = Some fp"
      "pl_routes (tx_payload t0) = Some routes"
    by (simp_all add: t0_def new_payment_tx_def)
  let ?db2 = "(hub_db h)\<lparr>transactions := transactions (hub_db h) @ [t0]\<rparr>"
  have rec: "recorded t0 ?db2" by (rule recorded_new) (simp add: t0(1) new)
  have people: "same_people (hub_db h) ?db2" by (simp add: same_people_def)
  obtain r db where ins: "insert_payment env sender fp vp routes (hub_db h) = (r, db)" by fastforce
  then have db: "db = hub_db h \<or> db = ?db2" and r: "\<forall>found. r = Inr found \<longrightarrow> found = None \<and> db = ?db2"
    using new by (auto simp: insert_payment_def interrupted_def t0_def [symmetric] split: option.splits if_splits)
  show ?thesis
  proof (cases r)
    case (Inl x)
    have none: "committed_result (vp_tx vp) (hub_db h) = None" using new by (simp add: committed_result_def)
    have "answers_on_record (vp_tx vp) sender fp routes (hub_db h)
        (clean_up (insert_failed env commit) cfg env commit (vp_tx vp) x (h\<lparr>hub_db := db\<rparr>))"
      by (rule clean_up_on_record [OF alone t0]) (use handlers_Inr(1) rec people db none in \<open>auto 0 3\<close>)
    then show ?thesis using ins Inl by (simp add: execute_payment_def others)
  next
    case (Inr found)
    then have "found = None" "db = ?db2" using r by simp_all
    then have "answers_on_record (vp_tx vp) sender fp routes db (prepare_payment cfg env commit vp routes code (h\<lparr>hub_db := db\<rparr>))"
      using prepare_payment_on_record [OF alone t0 t0_def ne, of "h\<lparr>hub_db := db\<rparr>"] rec by simp
    then show ?thesis
      using answers_on_record_trans [OF people] ins Inr \<open>found = None\<close> \<open>db = ?db2\<close> by (simp add: execute_payment_def others)
  qed
qed

lemma route_payment_ne: "route_payment cfg env deferred allowed req vp db cache = (Inr routes, cache') \<Longrightarrow> routes \<noteq> []"
  by (auto simp: route_payment_def Let_def split: sum.splits if_splits prod.splits)

text \<open>
  C5. A request can be repeated safely, as long as no other session commits during the calls. If
  \<^verbatim>\<open>create_payment\<close>, running alone, has answered a request, then the same request, sent again to the
  hub it left behind in a call that runs alone too, gets the very same answer, and the second call
  changes nothing: no debt, no transaction, no event. The first call may have been stopped by a
  timeout or a database error on the way and may itself have been such a repetition. The condition
  that the calls run alone is needed: if another session commits another payment under the
  identifier while the first call runs, its timeout path can answer with that payment, and the
  repetition then ends in a conflict.
\<close>

theorem repeated_request_same_answer:
  assumes "runs_alone env" and "runs_alone env'"
    and "create_payment verify sha256 cfg env sender req h = (Inr r, h')"
  shows "create_payment verify sha256 cfg env' sender req h' = (Inr r, h')"
proof -
  note others = runs_aloneD(1) [OF assms(1)] runs_aloneD(1) [OF assms(2)]
  obtain eff where impl: "create_payment_impl verify sha256 cfg env sender req True True None h = (Inr r, h', eff)"
    using assms(3) by (auto simp: create_payment_def split: prod.splits)
  obtain vp where vp: "validate_payment verify True sender req (hub_db h) = Inr vp"
    using impl by (auto simp: create_payment_impl_def Let_def others split: sum.splits)
  let ?fp = "sha256 (vp_message vp)"
  have "same_people (hub_db h) (hub_db h') \<and> (\<exists>t. get_tx (vp_tx vp) (hub_db h') = Some t \<and> resolve_existing_payment t sender ?fp None = Inr r)"
  proof (cases "get_tx (vp_tx vp) (hub_db h)")
    case (Some t)
    then show ?thesis using impl vp by (auto simp: create_payment_impl_def Let_def others)
  next
    case None
    obtain routes cache where route: "route_payment cfg env False None req vp (hub_db h) (hub_cache h) = (Inr routes, cache)"
      using impl vp None by (auto simp: create_payment_impl_def Let_def others split: sum.splits prod.splits)
    have "(Inr r, h', eff) = execute_payment cfg env True sender ?fp None vp routes (rq_equivalent req) (h\<lparr>hub_cache := cache\<rparr>)"
      using impl vp None route by (simp add: create_payment_impl_def Let_def others)
    then have "answers_on_record (vp_tx vp) sender ?fp routes (hub_db h) (Inr r, h', eff)"
      using execute_payment_on_record [OF assms(1) route_payment_ne [OF route], of vp "h\<lparr>hub_cache := cache\<rparr>"] None by simp
    then show ?thesis by (auto simp: answers_on_record_def on_record_def)
  qed
  then show ?thesis
    using vp by (auto simp: create_payment_def create_payment_impl_def Let_def others validate_payment_people)
qed

lemma sample_pays:
  "\<exists>r h'. create_payment (\<lambda>_ _ _. True) (\<lambda>m. m) sample_cfg sample_env 5 sample_request sample_hub = (Inr r, h') \<and> pr_status r = COMMITTED"
proof (rule sample_p1 [where rs = True])
  fix m assume "validate_payment (\<lambda>_ _ _. True) True 5 sample_request mesh_db = Inr (sample_valid ''p1'' m)"
  then have valid: "validate_payment (\<lambda>_ _ _. True) True 5 sample_request (hub_db sample_hub) = Inr (sample_valid ''p1'' m)" by simp
  have route: "route_payment sample_cfg sample_env False None sample_request (sample_valid ''p1'' m) (hub_db sample_hub) (hub_cache sample_hub)
      = (Inr sample_routes, hub_cache sample_hub)"
    using sample_route [of sample_env None False "''p1''" m "hub_cache sample_hub"] by simp
  from payment_completes [OF _ _ sample_quiet valid _ _ _ route sample_live, of "\<lambda>m. m"] mesh_wf(1,2) sample_new_tx mesh_grid_locks
  show ?thesis by (auto simp: sample_valid_def dec_value_def)
qed

theorem repeated_request_same_answer_witness:
  "\<exists>r h'. create_payment (\<lambda>_ _ _. True) (\<lambda>m. m) sample_cfg sample_env 5 sample_request sample_hub = (Inr r, h')
    \<and> pr_status r = COMMITTED
    \<and> create_payment (\<lambda>_ _ _. True) (\<lambda>m. m) sample_cfg sample_env 5 sample_request h' = (Inr r, h')"
  using sample_pays repeated_request_same_answer [OF pays_quietlyD(1) [OF sample_quiet] pays_quietlyD(1) [OF sample_quiet]] by blast

section \<open>Another request under a used identifier\<close>

lemma signable_null_or: "(\<And>x. signable (f x)) \<Longrightarrow> signable (null_or f v)"
  by (cases v) (simp_all add: null_or_def)

lemma dump_constraints_signable: "signable (VDict (dump_constraints c))"
proof -
  have "signable (null_or VInt v)" "signable (null_or (\<lambda>ps. VList (map VStr ps)) w)" for v w
    by (rule signable_null_or, simp)+
  then show ?thesis
    by (cases "pc_max_hops c"; cases "pc_max_paths c"; cases "pc_timeout_ms c"; cases "pc_avoid c")
      (simp_all add: dump_constraints_def optional_item_def)
qed

lemma payment_payload_signable: "signable (VDict (payment_signed_payload tx req))"
proof -
  note sig = dump_constraints_signable
  show ?thesis
    by (cases "rq_description req"; cases "rq_constraints req")
      (simp_all add: payment_signed_payload_def optional_item_def sig del: signable.simps(5), simp_all add: sig [simplified])
qed

text \<open>
  C6. A used identifier answers to its own request only. When the payment recorded under an
  identifier was created from one payload and a valid request under the same identifier asks for
  anything else (another receiver, amount, equivalent, description or constraint), the service
  raises a conflict and changes nothing, provided SHA-256 does not collide on the two messages.
  The same holds for a request of another sender.
\<close>

theorem reused_identifier_conflicts:
  assumes "pe_others env AtRead (hub_db h) = hub_db h" and "validate_payment verify True sender req (hub_db h) = Inr vp"
    and "get_tx (vp_tx vp) (hub_db h) = Some t"
    and "signable (VDict payload)" and "canonical_json (VDict payload) = Inr m"
    and "pl_fingerprint (tx_payload t) = Some (sha256 m)" and "sha256 (vp_message vp) = sha256 m \<longrightarrow> vp_message vp = m"
    and "denotes (VDict payload) \<noteq> denotes (VDict (payment_signed_payload (vp_tx vp) req)) \<or> tx_initiator t \<noteq> sender"
  shows "create_payment verify sha256 cfg env sender req h = (Inl Conflict, h)"
proof -
  have "vp_message vp \<noteq> m" if "tx_initiator t = sender"
    using canonical_json_eq_iff [OF assms(4) payment_payload_signable, of "vp_tx vp" req] assms(5,8) that
      validate_payment_Inr(7) [OF assms(2)] by auto
  then have "resolve_existing_payment t sender (sha256 (vp_message vp)) None = Inl Conflict"
    using assms(6,7) by (auto simp: resolve_existing_payment_def Let_def)
  then show ?thesis using assms(1-3) by (simp add: create_payment_def create_payment_impl_def)
qed

text \<open>The sample hub with the transaction \<open>t\<close> on record under the identifier t1.\<close>

definition hub_with :: "transaction \<Rightarrow> hub" where
  "hub_with t = sample_hub\<lparr>hub_db := mesh_db\<lparr>transactions := [t]\<rparr>\<rparr>"

lemma hub_with_validates:
  obtains m where "canonical_json (VDict (payment_signed_payload ''t1'' (sample_request\<lparr>rq_tx_id := ''t1''\<rparr>))) = Inr m"
    and "validate_payment (\<lambda>_ _ _. True) rs 5 (sample_request\<lparr>rq_tx_id := ''t1''\<rparr>) (hub_db (hub_with t)) = Inr (sample_valid ''t1'' m)"
proof (rule sample_validates [OF sample_ids(3), of rs])
  fix m assume m: "canonical_json (VDict (payment_signed_payload ''t1'' (sample_request\<lparr>rq_tx_id := ''t1''\<rparr>))) = Inr m"
    "validate_payment (\<lambda>_ _ _. True) rs 5 (sample_request\<lparr>rq_tx_id := ''t1''\<rparr>) mesh_db = Inr (sample_valid ''t1'' m)"
  have "same_people mesh_db (hub_db (hub_with t))" by (simp add: same_people_def hub_with_def)
  from validate_payment_people [OF this] m(2) show ?thesis by (intro that [OF m(1)]) simp
qed

theorem reused_identifier_conflicts_witness:
  "\<exists>h. create_payment (\<lambda>_ _ _. True) (\<lambda>m. m) sample_cfg sample_env 5 (sample_request\<lparr>rq_tx_id := ''t1''\<rparr>) h = (Inl Conflict, h)
    \<and> map tx_id (transactions (hub_db h)) = [''t1'']"
proof -
  let ?other = "payment_signed_payload ''t1'' (sample_request\<lparr>rq_tx_id := ''t1'', rq_amount := ''61''\<rparr>)"
  obtain m0 where m0: "canonical_json (VDict ?other) = Inr m0"
    using canonical_json_total [OF payment_payload_signable] by blast
  define t where "t = sample_tx\<lparr>tx_payload := sample_payload\<lparr>pl_fingerprint := Some m0\<rparr>\<rparr>"
  have differ: "denotes (VDict ?other) \<noteq> denotes (VDict (payment_signed_payload ''t1'' (sample_request\<lparr>rq_tx_id := ''t1''\<rparr>)))"
    by (auto simp: payment_signed_payload_def optional_item_def sample_request_def dest: arg_cong [where f = "\<lambda>m. fmlookup m ''amount''"])
  show ?thesis
  proof (rule hub_with_validates [of True t])
    fix m assume valid: "validate_payment (\<lambda>_ _ _. True) True 5 (sample_request\<lparr>rq_tx_id := ''t1''\<rparr>) (hub_db (hub_with t)) = Inr (sample_valid ''t1'' m)"
    have "create_payment (\<lambda>_ _ _. True) (\<lambda>m. m) sample_cfg sample_env 5 (sample_request\<lparr>rq_tx_id := ''t1''\<rparr>) (hub_with t) = (Inl Conflict, hub_with t)"
      by (rule reused_identifier_conflicts [OF _ valid _ payment_payload_signable m0, of _ t])
        (use differ in \<open>simp_all add: hub_with_def get_tx_def t_def sample_tx_def\<close>)
    then show ?thesis by (intro exI [where x = "hub_with t"]) (simp add: hub_with_def t_def sample_tx_def)
  qed
qed

section \<open>The perimeter\<close>

text \<open>
  C7. A scoped payment stays inside its perimeter. If a call that runs alone is confined to a set
  of participants and answers with a result, be it a new payment, a replayed one or one found
  committed after a timeout, then the result has routes and every participant of every route
  belongs to the set, the receiver included. The condition is needed: the timeout path answers with
  whatever committed row has the identifier and does not check its routes, so that a row another
  session committed during the call may lead outside the set.
\<close>

theorem payment_stays_in_perimeter:
  assumes "runs_alone env"
    and "create_payment_impl verify sha256 cfg env sender req require_signature commit (Some ps) h = (Inr r, h', eff)"
  shows "\<exists>rs. pr_routes r = Some rs \<and> (\<forall>(path, v) \<in> set rs. set path \<subseteq> set ps)"
proof -
  note others = runs_aloneD(1) [OF assms(1)]
  obtain vp where vp: "validate_payment verify require_signature sender req (hub_db h) = Inr vp"
    using assms(2) by (auto simp: create_payment_impl_def Let_def others split: sum.splits)
  have routes: "\<exists>rs. pr_routes (tx_to_payment_result t) = Some rs \<and> (\<forall>(path, v) \<in> set rs. set path \<subseteq> set ps)"
    if "pl_routes (tx_payload t) = Some rs" "rs \<noteq> []" "\<not> escapes (Some ps) rs" for t rs
    using that by (cases rs) (auto simp: tx_to_payment_result_def Let_def escapes_def list_ex_iff)
  show ?thesis
  proof (cases "get_tx (vp_tx vp) (hub_db h)")
    case (Some t)
    then have "resolve_existing_payment t sender (sha256 (vp_message vp)) (Some ps) = Inr r"
      using assms(2) vp by (simp add: create_payment_impl_def others)
    then show ?thesis
      using routes [of t] by (auto simp: resolve_existing_payment_def Let_def split: if_splits option.splits)
  next
    case None
    obtain rs cache where route: "route_payment cfg env (\<not> commit) (Some ps) req vp (hub_db h) (hub_cache h) = (Inr rs, cache)"
      using assms(2) vp None by (auto simp: create_payment_impl_def Let_def others split: sum.splits prod.splits)
    have inside: "\<not> escapes (Some ps) rs" using route by (auto simp: route_payment_def Let_def split: sum.splits if_splits prod.splits)
    have "(Inr r, h', eff) = execute_payment cfg env commit sender (sha256 (vp_message vp)) (Some ps) vp rs (rq_equivalent req) (h\<lparr>hub_cache := cache\<rparr>)"
      using assms(2) vp None route by (simp add: create_payment_impl_def Let_def others)
    then have "answers_on_record (vp_tx vp) sender (sha256 (vp_message vp)) rs (hub_db h) (Inr r, h', eff)"
      using execute_payment_on_record [OF assms(1) route_payment_ne [OF route], of vp "h\<lparr>hub_cache := cache\<rparr>"] None by simp
    then obtain t where "pl_routes (tx_payload t) = Some rs" "resolve_existing_payment t sender (sha256 (vp_message vp)) None = Inr r"
      by (auto simp: answers_on_record_def on_record_def)
    then show ?thesis
      using routes [OF _ route_payment_ne [OF route] inside] by (auto simp: resolve_existing_payment_def Let_def split: if_splits)
  qed
qed

theorem payment_stays_in_perimeter_witness:
  "\<exists>r h' eff rs. create_payment_impl (\<lambda>_ _ _. True) (\<lambda>m. m) sample_cfg sample_env 5 (sample_request\<lparr>rq_tx_id := ''t1''\<rparr>)
      False True (Some [''A'', ''B'', ''C'']) (hub_with (sample_tx\<lparr>tx_state := COMMITTED\<rparr>)) = (Inr r, h', eff)
    \<and> pr_routes r = Some rs \<and> (\<forall>(path, v) \<in> set rs. set path \<subseteq> {''A'', ''B'', ''C''})"
proof (rule hub_with_validates [of False "sample_tx\<lparr>tx_state := COMMITTED\<rparr>"])
  let ?t = "sample_tx\<lparr>tx_state := COMMITTED\<rparr>"
  fix m assume "validate_payment (\<lambda>_ _ _. True) False 5 (sample_request\<lparr>rq_tx_id := ''t1''\<rparr>) (hub_db (hub_with ?t)) = Inr (sample_valid ''t1'' m)"
  then have "create_payment_impl (\<lambda>_ _ _. True) (\<lambda>m. m) sample_cfg sample_env 5 (sample_request\<lparr>rq_tx_id := ''t1''\<rparr>)
      False True (Some [''A'', ''B'', ''C'']) (hub_with ?t) = (Inr (tx_to_payment_result ?t), hub_with ?t, None)"
    by (simp add: create_payment_impl_def hub_with_def get_tx_def resolve_existing_payment_def escapes_def in_progress_states_def
        sample_tx_def sample_payload_def)
  note call = this
  obtain rs where "pr_routes (tx_to_payment_result ?t) = Some rs" "\<forall>(path, v) \<in> set rs. set path \<subseteq> {''A'', ''B'', ''C''}"
    using payment_stays_in_perimeter [OF pays_quietlyD(1) [OF sample_quiet] call] by (simp only: list.set) auto
  then show ?thesis by (intro exI conjI) (rule call)
qed

section \<open>A timeout while inserting\<close>

text \<open>
  C8. The cleanup after a timeout does not apply the idempotency rules. If a payment times out
  while its transaction is inserted, and by then another session has inserted and committed a
  transaction under the same identifier, the service answers with the result of that transaction,
  whoever initiated it and whatever it was for.
\<close>

theorem timeout_answers_foreign_payment:
  assumes "route_payment cfg env False None req vp (pe_others env AtGraph (pe_others env AtRead (hub_db h))) (hub_cache h) = (Inr routes, cache)"
    and "validate_payment verify True sender req (pe_others env AtRead (hub_db h)) = Inr vp"
    and "get_tx (vp_tx vp) (pe_others env AtRead (hub_db h)) = None"
    and "pe_stop env AtInsert = Some (AsyncioTimeout, False)" and "cleanup_works env" and "\<not> pe_cleanup_cancelled env"
    and "get_tx (vp_tx vp) (pe_others env AtCleanup (pe_others env AtInsert (pe_others env AtGraph (pe_others env AtRead (hub_db h))))) = Some t"
    and "tx_state t = COMMITTED"
  shows "fst (create_payment verify sha256 cfg env sender req h) = Inr (tx_to_payment_result t)"
  using assms
  by (simp add: create_payment_def create_payment_impl_def Let_def execute_payment_def insert_payment_def interrupted_def clean_up_def
      stage_failed_def payment_timed_out_def terminalize_def cleanup_works_def committed_result_def failed_with_def)

definition foreign_tx :: transaction where
  "foreign_tx = sample_tx\<lparr>tx_id := ''p1'', tx_initiator := 6, tx_state := COMMITTED\<rparr>"

definition racing_env :: pay_env where
  "racing_env = sample_env\<lparr>pe_others := (\<lambda>s db. if s = AtInsert then db\<lparr>transactions := transactions db @ [foreign_tx]\<rparr> else db),
     pe_stop := (\<lambda>s. if s = AtInsert then Some (AsyncioTimeout, False) else None)\<rparr>"

theorem timeout_answers_foreign_payment_witness:
  "\<exists>r. fst (create_payment (\<lambda>_ _ _. True) (\<lambda>m. m) sample_cfg racing_env 5 sample_request sample_hub) = Inr r
    \<and> pr_status r = COMMITTED \<and> pr_amount r = Some (Fin 10)"
proof (rule sample_p1 [where rs = True])
  fix m assume valid: "validate_payment (\<lambda>_ _ _. True) True 5 sample_request mesh_db = Inr (sample_valid ''p1'' m)"
  have "route_payment sample_cfg racing_env False None sample_request (sample_valid ''p1'' m) mesh_db (hub_cache sample_hub)
      = (Inr sample_routes, hub_cache sample_hub)"
    using sample_route [of racing_env None False "''p1''" m "hub_cache sample_hub"] by (simp add: racing_env_def)
  then have "fst (create_payment (\<lambda>_ _ _. True) (\<lambda>m. m) sample_cfg racing_env 5 sample_request sample_hub) = Inr (tx_to_payment_result foreign_tx)"
    by (intro timeout_answers_foreign_payment [where vp = "sample_valid ''p1'' m"])
      (use valid sample_new_tx(1) in \<open>simp_all add: racing_env_def cleanup_works_def get_tx_def foreign_tx_def sample_tx_def\<close>)
  then show ?thesis by (simp add: tx_to_payment_result_def foreign_tx_def sample_tx_def sample_payload_def)
qed

end
