(* ===== verification/Recovery.thy ===== *)
theory Recovery
  imports Payment_Service "HOL-Library.AList"
begin

text \<open>
  The background recovery of \<^verbatim>\<open>app/core/recovery.py\<close>: one iteration aborts the payments whose
  prepare locks have expired, then the payments that have been in progress for too long; the
  loop runs an iteration at startup and after every interval until it is told to stop.
\<close>

section \<open>Settings and surroundings\<close>

record recovery_settings =
  stuck_timeout_seconds :: int
  rec_on_postgres :: bool
  rec_retry_attempts :: nat

datatype recovery_step = CleanupExpired | AbortStale

text \<open>
  What happens around one iteration: what other sessions make of the database before a query and
  before an item, the failure of a query, the snapshots an abort reads, the exception that stops
  the abort of an item from outside (with the flag whether its writes survive), and whether the
  rollback after a failed item or query fails too.
\<close>

record recovery_env =
  re_utcnow :: timestamp
  re_before_query :: "recovery_step \<Rightarrow> db \<Rightarrow> db"
  re_before_item :: "recovery_step \<Rightarrow> string \<Rightarrow> db \<Rightarrow> db"
  re_query :: "recovery_step \<Rightarrow> exc option"
  re_abort :: "db \<Rightarrow> nat \<Rightarrow> abort_env"
  re_stop :: "recovery_step \<Rightarrow> string \<Rightarrow> (exc \<times> bool) option"
  re_rollback_fails :: "recovery_step \<Rightarrow> string \<Rightarrow> bool"
  re_session_lost :: bool

definition active_tx_states :: "tx_state_t list" where
  "active_tx_states = [NEW, ROUTED, PREPARE_IN_PROGRESS, PREPARED, PROPOSED, WAITING]"

section \<open>Results\<close>

record expired_lock_cleanup_result =
  expired_lock_ids_resolved :: nat
  cleanup_aborted :: nat
  cleanup_terminal_seen :: nat
  item_failures :: nat

record stale_payment_abort_result =
  stale_aborted :: nat
  stale_terminal_seen :: nat
  abort_failures :: nat

definition no_cleanup :: expired_lock_cleanup_result where
  "no_cleanup = \<lparr>expired_lock_ids_resolved = 0, cleanup_aborted = 0, cleanup_terminal_seen = 0, item_failures = 0\<rparr>"

definition no_stale :: stale_payment_abort_result where
  "no_stale = \<lparr>stale_aborted = 0, stale_terminal_seen = 0, abort_failures = 0\<rparr>"

definition classify_abort_outcome :: "abort_outcome \<Rightarrow> nat \<times> nat" where
  "classify_abort_outcome out = (case out of AbortSuccess \<Rightarrow> (1, 0) | AlreadyAborted \<Rightarrow> (0, 1) | AlreadyCommitted \<Rightarrow> (0, 1))"

section \<open>Aborting one payment\<close>

text \<open>
  The abort of an item and the rollback after its failure. An exception that is left over ends
  the loop: a cancellation, or a rollback that fails.
\<close>

datatype item_outcome = ItemDone abort_outcome | ItemFailed | LoopEnds exc

definition recovery_abort ::
    "recovery_settings \<Rightarrow> recovery_env \<Rightarrow> recovery_step \<Rightarrow> string \<Rightarrow> string \<Rightarrow> db \<Rightarrow> (exc + abort_outcome) \<times> db" where
  "recovery_abort cfg env s reason tx db0 = (let db = re_before_item env s tx db0 in
     interrupted (re_stop env s tx) db
       (case abort (rec_on_postgres cfg) (rec_retry_attempts cfg) True False tx reason (Some (error_code_value E007)) None (re_abort env db) of
          (r, w) \<Rightarrow> (r, case w of None \<Rightarrow> db | Some db' \<Rightarrow> db')))"

definition recover_item ::
    "recovery_settings \<Rightarrow> recovery_env \<Rightarrow> recovery_step \<Rightarrow> string \<Rightarrow> string \<Rightarrow> db \<Rightarrow> item_outcome \<times> db" where
  "recover_item cfg env s reason tx db = (case recovery_abort cfg env s reason tx db of
      (Inr out, db') \<Rightarrow> (ItemDone out, db')
    | (Inl x, db') \<Rightarrow> (if x = CancelledError then LoopEnds x
        else if re_rollback_fails env s tx then LoopEnds RuntimeError else ItemFailed, db'))"

section \<open>Expired locks\<close>

text \<open>The dictionary of the expired lock ids by transaction, in the order of the query.\<close>

definition expired_lock_rows :: "db \<Rightarrow> prepare_lock list" where
  "expired_lock_rows db = sort_key lock_tx (sort_key lock_id (filter (\<lambda>l. lock_expires_at l \<le> db_now db) (prepare_locks db)))"

primrec group_by_tx :: "prepare_lock list \<Rightarrow> (string \<times> uuid list) list \<Rightarrow> (string \<times> uuid list) list" where
  "group_by_tx [] m = m"
| "group_by_tx (l # ls) m = group_by_tx ls (AList.map_default (lock_tx l) [lock_id l] (\<lambda>ids. ids @ [lock_id l]) m)"

primrec cleanup_items ::
    "recovery_settings \<Rightarrow> recovery_env \<Rightarrow> (string \<times> uuid list) list \<Rightarrow> expired_lock_cleanup_result \<Rightarrow> db
      \<Rightarrow> (exc + expired_lock_cleanup_result) \<times> db" where
  "cleanup_items cfg env [] r db = (Inr r, db)"
| "cleanup_items cfg env (item # items) r db =
     (case recover_item cfg env CleanupExpired ''Prepare lock expired'' (fst item) db of
        (LoopEnds x, db') \<Rightarrow> (Inl x, db')
      | (ItemFailed, db') \<Rightarrow> cleanup_items cfg env items (r\<lparr>item_failures := item_failures r + 1\<rparr>) db'
      | (ItemDone out, db') \<Rightarrow> (case classify_abort_outcome out of (newly_aborted, terminal_seen) \<Rightarrow>
          cleanup_items cfg env items
            (r\<lparr>cleanup_aborted := cleanup_aborted r + newly_aborted,
               cleanup_terminal_seen := cleanup_terminal_seen r + terminal_seen,
               expired_lock_ids_resolved := expired_lock_ids_resolved r + length (snd item)\<rparr>) db'))"

definition cleanup_expired_prepare_locks ::
    "recovery_settings \<Rightarrow> recovery_env \<Rightarrow> db \<Rightarrow> (exc + expired_lock_cleanup_result) \<times> db" where
  "cleanup_expired_prepare_locks cfg env db0 = (let db = re_before_query env CleanupExpired db0 in
     case re_query env CleanupExpired of Some x \<Rightarrow> (Inl x, db)
     | None \<Rightarrow> let rows = expired_lock_rows db in
         if rows = [] then (Inr no_cleanup, db)
         else cleanup_items cfg env (group_by_tx rows []) no_cleanup db)"

section \<open>Stale payments\<close>

definition stale_cutoff :: "recovery_settings \<Rightarrow> recovery_env \<Rightarrow> timestamp" where
  "stale_cutoff cfg env = re_utcnow env - (if stuck_timeout_seconds cfg = 0 then 120 else stuck_timeout_seconds cfg)"

definition is_stale :: "timestamp \<Rightarrow> transaction \<Rightarrow> bool" where
  "is_stale cutoff t \<longleftrightarrow> tx_type t = PAYMENT \<and> tx_state t \<in> set active_tx_states \<and> tx_updated_at t < cutoff"

definition stale_tx_ids :: "timestamp \<Rightarrow> db \<Rightarrow> string list" where
  "stale_tx_ids cutoff db = map tx_id (sort_key tx_updated_at (filter (is_stale cutoff) (transactions db)))"

primrec stale_items ::
    "recovery_settings \<Rightarrow> recovery_env \<Rightarrow> string list \<Rightarrow> stale_payment_abort_result \<Rightarrow> db
      \<Rightarrow> (exc + stale_payment_abort_result) \<times> db" where
  "stale_items cfg env [] r db = (Inr r, db)"
| "stale_items cfg env (tx # txs) r db =
     (case recover_item cfg env AbortStale ''Recovered stale payment transaction'' tx db of
        (LoopEnds x, db') \<Rightarrow> (Inl x, db')
      | (ItemFailed, db') \<Rightarrow> stale_items cfg env txs (r\<lparr>abort_failures := abort_failures r + 1\<rparr>) db'
      | (ItemDone out, db') \<Rightarrow> (case classify_abort_outcome out of (newly_aborted, terminal_seen) \<Rightarrow>
          stale_items cfg env txs
            (r\<lparr>stale_aborted := stale_aborted r + newly_aborted,
               stale_terminal_seen := stale_terminal_seen r + terminal_seen\<rparr>) db'))"

definition abort_stale_payment_transactions ::
    "recovery_settings \<Rightarrow> recovery_env \<Rightarrow> db \<Rightarrow> (exc + stale_payment_abort_result) \<times> db" where
  "abort_stale_payment_transactions cfg env db0 = (let db = re_before_query env AbortStale db0 in
     case re_query env AbortStale of Some x \<Rightarrow> (Inl x, db)
     | None \<Rightarrow> let txs = stale_tx_ids (stale_cutoff cfg env) db in
         if txs = [] then (Inr no_stale, db)
         else stale_items cfg env txs no_stale db)"

section \<open>One iteration and the loop\<close>

text \<open>A cancellation is no \<^verbatim>\<open>Exception\<close> and passes through every handler.\<close>

definition run_recovery_once :: "recovery_settings \<Rightarrow> recovery_env \<Rightarrow> db \<Rightarrow> (exc + bool) \<times> db" where
  "run_recovery_once cfg env db =
     (case cleanup_expired_prepare_locks cfg env db of (expired, db1) \<Rightarrow>
        if expired = Inl CancelledError then (Inl CancelledError, db1)
        else if isl expired \<and> re_session_lost env then (Inr False, db1)
        else let ok = (case expired of Inl _ \<Rightarrow> False | Inr r \<Rightarrow> item_failures r = 0) in
          (case abort_stale_payment_transactions cfg env db1 of (stale, db2) \<Rightarrow>
             (case stale of Inl x \<Rightarrow> if x = CancelledError then (Inl x, db2) else (Inr False, db2)
              | Inr r \<Rightarrow> (Inr (ok \<and> abort_failures r = 0), db2))))"

datatype recovery_reason = Startup | Periodic

text \<open>
  The observer is called with the reason and the error, if any; \<open>opens\<close> says whether the session
  could be opened.
\<close>

definition run_recovery_iteration ::
    "recovery_settings \<Rightarrow> recovery_env \<times> exc option \<Rightarrow> recovery_reason \<Rightarrow> db
      \<Rightarrow> (exc + recovery_reason \<times> exc option) \<times> db" where
  "run_recovery_iteration cfg e reason db =
     (case (case snd e of Some x \<Rightarrow> (Inl x, db) | None \<Rightarrow> run_recovery_once cfg (fst e) db) of
        (Inl x, db') \<Rightarrow> (if x = CancelledError then Inl x else Inr (reason, Some x), db')
      | (Inr ok, db') \<Rightarrow> (Inr (reason, if ok then None else Some RuntimeError), db'))"

text \<open>
  The loop, driven by the intervals that elapse before the stop event: one surrounding for each
  iteration after the first.
\<close>

primrec recovery_periods ::
    "recovery_settings \<Rightarrow> (recovery_env \<times> exc option) list \<Rightarrow> (recovery_reason \<times> exc option) list \<Rightarrow> db
      \<Rightarrow> (exc + (recovery_reason \<times> exc option) list) \<times> db" where
  "recovery_periods cfg [] seen db = (Inr seen, db)"
| "recovery_periods cfg (e # es) seen db = (case run_recovery_iteration cfg e Periodic db of
      (Inl x, db') \<Rightarrow> (Inl x, db')
    | (Inr o_r, db') \<Rightarrow> recovery_periods cfg es (seen @ [o_r]) db')"

definition recovery_loop ::
    "recovery_settings \<Rightarrow> recovery_env \<times> exc option \<Rightarrow> (recovery_env \<times> exc option) list \<Rightarrow> db
      \<Rightarrow> (exc + (recovery_reason \<times> exc option) list) \<times> db" where
  "recovery_loop cfg e es db = (case run_recovery_iteration cfg e Startup db of
      (Inl x, db') \<Rightarrow> (Inl x, db')
    | (Inr o_r, db') \<Rightarrow> recovery_periods cfg es [o_r] db')"

end
