(* ===== verification/Recovery_Properties.thy ===== *)
theory Recovery_Properties
  imports Recovery Payment_Outcomes
begin

text \<open>
  What an iteration of the recovery achieves, also when the abort of some payments fails.
\<close>

section \<open>Settled transactions\<close>

definition terminal_state :: "tx_state_t option \<Rightarrow> tx_state_t option" where
  "terminal_state s = (case s of None \<Rightarrow> None | Some x \<Rightarrow> Some (if x = COMMITTED then COMMITTED else ABORTED))"

text \<open>The transactions \<open>D\<close> have become terminal and lost their locks; nothing else has changed.\<close>

definition settles :: "string set \<Rightarrow> db \<Rightarrow> db \<Rightarrow> bool" where
  "settles D db db' \<longleftrightarrow> same_ledger db db' \<and> db_now db' = db_now db
     \<and> prepare_locks db' = filter (\<lambda>l. lock_tx l \<notin> D) (prepare_locks db)
     \<and> (\<forall>tx. if tx \<in> D then tx_state_of (get_tx tx db') = terminal_state (tx_state_of (get_tx tx db))
              else get_tx tx db' = get_tx tx db)
     \<and> (\<forall>t \<in> set (transactions db'). tx_id t \<in> D \<or> t \<in> set (transactions db))"

lemma settles_refl [simp]: "settles {} db db"
  by (simp add: settles_def)

lemma terminal_state_idem [simp]: "terminal_state (terminal_state s) = terminal_state s"
  by (simp add: terminal_state_def split: option.splits)

lemma settlesD:
  assumes "settles D db db'"
  shows "same_ledger db db'" and "db_now db' = db_now db" and "prepare_locks db' = filter (\<lambda>l. lock_tx l \<notin> D) (prepare_locks db)"
    and "tx \<in> D \<Longrightarrow> tx_state_of (get_tx tx db') = terminal_state (tx_state_of (get_tx tx db))"
    and "tx \<notin> D \<Longrightarrow> get_tx tx db' = get_tx tx db"
    and "t \<in> set (transactions db') \<Longrightarrow> tx_id t \<notin> D \<Longrightarrow> t \<in> set (transactions db)"
  using assms unfolding settles_def by (auto split: if_splits)

lemma settles_trans:
  assumes "settles D db db1" and "settles E db1 db2"
  shows "settles (D \<union> E) db db2"
proof -
  have "if tx \<in> D \<union> E then tx_state_of (get_tx tx db2) = terminal_state (tx_state_of (get_tx tx db))
      else get_tx tx db2 = get_tx tx db" for tx
    using settlesD(4,5) [OF assms(1), of tx] settlesD(4,5) [OF assms(2), of tx]
    by (cases "tx \<in> D"; cases "tx \<in> E") auto
  then show ?thesis
    using same_ledger_trans [OF settlesD(1) [OF assms(1)] settlesD(1) [OF assms(2)]] settlesD(2,3,6) [OF assms(1)] settlesD(2,3,6) [OF assms(2)]
    by (auto simp: settles_def intro: filter_cong)
qed

lemma quiet_abort_settles:
  obtains out db' where "abort pg n cf held tx reason code details (\<lambda>_. \<lparr>ab_pre = db, ab_tx = db, ab_seg = db\<rparr>) = (Inr out, Some db')"
    and "settles {tx} db db'"
proof -
  let ?env = "\<lambda>_::nat. \<lparr>ab_pre = db, ab_tx = db, ab_seg = db\<rparr>"
  obtain out db' where ab: "abort pg n cf held tx reason code details ?env = (Inr out, Some db')"
    by (rule quiet_abort)
  have reads: "abort_reads db ?env" by (simp add: abort_reads_def)
  have "settles {tx} db db'"
    using reads ab
  proof (cases rule: abort_step_cases)
    case already_committed
    then show ?thesis by (auto simp: settles_def terminal_state_def delete_prepare_locks_def del_row_def get_tx_def same_ledger_def)
  next
    case (aborted g)
    have "tx_id t = tx \<or> t \<in> set (transactions db)" if "t \<in> set (transactions db')" for t
      using that aborted(2,3) by (auto simp: update_tx_def delete_prepare_locks_def set_upd_row)
    with aborted show ?thesis
      by (auto simp: settles_def terminal_state_def get_tx_update tx_state_of_def split: option.splits)
  qed
  with ab show ?thesis by (rule that)
qed

section \<open>Items\<close>

text \<open>
  The recovery runs alone, and what stops an abort from outside is no cancellation and leaves the
  session usable. Any set of aborts may still fail.
\<close>

definition recovers_alone :: "recovery_env \<Rightarrow> bool" where
  "recovers_alone env \<longleftrightarrow> (\<forall>s db. re_before_query env s db = db) \<and> (\<forall>s tx db. re_before_item env s tx db = db)
     \<and> (\<forall>s. re_query env s = None) \<and> (\<forall>db. re_abort env db = (\<lambda>_. \<lparr>ab_pre = db, ab_tx = db, ab_seg = db\<rparr>))
     \<and> (\<forall>s tx x survived. re_stop env s tx = Some (x, survived) \<longrightarrow> x \<noteq> CancelledError)
     \<and> (\<forall>s tx. \<not> re_rollback_fails env s tx)"

lemma recovers_aloneD:
  assumes "recovers_alone env"
  shows "re_before_query env s db = db" and "re_before_item env s tx db = db" and "re_query env s = None"
    and "re_abort env db = (\<lambda>_. \<lparr>ab_pre = db, ab_tx = db, ab_seg = db\<rparr>)"
    and "re_stop env s tx \<noteq> Some (CancelledError, survived)" and "\<not> re_rollback_fails env s tx"
  using assms unfolding recovers_alone_def by metis+

lemma recover_item_settles:
  assumes "recovers_alone env"
  obtains (settled) out db' where "recover_item cfg env s reason tx db = (ItemDone out, db')" and "re_stop env s tx = None"
      and "settles {tx} db db'"
  | (failed) db' D where "recover_item cfg env s reason tx db = (ItemFailed, db')" and "re_stop env s tx \<noteq> None"
      and "settles D db db'" and "D \<subseteq> {tx}"
proof -
  note alone = recovers_aloneD [OF assms]
  obtain out db' where ab: "abort (rec_on_postgres cfg) (rec_retry_attempts cfg) True False tx reason (Some (error_code_value E007)) None
      (\<lambda>_. \<lparr>ab_pre = db, ab_tx = db, ab_seg = db\<rparr>) = (Inr out, Some db')" and db': "settles {tx} db db'"
    by (rule quiet_abort_settles)
  then have rec: "recovery_abort cfg env s reason tx db = interrupted (re_stop env s tx) db (Inr out, db')"
    by (simp add: recovery_abort_def alone)
  show ?thesis
  proof (cases "re_stop env s tx")
    case None
    with rec db' show ?thesis by (intro settled [of out db']) (simp_all add: recover_item_def interrupted_def)
  next
    case (Some st)
    obtain x survived where st: "st = (x, survived)" by (cases st)
    have "recover_item cfg env s reason tx db = (ItemFailed, if survived then db' else db)"
      using rec Some st alone(5) [of s tx survived] alone(6) by (auto simp add: recover_item_def interrupted_def)
    then show ?thesis using Some db' by (intro failed [where D = "if survived then {tx} else {}"]) auto
  qed
qed

lemma cleanup_items_settle:
  assumes "recovers_alone env"
  shows "\<exists>r' db' D. cleanup_items cfg env items r db = (Inr r', db') \<and> settles D db db'
    \<and> {tx \<in> fst ` set items. re_stop env CleanupExpired tx = None} \<subseteq> D \<and> D \<subseteq> fst ` set items
    \<and> item_failures r' = item_failures r + length (filter (\<lambda>i. re_stop env CleanupExpired (fst i) \<noteq> None) items)"
proof (induction items arbitrary: r db)
  case Nil
  then show ?case by (intro exI [of _ r] exI [of _ db] exI [of _ "{}"]) simp
next
  case (Cons item items)
  show ?case
    using assms
  proof (cases rule: recover_item_settles [where cfg = cfg and s = CleanupExpired and reason = "''Prepare lock expired''" and tx = "fst item" and db = db])
    case (settled out db1)
    obtain a b where ab: "classify_abort_outcome out = (a, b)" by fastforce
    let ?r = "r\<lparr>cleanup_aborted := cleanup_aborted r + a, cleanup_terminal_seen := cleanup_terminal_seen r + b,
      expired_lock_ids_resolved := expired_lock_ids_resolved r + length (snd item)\<rparr>"
    obtain r' db' D where rest: "cleanup_items cfg env items ?r db1 = (Inr r', db')" "settles D db1 db'"
      "{tx \<in> fst ` set items. re_stop env CleanupExpired tx = None} \<subseteq> D" "D \<subseteq> fst ` set items"
      "item_failures r' = item_failures ?r + length (filter (\<lambda>i. re_stop env CleanupExpired (fst i) \<noteq> None) items)"
      using Cons.IH [of ?r db1] by blast
    show ?thesis
      using rest settled settles_trans [OF settled(3) rest(2)]
      by (intro exI [of _ r'] exI [of _ db'] exI [of _ "{fst item} \<union> D"]) (auto simp: ab)
  next
    case (failed db1 E)
    let ?r = "r\<lparr>item_failures := item_failures r + 1\<rparr>"
    obtain r' db' D where rest: "cleanup_items cfg env items ?r db1 = (Inr r', db')" "settles D db1 db'"
      "{tx \<in> fst ` set items. re_stop env CleanupExpired tx = None} \<subseteq> D" "D \<subseteq> fst ` set items"
      "item_failures r' = item_failures ?r + length (filter (\<lambda>i. re_stop env CleanupExpired (fst i) \<noteq> None) items)"
      using Cons.IH [of ?r db1] by blast
    show ?thesis
      using rest failed settles_trans [OF failed(3) rest(2)]
      by (intro exI [of _ r'] exI [of _ db'] exI [of _ "E \<union> D"]) auto
  qed
qed

lemma stale_items_settle:
  assumes "recovers_alone env"
  shows "\<exists>r' db' D. stale_items cfg env txs r db = (Inr r', db') \<and> settles D db db'
    \<and> {tx \<in> set txs. re_stop env AbortStale tx = None} \<subseteq> D \<and> D \<subseteq> set txs
    \<and> abort_failures r' = abort_failures r + length (filter (\<lambda>tx. re_stop env AbortStale tx \<noteq> None) txs)"
proof (induction txs arbitrary: r db)
  case Nil
  then show ?case by (intro exI [of _ r] exI [of _ db] exI [of _ "{}"]) simp
next
  case (Cons tx txs)
  show ?case
    using assms
  proof (cases rule: recover_item_settles [where cfg = cfg and s = AbortStale and reason = "''Recovered stale payment transaction''" and tx = "tx" and db = db])
    case (settled out db1)
    obtain a b where ab: "classify_abort_outcome out = (a, b)" by fastforce
    let ?r = "r\<lparr>stale_aborted := stale_aborted r + a, stale_terminal_seen := stale_terminal_seen r + b\<rparr>"
    obtain r' db' D where rest: "stale_items cfg env txs ?r db1 = (Inr r', db')" "settles D db1 db'"
      "{tx \<in> set txs. re_stop env AbortStale tx = None} \<subseteq> D" "D \<subseteq> set txs"
      "abort_failures r' = abort_failures ?r + length (filter (\<lambda>tx. re_stop env AbortStale tx \<noteq> None) txs)"
      using Cons.IH [of ?r db1] by blast
    show ?thesis
      using rest settled settles_trans [OF settled(3) rest(2)]
      by (intro exI [of _ r'] exI [of _ db'] exI [of _ "{tx} \<union> D"]) (auto simp: ab)
  next
    case (failed db1 E)
    let ?r = "r\<lparr>abort_failures := abort_failures r + 1\<rparr>"
    obtain r' db' D where rest: "stale_items cfg env txs ?r db1 = (Inr r', db')" "settles D db1 db'"
      "{tx \<in> set txs. re_stop env AbortStale tx = None} \<subseteq> D" "D \<subseteq> set txs"
      "abort_failures r' = abort_failures ?r + length (filter (\<lambda>tx. re_stop env AbortStale tx \<noteq> None) txs)"
      using Cons.IH [of ?r db1] by blast
    show ?thesis
      using rest failed settles_trans [OF failed(3) rest(2)]
      by (intro exI [of _ r'] exI [of _ db'] exI [of _ "E \<union> D"]) auto
  qed
qed

section \<open>One iteration\<close>

lemma group_by_tx_keys: "fst ` set (group_by_tx ls m) = lock_tx ` set ls \<union> fst ` set m"
proof (induction ls arbitrary: m)
  case (Cons l ls)
  have "fst ` set (AList.map_default k v f xs) = insert k (fst ` set xs)" for k v f and xs :: "(string \<times> uuid list) list"
    by (induction xs) auto
  then show ?case using Cons by simp
qed simp

lemma cleanup_settles:
  assumes "recovers_alone env"
  obtains r db' D where "cleanup_expired_prepare_locks cfg env db = (Inr r, db')" and "settles D db db'"
    and "\<forall>l \<in> set (prepare_locks db). lock_expires_at l \<le> db_now db \<and> re_stop env CleanupExpired (lock_tx l) = None \<longrightarrow> lock_tx l \<in> D"
    and "\<forall>tx \<in> D. \<exists>l \<in> set (prepare_locks db). lock_tx l = tx \<and> lock_expires_at l \<le> db_now db"
    and "item_failures r = 0 \<longleftrightarrow> (\<forall>l \<in> set (prepare_locks db). lock_expires_at l \<le> db_now db \<longrightarrow> re_stop env CleanupExpired (lock_tx l) = None)"
proof -
  let ?items = "group_by_tx (expired_lock_rows db) []"
  have keys: "fst ` set ?items = lock_tx ` {l \<in> set (prepare_locks db). lock_expires_at l \<le> db_now db}"
    by (simp add: group_by_tx_keys expired_lock_rows_def)
  obtain r db' D where run: "cleanup_items cfg env ?items no_cleanup db = (Inr r, db')" and D: "settles D db db'"
    "{tx \<in> fst ` set ?items. re_stop env CleanupExpired tx = None} \<subseteq> D" "D \<subseteq> fst ` set ?items"
    "item_failures r = item_failures no_cleanup + length (filter (\<lambda>i. re_stop env CleanupExpired (fst i) \<noteq> None) ?items)"
    using cleanup_items_settle [OF assms, of cfg ?items no_cleanup db] by blast
  have "cleanup_expired_prepare_locks cfg env db = (Inr r, db')"
    using run by (auto simp: cleanup_expired_prepare_locks_def Let_def recovers_aloneD [OF assms])
  moreover have "item_failures r = 0 \<longleftrightarrow> (\<forall>tx \<in> fst ` set ?items. re_stop env CleanupExpired tx = None)"
    using D(4) by (simp add: no_cleanup_def filter_empty_conv del: not_None_eq)
  ultimately show ?thesis using D(1-3) by (intro that [of r db' D]) (auto simp: keys)
qed

lemma stale_settles:
  assumes "recovers_alone env"
  obtains r db' D where "abort_stale_payment_transactions cfg env db = (Inr r, db')" and "settles D db db'"
    and "\<forall>t \<in> set (transactions db). is_stale (stale_cutoff cfg env) t \<and> re_stop env AbortStale (tx_id t) = None \<longrightarrow> tx_id t \<in> D"
    and "\<forall>tx \<in> D. \<exists>t \<in> set (transactions db). tx_id t = tx \<and> is_stale (stale_cutoff cfg env) t"
    and "abort_failures r = 0 \<longleftrightarrow> (\<forall>t \<in> set (transactions db). is_stale (stale_cutoff cfg env) t \<longrightarrow> re_stop env AbortStale (tx_id t) = None)"
proof -
  let ?txs = "stale_tx_ids (stale_cutoff cfg env) db"
  have keys: "set ?txs = tx_id ` {t \<in> set (transactions db). is_stale (stale_cutoff cfg env) t}"
    by (simp add: stale_tx_ids_def)
  obtain r db' D where run: "stale_items cfg env ?txs no_stale db = (Inr r, db')" and D: "settles D db db'"
    "{tx \<in> set ?txs. re_stop env AbortStale tx = None} \<subseteq> D" "D \<subseteq> set ?txs"
    "abort_failures r = abort_failures no_stale + length (filter (\<lambda>tx. re_stop env AbortStale tx \<noteq> None) ?txs)"
    using stale_items_settle [OF assms, of cfg ?txs no_stale db] by blast
  have "abort_stale_payment_transactions cfg env db = (Inr r, db')"
    using run by (auto simp: abort_stale_payment_transactions_def Let_def recovers_aloneD [OF assms])
  moreover have "abort_failures r = 0 \<longleftrightarrow> (\<forall>tx \<in> set ?txs. re_stop env AbortStale tx = None)"
    using D(4) by (simp add: no_stale_def filter_empty_conv del: not_None_eq)
  ultimately show ?thesis using D(1-3) by (intro that [of r db' D]) (auto simp: keys)
qed

lemma settled_not_stale:
  assumes "settles D db db'" and "get_tx tx db' = Some t" and "tx \<in> D"
  shows "\<not> is_stale cutoff t"
proof -
  have "terminal_state (tx_state_of (get_tx tx db)) = Some (tx_state t)" using settlesD(4) [OF assms(1,3)] assms(2) by (simp add: tx_state_of_def)
  then show ?thesis by (auto simp: terminal_state_def is_stale_def active_tx_states_def split: option.splits if_splits)
qed

text \<open>
  C9. Recovery frees what stuck payments hold, and one failure does not stop it. An iteration that
  runs alone always returns, and afterwards no prepare lock is expired and no payment is overdue,
  except for the transactions whose own abort was stopped by an error. It reports success when no
  abort fails, and only if nothing stuck is left. Debts and trust lines are untouched. A transaction
  either keeps its row and its locks, or it had an expired lock or was overdue, and then it has lost
  its locks and is ABORTED, or still COMMITTED if that is what it was.
\<close>

theorem recovery_frees_stuck_payments:
  assumes "recovers_alone env"
  shows "\<exists>ok db'. run_recovery_once cfg env db = (Inr ok, db')
    \<and> debts db' = debts db \<and> trust_lines db' = trust_lines db
    \<and> (\<forall>l \<in> set (prepare_locks db'). lock_expires_at l \<le> db_now db \<longrightarrow> re_stop env CleanupExpired (lock_tx l) \<noteq> None)
    \<and> (\<forall>tx t. get_tx tx db' = Some t \<longrightarrow> is_stale (stale_cutoff cfg env) t \<longrightarrow> re_stop env AbortStale tx \<noteq> None)
    \<and> (ok \<longrightarrow> (\<forall>l \<in> set (prepare_locks db'). db_now db < lock_expires_at l)
         \<and> (\<forall>tx t. get_tx tx db' = Some t \<longrightarrow> \<not> is_stale (stale_cutoff cfg env) t))
    \<and> ((\<forall>s tx. re_stop env s tx = None) \<longrightarrow> ok)
    \<and> (\<forall>tx. get_tx tx db' = get_tx tx db \<and> load_prepare_locks tx db' = load_prepare_locks tx db
         \<or> load_prepare_locks tx db' = [] \<and> tx_state_of (get_tx tx db') = terminal_state (tx_state_of (get_tx tx db))
           \<and> ((\<exists>l \<in> set (load_prepare_locks tx db). lock_expires_at l \<le> db_now db)
              \<or> (\<exists>t \<in> set (transactions db). tx_id t = tx \<and> is_stale (stale_cutoff cfg env) t)))"
proof -
  let ?c = "stale_cutoff cfg env"
  obtain r1 db1 D1 where one: "cleanup_expired_prepare_locks cfg env db = (Inr r1, db1)" and s1: "settles D1 db db1"
    and in1: "\<forall>l \<in> set (prepare_locks db). lock_expires_at l \<le> db_now db \<and> re_stop env CleanupExpired (lock_tx l) = None \<longrightarrow> lock_tx l \<in> D1"
    and D1: "\<forall>tx \<in> D1. \<exists>l \<in> set (prepare_locks db). lock_tx l = tx \<and> lock_expires_at l \<le> db_now db"
    and f1: "item_failures r1 = 0 \<longleftrightarrow> (\<forall>l \<in> set (prepare_locks db). lock_expires_at l \<le> db_now db \<longrightarrow> re_stop env CleanupExpired (lock_tx l) = None)"
    by (rule cleanup_settles [OF assms, of cfg db])
  obtain r2 db2 D2 where two: "abort_stale_payment_transactions cfg env db1 = (Inr r2, db2)" and s2: "settles D2 db1 db2"
    and in2: "\<forall>t \<in> set (transactions db1). is_stale ?c t \<and> re_stop env AbortStale (tx_id t) = None \<longrightarrow> tx_id t \<in> D2"
    and D2: "\<forall>tx \<in> D2. \<exists>t \<in> set (transactions db1). tx_id t = tx \<and> is_stale ?c t"
    and f2: "abort_failures r2 = 0 \<longleftrightarrow> (\<forall>t \<in> set (transactions db1). is_stale ?c t \<longrightarrow> re_stop env AbortStale (tx_id t) = None)"
    by (rule stale_settles [OF assms, of cfg db1])
  note both = settles_trans [OF s1 s2]
  have run: "run_recovery_once cfg env db = (Inr (item_failures r1 = 0 \<and> abort_failures r2 = 0), db2)"
    by (simp add: run_recovery_once_def one two)
  have locks: "l \<in> set (prepare_locks db) \<and> lock_tx l \<notin> D1" if "l \<in> set (prepare_locks db2)" for l
    using that settlesD(3) [OF both] by simp
  have stale: "\<exists>t' \<in> set (transactions db1). tx_id t' = tx \<and> is_stale ?c t' \<and> tx \<notin> D2"
    if "get_tx tx db2 = Some t" "is_stale ?c t" for tx t
  proof -
    have out: "tx \<notin> D2" using settled_not_stale [OF s2 that(1)] that(2) by blast
    then have "get_tx tx db1 = Some t" using settlesD(5) [OF s2] that(1) by simp
    then have "t \<in> set (transactions db1) \<and> tx_id t = tx" by (auto simp: get_tx_def find_Some_iff)
    then show ?thesis using out that(2) by blast
  qed
  have touched: "get_tx tx db2 = get_tx tx db \<and> load_prepare_locks tx db2 = load_prepare_locks tx db
      \<or> load_prepare_locks tx db2 = [] \<and> tx_state_of (get_tx tx db2) = terminal_state (tx_state_of (get_tx tx db))
        \<and> ((\<exists>l \<in> set (load_prepare_locks tx db). lock_expires_at l \<le> db_now db)
           \<or> (\<exists>t \<in> set (transactions db). tx_id t = tx \<and> is_stale ?c t))" for tx
  proof (cases "tx \<in> D1 \<union> D2")
    case True
    then have "load_prepare_locks tx db2 = []" using settlesD(3) [OF both] by (auto simp: load_prepare_locks_def filter_empty_conv)
    moreover have "(\<exists>l \<in> set (load_prepare_locks tx db). lock_expires_at l \<le> db_now db)
           \<or> (\<exists>t \<in> set (transactions db). tx_id t = tx \<and> is_stale ?c t)"
      using D1 D2 settlesD(6) [OF s1] True by (cases "tx \<in> D1") (auto simp: load_prepare_locks_def)
    ultimately show ?thesis using settlesD(4) [OF both True] by simp
  next
    case False
    then have "load_prepare_locks tx db2 = load_prepare_locks tx db"
      using settlesD(3) [OF both] by (auto simp: load_prepare_locks_def intro: filter_cong)
    then show ?thesis using settlesD(5) [OF both False] by simp
  qed
  have "lock_expires_at l \<le> db_now db \<longrightarrow> re_stop env CleanupExpired (lock_tx l) \<noteq> None" if "l \<in> set (prepare_locks db2)" for l
    using locks [OF that] in1 by metis
  moreover have "re_stop env AbortStale tx \<noteq> None" if "get_tx tx db2 = Some t" "is_stale ?c t" for tx t
    using stale [OF that] in2 by metis
  moreover have "(item_failures r1 = 0 \<and> abort_failures r2 = 0) \<longrightarrow> (\<forall>l \<in> set (prepare_locks db2). db_now db < lock_expires_at l)
         \<and> (\<forall>tx t. get_tx tx db2 = Some t \<longrightarrow> \<not> is_stale ?c t)"
    using locks in1 f1 stale in2 f2 not_le by metis
  ultimately show ?thesis
    using run settlesD(1) [OF both] touched f1 f2
    by (intro exI [of _ "item_failures r1 = 0 \<and> abort_failures r2 = 0"] exI [of _ db2] conjI) (simp_all add: same_ledger_def)
qed

definition sample_recovery_env :: recovery_env where
  "sample_recovery_env = \<lparr>re_utcnow = 2000, re_before_query = (\<lambda>_ db. db), re_before_item = (\<lambda>_ _ db. db), re_query = (\<lambda>_. None),
     re_abort = (\<lambda>db _. \<lparr>ab_pre = db, ab_tx = db, ab_seg = db\<rparr>), re_stop = (\<lambda>_ _. None), re_rollback_fails = (\<lambda>_ _. False),
     re_session_lost = False\<rparr>"

theorem recovery_frees_stuck_payments_witness:
  "\<exists>db'. run_recovery_once \<lparr>stuck_timeout_seconds = 120, rec_on_postgres = True, rec_retry_attempts = 3\<rparr> sample_recovery_env expired_db
      = (Inr True, db')
    \<and> load_prepare_locks ''t1'' db' = [] \<and> tx_state_of (get_tx ''t1'' db') = Some ABORTED \<and> debts db' = [sample_debt]"
proof -
  let ?cfg = "\<lparr>stuck_timeout_seconds = 120, rec_on_postgres = True, rec_retry_attempts = 3\<rparr>"
  let ?t = "sample_tx\<lparr>tx_state := PREPARED, tx_updated_at := 1000\<rparr>"
  have alone: "recovers_alone sample_recovery_env" by (simp add: recovers_alone_def sample_recovery_env_def)
  have t1: "get_tx ''t1'' expired_db = Some ?t" "is_stale (stale_cutoff ?cfg sample_recovery_env) ?t"
    by (simp_all add: expired_db_def get_tx_def prepared_db_def is_stale_def stale_cutoff_def sample_tx_def sample_recovery_env_def
        active_tx_states_def)
  have debts: "debts expired_db = [sample_debt]" by (simp add: expired_db_def prepared_db_def)
  from recovery_frees_stuck_payments [OF alone, of ?cfg expired_db]
  obtain ok db' where run: "run_recovery_once ?cfg sample_recovery_env expired_db = (Inr ok, db')" "debts db' = debts expired_db"
    and ok: "(\<forall>s tx. re_stop sample_recovery_env s tx = None) \<longrightarrow> ok"
    and live: "ok \<longrightarrow> (\<forall>tx t. get_tx tx db' = Some t \<longrightarrow> \<not> is_stale (stale_cutoff ?cfg sample_recovery_env) t)"
    and touched: "get_tx ''t1'' db' = get_tx ''t1'' expired_db \<or> load_prepare_locks ''t1'' db' = []
      \<and> tx_state_of (get_tx ''t1'' db') = terminal_state (tx_state_of (get_tx ''t1'' expired_db))"
    by metis
  have "ok" using ok by (simp add: sample_recovery_env_def)
  with run debts live touched t1 show ?thesis by (auto simp: terminal_state_def tx_state_of_def)
qed

end
