(* ===== verification/Balance.thy ===== *)
theory Balance
  imports Trust_Lines "HOL-Library.AList"
begin

text \<open>
  \<^verbatim>\<open>BalanceService\<close> of \<^verbatim>\<open>app/core/balance/service.py\<close>: the balances of a participant by equivalent,
  the cache of these summaries, and the list of debts. A dictionary is an association list in the
  order of insertion; a total is kept as its value. The equivalent or participant a row refers to
  is looked up by its id; a row whose reference is missing makes the code raise \<^verbatim>\<open>AttributeError\<close>.
\<close>

section \<open>Summaries\<close>

record eq_entry =
  total_debt :: amount
  total_credit :: amount
  spend_capacity :: amount
  receive_capacity :: amount

record balance_equivalent =
  be_code :: string
  be_total_debt :: amount
  be_total_credit :: amount
  be_net_balance :: amount
  be_available_to_spend :: amount
  be_available_to_receive :: amount

type_synonym eq_map = "(string \<times> eq_entry) list"
type_synonym peer_debts = "((uuid \<times> string) \<times> amount) list"

definition zero_entry :: eq_entry where
  "zero_entry = \<lparr>total_debt = 0, total_credit = 0, spend_capacity = 0, receive_capacity = 0\<rparr>"

text \<open>\<open>get_eq_entry(code)[field] += v\<close>\<close>

definition add_to :: "((amount \<Rightarrow> amount) \<Rightarrow> eq_entry \<Rightarrow> eq_entry) \<Rightarrow> string \<Rightarrow> amount \<Rightarrow> eq_map \<Rightarrow> eq_map" where
  "add_to field code v m = AList.map_default code (field (\<lambda>t. t + v) zero_entry) (field (\<lambda>t. t + v)) m"

definition peer_get :: "peer_debts \<Rightarrow> uuid \<Rightarrow> string \<Rightarrow> amount" where
  "peer_get m peer code = (case map_of m (peer, code) of None \<Rightarrow> 0 | Some v \<Rightarrow> v)"

definition code_of :: "uuid \<Rightarrow> db \<Rightarrow> string" where
  "code_of e db = (case get_equivalent_by_id e db of None \<Rightarrow> [] | Some q \<Rightarrow> equiv_code q)"

definition lines_out :: "uuid \<Rightarrow> db \<Rightarrow> trust_line list" where
  "lines_out p db = filter (\<lambda>t. tl_from t = p \<and> tl_status t = Active) (trust_lines db)"

definition lines_in :: "uuid \<Rightarrow> db \<Rightarrow> trust_line list" where
  "lines_in p db = filter (\<lambda>t. tl_to t = p \<and> tl_status t = Active) (trust_lines db)"

definition debts_of :: "uuid \<Rightarrow> db \<Rightarrow> debt list" where
  "debts_of p db = filter (\<lambda>d. debtor_id d = p) (debts db)"

definition debts_to :: "uuid \<Rightarrow> db \<Rightarrow> debt list" where
  "debts_to p db = filter (\<lambda>d. creditor_id d = p) (debts db)"

definition debts_i_owe :: "uuid \<Rightarrow> db \<Rightarrow> peer_debts" where
  "debts_i_owe p db = fold (\<lambda>d. AList.update (creditor_id d, code_of (debt_equivalent d) db) (debt_amount d)) (debts_of p db) []"

definition debts_others_owe :: "uuid \<Rightarrow> db \<Rightarrow> peer_debts" where
  "debts_others_owe p db = fold (\<lambda>d. AList.update (debtor_id d, code_of (debt_equivalent d) db) (debt_amount d)) (debts_to p db) []"

text \<open>The contributions of the lines with limit \<open>l\<close> towards the peer, and of the peers without a line.\<close>

definition spend_on :: "uuid \<Rightarrow> db \<Rightarrow> amount \<Rightarrow> uuid \<Rightarrow> string \<Rightarrow> amount" where
  "spend_on p db l peer code = l - peer_get (debts_i_owe p db) peer code + peer_get (debts_others_owe p db) peer code"

definition receive_on :: "uuid \<Rightarrow> db \<Rightarrow> amount \<Rightarrow> uuid \<Rightarrow> string \<Rightarrow> amount" where
  "receive_on p db l peer code = l - peer_get (debts_others_owe p db) peer code + peer_get (debts_i_owe p db) peer code"

definition processed_spend :: "uuid \<Rightarrow> db \<Rightarrow> (uuid \<times> string) list" where
  "processed_spend p db = map (\<lambda>t. (tl_from t, code_of (tl_equivalent t) db)) (lines_in p db)"

definition processed_receive :: "uuid \<Rightarrow> db \<Rightarrow> (uuid \<times> string) list" where
  "processed_receive p db = map (\<lambda>t. (tl_to t, code_of (tl_equivalent t) db)) (lines_out p db)"

text \<open>
  One peer of the loop over the debts without a line. The loop runs over a set; the order, which
  Python leaves open, is that of first occurrence here, and it does not matter, because every code is
  in the map already and sums do not depend on the order.
\<close>

definition add_lineless :: "uuid \<Rightarrow> db \<Rightarrow> uuid \<times> string \<Rightarrow> eq_map \<Rightarrow> eq_map" where
  "add_lineless p db k m =
     (let spend = spend_on p db 0 (fst k) (snd k); receive = receive_on p db 0 (fst k) (snd k);
          m1 = (if k \<notin> set (processed_spend p db) \<and> 0 < spend then add_to spend_capacity_update (snd k) spend m else m)
      in if k \<notin> set (processed_receive p db) \<and> 0 < receive then add_to receive_capacity_update (snd k) receive m1 else m1)"

definition all_peers_equivalents :: "uuid \<Rightarrow> db \<Rightarrow> (uuid \<times> string) list" where
  "all_peers_equivalents p db = remdups (map fst (debts_i_owe p db) @ map fst (debts_others_owe p db))"

definition equivalents_map :: "uuid \<Rightarrow> db \<Rightarrow> eq_map" where
  "equivalents_map p db =
     (let m1 = fold (\<lambda>d. add_to total_debt_update (code_of (debt_equivalent d) db) (debt_amount d)) (debts_of p db) [];
          m2 = fold (\<lambda>d. add_to total_credit_update (code_of (debt_equivalent d) db) (debt_amount d)) (debts_to p db) m1;
          m3 = fold (\<lambda>t. let code = code_of (tl_equivalent t) db in
                 add_to spend_capacity_update code (spend_on p db (tl_limit t) (tl_from t) code)) (lines_in p db) m2;
          m4 = fold (\<lambda>t. let code = code_of (tl_equivalent t) db in
                 add_to receive_capacity_update code (receive_on p db (tl_limit t) (tl_to t) code)) (lines_out p db) m3
      in fold (add_lineless p db) (all_peers_equivalents p db) m4)"

definition balance_row :: "string \<times> eq_entry \<Rightarrow> balance_equivalent" where
  "balance_row x = (let e = snd x in
     \<lparr>be_code = fst x, be_total_debt = total_debt e, be_total_credit = total_credit e,
      be_net_balance = total_credit e - total_debt e,
      be_available_to_spend = max 0 (spend_capacity e), be_available_to_receive = max 0 (receive_capacity e)\<rparr>)"

definition compute_summary :: "uuid \<Rightarrow> db \<Rightarrow> exc + balance_equivalent list" where
  "compute_summary p db =
     (if list_ex (\<lambda>e. get_equivalent_by_id e db = None)
           (map debt_equivalent (debts_of p db @ debts_to p db) @ map tl_equivalent (lines_in p db @ lines_out p db))
      then Inl AttributeError
      else Inr (map balance_row (equivalents_map p db)))"

section \<open>The cache\<close>

text \<open>The ordered dictionary of summaries, the least recently used one first.\<close>

type_synonym summary_cache = "(uuid \<times> timestamp \<times> balance_equivalent list) list"

record balance_settings =
  summary_ttl :: int
  summary_max_entries :: int

definition move_to_end :: "'k \<Rightarrow> ('k \<times> 'v) list \<Rightarrow> ('k \<times> 'v) list" where
  "move_to_end k c = (case map_of c k of None \<Rightarrow> c | Some v \<Rightarrow> AList.delete k c @ [(k, v)])"

definition get_cached_summary ::
    "balance_settings \<Rightarrow> timestamp \<Rightarrow> uuid \<Rightarrow> summary_cache \<Rightarrow> balance_equivalent list option \<times> summary_cache" where
  "get_cached_summary cfg now p c =
     (if summary_ttl cfg \<le> 0 then (None, c)
      else (case map_of c p of None \<Rightarrow> (None, c)
        | Some (stored_at, s) \<Rightarrow>
            if summary_ttl cfg < now - stored_at then (None, AList.delete p c) else (Some s, move_to_end p c)))"

definition set_cached_summary ::
    "balance_settings \<Rightarrow> timestamp \<Rightarrow> uuid \<Rightarrow> balance_equivalent list \<Rightarrow> summary_cache \<Rightarrow> summary_cache" where
  "set_cached_summary cfg now p s c =
     (if summary_ttl cfg \<le> 0 then c
      else let c1 = move_to_end p (AList.update p (now, s) c);
               max_entries = (if summary_max_entries cfg = 0 then 1024 else summary_max_entries cfg)
        in if 0 < max_entries then drop (length c1 - nat max_entries) c1 else c1)"

definition get_summary ::
    "balance_settings \<Rightarrow> timestamp \<Rightarrow> uuid \<Rightarrow> db \<Rightarrow> summary_cache \<Rightarrow> (exc + balance_equivalent list) \<times> summary_cache" where
  "get_summary cfg now p db c = (case get_cached_summary cfg now p c of
      (Some s, c1) \<Rightarrow> (Inr s, c1)
    | (None, c1) \<Rightarrow> (case compute_summary p db of Inl x \<Rightarrow> (Inl x, c1)
        | Inr s \<Rightarrow> (Inr s, set_cached_summary cfg now p s c1)))"

section \<open>The debts in one equivalent\<close>

record debt_row =
  dr_pid :: pid
  dr_name :: string
  dr_equivalent :: string
  dr_amount :: amount

definition open_debts :: "(debt \<Rightarrow> uuid) \<Rightarrow> uuid \<Rightarrow> uuid \<Rightarrow> db \<Rightarrow> debt list" where
  "open_debts side p e db = filter (\<lambda>d. side d = p \<and> debt_equivalent d = e \<and> 0 < debt_amount d) (debts db)"

text \<open>The rows of one direction, \<open>peer\<close> being the other side of a debt.\<close>

definition debt_rows :: "(debt \<Rightarrow> uuid) \<Rightarrow> string \<Rightarrow> db \<Rightarrow> debt list \<Rightarrow> exc + debt_row list" where
  "debt_rows peer code db ds =
     (if list_ex (\<lambda>d. get_participant_by_id (peer d) db = None) ds then Inl AttributeError
      else Inr (List.map_filter (\<lambda>d. map_option (\<lambda>q. \<lparr>dr_pid = part_pid q, dr_name = part_display_name q, dr_equivalent = code,
         dr_amount = debt_amount d\<rparr>) (get_participant_by_id (peer d) db)) ds))"

definition get_debts :: "uuid \<Rightarrow> string \<Rightarrow> string \<Rightarrow> db \<Rightarrow> exc + debt_row list \<times> debt_row list" where
  "get_debts p code direction db = (case get_equivalent_by_code code db of None \<Rightarrow> Inl NotFound
     | Some q \<Rightarrow>
        (case (if direction \<in> {''outgoing'', ''all''} then debt_rows creditor_id code db (open_debts debtor_id p (equiv_id q) db) else Inr []) of
           Inl x \<Rightarrow> Inl x
         | Inr outgoing \<Rightarrow>
            (case (if direction \<in> {''incoming'', ''all''} then debt_rows debtor_id code db (open_debts creditor_id p (equiv_id q) db) else Inr []) of
               Inl x \<Rightarrow> Inl x
             | Inr incoming \<Rightarrow> Inr (outgoing, incoming))))"

end
