(* ===== verification/Accounts.thy ===== *)
theory Accounts
  imports Balance
begin

text \<open>
  \<^verbatim>\<open>ParticipantService\<close> (\<^verbatim>\<open>app/core/participants/service.py\<close>) and \<^verbatim>\<open>AuthService\<close>
  (\<^verbatim>\<open>app/core/auth/service.py\<close>) with the tokens of \<^verbatim>\<open>app/utils/security.py\<close>: registration, profiles, the
  list of participants, challenges, logins, and the refresh tokens with their revocation.
  Ed25519, the derivation of an identifier from a key, JWT and the random strings are parameters.
  The revoked identifiers are kept in memory; the Redis variant is not modelled.
\<close>

section \<open>State\<close>

record account =
  acc_id :: uuid
  acc_pid :: pid
  acc_display_name :: string
  acc_public_key :: string
  acc_type :: string
  acc_status :: string
  acc_verification_level :: int
  acc_profile :: "(string \<times> pyval) list option"
  acc_created_at :: timestamp

record challenge =
  ch_id :: uuid
  ch_pid :: pid
  ch_challenge :: string
  ch_expires_at :: timestamp
  ch_used :: bool

record auth_state =
  accounts :: "account list"
  challenges :: "challenge list"
  revoked_jti :: "(string \<times> int) list"
  auth_next_uuid :: uuid

text \<open>\<open>scalar_one_or_none\<close> on the rows a query selects.\<close>

definition one_or_none :: "'a list \<Rightarrow> exc + 'a option" where
  "one_or_none rows = (case rows of [] \<Rightarrow> Inr None | [r] \<Rightarrow> Inr (Some r) | _ \<Rightarrow> Inl MultipleResultsFound)"

definition account_by_pid :: "pid \<Rightarrow> auth_state \<Rightarrow> exc + account option" where
  "account_by_pid pid st = one_or_none (filter (\<lambda>a. acc_pid a = pid) (accounts st))"

section \<open>Registration and profiles\<close>

record register_request =
  rg_display_name :: string
  rg_type :: string
  rg_public_key :: string
  rg_signature :: string
  rg_profile :: "(string \<times> pyval) list option"

definition register_payload :: "register_request \<Rightarrow> (string \<times> pyval) list" where
  "register_payload req = [(''display_name'', VStr (rg_display_name req)), (''type'', VStr (rg_type req)),
     (''public_key'', VStr (rg_public_key req))] @ optional_item ''profile'' (map_option VDict (rg_profile req))"

text \<open>
  \<open>pid_of_key\<close> is \<^verbatim>\<open>get_pid_from_public_key\<close>, \<open>None\<close> when the key is invalid. \<open>competitor\<close> is what
  another session commits between the check and the insertion; then the unique columns decide.
\<close>

definition insert_account :: "account \<Rightarrow> auth_state \<Rightarrow> exc + auth_state" where
  "insert_account a st =
     (if list_ex (\<lambda>b. acc_pid b = acc_pid a \<or> acc_public_key b = acc_public_key a) (accounts st) then Inl Conflict
      else Inr (st\<lparr>accounts := accounts st @ [a], auth_next_uuid := auth_next_uuid st + 1\<rparr>))"

definition create_participant ::
    "(string \<Rightarrow> string \<Rightarrow> string \<Rightarrow> bool) \<Rightarrow> (string \<Rightarrow> pid option) \<Rightarrow> (auth_state \<Rightarrow> auth_state) \<Rightarrow> timestamp \<Rightarrow> register_request
      \<Rightarrow> auth_state \<Rightarrow> exc + account \<times> auth_state" where
  "create_participant verify pid_of_key competitor now req st =
     (case pid_of_key (rg_public_key req) of None \<Rightarrow> Inl BadRequest
      | Some pid \<Rightarrow>
        (case one_or_none (filter (\<lambda>a. acc_pid a = pid \<or> acc_public_key a = rg_public_key req) (accounts st)) of
           Inl x \<Rightarrow> Inl x
         | Inr (Some _) \<Rightarrow> Inl Conflict
         | Inr None \<Rightarrow>
             (case canonical_json (VDict (register_payload req)) of Inl x \<Rightarrow> Inl x
              | Inr message \<Rightarrow>
                  if \<not> verify (rg_public_key req) message (rg_signature req) then Inl InvalidSignature
                  else let st' = competitor st;
                           a = \<lparr>acc_id = auth_next_uuid st', acc_pid = pid, acc_display_name = rg_display_name req,
                                acc_public_key = rg_public_key req, acc_type = rg_type req, acc_status = ''active'',
                                acc_verification_level = 0, acc_profile = rg_profile req, acc_created_at = now\<rparr>
                       in (case insert_account a st' of Inl x \<Rightarrow> Inl x | Inr st'' \<Rightarrow> Inr (a, st'')))))"

record profile_request =
  pq_display_name :: "string option"
  pq_profile :: "(string \<times> pyval) list option"
  pq_signature :: string

definition profile_payload :: "profile_request \<Rightarrow> (string \<times> pyval) list" where
  "profile_payload req = optional_item ''display_name'' (map_option VStr (pq_display_name req))
     @ optional_item ''profile'' (map_option VDict (pq_profile req))"

text \<open>\<open>dict.update\<close>: a key that is present keeps its place.\<close>

definition dict_update :: "(string \<times> 'v) list \<Rightarrow> (string \<times> 'v) list \<Rightarrow> (string \<times> 'v) list" where
  "dict_update d new = fold (\<lambda>(k, v). AList.update k v) new d"

definition apply_profile :: "profile_request \<Rightarrow> account \<Rightarrow> account" where
  "apply_profile req a =
     (let b = (case pq_display_name req of None \<Rightarrow> a | Some n \<Rightarrow> a\<lparr>acc_display_name := n\<rparr>) in
      case pq_profile req of None \<Rightarrow> b
      | Some new \<Rightarrow> b\<lparr>acc_profile := Some (dict_update (case acc_profile a of None \<Rightarrow> [] | Some d \<Rightarrow> d) new)\<rparr>)"

definition update_participant ::
    "(string \<Rightarrow> string \<Rightarrow> string \<Rightarrow> bool) \<Rightarrow> uuid \<Rightarrow> profile_request \<Rightarrow> auth_state \<Rightarrow> exc + account \<times> auth_state" where
  "update_participant verify i req st = (case find (\<lambda>a. acc_id a = i) (accounts st) of None \<Rightarrow> Inl NotFound
     | Some a \<Rightarrow>
        if profile_payload req = [] then Inl BadRequest
        else if \<not> signature_ok verify (acc_public_key a) (profile_payload req) (pq_signature req) then Inl InvalidSignature
        else Inr (apply_profile req a, st\<lparr>accounts := upd_row acc_id i (apply_profile req) (accounts st)\<rparr>))"

section \<open>Reading participants\<close>

text \<open>
  \<open>quantize(Decimal("0.00"))\<close> rounds to cents, half to even; a result of more than 28 digits is
  trapped, and the value is shown as it is.
\<close>

definition round_cents :: "amount \<Rightarrow> amount" where
  "round_cents v = (let n = \<lfloor>v * 100\<rfloor>; f = v * 100 - of_int n in
     of_int (if f < 1 / 2 then n else if 1 / 2 < f then n + 1 else if even n then n else n + 1) / 100)"

definition fmt_amount :: "amount \<Rightarrow> amount" where
  "fmt_amount v = (let r = round_cents v in if \<bar>r\<bar> * 100 < 10 ^ 28 then r else v)"

definition trust_sum :: "(trust_line \<Rightarrow> uuid) \<Rightarrow> uuid \<Rightarrow> db \<Rightarrow> amount" where
  "trust_sum side i db = sql_sum (\<lambda>t. side t = i \<and> tl_status t = Active) tl_limit (trust_lines db)"

record public_participant =
  pp_account :: account
  pp_total_incoming_trust :: amount
  pp_member_since :: timestamp

definition get_participant :: "pid \<Rightarrow> db \<Rightarrow> auth_state \<Rightarrow> exc + public_participant" where
  "get_participant pid db st = (case account_by_pid pid st of Inl x \<Rightarrow> Inl x | Inr None \<Rightarrow> Inl NotFound
     | Inr (Some a) \<Rightarrow> Inr \<lparr>pp_account = a, pp_total_incoming_trust = fmt_amount (trust_sum tl_to (acc_id a) db),
         pp_member_since = acc_created_at a\<rparr>)"

record participant_stats =
  ps_total_incoming_trust :: amount
  ps_total_outgoing_trust :: amount
  ps_total_debt :: amount
  ps_total_credit :: amount
  ps_net_balance :: amount

definition get_participant_stats ::
    "balance_settings \<Rightarrow> timestamp \<Rightarrow> uuid \<Rightarrow> db \<Rightarrow> summary_cache \<Rightarrow> (exc + participant_stats) \<times> summary_cache" where
  "get_participant_stats cfg now i db c = (case get_summary cfg now i db c of (r, c') \<Rightarrow>
     (case r of Inl x \<Rightarrow> Inl x
      | Inr rows \<Rightarrow> let debt = (\<Sum>r\<leftarrow>rows. be_total_debt r); credit = (\<Sum>r\<leftarrow>rows. be_total_credit r) in
          Inr \<lparr>ps_total_incoming_trust = fmt_amount (trust_sum tl_to i db), ps_total_outgoing_trust = fmt_amount (trust_sum tl_from i db),
               ps_total_debt = fmt_amount debt, ps_total_credit = fmt_amount credit, ps_net_balance = fmt_amount (credit - debt)\<rparr>, c'))"

text \<open>\<open>LIKE\<close> with the wildcards \<open>%\<close> and \<open>_\<close>; in PostgreSQL a backslash quotes the next character.\<close>

fun sql_like :: "bool \<Rightarrow> string \<Rightarrow> string \<Rightarrow> bool" where
  "sql_like quoting [] s \<longleftrightarrow> s = []"
| "sql_like quoting (c # ps) s \<longleftrightarrow>
     (if c = CHR ''%'' then sql_like quoting ps s \<or> (case s of [] \<Rightarrow> False | _ # s' \<Rightarrow> sql_like quoting (c # ps) s')
      else if c = CHR ''_'' then (case s of [] \<Rightarrow> False | _ # s' \<Rightarrow> sql_like quoting ps s')
      else if quoting \<and> c = CHR 0x5C
      then (case ps of [] \<Rightarrow> False | q # ps' \<Rightarrow> (case s of [] \<Rightarrow> False | d # s' \<Rightarrow> d = q \<and> sql_like quoting ps' s'))
      else (case s of [] \<Rightarrow> False | d # s' \<Rightarrow> d = c \<and> sql_like quoting ps s'))"

definition ilike :: "bool \<Rightarrow> string \<Rightarrow> string \<Rightarrow> bool" where
  "ilike is_postgres pattern s = sql_like is_postgres (py_lower pattern) (py_lower s)"

definition list_participants ::
    "bool \<Rightarrow> string option \<Rightarrow> string option \<Rightarrow> nat \<Rightarrow> nat \<Rightarrow> auth_state \<Rightarrow> account list" where
  "list_participants is_postgres query type_filter row_limit row_offset st =
     page_rows (Some row_limit) (Some row_offset) (sort_key acc_id (filter (\<lambda>a.
       (case truthy query of None \<Rightarrow> True
        | Some q \<Rightarrow> let p = ''%'' @ q @ ''%'' in ilike is_postgres p (acc_display_name a) \<or> ilike is_postgres p (acc_pid a))
       \<and> (case truthy type_filter of None \<Rightarrow> True | Some t \<Rightarrow> acc_type a = t)) (accounts st)))"

section \<open>Tokens\<close>

text \<open>
  The claims of a decoded token. \<open>exp\<close>, \<open>sub\<close> and \<open>type\<close> are required; \<open>sub\<close> may be null. A \<open>jti\<close> that is
  missing and one that is no string are treated alike. Only strings are ever signed as \<open>sub\<close>.
\<close>

record claims =
  cl_exp :: int
  cl_sub :: "string option"
  cl_type :: string
  cl_jti :: "string option"

record auth_settings =
  access_minutes :: int
  refresh_days :: int
  challenge_expire_seconds :: int

definition revoke_jti :: "string \<Rightarrow> int \<Rightarrow> timestamp \<Rightarrow> (string \<times> int) list \<Rightarrow> (string \<times> int) list" where
  "revoke_jti jti exp_epoch now store =
     (if jti = [] then store else if exp_epoch \<noteq> 0 \<and> exp_epoch \<le> now then store else AList.update jti exp_epoch store)"

definition is_jti_revoked :: "string \<Rightarrow> timestamp \<Rightarrow> (string \<times> int) list \<Rightarrow> bool \<times> (string \<times> int) list" where
  "is_jti_revoked jti now store =
     (if jti = [] then (False, store)
      else (case map_of store jti of None \<Rightarrow> (False, store)
        | Some exp_epoch \<Rightarrow> if exp_epoch \<noteq> 0 \<and> exp_epoch \<le> now then (False, AList.delete jti store) else (True, store)))"

definition access_claims :: "auth_settings \<Rightarrow> timestamp \<Rightarrow> string \<Rightarrow> pid \<Rightarrow> claims" where
  "access_claims cfg now jti subject = \<lparr>cl_exp = now + access_minutes cfg * 60, cl_sub = Some subject, cl_type = ''access'', cl_jti = Some jti\<rparr>"

definition refresh_claims :: "auth_settings \<Rightarrow> timestamp \<Rightarrow> string \<Rightarrow> pid \<Rightarrow> claims" where
  "refresh_claims cfg now jti subject =
     \<lparr>cl_exp = now + refresh_days cfg * 86400, cl_sub = Some subject, cl_type = ''refresh'', cl_jti = Some jti\<rparr>"

text \<open>\<open>jwt_decode now token\<close> answers the claims of a valid token, \<open>None\<close> when PyJWT raises.\<close>

definition decode_token ::
    "(timestamp \<Rightarrow> string \<Rightarrow> claims option) \<Rightarrow> timestamp \<Rightarrow> string \<Rightarrow> string \<Rightarrow> auth_state \<Rightarrow> claims option \<times> auth_state" where
  "decode_token jwt_decode now token expected_type st = (case jwt_decode now token of None \<Rightarrow> (None, st)
     | Some cl \<Rightarrow>
        if cl_type cl \<noteq> expected_type then (None, st)
        else (case truthy (cl_jti cl) of None \<Rightarrow> (Some cl, st)
          | Some jti \<Rightarrow> (case is_jti_revoked jti now (revoked_jti st) of
              (True, store) \<Rightarrow> (None, st\<lparr>revoked_jti := store\<rparr>)
            | (False, store) \<Rightarrow> (Some cl, st\<lparr>revoked_jti := store\<rparr>))))"

section \<open>Challenges and logins\<close>

record token_pair =
  tp_access :: string
  tp_refresh :: string
  tp_expires_in :: int
  tp_pid :: pid
  tp_display_name :: string
  tp_status :: string

text \<open>The strings drawn at random: the identifiers of the two tokens.\<close>

definition issue_tokens ::
    "(claims \<Rightarrow> string) \<Rightarrow> auth_settings \<Rightarrow> timestamp \<Rightarrow> string \<times> string \<Rightarrow> pid \<Rightarrow> account \<Rightarrow> token_pair" where
  "issue_tokens jwt_encode cfg now jtis pid a =
     \<lparr>tp_access = jwt_encode (access_claims cfg now (fst jtis) pid), tp_refresh = jwt_encode (refresh_claims cfg now (snd jtis) pid),
      tp_expires_in = access_minutes cfg * 60, tp_pid = acc_pid a, tp_display_name = acc_display_name a, tp_status = acc_status a\<rparr>"

definition drop_expired :: "timestamp \<Rightarrow> auth_state \<Rightarrow> auth_state" where
  "drop_expired now st = st\<lparr>challenges := filter (\<lambda>c. now \<le> ch_expires_at c) (challenges st)\<rparr>"

definition create_challenge :: "auth_settings \<Rightarrow> timestamp \<Rightarrow> string \<Rightarrow> pid \<Rightarrow> auth_state \<Rightarrow> (exc + challenge) \<times> auth_state" where
  "create_challenge cfg now random pid st = (case account_by_pid pid st of Inl x \<Rightarrow> (Inl x, st) | Inr None \<Rightarrow> (Inl NotFound, st)
     | Inr (Some _) \<Rightarrow>
        let st1 = drop_expired now st;
            c = \<lparr>ch_id = auth_next_uuid st, ch_pid = pid, ch_challenge = random, ch_expires_at = now + challenge_expire_seconds cfg, ch_used = False\<rparr>
        in (Inr c, st1\<lparr>challenges := challenges st1 @ [c], auth_next_uuid := auth_next_uuid st + 1\<rparr>))"

definition login ::
    "(string \<Rightarrow> string \<Rightarrow> string \<Rightarrow> bool) \<Rightarrow> (claims \<Rightarrow> string) \<Rightarrow> auth_settings \<Rightarrow> timestamp \<Rightarrow> string \<times> string
      \<Rightarrow> pid \<Rightarrow> string \<Rightarrow> string \<Rightarrow> auth_state \<Rightarrow> (exc + token_pair) \<times> auth_state" where
  "login verify jwt_encode cfg now jtis pid text sig st =
     (case one_or_none (filter (\<lambda>c. ch_pid c = pid \<and> ch_challenge c = text \<and> \<not> ch_used c \<and> now < ch_expires_at c) (challenges st)) of
        Inl x \<Rightarrow> (Inl x, st)
      | Inr None \<Rightarrow> (Inl Unauthorized, st)
      | Inr (Some c) \<Rightarrow>
         (case account_by_pid pid st of Inl x \<Rightarrow> (Inl x, st) | Inr None \<Rightarrow> (Inl Unauthorized, st)
          | Inr (Some a) \<Rightarrow>
             if \<not> verify (acc_public_key a) (utf8 text) sig then (Inl Unauthorized, st)
             else (Inr (issue_tokens jwt_encode cfg now jtis pid a),
                   let st1 = drop_expired now st in
                   st1\<lparr>challenges := upd_row ch_id (ch_id c) (\<lambda>r. r\<lparr>ch_used := True\<rparr>) (challenges st1)\<rparr>)))"

section \<open>Refresh tokens\<close>

definition revoke_refresh_token ::
    "(timestamp \<Rightarrow> string \<Rightarrow> claims option) \<Rightarrow> timestamp \<Rightarrow> string \<Rightarrow> auth_state \<Rightarrow> (exc + unit) \<times> auth_state" where
  "revoke_refresh_token jwt_decode now token st = (case decode_token jwt_decode now token ''refresh'' st of
      (None, st1) \<Rightarrow> (Inl BadRequest, st1)
    | (Some cl, st1) \<Rightarrow> (case truthy (cl_jti cl) of None \<Rightarrow> (Inl BadRequest, st1)
        | Some jti \<Rightarrow> (Inr (), st1\<lparr>revoked_jti := revoke_jti jti (cl_exp cl) now (revoked_jti st1)\<rparr>)))"

text \<open>
  The two halves of a refresh: the token is checked, then the participant is read, and only after
  that, at a possibly later time, the identifier is revoked.
\<close>

definition refresh_check ::
    "(timestamp \<Rightarrow> string \<Rightarrow> claims option) \<Rightarrow> timestamp \<Rightarrow> string \<Rightarrow> auth_state \<Rightarrow> (exc + claims \<times> string \<times> pid \<times> account) \<times> auth_state" where
  "refresh_check jwt_decode now token st = (case decode_token jwt_decode now token ''refresh'' st of
      (None, st1) \<Rightarrow> (Inl Unauthorized, st1)
    | (Some cl, st1) \<Rightarrow>
       (case truthy (cl_jti cl) of None \<Rightarrow> (Inl Unauthorized, st1)
        | Some jti \<Rightarrow> (case truthy (cl_sub cl) of None \<Rightarrow> (Inl Unauthorized, st1)
          | Some pid \<Rightarrow> (case account_by_pid pid st1 of Inl x \<Rightarrow> (Inl x, st1) | Inr None \<Rightarrow> (Inl Unauthorized, st1)
            | Inr (Some a) \<Rightarrow> (Inr (cl, jti, pid, a), st1)))))"

definition refresh_finish ::
    "(claims \<Rightarrow> string) \<Rightarrow> auth_settings \<Rightarrow> timestamp \<Rightarrow> string \<times> string \<Rightarrow> claims \<times> string \<times> pid \<times> account \<Rightarrow> auth_state \<Rightarrow> token_pair \<times> auth_state" where
  "refresh_finish jwt_encode cfg now jtis checked st = (case checked of (cl, jti, pid, a) \<Rightarrow>
     (issue_tokens jwt_encode cfg now jtis pid a, st\<lparr>revoked_jti := revoke_jti jti (cl_exp cl) now (revoked_jti st)\<rparr>))"

definition refresh_tokens ::
    "(timestamp \<Rightarrow> string \<Rightarrow> claims option) \<Rightarrow> (claims \<Rightarrow> string) \<Rightarrow> auth_settings \<Rightarrow> timestamp \<Rightarrow> string \<times> string
      \<Rightarrow> string \<Rightarrow> auth_state \<Rightarrow> (exc + token_pair) \<times> auth_state" where
  "refresh_tokens jwt_decode jwt_encode cfg now jtis token st = (case refresh_check jwt_decode now token st of
      (Inl x, st1) \<Rightarrow> (Inl x, st1)
    | (Inr checked, st1) \<Rightarrow> (case refresh_finish jwt_encode cfg now jtis checked st1 of (pair, st2) \<Rightarrow> (Inr pair, st2)))"

section \<open>The caller of a request\<close>

definition get_current_participant ::
    "(timestamp \<Rightarrow> string \<Rightarrow> claims option) \<Rightarrow> timestamp \<Rightarrow> string \<Rightarrow> auth_state \<Rightarrow> (exc + account) \<times> auth_state" where
  "get_current_participant jwt_decode now token st = (case decode_token jwt_decode now token ''access'' st of
      (None, st1) \<Rightarrow> (Inl Unauthorized, st1)
    | (Some cl, st1) \<Rightarrow>
       (case (case cl_sub cl of None \<Rightarrow> Inr None | Some pid \<Rightarrow> account_by_pid pid st1) of
          Inl x \<Rightarrow> (Inl x, st1) | Inr None \<Rightarrow> (Inl Unauthorized, st1)
        | Inr (Some a) \<Rightarrow> if acc_status a \<noteq> ''active'' then (Inl Forbidden, st1) else (Inr a, st1)))"

end
