(* ===== verification/Account_Properties.thy ===== *)
theory Account_Properties
  imports Accounts "HOL-Library.Sublist"
begin

text \<open>
  Identities stay unique, a login challenge is good for one login, and a refresh token for one
  refresh, over any sequence of calls; two refreshes at the same time both succeed.
\<close>

section \<open>Revocation stores\<close>

text \<open>
  What the tokens rely on: a revoked identifier is found until its token has expired, whatever
  else is revoked or looked up in the meantime.
\<close>

locale revocation_store =
  fixes revoke :: "string \<Rightarrow> int \<Rightarrow> timestamp \<Rightarrow> 's \<Rightarrow> 's"
    and revoked :: "string \<Rightarrow> timestamp \<Rightarrow> 's \<Rightarrow> bool \<times> 's"
    and remembers :: "string \<Rightarrow> int \<Rightarrow> 's \<Rightarrow> bool"
  assumes revoke_remembers: "jti \<noteq> [] \<Longrightarrow> now < e \<Longrightarrow> remembers jti e (revoke jti e now s)"
    and revoke_keeps: "remembers jti e s \<Longrightarrow> (jti' = jti \<longrightarrow> e' = e) \<Longrightarrow> remembers jti e (revoke jti' e' now s)"
    and check_keeps: "remembers jti e s \<Longrightarrow> now < e \<Longrightarrow> remembers jti e (snd (revoked jti' now s))"
    and check_finds: "remembers jti e s \<Longrightarrow> now < e \<Longrightarrow> fst (revoked jti now s)"
begin

text \<open>The store as far as a client is concerned: the identifier is remembered, or its token has expired.\<close>

definition settled :: "string \<Rightarrow> int \<Rightarrow> timestamp \<Rightarrow> 's \<Rightarrow> bool" where
  "settled jti e now s \<longleftrightarrow> remembers jti e s \<or> e \<le> now"

lemma settled_revoke: "settled jti e now s \<Longrightarrow> (jti' = jti \<longrightarrow> e' = e) \<Longrightarrow> settled jti e now (revoke jti' e' now s)"
  using revoke_keeps by (auto simp: settled_def)

lemma settled_check: "settled jti e now s \<Longrightarrow> settled jti e now (snd (revoked jti' now s))"
  using check_keeps [of jti e s now jti'] by (auto simp: settled_def)

lemma settled_later: "settled jti e now s \<Longrightarrow> now \<le> now' \<Longrightarrow> settled jti e now' s"
  by (auto simp: settled_def)

lemma settled_found: "settled jti e now s \<Longrightarrow> now < e \<Longrightarrow> fst (revoked jti now s)"
  using check_finds by (auto simp: settled_def)

end

interpretation memory: revocation_store revoke_jti is_jti_revoked "\<lambda>jti e s. jti \<noteq> [] \<and> map_of s jti = Some e"
  by unfold_locales (auto simp: revoke_jti_def is_jti_revoked_def update_conv' delete_conv' split: option.splits)

section \<open>Sequences of calls\<close>

text \<open>
  One call of a service that returns, or time passing. Challenges are drawn outside of \<open>D\<close>; the
  parameters are the third-party functions and the settings.
\<close>

record auth_parameters =
  ap_verify :: "string \<Rightarrow> string \<Rightarrow> string \<Rightarrow> bool"
  ap_pid_of_key :: "string \<Rightarrow> pid option"
  ap_encode :: "claims \<Rightarrow> string"
  ap_decode :: "timestamp \<Rightarrow> string \<Rightarrow> claims option"
  ap_settings :: auth_settings

inductive auth_step :: "auth_parameters \<Rightarrow> string set \<Rightarrow> timestamp \<times> auth_state \<Rightarrow> timestamp \<times> auth_state \<Rightarrow> bool" for P D where
  time: "now \<le> now' \<Longrightarrow> auth_step P D (now, st) (now', st)"
| register: "create_participant (ap_verify P) (ap_pid_of_key P) id now req st = Inr (a, st') \<Longrightarrow> auth_step P D (now, st) (now, st')"
| profile: "update_participant (ap_verify P) i req st = Inr (a, st') \<Longrightarrow> auth_step P D (now, st) (now, st')"
| challenge: "create_challenge (ap_settings P) now random pid st = (r, st') \<Longrightarrow> random \<notin> D \<Longrightarrow> auth_step P D (now, st) (now, st')"
| login: "login (ap_verify P) (ap_encode P) (ap_settings P) now jtis pid text sig st = (r, st') \<Longrightarrow> auth_step P D (now, st) (now, st')"
| refresh_first: "refresh_check (ap_decode P) now token st = (r, st') \<Longrightarrow> auth_step P D (now, st) (now, st')"
| refresh_second: "ap_decode P now0 token = Some cl \<Longrightarrow> truthy (cl_jti cl) = Some jti
    \<Longrightarrow> refresh_finish (ap_encode P) (ap_settings P) now jtis (cl, jti, pid, a) st = (pair, st') \<Longrightarrow> auth_step P D (now, st) (now, st')"
| revoke: "revoke_refresh_token (ap_decode P) now token st = (u, st') \<Longrightarrow> auth_step P D (now, st) (now, st')"
| request: "get_current_participant (ap_decode P) now token st = (c, st') \<Longrightarrow> auth_step P D (now, st) (now, st')"

text \<open>What a call does to the challenges and to the revoked identifiers.\<close>

lemma decode_token_frame:
  "challenges (snd (decode_token d now token ty st)) = challenges st" "accounts (snd (decode_token d now token ty st)) = accounts st"
  by (auto simp: decode_token_def split: option.splits prod.splits bool.splits)

lemma decode_token_store:
  "revoked_jti (snd (decode_token d now token ty st)) = revoked_jti st
    \<or> (\<exists>j. revoked_jti (snd (decode_token d now token ty st)) = snd (is_jti_revoked j now (revoked_jti st)))"
proof -
  have "\<exists>j'. x = snd (is_jti_revoked j' now (revoked_jti st))" if "is_jti_revoked j now (revoked_jti st) = (b, x)" for j b x
    using that by (metis snd_conv)
  then show ?thesis by (auto simp: decode_token_def split: option.splits prod.splits bool.splits)
qed

lemma refresh_check_frame:
  "challenges (snd (refresh_check d now token st)) = challenges st"
  "revoked_jti (snd (refresh_check d now token st)) = revoked_jti (snd (decode_token d now token ''refresh'' st))"
  using decode_token_frame(1) [of d now token "''refresh''" st]
  by (auto simp: refresh_check_def split: option.splits prod.splits sum.splits)

lemma request_frame:
  "challenges (snd (get_current_participant d now token st)) = challenges st"
  "revoked_jti (snd (get_current_participant d now token st)) = revoked_jti (snd (decode_token d now token ''access'' st))"
  using decode_token_frame(1) [of d now token "''access''" st]
  by (auto simp: get_current_participant_def split: option.splits prod.splits sum.splits)

section \<open>Challenges\<close>

text \<open>No unused challenge with this text is open for the participant.\<close>

definition spent :: "pid \<Rightarrow> string \<Rightarrow> timestamp \<times> auth_state \<Rightarrow> bool" where
  "spent pid text s \<longleftrightarrow> (\<forall>c \<in> set (challenges (snd s)). ch_pid c = pid \<and> ch_challenge c = text \<longrightarrow> ch_used c \<or> ch_expires_at c \<le> fst s)"

lemma login_effect:
  "challenges (snd (login v enc cfg now jtis pid text sig st)) \<in> {challenges st} \<union>
     (\<lambda>i. upd_row ch_id i (\<lambda>r. r\<lparr>ch_used := True\<rparr>) (filter (\<lambda>c. now \<le> ch_expires_at c) (challenges st))) ` UNIV"
  by (auto simp: login_def drop_expired_def Let_def split: sum.splits option.splits)

lemma spent_step:
  assumes "auth_step P {text} s s'" and "spent pid text s"
  shows "spent pid text s'"
  using assms(1)
proof cases
  case (time now now' st)
  then show ?thesis using assms(2) by (auto simp: spent_def)
next
  case (challenge now random pid' st r st')
  then show ?thesis
    using assms(2) by (auto simp: spent_def create_challenge_def drop_expired_def Let_def split: sum.splits option.splits)
next
  case (login now jtis pid' text' sig st r st')
  then show ?thesis
    using assms(2) login_effect [of "ap_verify P" "ap_encode P" "ap_settings P" now jtis pid' text' sig st]
    by (auto simp: spent_def set_upd_row)
next
  case (register now req st a st')
  then show ?thesis
    using assms(2) by (auto simp: spent_def create_participant_def insert_account_def Let_def split: option.splits sum.splits if_splits)
next
  case (profile i req st a st' now)
  then show ?thesis using assms(2) by (auto simp: spent_def update_participant_def split: option.splits if_splits)
next
  case (refresh_first now token st r st')
  then show ?thesis using assms(2) refresh_check_frame(1) [of "ap_decode P" now token st] by (simp add: spent_def)
next
  case (refresh_second now0 token cl jti now jtis pid' a st pair st')
  then show ?thesis using assms(2) by (auto simp: spent_def refresh_finish_def)
next
  case (revoke now token st u st')
  then show ?thesis
    using assms(2) decode_token_frame(1) [of "ap_decode P" now token "''refresh''" st]
    by (auto simp: spent_def revoke_refresh_token_def split: option.splits prod.splits)
next
  case (request now token st c st')
  then show ?thesis using assms(2) request_frame(1) [of "ap_decode P" now token st] by (simp add: spent_def)
qed

lemma spent_steps:
  assumes "(auth_step P {text})\<^sup>*\<^sup>* s s'" and "spent pid text s"
  shows "spent pid text s'"
  using assms by (induction rule: rtranclp_induct) (auto intro: spent_step)

lemma spent_login:
  assumes "spent pid text (now, st)"
  shows "login v enc cfg now jtis pid text sig st = (Inl Unauthorized, st)"
proof -
  have "filter (\<lambda>c. ch_pid c = pid \<and> ch_challenge c = text \<and> \<not> ch_used c \<and> now < ch_expires_at c) (challenges st) = []"
    using assms by (auto simp: spent_def filter_empty_conv)
  then show ?thesis by (simp add: login_def one_or_none_def)
qed

lemma one_or_none_Some: "one_or_none rows = Inr (Some r) \<longleftrightarrow> rows = [r]"
  by (auto simp: one_or_none_def split: list.splits)

lemma login_spends:
  assumes "login v enc cfg now jtis pid text sig st = (Inr pair, st')"
  shows "spent pid text (now, st')"
    and "\<exists>a \<in> set (accounts st). acc_pid a = pid \<and> v (acc_public_key a) (utf8 text) sig \<and> tp_pid pair = pid"
    and "\<exists>c \<in> set (challenges st). ch_pid c = pid \<and> ch_challenge c = text \<and> \<not> ch_used c \<and> now < ch_expires_at c"
proof -
  let ?open = "\<lambda>c. ch_pid c = pid \<and> ch_challenge c = text \<and> \<not> ch_used c \<and> now < ch_expires_at c"
  obtain c a where c: "filter ?open (challenges st) = [c]" and a: "filter (\<lambda>a. acc_pid a = pid) (accounts st) = [a]"
    and v: "v (acc_public_key a) (utf8 text) sig" and pair: "pair = issue_tokens enc cfg now jtis pid a"
    and st': "st' = (let st1 = drop_expired now st in st1\<lparr>challenges := upd_row ch_id (ch_id c) (\<lambda>r. r\<lparr>ch_used := True\<rparr>) (challenges st1)\<rparr>)"
    using assms by (auto simp: login_def account_by_pid_def one_or_none_Some split: sum.splits option.splits if_splits)
  have mem: "{x \<in> set (challenges st). ?open x} = {c}" "{x \<in> set (accounts st). acc_pid x = pid} = {a}"
    using arg_cong [OF c, of set] arg_cong [OF a, of set] by auto
  then show "\<exists>a \<in> set (accounts st). acc_pid a = pid \<and> v (acc_public_key a) (utf8 text) sig \<and> tp_pid pair = pid"
    and "\<exists>c \<in> set (challenges st). ?open c"
    using v pair by (auto simp: issue_tokens_def)
  show "spent pid text (now, st')"
    using mem(1) by (auto simp: spent_def st' Let_def drop_expired_def set_upd_row)
qed

text \<open>
  C37. A login proves possession of the key, once. If a login succeeds, then the challenge was open
  for this participant and the signature over it is valid under the participant's registered key;
  and whatever calls follow, of any kind and by anyone, as long as the same random text is not drawn
  again, the challenge never logs anyone in again: every later login with it is unauthorized and
  changes nothing.
\<close>

theorem challenge_is_good_for_one_login:
  assumes "login (ap_verify P) (ap_encode P) (ap_settings P) now jtis pid text sig st = (Inr pair, st')"
    and "(auth_step P {text})\<^sup>*\<^sup>* (now, st') (now2, st2)"
  shows "(\<exists>a \<in> set (accounts st). acc_pid a = pid \<and> ap_verify P (acc_public_key a) (utf8 text) sig \<and> tp_pid pair = pid)
    \<and> (\<exists>c \<in> set (challenges st). ch_pid c = pid \<and> ch_challenge c = text \<and> \<not> ch_used c \<and> now < ch_expires_at c)
    \<and> login (ap_verify P) (ap_encode P) (ap_settings P) now2 jtis2 pid text sig2 st2 = (Inl Unauthorized, st2)"
  using login_spends [OF assms(1)] spent_login [OF spent_steps [OF assms(2)]] by blast

definition sample_account :: account where
  "sample_account = \<lparr>acc_id = 5, acc_pid = ''A'', acc_display_name = ''Ann'', acc_public_key = ''k'', acc_type = ''person'',
     acc_status = ''active'', acc_verification_level = 0, acc_profile = None, acc_created_at = 0\<rparr>"

definition sample_auth :: auth_state where
  "sample_auth = \<lparr>accounts = [sample_account], challenges = [\<lparr>ch_id = 1, ch_pid = ''A'', ch_challenge = ''c'', ch_expires_at = 1300, ch_used = False\<rparr>],
     revoked_jti = [], auth_next_uuid = 10\<rparr>"

text \<open>A scheme whose tokens carry their claims: the identifier names the claims of the two tokens issued.\<close>

definition sample_encode :: "claims \<Rightarrow> string" where
  "sample_encode cl = cl_type cl @ ''.'' @ (case cl_jti cl of None \<Rightarrow> [] | Some j \<Rightarrow> j)"

definition sample_refresh :: "string \<Rightarrow> claims" where
  "sample_refresh jti = \<lparr>cl_exp = 1000 + 14 * 86400, cl_sub = Some ''A'', cl_type = ''refresh'', cl_jti = Some jti\<rparr>"

definition sample_decode :: "timestamp \<Rightarrow> string \<Rightarrow> claims option" where
  "sample_decode now token = (if take 8 token = ''refresh.'' \<and> now < 1000 + 14 * 86400 then Some (sample_refresh (drop 8 token)) else None)"

definition sample_parameters :: auth_parameters where
  "sample_parameters = \<lparr>ap_verify = (\<lambda>k m s. s = k @ m), ap_pid_of_key = (\<lambda>k. Some k), ap_encode = sample_encode, ap_decode = sample_decode,
     ap_settings = \<lparr>access_minutes = 60, refresh_days = 14, challenge_expire_seconds = 300\<rparr>\<rparr>"

lemma sample_login:
  "\<exists>pair st'. login (ap_verify sample_parameters) (ap_encode sample_parameters) (ap_settings sample_parameters) 1000 (''a'', ''b'') ''A'' ''c'' ''kc'' sample_auth
      = (Inr pair, st')"
  by (simp add: login_def sample_auth_def sample_parameters_def one_or_none_def account_by_pid_def sample_account_def utf8_def utf8_char_def)

theorem challenge_is_good_for_one_login_witness:
  "\<exists>pair st'. login (ap_verify sample_parameters) (ap_encode sample_parameters) (ap_settings sample_parameters) 1000 (''a'', ''b'') ''A'' ''c'' ''kc'' sample_auth
      = (Inr pair, st')
    \<and> login (ap_verify sample_parameters) (ap_encode sample_parameters) (ap_settings sample_parameters) 1010 (''d'', ''e'') ''A'' ''c'' ''kc'' st'
      = (Inl Unauthorized, st')"
proof -
  obtain pair st' where one: "login (ap_verify sample_parameters) (ap_encode sample_parameters) (ap_settings sample_parameters) 1000 (''a'', ''b'') ''A'' ''c'' ''kc'' sample_auth
      = (Inr pair, st')" using sample_login by blast
  have "(auth_step sample_parameters {''c''})\<^sup>*\<^sup>* (1000, st') (1010, st')" by (intro r_into_rtranclp auth_step.time) simp
  from challenge_is_good_for_one_login [OF one this, of "(''d'', ''e'')" "''kc''"] one show ?thesis by blast
qed

section \<open>Refresh tokens\<close>

text \<open>
  What the code relies on of PyJWT and of random identifiers: an expired token does not decode, a
  token always decodes to the same claims, and two tokens with one identifier expire at the same time.
\<close>

definition jwt_sound :: "(timestamp \<Rightarrow> string \<Rightarrow> claims option) \<Rightarrow> bool" where
  "jwt_sound d \<longleftrightarrow> (\<forall>now token cl. d now token = Some cl \<longrightarrow> now < cl_exp cl)
     \<and> (\<forall>now now' token cl cl'. d now token = Some cl \<longrightarrow> d now' token = Some cl' \<longrightarrow> cl' = cl)
     \<and> (\<forall>now now' token token' cl cl'. d now token = Some cl \<longrightarrow> d now' token' = Some cl' \<longrightarrow> cl_jti cl = cl_jti cl' \<longrightarrow> cl_exp cl = cl_exp cl')"

lemma jwt_soundD:
  assumes "jwt_sound d"
  shows "d now token = Some cl \<Longrightarrow> now < cl_exp cl" and "d now token = Some cl \<Longrightarrow> d now' token = Some cl' \<Longrightarrow> cl' = cl"
    and "d now token = Some cl \<Longrightarrow> d now' token' = Some cl' \<Longrightarrow> cl_jti cl = cl_jti cl' \<Longrightarrow> cl_exp cl = cl_exp cl'"
  using assms unfolding jwt_sound_def by blast+

lemma truthy_Some: "truthy v = Some s \<longleftrightarrow> v = Some s \<and> s \<noteq> []"
  by (auto simp: truthy_def split: option.splits)

lemma decode_token_Some:
  assumes "decode_token d now token ty st = (Some cl, st')"
  shows "d now token = Some cl" and "cl_type cl = ty" and "truthy (cl_jti cl) = Some jti \<Longrightarrow> \<not> fst (is_jti_revoked jti now (revoked_jti st))"
  using assms by (auto simp: decode_token_def split: option.splits prod.splits bool.splits if_splits)

text \<open>The token's identifier is remembered as revoked, or the token has expired.\<close>

abbreviation retired :: "string \<Rightarrow> int \<Rightarrow> timestamp \<times> auth_state \<Rightarrow> bool" where
  "retired jti e s \<equiv> memory.settled jti e (fst s) (revoked_jti (snd s))"

lemma retired_decode: "retired jti e (now, st) \<Longrightarrow> memory.settled jti e now (revoked_jti (snd (decode_token d now token ty st)))"
  using decode_token_store [of d now token ty st] by (auto simp: memory.settled_check)

lemma retired_step:
  assumes "auth_step P D s s'" and "retired jti e s" and "jwt_sound (ap_decode P)"
    and known: "ap_decode P t0 token0 = Some cl0" "cl_jti cl0 = Some jti" "cl_exp cl0 = e"
  shows "retired jti e s'"
proof -
  have same: "j = jti \<longrightarrow> cl_exp cl = e" if "ap_decode P t token = Some cl" "truthy (cl_jti cl) = Some j" for t token cl j
    using jwt_soundD(3) [OF assms(3) that(1) known(1)] that(2) known(2,3) by (auto simp: truthy_Some)
  show ?thesis
    using assms(1)
  proof cases
    case (time now now' st)
    then show ?thesis using assms(2) memory.settled_later by auto
  next
    case (challenge now random pid st r st')
    then have "revoked_jti st' = revoked_jti st"
      by (auto simp: create_challenge_def drop_expired_def Let_def split: sum.splits option.splits)
    then show ?thesis using challenge assms(2) by simp
  next
    case (login now jtis pid message sig st r st')
    then have "revoked_jti st' = revoked_jti st" by (auto simp: login_def drop_expired_def Let_def split: sum.splits option.splits if_splits)
    then show ?thesis using login assms(2) by simp
  next
    case (register now req st a st')
    then have "revoked_jti st' = revoked_jti st"
      by (auto simp: create_participant_def insert_account_def Let_def split: option.splits sum.splits if_splits)
    then show ?thesis using register assms(2) by simp
  next
    case (profile i req st a st' now)
    then have "revoked_jti st' = revoked_jti st" by (auto simp: update_participant_def split: option.splits if_splits)
    then show ?thesis using profile assms(2) by simp
  next
    case (refresh_first now token st r st')
    then show ?thesis
      using assms(2) refresh_check_frame(2) [of "ap_decode P" now token st] retired_decode [of jti e now st "ap_decode P" token "''refresh''"] by simp
  next
    case (refresh_second now0 token cl j now jtis pid a st pair st')
    then show ?thesis using assms(2) same [OF refresh_second(3,4)] by (auto simp: refresh_finish_def intro: memory.settled_revoke)
  next
    case (revoke now token st u st')
    obtain cl st1 where dec: "decode_token (ap_decode P) now token ''refresh'' st = (cl, st1)" by fastforce
    have kept: "memory.settled jti e now (revoked_jti st1)"
      using retired_decode [of jti e now st "ap_decode P" token "''refresh''"] assms(2) revoke(1) dec by simp
    have "memory.settled jti e now (revoke_jti j (cl_exp c) now (revoked_jti st1))" if "cl = Some c" "truthy (cl_jti c) = Some j" for c j
      using memory.settled_revoke [OF kept] same [OF decode_token_Some(1) that(2)] dec that(1) by auto
    then show ?thesis using revoke dec kept by (auto simp: revoke_refresh_token_def split: option.splits)
  next
    case (request now token st c st')
    then show ?thesis
      using assms(2) request_frame(2) [of "ap_decode P" now token st] retired_decode [of jti e now st "ap_decode P" token "''access''"] by simp
  qed
qed

lemma retired_steps:
  assumes "(auth_step P D)\<^sup>*\<^sup>* s s'" and "retired jti e s" and "jwt_sound (ap_decode P)"
    and "ap_decode P t0 token0 = Some cl0" "cl_jti cl0 = Some jti" "cl_exp cl0 = e"
  shows "retired jti e s'"
  using assms by (induction rule: rtranclp_induct) (auto intro: retired_step)

lemma retired_refused:
  assumes "retired jti e (now, st)" and "jwt_sound d" and "d t0 token = Some cl0" "cl_jti cl0 = Some jti" "cl_exp cl0 = e" "jti \<noteq> []"
  shows "fst (refresh_check d now token st) = Inl Unauthorized"
proof -
  have "fst (decode_token d now token ''refresh'' st) = None"
  proof (rule ccontr)
    assume "fst (decode_token d now token ''refresh'' st) \<noteq> None"
    then obtain cl st' where dec: "decode_token d now token ''refresh'' st = (Some cl, st')" by (metis not_None_eq prod.collapse)
    have cl: "cl = cl0" using jwt_soundD(2) [OF assms(2) assms(3) decode_token_Some(1) [OF dec]] .
    have "now < e" using jwt_soundD(1) [OF assms(2) decode_token_Some(1) [OF dec]] cl assms(5) by simp
    have "\<not> fst (is_jti_revoked jti now (revoked_jti st))" using decode_token_Some(3) [OF dec, of jti] cl assms(4,6) by (simp add: truthy_Some)
    then show False using memory.settled_found [of jti e now "revoked_jti st"] assms(1) \<open>now < e\<close> by simp
  qed
  then show ?thesis by (cases "decode_token d now token ''refresh'' st") (auto simp: refresh_check_def)
qed

lemma refresh_check_Inr:
  assumes "refresh_check d now token st = (Inr checked, st')"
  obtains cl jti pid a where "checked = (cl, jti, pid, a)" and "d now token = Some cl" and "cl_type cl = ''refresh''" and "cl_jti cl = Some jti"
    and "jti \<noteq> []" and "cl_sub cl = Some pid" and "pid \<noteq> []" and "account_by_pid pid st = Inr (Some a)"
    and "\<not> fst (is_jti_revoked jti now (revoked_jti st))"
proof -
  obtain c st1 where dec: "decode_token d now token ''refresh'' st = (c, st1)" by fastforce
  then have acc: "accounts st1 = accounts st" using decode_token_frame(2) [of d now token "''refresh''" st] by simp
  show ?thesis
    using assms dec acc decode_token_Some [of d now token "''refresh''" st _ st1]
    by (auto simp: refresh_check_def truthy_Some account_by_pid_def split: option.splits sum.splits intro: that)
qed

text \<open>
  C38. A refresh token is good for one refresh. Once a refresh with a token has succeeded, every
  later refresh with it is unauthorized, whatever calls come in between, up to and after the expiry
  of the token, provided that PyJWT rejects expired tokens and that identifiers are not reused.
\<close>

theorem refresh_token_is_good_for_one_refresh:
  assumes "jwt_sound (ap_decode P)"
    and "refresh_tokens (ap_decode P) (ap_encode P) (ap_settings P) now jtis token st = (Inr pair, st')"
    and "(auth_step P D)\<^sup>*\<^sup>* (now, st') (now2, st2)"
  shows "fst (refresh_tokens (ap_decode P) (ap_encode P) (ap_settings P) now2 jtis2 token st2) = Inl Unauthorized"
proof -
  obtain checked st1 where check: "refresh_check (ap_decode P) now token st = (Inr checked, st1)"
    and st': "refresh_finish (ap_encode P) (ap_settings P) now jtis checked st1 = (pair, st')"
    using assms(2) by (auto simp: refresh_tokens_def split: prod.splits sum.splits)
  from check obtain cl jti pid a where c: "checked = (cl, jti, pid, a)" "ap_decode P now token = Some cl" "cl_jti cl = Some jti" "jti \<noteq> []"
    by (rule refresh_check_Inr)
  have "retired jti (cl_exp cl) (now, st')"
    using st' c memory.revoke_remembers [OF c(4) jwt_soundD(1) [OF assms(1) c(2)], of "revoked_jti st1"]
    by (auto simp: refresh_finish_def memory.settled_def)
  then have "retired jti (cl_exp cl) (now2, st2)" using retired_steps [OF assms(3) _ assms(1) c(2,3) refl] by blast
  then have "fst (refresh_check (ap_decode P) now2 token st2) = Inl Unauthorized"
    using retired_refused [OF _ assms(1) c(2,3) refl c(4)] by blast
  then show ?thesis by (auto simp: refresh_tokens_def split: prod.splits sum.splits)
qed

lemma sample_jwt_sound: "jwt_sound (ap_decode sample_parameters)"
  by (auto simp: jwt_sound_def sample_parameters_def sample_decode_def sample_refresh_def split: if_splits)

lemma sample_refresh_check:
  "refresh_check (ap_decode sample_parameters) 1000 ''refresh.r'' sample_auth = (Inr (sample_refresh ''r'', ''r'', ''A'', sample_account), sample_auth)"
  by (simp add: refresh_check_def decode_token_def sample_parameters_def sample_decode_def sample_refresh_def truthy_def is_jti_revoked_def
      sample_auth_def account_by_pid_def one_or_none_def sample_account_def)

theorem refresh_token_is_good_for_one_refresh_witness:
  "\<exists>pair st'. refresh_tokens (ap_decode sample_parameters) (ap_encode sample_parameters) (ap_settings sample_parameters) 1000 (''a'', ''b'') ''refresh.r'' sample_auth = (Inr pair, st')
    \<and> fst (refresh_tokens (ap_decode sample_parameters) (ap_encode sample_parameters) (ap_settings sample_parameters) 1010 (''d'', ''e'') ''refresh.r'' st') = Inl Unauthorized"
proof -
  obtain pair st' where one: "refresh_tokens (ap_decode sample_parameters) (ap_encode sample_parameters) (ap_settings sample_parameters) 1000 (''a'', ''b'') ''refresh.r'' sample_auth = (Inr pair, st')"
    by (simp add: refresh_tokens_def sample_refresh_check refresh_finish_def)
  have "(auth_step sample_parameters {})\<^sup>*\<^sup>* (1000, st') (1010, st')" by (intro r_into_rtranclp auth_step.time) simp
  from refresh_token_is_good_for_one_refresh [OF sample_jwt_sound one this, of "(''d'', ''e'')"] one show ?thesis by blast
qed

definition sample_registry :: auth_state where
  "sample_registry = \<lparr>accounts = [sample_account\<lparr>acc_public_key := ''A''\<rparr>], challenges = [], revoked_jti = [], auth_next_uuid = 10\<rparr>"

definition sample_registration :: "string \<Rightarrow> register_request" where
  "sample_registration sig = \<lparr>rg_display_name = ''Bob'', rg_type = ''person'', rg_public_key = ''b'', rg_signature = sig, rg_profile = None\<rparr>"

lemma sample_registered:
  "\<exists>sig a st2. create_participant (ap_verify sample_parameters) (ap_pid_of_key sample_parameters) id 1000 (sample_registration sig) sample_registry = Inr (a, st2)
    \<and> length (accounts st2) = 2 \<and> acc_public_key a = ''b'' \<and> a \<in> set (accounts st2)"
proof -
  obtain m where m: "canonical_json (VDict (register_payload (sample_registration []))) = Inr m"
    using canonical_json_total [of "VDict (register_payload (sample_registration []))"]
    by (auto simp: register_payload_def sample_registration_def optional_item_def)
  have "register_payload (sample_registration (''b'' @ m)) = register_payload (sample_registration [])"
    by (simp add: register_payload_def sample_registration_def)
  with m show ?thesis
    by (intro exI [of _ "''b'' @ m"]) (simp add: create_participant_def sample_registry_def sample_account_def sample_parameters_def
        one_or_none_def insert_account_def Let_def, simp add: sample_registration_def)
qed

section \<open>Identities\<close>

text \<open>Identifiers and keys are unique, and the identifier is the one derived from the key.\<close>

definition identity :: "account \<Rightarrow> pid \<times> string" where
  "identity a = (acc_pid a, acc_public_key a)"

definition identities :: "(string \<Rightarrow> pid option) \<Rightarrow> auth_state \<Rightarrow> bool" where
  "identities pid_of_key st \<longleftrightarrow> distinct (map acc_pid (accounts st)) \<and> distinct (map acc_public_key (accounts st))
     \<and> (\<forall>a \<in> set (accounts st). pid_of_key (acc_public_key a) = Some (acc_pid a))"

lemma identity_apply_profile [simp]: "identity (apply_profile req a) = identity a"
  by (simp add: identity_def apply_profile_def Let_def split: option.splits)

lemma identities_map: "identities k st \<longleftrightarrow> (let ids = map identity (accounts st) in
    distinct (map fst ids) \<and> distinct (map snd ids) \<and> (\<forall>(p, key) \<in> set ids. k key = Some p))"
  by (auto simp: identities_def identity_def Let_def comp_def)

lemma identities_cong:
  assumes "map identity (accounts st') = map identity (accounts st)"
  shows "identities k st' \<longleftrightarrow> identities k st"
  by (simp add: identities_map assms)

lemma register_identities:
  assumes "create_participant v k id now req st = Inr (a, st')"
  shows "accounts st' = accounts st @ [a]" and "k (acc_public_key a) = Some (acc_pid a)"
    and "acc_pid a \<notin> acc_pid ` set (accounts st)" and "acc_public_key a \<notin> acc_public_key ` set (accounts st)"
  using assms by (auto simp: create_participant_def insert_account_def Let_def list_ex_iff split: option.splits sum.splits if_splits)

lemma step_identities:
  assumes "auth_step P D s s'"
  obtains (same) "map identity (accounts (snd s')) = map identity (accounts (snd s))"
    | (new) a where "accounts (snd s') = accounts (snd s) @ [a]" "ap_pid_of_key P (acc_public_key a) = Some (acc_pid a)"
      "acc_pid a \<notin> acc_pid ` set (accounts (snd s))" "acc_public_key a \<notin> acc_public_key ` set (accounts (snd s))"
  using assms
proof cases
  case (register now req st a st')
  then show ?thesis using register_identities [OF register(3)] new by simp
next
  case (profile i req st a st' now)
  then show ?thesis
    by (intro same) (auto simp: update_participant_def map_upd_row split: option.splits if_splits)
next
  case (refresh_first now token st r st')
  then show ?thesis
    using decode_token_frame(2) [of "ap_decode P" now token "''refresh''" st]
    by (intro same) (auto simp: refresh_check_def split: option.splits prod.splits sum.splits)
next
  case (revoke now token st u st')
  then show ?thesis
    using decode_token_frame(2) [of "ap_decode P" now token "''refresh''" st]
    by (intro same) (auto simp: revoke_refresh_token_def split: option.splits prod.splits)
next
  case (request now token st c st')
  then show ?thesis
    using decode_token_frame(2) [of "ap_decode P" now token "''access''" st]
    by (intro same) (auto simp: get_current_participant_def split: option.splits prod.splits sum.splits if_splits)
qed (auto intro!: same simp: create_challenge_def login_def refresh_finish_def drop_expired_def Let_def split: sum.splits option.splits if_splits)

lemma steps_identities:
  assumes "(auth_step P D)\<^sup>*\<^sup>* s s'" and "identities (ap_pid_of_key P) (snd s)"
  shows "identities (ap_pid_of_key P) (snd s') \<and> prefix (map identity (accounts (snd s))) (map identity (accounts (snd s')))"
  using assms
proof (induction rule: rtranclp_induct)
  case (step y z)
  from step.hyps(2) show ?case
  proof (cases rule: step_identities)
    case same
    then show ?thesis using step.IH step.prems identities_cong [OF same] by simp
  next
    case (new a)
    then show ?thesis using step.IH step.prems by (auto simp: identities_def intro: prefix_prefix)
  qed
qed simp

lemma identities_account_by_pid:
  assumes "identities k st"
  shows "account_by_pid pid st = Inr (find (\<lambda>a. acc_pid a = pid) (accounts st))"
proof (cases "find (\<lambda>a. acc_pid a = pid) (accounts st)")
  case None
  then have "filter (\<lambda>a. acc_pid a = pid) (accounts st) = []" by (auto simp: find_None_iff filter_empty_conv)
  then show ?thesis using None by (simp add: account_by_pid_def one_or_none_def)
next
  case (Some a)
  then have "a \<in> set (accounts st)" "acc_pid a = pid" by (auto simp: find_Some_iff)
  then show ?thesis
    using distinct_filter_key [of acc_pid "accounts st" a] assms Some by (simp add: account_by_pid_def one_or_none_def identities_def)
qed

lemma register_known_key:
  assumes "identities k st" and "a \<in> set (accounts st)" and "rg_public_key req = acc_public_key a"
  shows "create_participant v k competitor now req st = Inl Conflict"
proof -
  have "filter (\<lambda>b. acc_pid b = acc_pid a \<or> acc_public_key b = acc_public_key a) (accounts st) = filter (\<lambda>b. acc_pid b = acc_pid a) (accounts st)"
  proof (rule filter_cong [OF refl])
    fix b assume "b \<in> set (accounts st)"
    with assms(1,2) have "k (acc_public_key b) = Some (acc_pid b)" "k (acc_public_key a) = Some (acc_pid a)" by (auto simp: identities_def)
    then show "(acc_pid b = acc_pid a \<or> acc_public_key b = acc_public_key a) = (acc_pid b = acc_pid a)" by auto
  qed
  then show ?thesis
    using assms distinct_filter_key [of acc_pid "accounts st" a] by (simp add: create_participant_def identities_def one_or_none_def)
qed

text \<open>
  C39. Participants keep their identity. Whatever calls are made, identifiers and keys stay unique and
  every identifier is the one derived from its key; nobody who is registered disappears or gets
  another key or identifier. Looking up an identifier therefore never finds two rows, and registering
  a key again is a conflict, whatever the request says.
\<close>

theorem participants_keep_identity:
  assumes "identities (ap_pid_of_key P) st" and "(auth_step P D)\<^sup>*\<^sup>* (now, st) (now2, st2)"
  shows "identities (ap_pid_of_key P) st2 \<and> prefix (map identity (accounts st)) (map identity (accounts st2))
    \<and> account_by_pid pid st2 = Inr (find (\<lambda>a. acc_pid a = pid) (accounts st2))
    \<and> (rg_public_key req \<in> acc_public_key ` set (accounts st2)
        \<longrightarrow> create_participant (ap_verify P) (ap_pid_of_key P) competitor now2 req st2 = Inl Conflict)"
proof -
  have st2: "identities (ap_pid_of_key P) st2" "prefix (map identity (accounts st)) (map identity (accounts st2))"
    using steps_identities [OF assms(2)] assms(1) by simp_all
  show ?thesis using st2 identities_account_by_pid [OF st2(1)] register_known_key [OF st2(1)] by auto
qed

theorem participants_keep_identity_witness:
  "\<exists>st2 req. (auth_step sample_parameters {})\<^sup>*\<^sup>* (1000, sample_registry) (1000, st2) \<and> length (accounts st2) = 2
    \<and> identities (ap_pid_of_key sample_parameters) st2
    \<and> create_participant (ap_verify sample_parameters) (ap_pid_of_key sample_parameters) id 1000 req st2 = Inl Conflict"
proof -
  have "identities (ap_pid_of_key sample_parameters) sample_registry"
    by (simp add: identities_def sample_parameters_def sample_registry_def sample_account_def)
  moreover obtain sig a st2 where reg: "create_participant (ap_verify sample_parameters) (ap_pid_of_key sample_parameters) id 1000 (sample_registration sig) sample_registry = Inr (a, st2)"
    "length (accounts st2) = 2" "acc_public_key a = ''b''" "a \<in> set (accounts st2)"
    using sample_registered by blast
  moreover have "(auth_step sample_parameters {})\<^sup>*\<^sup>* (1000, sample_registry) (1000, st2)"
    using reg(1) by (intro r_into_rtranclp auth_step.register)
  moreover have "rg_public_key (sample_registration sig) \<in> acc_public_key ` set (accounts st2)"
    using imageI [OF reg(4), of acc_public_key] reg(3) by (simp add: sample_registration_def)
  ultimately show ?thesis
    using participants_keep_identity [of sample_parameters sample_registry "{}" 1000 1000 st2 "[]" "sample_registration sig" id]
    by (intro exI [of _ st2] exI [of _ "sample_registration sig"]) simp
qed

section \<open>Two refreshes at the same time\<close>

lemma new_refresh_token_works:
  assumes "d now (enc (refresh_claims cfg now j pid)) = Some (refresh_claims cfg now j pid)"
    and "j \<noteq> []" and "pid \<noteq> []" and "map_of (revoked_jti st) j = None" and "account_by_pid pid st = Inr (Some a)"
  shows "refresh_check d now (enc (refresh_claims cfg now j pid)) st = (Inr (refresh_claims cfg now j pid, j, pid, a), st)"
  using assms by (simp add: refresh_check_def decode_token_def truthy_def is_jti_revoked_def refresh_claims_def)

text \<open>
  C40. The check of a refresh token does not claim it. If two calls check the same token before either
  of them revokes it, both issue a new pair, and both new refresh tokens work afterwards: one
  token, which is meant to be used once, has become two.
\<close>

theorem concurrent_refreshes_both_succeed:
  assumes "refresh_check d now token st = (Inr (cl, jti, pid, a), st1)"
    and "\<forall>j \<in> {snd jtis1, snd jtis2}. d now (enc (refresh_claims cfg now j pid)) = Some (refresh_claims cfg now j pid)
          \<and> j \<notin> {[], jti} \<and> map_of (revoked_jti st) j = None"
  shows "\<exists>st2 pair1 st3 pair2 st4. refresh_check d now token st1 = (Inr (cl, jti, pid, a), st2)
    \<and> refresh_finish enc cfg now jtis1 (cl, jti, pid, a) st2 = (pair1, st3) \<and> refresh_finish enc cfg now jtis2 (cl, jti, pid, a) st3 = (pair2, st4)
    \<and> fst (refresh_check d now (tp_refresh pair1) st4) = Inr (refresh_claims cfg now (snd jtis1) pid, snd jtis1, pid, a)
    \<and> fst (refresh_check d now (tp_refresh pair2) st4) = Inr (refresh_claims cfg now (snd jtis2) pid, snd jtis2, pid, a)"
proof -
  from assms(1) have c: "d now token = Some cl" "cl_type cl = ''refresh''" "cl_jti cl = Some jti" "jti \<noteq> []" "cl_sub cl = Some pid" "pid \<noteq> []"
    "account_by_pid pid st = Inr (Some a)" "\<not> fst (is_jti_revoked jti now (revoked_jti st))"
    by (auto elim: refresh_check_Inr)
  define r where "r = snd (is_jti_revoked jti now (revoked_jti st))"
  have check: "refresh_check d now token s = (Inr (cl, jti, pid, a), s\<lparr>revoked_jti := snd (is_jti_revoked jti now (revoked_jti s))\<rparr>)"
    if "\<not> fst (is_jti_revoked jti now (revoked_jti s))" "account_by_pid pid s = Inr (Some a)" for s
    using that c by (cases "is_jti_revoked jti now (revoked_jti s)")
      (simp add: refresh_check_def decode_token_def truthy_def account_by_pid_def split: bool.splits)
  have st1: "st1 = st\<lparr>revoked_jti := r\<rparr>" using check [OF c(8,7)] assms(1) by (simp add: r_def)
  have absent: "map_of r jti = None"
    using c(4,8) by (auto simp: r_def is_jti_revoked_def delete_conv' split: option.splits if_splits)
  have again: "refresh_check d now token st1 = (Inr (cl, jti, pid, a), st1)"
    using check [of st1] c(7) absent by (simp add: st1 is_jti_revoked_def account_by_pid_def)
  define st3 where "st3 = st1\<lparr>revoked_jti := revoke_jti jti (cl_exp cl) now r\<rparr>"
  define st4 where "st4 = st1\<lparr>revoked_jti := revoke_jti jti (cl_exp cl) now (revoke_jti jti (cl_exp cl) now r)\<rparr>"
  have fin: "refresh_finish enc cfg now jtis1 (cl, jti, pid, a) st1 = (issue_tokens enc cfg now jtis1 pid a, st3)"
    "refresh_finish enc cfg now jtis2 (cl, jti, pid, a) st3 = (issue_tokens enc cfg now jtis2 pid a, st4)"
    by (simp_all add: refresh_finish_def st3_def st4_def st1)
  have acc: "account_by_pid pid st4 = Inr (Some a)" using c(7) by (simp add: st4_def st1 account_by_pid_def)
  have fresh: "map_of (revoked_jti st4) j = None" if "j \<noteq> jti" "map_of (revoked_jti st) j = None" for j
    using that by (auto simp: st4_def r_def revoke_jti_def is_jti_revoked_def update_conv' delete_conv' split: option.splits)
  have works: "refresh_check d now (enc (refresh_claims cfg now j pid)) st4 = (Inr (refresh_claims cfg now j pid, j, pid, a), st4)"
    if j: "j \<in> {snd jtis1, snd jtis2}" for j
  proof -
    from bspec [OF assms(2) j] have *: "d now (enc (refresh_claims cfg now j pid)) = Some (refresh_claims cfg now j pid)"
      "j \<noteq> []" "j \<noteq> jti" "map_of (revoked_jti st) j = None" by simp_all
    show ?thesis by (rule new_refresh_token_works [of d now enc cfg j pid st4 a, OF *(1,2) c(6) fresh [OF *(3,4)] acc])
  qed
  show ?thesis
  proof (intro exI conjI)
    show "refresh_check d now token st1 = (Inr (cl, jti, pid, a), st1)" by (rule again)
    show "refresh_finish enc cfg now jtis1 (cl, jti, pid, a) st1 = (issue_tokens enc cfg now jtis1 pid a, st3)" by (rule fin(1))
    show "refresh_finish enc cfg now jtis2 (cl, jti, pid, a) st3 = (issue_tokens enc cfg now jtis2 pid a, st4)" by (rule fin(2))
  qed (simp_all add: issue_tokens_def works)
qed

theorem concurrent_refreshes_both_succeed_witness:
  "\<exists>pair1 st3 pair2 st4. refresh_finish sample_encode (ap_settings sample_parameters) 1000 (''a'', ''b'') (sample_refresh ''r'', ''r'', ''A'', sample_account) sample_auth = (pair1, st3)
    \<and> refresh_finish sample_encode (ap_settings sample_parameters) 1000 (''d'', ''e'') (sample_refresh ''r'', ''r'', ''A'', sample_account) st3 = (pair2, st4)
    \<and> isl (fst (refresh_check sample_decode 1000 (tp_refresh pair1) st4)) = False \<and> isl (fst (refresh_check sample_decode 1000 (tp_refresh pair2) st4)) = False"
proof -
  have dec: "sample_decode 1000 (sample_encode (refresh_claims (ap_settings sample_parameters) 1000 j ''A'')) = Some (refresh_claims (ap_settings sample_parameters) 1000 j ''A'')" for j
    by (simp add: sample_decode_def sample_encode_def refresh_claims_def sample_refresh_def sample_parameters_def)
  have check: "refresh_check sample_decode 1000 ''refresh.r'' sample_auth = (Inr (sample_refresh ''r'', ''r'', ''A'', sample_account), sample_auth)"
    using sample_refresh_check by (simp add: sample_parameters_def)
  have "\<forall>j \<in> {snd (''a'', ''b''), snd (''d'', ''e'')}.
      sample_decode 1000 (sample_encode (refresh_claims (ap_settings sample_parameters) 1000 j ''A'')) = Some (refresh_claims (ap_settings sample_parameters) 1000 j ''A'')
      \<and> j \<notin> {[], ''r''} \<and> map_of (revoked_jti sample_auth) j = None"
    by (simp add: dec sample_auth_def)
  from concurrent_refreshes_both_succeed [OF check this] show ?thesis unfolding check by auto
qed

end
