(* ===== verification/Decimal_Context.thy ===== *)
theory Decimal_Context
  imports Domain
begin

text \<open>
  Python's \<open>decimal\<close> where a result need not be exact: the three rounding modes the code uses,
  \<open>quantize\<close> with its bound of 28 digits, and the rounding of a product or a quotient to 28
  significant digits.
\<close>

section \<open>Rounding\<close>

definition round_half_even :: "rat \<Rightarrow> int" where
  "round_half_even q = (let n = \<lfloor>q\<rfloor>; f = q - of_int n in
     if f < 1 / 2 then n else if 1 / 2 < f then n + 1 else if even n then n else n + 1)"

definition round_down :: "rat \<Rightarrow> int" where
  "round_down q = (if 0 \<le> q then \<lfloor>q\<rfloor> else \<lceil>q\<rceil>)"

definition round_up :: "rat \<Rightarrow> int" where
  "round_up q = (if 0 \<le> q then \<lceil>q\<rceil> else \<lfloor>q\<rfloor>)"

text \<open>\<open>v.quantize(Decimal(1).scaleb(-n), rounding)\<close>.\<close>

definition quantize :: "(rat \<Rightarrow> int) \<Rightarrow> nat \<Rightarrow> rat \<Rightarrow> exc + rat" where
  "quantize rounding n v = (let k = rounding (v * 10 ^ n) in
     if \<bar>k\<bar> < 10 ^ 28 then Inr (of_int k / 10 ^ n) else Inl InvalidOperation)"

text \<open>
  28 significant digits: the least scale at which the value has 28 digits before the point. A value
  of 28 digits or more is rounded to an integer; the code quantizes such a value next, which raises.
\<close>

function sig_scale :: "rat \<Rightarrow> nat" where
  "sig_scale q = (if q \<le> 1 then 0 else Suc (sig_scale (q / 10)))"
  by pat_completeness auto
termination
proof (relation "measure (\<lambda>q. nat \<lceil>q\<rceil>)")
  fix q :: rat assume "\<not> q \<le> 1"
  then have two: "2 \<le> \<lceil>q\<rceil>" by (simp add: le_ceiling_iff)
  then have "(2 :: rat) \<le> of_int \<lceil>q\<rceil>" by (metis of_int_le_iff of_int_numeral)
  then have "q / 10 \<le> of_int (\<lceil>q\<rceil> - 1)" using le_of_int_ceiling [of q] unfolding of_int_diff of_int_1 by linarith
  then have "\<lceil>q / 10\<rceil> \<le> \<lceil>q\<rceil> - 1" by (simp only: ceiling_le_iff)
  with two show "(q / 10, q) \<in> measure (\<lambda>q. nat \<lceil>q\<rceil>)" by simp
qed simp

declare sig_scale.simps [simp del]

definition sig28 :: "rat \<Rightarrow> rat" where
  "sig28 v = (if v = 0 then 0 else let s = sig_scale (10 ^ 27 / \<bar>v\<bar>) in of_int (round_half_even (v * 10 ^ s)) / 10 ^ s)"

section \<open>What rounding keeps\<close>

lemma round_half_even_bounds: "of_int (round_half_even q) \<le> q + 1 / 2" "q - 1 / 2 \<le> of_int (round_half_even q)"
  by (auto simp: round_half_even_def Let_def) linarith+

lemma round_half_even_of_int [simp]: "round_half_even (of_int k) = k"
  by (simp add: round_half_even_def)

lemma round_half_even_mono:
  assumes "p \<le> q"
  shows "round_half_even p \<le> round_half_even q"
proof (cases "\<lfloor>p\<rfloor> = \<lfloor>q\<rfloor>")
  case True
  then show ?thesis using assms by (auto simp: round_half_even_def Let_def)
next
  case False
  then have "\<lfloor>p\<rfloor> + 1 \<le> \<lfloor>q\<rfloor>" using floor_mono [OF assms] by linarith
  moreover have "round_half_even p \<le> \<lfloor>p\<rfloor> + 1" "\<lfloor>q\<rfloor> \<le> round_half_even q" by (auto simp: round_half_even_def Let_def)
  ultimately show ?thesis by linarith
qed

lemma round_down_mono: "0 \<le> p \<Longrightarrow> p \<le> q \<Longrightarrow> round_down p \<le> round_down q"
  by (simp add: round_down_def floor_mono)

lemma round_down_of_int [simp]: "round_down (of_int k) = k" and round_up_of_int [simp]: "round_up (of_int k) = k"
  by (simp_all add: round_down_def round_up_def)

lemma round_up_ge: "0 \<le> q \<Longrightarrow> q \<le> of_int (round_up q)"
  by (simp add: round_up_def)

lemma round_down_le: "0 \<le> q \<Longrightarrow> of_int (round_down q) \<le> q" "0 \<le> q \<Longrightarrow> 0 \<le> round_down q"
  by (simp_all add: round_down_def)

text \<open>Amounts in cents.\<close>

definition cents :: "rat \<Rightarrow> bool" where
  "cents v \<longleftrightarrow> v * 100 \<in> \<int>"

lemma quantize_cents: "quantize rounding 2 v = Inr w \<Longrightarrow> cents w"
  by (auto simp: quantize_def cents_def Let_def field_simps split: if_splits) (metis Ints_of_int)

lemma quantize_down_le: "0 \<le> v \<Longrightarrow> quantize round_down 2 v = Inr w \<Longrightarrow> 0 \<le> w \<and> w \<le> v"
  using round_down_le [of "v * 10\<^sup>2"] by (auto simp: quantize_def Let_def field_simps split: if_splits)

lemma quantize_down_ge:
  assumes "cents u" and "0 \<le> u" and "u \<le> v" and "quantize round_down 2 v = Inr w"
  shows "u \<le> w"
proof -
  obtain k where k: "u * 100 = of_int k" using assms(1) by (auto simp: cents_def elim: Ints_cases)
  have "round_down (u * 100) \<le> round_down (v * 100)" using assms(2,3) by (intro round_down_mono) simp_all
  then have "k \<le> round_down (v * 100)" unfolding k by simp
  then have "u * 100 \<le> of_int (round_down (v * 100))" unfolding k by (simp only: of_int_le_iff)
  then show ?thesis using assms(4) by (auto simp: quantize_def Let_def field_simps split: if_splits)
qed

lemma quantize_up_ge: "0 \<le> v \<Longrightarrow> quantize round_up 2 v = Inr w \<Longrightarrow> v \<le> w"
  using round_up_ge [of "v * 10\<^sup>2"] by (auto simp: quantize_def Let_def field_simps split: if_splits)

section \<open>28 digits\<close>

lemma sig_scale_ge: "q \<le> 10 ^ sig_scale q"
proof (induction q rule: sig_scale.induct)
  case (1 q)
  then show ?case by (cases "q \<le> 1") (simp_all add: sig_scale.simps [of q])
qed

lemma sig_scale_le: "q \<le> 10 ^ n \<Longrightarrow> sig_scale q \<le> n"
proof (induction n arbitrary: q)
  case (Suc n)
  then show ?case by (cases "q \<le> 1") (simp_all add: sig_scale.simps [of q])
qed (simp add: sig_scale.simps [of q for q])

lemma sig28_mono:
  assumes "0 \<le> u" and "u \<le> v"
  shows "sig28 u \<le> sig28 v"
proof (cases "u = 0")
  case True
  have "0 \<le> round_half_even (v * 10 ^ s)" for s using round_half_even_mono [of 0 "v * 10 ^ s"] assms by (simp add: round_half_even_def)
  then show ?thesis using True by (simp add: sig28_def Let_def)
next
  case False
  define s t where "s = sig_scale (10 ^ 27 / u)" and "t = sig_scale (10 ^ 27 / v)"
  have pos: "0 < u" "0 < v" using False assms by auto
  have def: "sig28 u = of_int (round_half_even (u * 10 ^ s)) / 10 ^ s" "sig28 v = of_int (round_half_even (v * 10 ^ t)) / 10 ^ t"
    using pos by (simp_all add: sig28_def s_def t_def Let_def)
  have "t \<le> s" unfolding s_def t_def
    by (rule sig_scale_le, rule order_trans [OF _ sig_scale_ge]) (use pos assms in \<open>simp add: field_simps\<close>)
  show ?thesis
  proof (cases "t = s")
    case True
    have "round_half_even (u * 10 ^ s) \<le> round_half_even (v * 10 ^ s)" using assms by (intro round_half_even_mono) simp
    then show ?thesis using True by (simp add: def divide_right_mono)
  next
    case False
    with \<open>t \<le> s\<close> obtain m where m: "s = t + m" "0 < m" by (metis le_Suc_ex add.right_neutral neq0_conv)
    have "\<not> 10 ^ 27 / u \<le> 10 ^ t" using sig_scale_le [of "10 ^ 27 / u" t] False \<open>t \<le> s\<close> by (auto simp: s_def)
    then have "u * 10 ^ t \<le> 10 ^ 27" using pos by (simp add: field_simps)
    then have "u * 10 ^ s \<le> of_int (10 ^ 27 * 10 ^ m)" by (simp add: m power_add field_simps)
    from round_half_even_mono [OF this] have "of_int (round_half_even (u * 10 ^ s)) \<le> (of_int (10 ^ 27 * 10 ^ m) :: rat)"
      by (simp only: round_half_even_of_int of_int_le_iff)
    then have one: "sig28 u \<le> 10 ^ 27 / 10 ^ t" by (simp add: def m power_add field_simps)
    have "10 ^ 27 \<le> v * 10 ^ t" using sig_scale_ge [of "10 ^ 27 / v"] pos by (simp add: t_def field_simps)
    then have "round_half_even (of_int (10 ^ 27)) \<le> round_half_even (v * 10 ^ t)" by (intro round_half_even_mono) simp
    then have "of_int (10 ^ 27) \<le> (of_int (round_half_even (v * 10 ^ t)) :: rat)" by (simp only: round_half_even_of_int of_int_le_iff)
    then have "10 ^ 27 / 10 ^ t \<le> sig28 v" by (simp add: def field_simps)
    with one show ?thesis by linarith
  qed
qed

lemma sig28_cents:
  assumes "cents v" and "0 \<le> v" and "v < 10 ^ 25"
  shows "sig28 v = v"
proof (cases "v = 0")
  case False
  define s where "s = sig_scale (10 ^ 27 / v)"
  obtain k where k: "v * 100 = of_int k" using assms(1) by (auto simp: cents_def elim: Ints_cases)
  have pos: "0 < v" using False assms(2) by simp
  have "2 \<le> s"
  proof (rule ccontr)
    assume "\<not> 2 \<le> s"
    then have "(10 :: rat) ^ s \<le> 10 ^ 2" by (intro power_increasing) simp_all
    then have "10 ^ 27 / v \<le> 10 ^ 2" using sig_scale_ge [of "10 ^ 27 / v"] by (simp add: s_def)
    then show False using assms(3) pos by (simp add: field_simps)
  qed
  then obtain m where m: "s = 2 + m" using le_Suc_ex by blast
  have "v * 10 ^ s = of_int (k * 10 ^ m)" by (simp add: m power_add flip: k)
  then have "sig28 v = of_int (k * 10 ^ m) / 10 ^ s" using pos by (simp only: sig28_def s_def [symmetric] Let_def abs_of_pos round_half_even_of_int) simp
  also have "\<dots> = v" by (simp add: m power_add flip: k)
  finally show ?thesis .
qed (simp add: sig28_def)

end
