(* ===== verification/Commit_Resolution.thy ===== *)
theory Commit_Resolution
  imports Domain
begin

text \<open>
  \<^verbatim>\<open>app/core/simulator/commit_resolution.py\<close>: a commit or rollback of the database runs as a task of its own, the
  caller waits for its end through cancellations, and exactly one callback learns the outcome. A
  task that never ends is a list of wake-ups that runs out: the value is \<open>None\<close> then.
\<close>

section \<open>Waiting for a task\<close>

text \<open>
  What wakes the caller out of \<open>await asyncio.shield(task)\<close>: a cancellation of the caller, with
  whether \<open>current_task().cancelling()\<close> counts it; the end of the task; or both in the same turn of
  the event loop, when the caller resumes with \<open>CancelledError\<close> and the task is done already.
\<close>

datatype task_result = Returned | Raised exc

datatype wake = is_cancelled: Cancelled bool | Finished task_result | CancelledAtEnd task_result

text \<open>The flags are the recorded cancellation and whether the task was asked to cancel.\<close>

fun drain_task :: "wake list \<Rightarrow> bool \<Rightarrow> bool \<Rightarrow> (task_result \<times> bool \<times> bool) option" where
  "drain_task [] cancellation asked = None"
| "drain_task (Finished r # ws) cancellation asked = Some (r, cancellation, asked)"
| "drain_task (CancelledAtEnd r # ws) cancellation asked = Some (r, cancellation, asked)"
| "drain_task (Cancelled cancelling # ws) cancellation asked =
     (if \<not> cancelling then drain_task ws cancellation asked
      else if cancellation then drain_task ws cancellation True
      else drain_task ws True asked)"

definition run_to_terminal :: "wake list \<Rightarrow> bool \<Rightarrow> (exc option \<times> bool) option" where
  "run_to_terminal ws cancellation = (case drain_task ws cancellation False of None \<Rightarrow> None
     | Some (r, c, _) \<Rightarrow> Some (case r of Returned \<Rightarrow> None | Raised x \<Rightarrow> Some x, c))"

section \<open>Telling the outcome\<close>

text \<open>
  A callback changes the state of its owner and may raise. \<open>CancelledError\<close> is not an
  \<open>Exception\<close>: raised by a callback, it passes the handlers.
\<close>

type_synonym 's callback = "'s \<Rightarrow> exc option \<times> 's"

definition raise_first :: "bool \<Rightarrow> exc option \<Rightarrow> exc option \<Rightarrow> exc option" where
  "raise_first cancellation db_err callback_err =
     (if callback_err = Some CancelledError \<or> cancellation then Some CancelledError
      else case db_err of Some x \<Rightarrow> Some x | None \<Rightarrow> callback_err)"

definition resolve_rollback_under_cancellation ::
    "wake list \<Rightarrow> 's callback \<Rightarrow> 's callback \<Rightarrow> (exc \<Rightarrow> 's callback) option \<Rightarrow> 's \<Rightarrow> (exc option \<times> 's) option" where
  "resolve_rollback_under_cancellation ws on_rollback on_unknown on_failure s =
     (case run_to_terminal ws False of None \<Rightarrow> None
      | Some (rollback_error, c) \<Rightarrow>
          (case (if rollback_error = None then on_rollback s else on_unknown s) of (e1, s1) \<Rightarrow>
             (case (rollback_error, on_failure) of
                (Some x, Some f) \<Rightarrow>
                  if e1 = Some CancelledError then Some (Some CancelledError, s1)
                  else (case f x s1 of (e2, s2) \<Rightarrow>
                    Some (raise_first c rollback_error (if e2 = Some CancelledError \<or> e1 = None then e2 else e1), s2))
              | _ \<Rightarrow> Some (raise_first c rollback_error e1, s1))))"

definition resolve_commit_under_cancellation ::
    "wake list \<Rightarrow> wake list \<Rightarrow> 's callback \<Rightarrow> 's callback \<Rightarrow> 's callback \<Rightarrow> 's \<Rightarrow> (exc option \<times> 's) option" where
  "resolve_commit_under_cancellation commit_ws rollback_ws on_commit on_rollback on_unknown s =
     (case run_to_terminal commit_ws False of None \<Rightarrow> None
      | Some (None, c) \<Rightarrow> (case on_commit s of (e, s1) \<Rightarrow> Some (raise_first c None e, s1))
      | Some (Some x, c) \<Rightarrow>
          (case run_to_terminal rollback_ws c of None \<Rightarrow> None
           | Some (rollback_error, c2) \<Rightarrow>
               (case (if rollback_error = None \<and> x \<noteq> CancelledError then on_rollback s else on_unknown s) of (e, s1) \<Rightarrow>
                  Some (raise_first c2 (Some x) e, s1))))"

section \<open>What the caller learns\<close>

text \<open>The first wake-up that ends the task, and the cancellations that came before it.\<close>

definition task_end :: "wake list \<Rightarrow> task_result option" where
  "task_end ws = (case dropWhile is_cancelled ws of
      Finished r # _ \<Rightarrow> Some r | CancelledAtEnd r # _ \<Rightarrow> Some r | _ \<Rightarrow> None)"

definition cancelled_before_end :: "wake list \<Rightarrow> bool" where
  "cancelled_before_end ws \<longleftrightarrow> Cancelled True \<in> set (takeWhile is_cancelled ws)"

lemma drain_task_end:
  "drain_task ws c asked = None \<longleftrightarrow> task_end ws = None"
  "drain_task ws c asked = Some (r, c', a') \<Longrightarrow> task_end ws = Some r \<and> (c' \<longleftrightarrow> c \<or> cancelled_before_end ws)"
  by (induction ws c asked rule: drain_task.induct)
    (auto simp: task_end_def cancelled_before_end_def split: if_splits)

definition result_error :: "task_result \<Rightarrow> exc option" where
  "result_error r = (case r of Returned \<Rightarrow> None | Raised x \<Rightarrow> Some x)"

lemma run_to_terminal_end:
  "run_to_terminal ws c = map_option (\<lambda>r. (result_error r, c \<or> cancelled_before_end ws)) (task_end ws)"
proof (cases "drain_task ws c False")
  case None
  then show ?thesis using drain_task_end(1) [of ws c False] by (simp add: run_to_terminal_def)
next
  case (Some x)
  obtain r c' a' where "x = (r, c', a')" by (cases x)
  with Some drain_task_end(2) [of ws c False r c' a'] show ?thesis
    by (simp add: run_to_terminal_def result_error_def split: task_result.splits)
qed

text \<open>
  C14. The outcome of a commit, for callbacks that do not raise. The call returns exactly when the
  commit ends and, if it failed, the rollback ends too. Then one callback has run: the commit
  callback if the commit returned, the rollback callback if the commit failed by itself and the
  rollback returned, the callback for an unknown outcome otherwise. The caller's own cancellation is
  raised again if it arrived before the operation ended, and takes precedence over the error of the
  database; one that arrives in the very turn in which the operation ends is swallowed: with a
  commit that returned, the call ends normally.
\<close>

theorem commit_outcome_resolved:
  assumes "\<And>s. fst (on_commit s) = None" and "\<And>s. fst (on_rollback s) = None" and "\<And>s. fst (on_unknown s) = None"
  shows "resolve_commit_under_cancellation commit_ws rollback_ws on_commit on_rollback on_unknown s
    = (case task_end commit_ws of None \<Rightarrow> None
       | Some Returned \<Rightarrow> Some (if cancelled_before_end commit_ws then Some CancelledError else None, snd (on_commit s))
       | Some (Raised x) \<Rightarrow> (case task_end rollback_ws of None \<Rightarrow> None
           | Some r \<Rightarrow> Some (if cancelled_before_end commit_ws \<or> cancelled_before_end rollback_ws then Some CancelledError else Some x,
               if r = Returned \<and> x \<noteq> CancelledError then snd (on_rollback s) else snd (on_unknown s))))
    \<and> resolve_commit_under_cancellation (CancelledAtEnd Returned # ws) rollback_ws on_commit on_rollback on_unknown s
      = Some (None, snd (on_commit s))"
proof -
  have at_end: "task_end (CancelledAtEnd Returned # ws) = Some Returned" "\<not> cancelled_before_end (CancelledAtEnd Returned # ws)"
    by (simp_all add: task_end_def cancelled_before_end_def)
  obtain a b c where quiet: "on_commit s = (None, a)" "on_rollback s = (None, b)" "on_unknown s = (None, c)"
    using assms by (metis prod.collapse)
  show ?thesis
    unfolding resolve_commit_under_cancellation_def run_to_terminal_end at_end quiet
    by (simp add: result_error_def raise_first_def at_end quiet split: option.splits task_result.splits)
qed

theorem commit_outcome_resolved_witness:
  "resolve_commit_under_cancellation [Cancelled True, Cancelled True, Finished Returned] []
      (\<lambda>n. (None, n + 1)) (\<lambda>n. (None, n + 10)) (\<lambda>n. (None, n + 100)) (0 :: nat) = Some (Some CancelledError, 1)
    \<and> resolve_commit_under_cancellation [Finished (Raised StaleDataError)] [Finished Returned]
      (\<lambda>n. (None, n + 1)) (\<lambda>n. (None, n + 10)) (\<lambda>n. (None, n + 100)) (0 :: nat) = Some (Some StaleDataError, 10)"
  using commit_outcome_resolved [of "\<lambda>n. (None, n + 1)" "\<lambda>n. (None, n + 10)" "\<lambda>n. (None, n + 100)"
      "[Cancelled True, Cancelled True, Finished Returned]" "[]" "0 :: nat"]
    commit_outcome_resolved [of "\<lambda>n. (None, n + 1)" "\<lambda>n. (None, n + 10)" "\<lambda>n. (None, n + 100)"
      "[Finished (Raised StaleDataError)]" "[Finished Returned]" "0 :: nat"]
  by (simp add: task_end_def cancelled_before_end_def)

end
