(* ===== verification/Trust_Drift.thy ===== *)
theory Trust_Drift
  imports Payment_Service Decimal_Context Commit_Resolution
begin

text \<open>
  The simulator's trust drift: \<^verbatim>\<open>app/core/simulator/trust_drift_engine.py\<close> with its configuration
  (\<^verbatim>\<open>models.py\<close>), the loader of debt snapshots and the coordinator of a tick. After a clearing the
  limits of the cleared lines grow; at the end of a tick the limits of overloaded lines decay. Both
  write the limits of active trust lines in the hub's own tables.
\<close>

section \<open>Configuration and scenario\<close>

text \<open>
  The settings are floats that enter only as \<open>Decimal(str(x))\<close>: the records keep these decimals, and
  \<open>decay_mult\<close> is \<open>Decimal(str(1 - decay_rate))\<close>. The scenario schema has them as numbers.
\<close>

record drift_settings =
  ds_enabled :: bool
  ds_growth_rate :: "rat option"
  ds_decay_mult :: "rat option"
  ds_max_growth :: "rat option"
  ds_min_limit_ratio :: "rat option"
  ds_overload_threshold :: "rat option"

record drift_config =
  dc_enabled :: bool
  dc_growth_rate :: rat
  dc_decay_mult :: rat
  dc_max_growth :: rat
  dc_min_limit_ratio :: rat
  dc_overload_threshold :: rat

definition default_drift_config :: drift_config where
  "default_drift_config = \<lparr>dc_enabled = False, dc_growth_rate = 5 / 100, dc_decay_mult = 98 / 100, dc_max_growth = 2,
     dc_min_limit_ratio = 3 / 10, dc_overload_threshold = 8 / 10\<rparr>"

definition get_or :: "'a \<Rightarrow> 'a option \<Rightarrow> 'a" where
  "get_or d x = (case x of None \<Rightarrow> d | Some v \<Rightarrow> v)"

definition drift_from_scenario :: "drift_settings option \<Rightarrow> drift_config" where
  "drift_from_scenario td = (case td of None \<Rightarrow> default_drift_config
     | Some s \<Rightarrow> if \<not> ds_enabled s then default_drift_config
         else \<lparr>dc_enabled = True, dc_growth_rate = get_or (5 / 100) (ds_growth_rate s), dc_decay_mult = get_or (98 / 100) (ds_decay_mult s),
               dc_max_growth = get_or 2 (ds_max_growth s), dc_min_limit_ratio = get_or (3 / 10) (ds_min_limit_ratio s),
               dc_overload_threshold = get_or (8 / 10) (ds_overload_threshold s)\<rparr>)"

text \<open>
  A trust line of the scenario, by the keys the code reads: a text is \<open>str(v)\<close>, empty when \<open>v\<close> is
  missing or false; the limit is what \<open>Decimal(str(limit))\<close> gives, \<open>None\<close> when it raises.
\<close>

record scenario_line =
  sl_from :: string
  sl_to :: string
  sl_equivalent :: string
  sl_status :: string
  sl_limit :: "pydec option"

record scenario =
  sc_base_equivalent :: string
  sc_equivalent :: string
  sc_trustlines :: "scenario_line list"
  sc_trust_drift :: "drift_settings option"

definition code_upper :: "string \<Rightarrow> string" where
  "code_upper s = map upper_char (py_strip s)"

definition scenario_default_equivalent :: "scenario \<Rightarrow> string" where
  "scenario_default_equivalent sc = code_upper (if sc_base_equivalent sc \<noteq> [] then sc_base_equivalent sc else sc_equivalent sc)"

definition effective_equivalent :: "scenario \<Rightarrow> scenario_line \<Rightarrow> string" where
  "effective_equivalent sc l = (let e = code_upper (sl_equivalent l) in if e \<noteq> [] then e else scenario_default_equivalent sc)"

definition line_code :: "scenario \<Rightarrow> scenario_line \<Rightarrow> string" where
  "line_code sc l = code_upper (effective_equivalent sc l)"

section \<open>History\<close>

record edge_history =
  eh_original_limit :: amount
  eh_clearing_count :: int
  eh_last_clearing_tick :: int
  eh_cleared_volume :: amount

type_synonym history = "(string \<times> edge_history) list"

definition history_key :: "pid \<Rightarrow> pid \<Rightarrow> string \<Rightarrow> string" where
  "history_key c d e = c @ '':'' @ d @ '':'' @ e"

text \<open>\<open>Decimal(str(v)).quantize(Decimal("0.01"), rounding=ROUND_DOWN)\<close>: a NaN stays a NaN, an infinity raises.\<close>

definition cents_down :: "pydec option \<Rightarrow> exc + rat option" where
  "cents_down v = (case v of Some (Fin x) \<Rightarrow> (case quantize round_down 2 x of Inl e \<Rightarrow> Inl e | Inr y \<Rightarrow> Inr (Some y))
     | Some NaN \<Rightarrow> Inr None | _ \<Rightarrow> Inl InvalidOperation)"

text \<open>Comparing a NaN with 0 raises; that comparison stands outside the handlers.\<close>

fun init_edges :: "scenario \<Rightarrow> scenario_line list \<Rightarrow> history \<Rightarrow> exc option \<times> history" where
  "init_edges sc [] hist = (None, hist)"
| "init_edges sc (l # ls) hist =
     (let e = line_code sc l; c = py_strip (sl_from l); d = py_strip (sl_to l) in
      if e = [] \<or> c = [] \<or> d = [] then init_edges sc ls hist
      else case cents_down (sl_limit l) of
          Inl _ \<Rightarrow> init_edges sc ls hist
        | Inr None \<Rightarrow> (Some InvalidOperation, hist)
        | Inr (Some v) \<Rightarrow>
            if v \<le> 0 then init_edges sc ls hist
            else init_edges sc ls (AList.update (history_key c d e)
              \<lparr>eh_original_limit = v, eh_clearing_count = 0, eh_last_clearing_tick = -1, eh_cleared_volume = 0\<rparr> hist))"

definition init_trust_drift :: "scenario \<Rightarrow> history \<Rightarrow> exc option \<times> drift_config \<times> history" where
  "init_trust_drift sc hist = (let cfg = drift_from_scenario (sc_trust_drift sc) in
     if hist \<noteq> [] then (None, cfg, hist)
     else case init_edges sc (sc_trustlines sc) hist of (e, hist') \<Rightarrow> (e, cfg, hist'))"

section \<open>Writing a limit\<close>

definition active_between :: "uuid \<Rightarrow> uuid \<Rightarrow> uuid \<Rightarrow> trust_line \<Rightarrow> bool" where
  "active_between x y e t \<longleftrightarrow> tl_from t = x \<and> tl_to t = y \<and> tl_equivalent t = e \<and> tl_status t = Active"

definition set_active_limit :: "uuid \<Rightarrow> uuid \<Rightarrow> uuid \<Rightarrow> amount \<Rightarrow> db \<Rightarrow> exc + db" where
  "set_active_limit x y e v db =
     (if \<not> list_ex (active_between x y e) (trust_lines db) then Inr db
      else case store_numeric ''UPDATE TRUST_LINES'' v of
          Inl err \<Rightarrow> Inl err
        | Inr w \<Rightarrow>
            if w < 0 then Inl (DBAPIError \<lparr>sqlstate = Some ''23514'', statement = ''UPDATE TRUST_LINES'',
                constraint_name = Some ''chk_trust_line_limit_positive''\<rparr>)
            else Inr (db\<lparr>trust_lines := map (\<lambda>t. if active_between x y e t then t\<lparr>tl_limit := w\<rparr> else t) (trust_lines db)\<rparr>))"

record limit_update =
  lu_creditor :: pid
  lu_debtor :: pid
  lu_equivalent :: string
  lu_limit :: amount

record drift_result =
  dr_updated_count :: nat
  dr_touched_equivalents :: "string list"
  dr_touched_edges :: "(string \<times> pid \<times> pid) list"
  dr_updates :: "limit_update list"

definition drift_result_of :: "limit_update list \<Rightarrow> drift_result" where
  "drift_result_of us = \<lparr>dr_updated_count = length us, dr_touched_equivalents = remdups (map lu_equivalent us),
     dr_touched_edges = remdups (map (\<lambda>u. (lu_equivalent u, lu_creditor u, lu_debtor u)) us), dr_updates = us\<rparr>"

text \<open>\<open>{pid: uid for uid, pid in participants}\<close>: the last entry of a pid counts.\<close>

definition pid_to_uuid :: "(uuid \<times> pid) list \<Rightarrow> pid \<Rightarrow> uuid option" where
  "pid_to_uuid ps = map_of (rev (map (\<lambda>(u, p). (p, u)) ps))"

section \<open>Growth\<close>

text \<open>
  The new limit of one cleared line; \<open>None\<close> leaves it alone. The limit read and the original one are
  cut to cents; a limit too long for that is skipped.
\<close>

definition grown_limit :: "drift_config \<Rightarrow> amount \<Rightarrow> amount \<Rightarrow> exc + amount option" where
  "grown_limit cfg original line_limit = (case quantize round_down 2 line_limit of
      Inl _ \<Rightarrow> Inr None
    | Inr current \<Rightarrow>
        (case quantize round_half_even 7 (1 + dc_growth_rate cfg) of Inl x \<Rightarrow> Inl x
         | Inr rate_mult \<Rightarrow>
             (case quantize round_down 2 (min (sig28 (current * rate_mult)) (sig28 (original * dc_max_growth cfg))) of Inl x \<Rightarrow> Inl x
              | Inr new \<Rightarrow> Inr (if new \<noteq> current then Some new else None))))"

definition record_clearing :: "int \<Rightarrow> amount \<Rightarrow> edge_history \<Rightarrow> edge_history" where
  "record_clearing tick cleared h = h\<lparr>eh_clearing_count := eh_clearing_count h + 1, eh_last_clearing_tick := tick,
     eh_cleared_volume := eh_cleared_volume h + (case quantize round_down 2 cleared of Inl _ \<Rightarrow> 0 | Inr v \<Rightarrow> v)\<rparr>"

definition grow_edge ::
    "drift_config \<Rightarrow> (uuid \<times> pid) list \<Rightarrow> uuid \<Rightarrow> string \<Rightarrow> int \<Rightarrow> (pid \<times> pid \<Rightarrow> amount) \<Rightarrow> pid \<times> pid \<Rightarrow> history \<times> db
      \<Rightarrow> (exc + limit_update option) \<times> history \<times> db" where
  "grow_edge cfg ps eq_id code tick cleared edge s = (case (edge, s) of ((c, d), (hist, db)) \<Rightarrow>
     (case map_of hist (history_key c d code) of None \<Rightarrow> (Inr None, hist, db)
      | Some h \<Rightarrow>
        (case quantize round_down 2 (eh_original_limit h) of Inl _ \<Rightarrow> (Inr None, hist, db)
         | Inr original \<Rightarrow>
           let hist' = AList.update (history_key c d code) (record_clearing tick (cleared (c, d)) h) hist in
           (case (pid_to_uuid ps c, pid_to_uuid ps d) of
              (Some x, Some y) \<Rightarrow>
                (case get_active_line x y eq_id db of None \<Rightarrow> (Inr None, hist', db)
                 | Some t \<Rightarrow>
                   (case grown_limit cfg original (tl_limit t) of Inl e \<Rightarrow> (Inl e, hist', db)
                    | Inr None \<Rightarrow> (Inr None, hist', db)
                    | Inr (Some new) \<Rightarrow>
                      (case set_active_limit x y eq_id new db of Inl e \<Rightarrow> (Inl e, hist', db)
                       | Inr db' \<Rightarrow> (Inr (Some \<lparr>lu_creditor = c, lu_debtor = d, lu_equivalent = code, lu_limit = new\<rparr>), hist', db'))))
            | _ \<Rightarrow> (Inr None, hist', db)))))"

fun run_edges :: "('e \<Rightarrow> 's \<Rightarrow> (exc + limit_update option) \<times> 's) \<Rightarrow> 'e list \<Rightarrow> 's \<Rightarrow> (exc + limit_update list) \<times> 's" where
  "run_edges f [] s = (Inr [], s)"
| "run_edges f (e # es) s = (case f e s of (Inl x, s') \<Rightarrow> (Inl x, s')
     | (Inr u, s') \<Rightarrow> (case run_edges f es s' of (Inl x, s'') \<Rightarrow> (Inl x, s'')
         | (Inr us, s'') \<Rightarrow> (Inr ((case u of None \<Rightarrow> [] | Some v \<Rightarrow> [v]) @ us), s'')))"

text \<open>
  The limits the session writes, before its commit. The touched edges come in the order in which
  Python iterates over the set; the lookup of the equivalent may fail, which ends the call quietly.
\<close>

definition apply_trust_growth ::
    "drift_config option \<Rightarrow> (uuid \<times> pid) list \<Rightarrow> bool \<Rightarrow> string \<Rightarrow> int \<Rightarrow> (pid \<times> pid \<Rightarrow> amount) \<Rightarrow> (pid \<times> pid) list
      \<Rightarrow> history \<times> db \<Rightarrow> (exc + drift_result) \<times> history \<times> db" where
  "apply_trust_growth cfg ps lookup_fails eq_code tick cleared touched s =
     (case cfg of None \<Rightarrow> (Inr (drift_result_of []), s)
      | Some cfg \<Rightarrow>
          if \<not> dc_enabled cfg \<or> touched = [] \<or> lookup_fails then (Inr (drift_result_of []), s)
          else case get_equivalent_by_code (code_upper eq_code) (snd s) of None \<Rightarrow> (Inr (drift_result_of []), s)
            | Some q \<Rightarrow>
                (case run_edges (grow_edge cfg ps (equiv_id q) (code_upper eq_code) tick cleared) touched s of
                   (Inl x, s') \<Rightarrow> (Inl x, s')
                 | (Inr us, s') \<Rightarrow> (Inr (drift_result_of us), s')))"

section \<open>Decay\<close>

definition decayed_limit :: "drift_config \<Rightarrow> amount \<Rightarrow> pydec option \<Rightarrow> amount \<Rightarrow> exc + amount option" where
  "decayed_limit cfg original_limit line_limit debt = (case cents_down line_limit of
      Inl _ \<Rightarrow> Inr None
    | Inr None \<Rightarrow> Inl InvalidOperation
    | Inr (Some current) \<Rightarrow>
        if current \<le> 0 then Inr None
        else if sig28 (debt / current) < dc_overload_threshold cfg then Inr None
        else (case quantize round_down 2 original_limit of Inl _ \<Rightarrow> Inr None
          | Inr original \<Rightarrow>
              let debt_floor = (case quantize round_up 2 debt of Inl _ \<Rightarrow> 0 | Inr v \<Rightarrow> v) in
              (case quantize round_down 2 (max (max (sig28 (current * dc_decay_mult cfg)) (sig28 (original * dc_min_limit_ratio cfg))) debt_floor) of
                 Inl x \<Rightarrow> Inl x
               | Inr new \<Rightarrow> Inr (if new = current then None else Some new))))"

type_synonym debt_snapshot = "((pid \<times> pid \<times> string) \<times> amount) list"

definition snapshot_debt :: "debt_snapshot \<Rightarrow> pid \<Rightarrow> pid \<Rightarrow> string \<Rightarrow> amount" where
  "snapshot_debt snap d c e = get_or 0 (map_of snap (d, c, e))"

definition decay_line ::
    "drift_config \<Rightarrow> (uuid \<times> pid) list \<Rightarrow> history \<Rightarrow> int \<Rightarrow> debt_snapshot \<Rightarrow> scenario \<Rightarrow> scenario_line \<Rightarrow> db
      \<Rightarrow> (exc + limit_update option) \<times> db" where
  "decay_line cfg ps hist tick snap sc l db =
     (let e = line_code sc l; c = py_strip (sl_from l); d = py_strip (sl_to l);
          status = py_lower (py_strip (if sl_status l = [] then ''active'' else sl_status l)) in
      if e = [] \<or> c = [] \<or> d = [] \<or> status \<noteq> ''active'' then (Inr None, db)
      else case map_of hist (history_key c d e) of None \<Rightarrow> (Inr None, db)
        | Some h \<Rightarrow>
            if eh_last_clearing_tick h = tick then (Inr None, db)
            else (case decayed_limit cfg (eh_original_limit h) (sl_limit l) (snapshot_debt snap d c e) of
                Inl x \<Rightarrow> (Inl x, db)
              | Inr None \<Rightarrow> (Inr None, db)
              | Inr (Some new) \<Rightarrow>
                  (case (pid_to_uuid ps c, pid_to_uuid ps d, get_equivalent_by_code e db) of
                     (Some x, Some y, Some q) \<Rightarrow>
                       (case set_active_limit x y (equiv_id q) new db of Inl err \<Rightarrow> (Inl err, db)
                        | Inr db' \<Rightarrow> (Inr (Some \<lparr>lu_creditor = c, lu_debtor = d, lu_equivalent = e, lu_limit = new\<rparr>), db'))
                   | _ \<Rightarrow> (Inr None, db))))"

definition apply_trust_decay ::
    "drift_config option \<Rightarrow> (uuid \<times> pid) list \<Rightarrow> history \<Rightarrow> int \<Rightarrow> debt_snapshot \<Rightarrow> scenario \<Rightarrow> db \<Rightarrow> (exc + drift_result) \<times> db" where
  "apply_trust_decay cfg ps hist tick snap sc db =
     (case cfg of None \<Rightarrow> (Inr (drift_result_of []), db)
      | Some cfg \<Rightarrow>
          if \<not> dc_enabled cfg then (Inr (drift_result_of []), db)
          else (case run_edges (decay_line cfg ps hist tick snap sc) (sc_trustlines sc) db of
              (Inl x, db') \<Rightarrow> (Inl x, db')
            | (Inr us, db') \<Rightarrow> (Inr (drift_result_of us), db')))"

section \<open>Publishing committed limits\<close>

text \<open>
  The first matching line of the scenario gets \<open>float(new_limit)\<close>. A limit in cents below \<open>10 ^ 12\<close>
  survives the way through the float and its text unchanged.
\<close>

definition matches_update :: "scenario \<Rightarrow> limit_update \<Rightarrow> scenario_line \<Rightarrow> bool" where
  "matches_update sc u l \<longleftrightarrow> py_strip (sl_from l) = lu_creditor u \<and> py_strip (sl_to l) = lu_debtor u \<and> line_code sc l = lu_equivalent u"

fun publish_limit :: "scenario \<Rightarrow> limit_update \<Rightarrow> scenario_line list \<Rightarrow> scenario_line list" where
  "publish_limit sc u [] = []"
| "publish_limit sc u (l # ls) =
     (if matches_update sc u l then l\<lparr>sl_limit := Some (Fin (lu_limit u))\<rparr> # ls else l # publish_limit sc u ls)"

definition apply_committed_effects :: "drift_result \<Rightarrow> scenario \<times> router_cache \<Rightarrow> scenario \<times> router_cache" where
  "apply_committed_effects res s = (case s of (sc, cache) \<Rightarrow>
     if dr_updates res = [] then (sc, cache)
     else (sc\<lparr>sc_trustlines := fold (publish_limit sc) (dr_updates res) (sc_trustlines sc)\<rparr>,
           cache\<lparr>graph_cache := fold (\<lambda>e. AList.delete (code_upper e)) (dr_touched_equivalents res) (graph_cache cache)\<rparr>))"

text \<open>The commit of the grown limits; the wake-ups are those of the commit and of the rollback.\<close>

definition commit_growth :: "wake list \<Rightarrow> wake list \<Rightarrow> drift_result \<Rightarrow> scenario \<times> router_cache \<Rightarrow> (exc option \<times> scenario \<times> router_cache) option" where
  "commit_growth commit_ws rollback_ws res s =
     (if dr_updated_count res = 0 then Some (None, s)
      else resolve_commit_under_cancellation commit_ws rollback_ws (\<lambda>s. (None, apply_committed_effects res s)) (\<lambda>s. (None, s)) (\<lambda>s. (None, s)) s)"

section \<open>The tick\<close>

text \<open>
  The aggregate query of the snapshot, restricted to the participants and equivalents of the run.
\<close>

definition load_debt_snapshot_by_pid :: "(uuid \<times> pid) list \<Rightarrow> string list \<Rightarrow> db \<Rightarrow> debt_snapshot" where
  "load_debt_snapshot_by_pid ps codes db =
     (let uuid_to_pid = map_of (rev ps);
          eqs = filter (\<lambda>q. equiv_code q \<in> set (filter (\<lambda>c. c \<noteq> []) (map code_upper codes))) (equivalents db);
          code_of = map_of (rev (map (\<lambda>q. (equiv_id q, equiv_code q)) eqs));
          relevant = (\<lambda>r. debtor_id r \<in> fst ` set ps \<and> creditor_id r \<in> fst ` set ps \<and> debt_equivalent r \<in> equiv_id ` set eqs);
          groups = remdups (map (\<lambda>r. (debtor_id r, creditor_id r, debt_equivalent r)) (filter relevant (debts db)))
      in fold (\<lambda>(x, y, e) snap. case (uuid_to_pid x, uuid_to_pid y, code_of e) of
             (Some d, Some c, Some code) \<Rightarrow>
               if d = [] \<or> c = [] \<or> code = [] then snap
               else AList.update (d, c, code) (sql_sum (\<lambda>r. (debtor_id r, creditor_id r, debt_equivalent r) = (x, y, e)) debt_amount (debts db)) snap
           | _ \<Rightarrow> snap) groups [])"

text \<open>
  The coordinator: an error of the decay is logged and the tick goes on; if limits changed, they are
  committed, with the effects of the tick's payments published before those of the drift. A callback
  of the payments that raises is logged. The tables are those the session sees; the message to the
  browsers is left out.
\<close>

definition decay_committed ::
    "drift_result \<Rightarrow> ('p \<Rightarrow> 'p) \<Rightarrow> ('p \<Rightarrow> 'p) \<Rightarrow> ('p \<Rightarrow> 'p) \<Rightarrow> wake list \<Rightarrow> wake list \<Rightarrow> 'p \<times> scenario \<times> router_cache
      \<Rightarrow> (exc option \<times> 'p \<times> scenario \<times> router_cache) option" where
  "decay_committed res on_commit on_rollback on_unknown commit_ws rollback_ws s =
     resolve_commit_under_cancellation commit_ws rollback_ws
       (\<lambda>(p, s). (None, on_commit p, apply_committed_effects res s)) (\<lambda>(p, s). (None, on_rollback p, s)) (\<lambda>(p, s). (None, on_unknown p, s)) s"

definition apply_trust_decay_and_broadcast ::
    "drift_config option \<Rightarrow> (uuid \<times> pid) list \<Rightarrow> history \<Rightarrow> int \<Rightarrow> debt_snapshot \<Rightarrow> ('p \<Rightarrow> 'p) \<Rightarrow> ('p \<Rightarrow> 'p) \<Rightarrow> ('p \<Rightarrow> 'p) \<Rightarrow> wake list \<Rightarrow> wake list
      \<Rightarrow> db \<Rightarrow> 'p \<times> scenario \<times> router_cache \<Rightarrow> (exc option \<times> db \<times> 'p \<times> scenario \<times> router_cache) option" where
  "apply_trust_decay_and_broadcast cfg ps hist tick snap on_commit on_rollback on_unknown commit_ws rollback_ws db s =
     (case apply_trust_decay cfg ps hist tick snap (fst (snd s)) db of
        (Inl x, db') \<Rightarrow> Some (if x = CancelledError then Some x else None, db', s)
      | (Inr res, db') \<Rightarrow>
          if dr_updated_count res = 0 then Some (None, db', s)
          else (case decay_committed res on_commit on_rollback on_unknown commit_ws rollback_ws s of None \<Rightarrow> None
            | Some (e, s') \<Rightarrow> Some (e, db', s')))"

text \<open>
  The snapshot of a tick, loaded before the payments are planned: a failing query is swallowed and
  leaves it empty.
\<close>

definition tick_debt_snapshot :: "bool \<Rightarrow> (uuid \<times> pid) list \<Rightarrow> string list \<Rightarrow> db \<Rightarrow> debt_snapshot" where
  "tick_debt_snapshot load_failed ps codes db = (if load_failed then [] else load_debt_snapshot_by_pid ps codes db)"

text \<open>
  The order of a tick: the payments are executed after the snapshot, and the decay works with that
  snapshot after the payments and the clearing. \<open>activity\<close> is what they do to the tables.
\<close>

definition tick_drift ::
    "bool \<Rightarrow> drift_config option \<Rightarrow> (uuid \<times> pid) list \<Rightarrow> string list \<Rightarrow> history \<Rightarrow> int \<Rightarrow> scenario \<Rightarrow> (db \<Rightarrow> db) \<Rightarrow> db \<Rightarrow> (exc + drift_result) \<times> db" where
  "tick_drift load_failed cfg ps codes hist tick sc activity db =
     (let snap = tick_debt_snapshot load_failed ps codes db in apply_trust_decay cfg ps hist tick snap sc (activity db))"

end
