(* ===== verification/Balance_Properties.thy ===== *)
theory Balance_Properties
  imports Balance Line_Properties
begin

text \<open>
  The summary of a participant agrees with the ledger and with the capacities the payment engine
  uses; the cache answers with a summary that is not older than its time to live, and stays small.
\<close>

section \<open>The map of the equivalents\<close>

definition entry_of :: "eq_map \<Rightarrow> string \<Rightarrow> eq_entry" where
  "entry_of m c = (case map_of m c of None \<Rightarrow> zero_entry | Some e \<Rightarrow> e)"

lemma entry_of_Nil [simp]: "entry_of [] c = zero_entry"
  by (simp add: entry_of_def)

lemma map_of_add_to:
  "map_of (add_to field code v m) c = (if c = code then Some (field (\<lambda>t. t + v) (entry_of m c)) else map_of m c)"
  by (simp add: add_to_def entry_of_def map_of_map_default split: option.splits)

lemma entry_of_add_to [simp]:
  "entry_of (add_to field code v m) c = (if c = code then field (\<lambda>t. t + v) (entry_of m c) else entry_of m c)"
  by (simp add: entry_of_def map_of_add_to)

lemma dom_add_to: "fst ` set (add_to field code v m) = insert code (fst ` set m)"
  by (simp add: dom_map_of_conv_image_fst [symmetric] dom_def map_of_add_to) auto

lemma distinct_add_to: "distinct (map fst m) \<Longrightarrow> distinct (map fst (add_to field code v m))"
  by (simp add: add_to_def distinct_map_default)


text \<open>A step of a loop adds to a field of one entry; the loop adds the sum.\<close>

lemma fold_field:
  fixes F :: "'s \<Rightarrow> amount"
  assumes "\<And>x m. F (step x m) = F m + w x"
  shows "F (fold step xs m) = F m + (\<Sum>x\<leftarrow>xs. w x)"
  by (induction xs arbitrary: m) (simp_all add: assms)

lemma fold_keys:
  assumes "\<And>x m. x \<in> set xs \<Longrightarrow> fst ` set (step x m) = K x \<union> fst ` set m"
  shows "fst ` set (fold step xs m) = (\<Union>x \<in> set xs. K x) \<union> fst ` set m"
  using assms by (induction xs arbitrary: m) auto

lemma fold_distinct:
  assumes "\<And>x m. distinct (map fst m) \<Longrightarrow> distinct (map fst (step x m))" and "distinct (map fst m)"
  shows "distinct (map fst (fold step xs m))"
  using assms by (induction xs arbitrary: m) auto

lemma fold_add_to:
  assumes "\<And>f e. G (field f e) = f (G e)"
  shows "G (entry_of (fold (\<lambda>x. add_to field (k x) (v x)) xs m) c) = G (entry_of m c) + (\<Sum>x\<leftarrow>xs. if k x = c then v x else 0)"
  by (rule fold_field [where F = "\<lambda>m. G (entry_of m c)"]) (simp add: assms)

lemma fold_add_other:
  assumes "\<And>f e. G (field f e) = G e"
  shows "(G (entry_of (fold (\<lambda>x. add_to field (k x) (v x)) xs m) c) :: amount) = G (entry_of m c)"
proof -
  have "G (entry_of (fold (\<lambda>x. add_to field (k x) (v x)) xs m) c) = G (entry_of m c) + (\<Sum>x\<leftarrow>xs. 0)"
    by (rule fold_field [where F = "\<lambda>m. G (entry_of m c)"]) (simp add: assms)
  then show ?thesis by simp
qed

lemmas fold_entry =
  fold_add_to [where G = total_debt and field = total_debt_update] fold_add_to [where G = total_credit and field = total_credit_update]
  fold_add_to [where G = spend_capacity and field = spend_capacity_update]
  fold_add_to [where G = receive_capacity and field = receive_capacity_update]
  fold_add_other [where G = total_debt] fold_add_other [where G = total_credit]
  fold_add_other [where G = spend_capacity] fold_add_other [where G = receive_capacity]

lemma lineless_debts:
  "total_debt (entry_of (fold (add_lineless p db) ks m) c) = total_debt (entry_of m c)"
  "total_credit (entry_of (fold (add_lineless p db) ks m) c) = total_credit (entry_of m c)"
  using fold_field [where F = "\<lambda>m. total_debt (entry_of m c)" and w = "\<lambda>_. 0" and step = "add_lineless p db" and xs = ks and m = m]
    fold_field [where F = "\<lambda>m. total_credit (entry_of m c)" and w = "\<lambda>_. 0" and step = "add_lineless p db" and xs = ks and m = m]
  by (simp_all add: add_lineless_def Let_def)

lemma lineless_spend:
  "spend_capacity (entry_of (fold (add_lineless p db) ks m) c) = spend_capacity (entry_of m c)
    + (\<Sum>k\<leftarrow>ks. if k \<notin> set (processed_spend p db) \<and> snd k = c then max 0 (spend_on p db 0 (fst k) c) else 0)"
  by (rule fold_field [where F = "\<lambda>m. spend_capacity (entry_of m c)"]) (auto simp: add_lineless_def Let_def)

lemma lineless_receive:
  "receive_capacity (entry_of (fold (add_lineless p db) ks m) c) = receive_capacity (entry_of m c)
    + (\<Sum>k\<leftarrow>ks. if k \<notin> set (processed_receive p db) \<and> snd k = c then max 0 (receive_on p db 0 (fst k) c) else 0)"
  by (rule fold_field [where F = "\<lambda>m. receive_capacity (entry_of m c)"]) (auto simp: add_lineless_def Let_def)

lemma equivalents_map_entry:
  fixes p :: uuid and db :: db
  defines "E \<equiv> entry_of (equivalents_map p db)" and "cd \<equiv> \<lambda>d. code_of (debt_equivalent d) db" and "ct \<equiv> \<lambda>t. code_of (tl_equivalent t) db"
  shows "total_debt (E c) = (\<Sum>d\<leftarrow>debts_of p db. if cd d = c then debt_amount d else 0)"
    and "total_credit (E c) = (\<Sum>d\<leftarrow>debts_to p db. if cd d = c then debt_amount d else 0)"
    and "spend_capacity (E c) = (\<Sum>t\<leftarrow>lines_in p db. if ct t = c then spend_on p db (tl_limit t) (tl_from t) (ct t) else 0)
      + (\<Sum>k\<leftarrow>all_peers_equivalents p db. if k \<notin> set (processed_spend p db) \<and> snd k = c then max 0 (spend_on p db 0 (fst k) c) else 0)"
    and "receive_capacity (E c) = (\<Sum>t\<leftarrow>lines_out p db. if ct t = c then receive_on p db (tl_limit t) (tl_to t) (ct t) else 0)
      + (\<Sum>k\<leftarrow>all_peers_equivalents p db. if k \<notin> set (processed_receive p db) \<and> snd k = c then max 0 (receive_on p db 0 (fst k) c) else 0)"
  unfolding E_def cd_def ct_def equivalents_map_def Let_def
  by (simp_all add: lineless_debts lineless_spend lineless_receive fold_entry zero_entry_def)

section \<open>References\<close>

text \<open>What the foreign keys and unique columns of the schema guarantee.\<close>

definition references_ok :: "db \<Rightarrow> bool" where
  "references_ok db \<longleftrightarrow> distinct (map equiv_id (equivalents db)) \<and> distinct (map equiv_code (equivalents db))
     \<and> (\<forall>t \<in> set (trust_lines db). tl_equivalent t \<in> equiv_id ` set (equivalents db)
          \<and> {tl_from t, tl_to t} \<subseteq> part_id ` set (participants db))
     \<and> (\<forall>d \<in> set (debts db). debt_equivalent d \<in> equiv_id ` set (equivalents db)
          \<and> {debtor_id d, creditor_id d} \<subseteq> part_id ` set (participants db))"

lemma find_distinct:
  assumes "distinct (map f xs)" and "x \<in> set xs"
  shows "find (\<lambda>y. f y = f x) xs = Some x"
  using assms by (induction xs) (auto simp: image_iff)

lemma code_of_equiv:
  assumes "references_ok db" and "q \<in> set (equivalents db)"
  shows "get_equivalent_by_id (equiv_id q) db = Some q" and "code_of (equiv_id q) db = equiv_code q"
  using find_distinct [of equiv_id "equivalents db" q] assms
  by (simp_all add: references_ok_def code_of_def get_equivalent_by_id_def)

lemma code_of_iff:
  assumes "references_ok db" and "e \<in> equiv_id ` set (equivalents db)" and "q \<in> set (equivalents db)"
  shows "code_of e db = equiv_code q \<longleftrightarrow> e = equiv_id q"
proof -
  obtain r :: equivalent where r: "r \<in> set (equivalents db)" "e = equiv_id r" using assms(2) by auto
  have inj: "inj_on equiv_code (set (equivalents db))" using assms(1) by (simp add: references_ok_def distinct_map)
  have "equiv_code r = equiv_code q \<longleftrightarrow> r = q" using inj_on_eq_iff [OF inj r(1) assms(3)] .
  moreover have "equiv_id r = equiv_id q \<longleftrightarrow> r = q"
    using assms(1) inj_on_eq_iff [OF _ r(1) assms(3), of equiv_id] by (simp add: references_ok_def distinct_map)
  ultimately show ?thesis using code_of_equiv(2) [OF assms(1) r(1)] r(2) by simp
qed

lemma references_okD:
  assumes "references_ok db"
  shows "t \<in> set (trust_lines db) \<Longrightarrow> tl_equivalent t \<in> equiv_id ` set (equivalents db)"
    and "t \<in> set (trust_lines db) \<Longrightarrow> tl_from t \<in> part_id ` set (participants db) \<and> tl_to t \<in> part_id ` set (participants db)"
    and "d \<in> set (debts db) \<Longrightarrow> debt_equivalent d \<in> equiv_id ` set (equivalents db)"
    and "d \<in> set (debts db) \<Longrightarrow> debtor_id d \<in> part_id ` set (participants db) \<and> creditor_id d \<in> part_id ` set (participants db)"
  using assms by (simp_all add: references_ok_def)

section \<open>Debts by peer\<close>

lemma fold_update_keys: "fst ` set (fold (\<lambda>d. AList.update (k d) (v d)) ds m) = k ` set ds \<union> fst ` set m"
  by (induction ds arbitrary: m) (simp_all add: dom_update)

lemma fold_update_lookup:
  assumes "distinct (map k ds)" and "d \<in> set ds"
  shows "map_of (fold (\<lambda>d. AList.update (k d) (v d)) ds m) (k d) = Some (v d)"
  using assms
proof (induction ds arbitrary: m)
  case (Cons x ds)
  have "map_of (fold (\<lambda>d. AList.update (k d) (v d)) ds m) y = map_of m y" if "y \<notin> k ` set ds" for y m
    using that by (induction ds arbitrary: m) (simp_all add: update_conv)
  then show ?case using Cons by (auto simp: update_conv)
qed simp

text \<open>Both dictionaries at once: \<open>me\<close> and \<open>peer\<close> are the two sides of a debt.\<close>

lemma peer_get_owes:
  assumes "references_ok db" and "q \<in> set (equivalents db)" and "distinct (map debt_key (debts db))"
    and sides: "(me, peer) \<in> {(debtor_id, creditor_id), (creditor_id, debtor_id)}"
    and m: "m = fold (\<lambda>d. AList.update (peer d, code_of (debt_equivalent d) db) (debt_amount d)) (filter (\<lambda>d. me d = p) (debts db)) []"
  shows "d \<in> set (debts db) \<Longrightarrow> me d = p \<Longrightarrow> peer d = y \<Longrightarrow> debt_equivalent d = equiv_id q \<Longrightarrow> peer_get m y (equiv_code q) = debt_amount d"
    and "(\<And>d. d \<in> set (debts db) \<Longrightarrow> me d = p \<Longrightarrow> peer d = y \<Longrightarrow> debt_equivalent d \<noteq> equiv_id q) \<Longrightarrow> peer_get m y (equiv_code q) = 0"
    and "(y, equiv_code q) \<in> fst ` set m \<longleftrightarrow> (\<exists>d \<in> set (debts db). me d = p \<and> peer d = y \<and> debt_equivalent d = equiv_id q)"
proof -
  let ?k = "\<lambda>d. (peer d, code_of (debt_equivalent d) db)" and ?ds = "filter (\<lambda>d. me d = p) (debts db)"
  have code: "code_of (debt_equivalent d) db = equiv_code q \<longleftrightarrow> debt_equivalent d = equiv_id q" if "d \<in> set (debts db)" for d
    using code_of_iff [OF assms(1) references_okD(3) [OF assms(1) that] assms(2)] .
  have keys: "fst ` set m = ?k ` set ?ds" by (simp only: m fold_update_keys) simp
  have "(y, equiv_code q) \<in> ?k ` set ?ds \<longleftrightarrow> (\<exists>d \<in> set (debts db). me d = p \<and> peer d = y \<and> code_of (debt_equivalent d) db = equiv_code q)"
    by auto
  then show mem: "(y, equiv_code q) \<in> fst ` set m \<longleftrightarrow> (\<exists>d \<in> set (debts db). me d = p \<and> peer d = y \<and> debt_equivalent d = equiv_id q)"
    using code keys by auto
  have same: "debt_equivalent a = debt_equivalent b" if "a \<in> set (debts db)" "b \<in> set (debts db)"
    "code_of (debt_equivalent a) db = code_of (debt_equivalent b) db" for a b
  proof -
    have "debt_equivalent b \<in> equiv_id ` set (equivalents db)" by (rule references_okD(3) [OF assms(1) that(2)])
    then obtain r :: equivalent where "r \<in> set (equivalents db)" "debt_equivalent b = equiv_id r" by auto
    then show ?thesis
      using code_of_iff [OF assms(1) references_okD(3) [OF assms(1) that(1)], of r] code_of_equiv(2) [OF assms(1), of r] that(3) by simp
  qed
  have "distinct (map ?k ?ds)"
  proof -
    have "inj_on ?k (set ?ds)"
    proof (rule inj_onI)
      fix a b assume ab: "a \<in> set ?ds" "b \<in> set ?ds" "?k a = ?k b"
      then have "debt_key a = debt_key b" using same [of a b] sides by (auto simp: debt_key_def)
      then show "a = b" using assms(3) ab(1,2) by (auto simp: distinct_map dest: inj_onD)
    qed
    then show ?thesis using assms(3) by (simp add: distinct_map)
  qed
  note lookup = fold_update_lookup [OF this, where v = debt_amount and m = "[]"]
  show "peer_get m y (equiv_code q) = debt_amount d" if "d \<in> set (debts db)" "me d = p" "peer d = y" "debt_equivalent d = equiv_id q" for d
  proof -
    have "map_of m (?k d) = Some (debt_amount d)" using lookup [of d] that(1,2) by (simp add: m)
    then show ?thesis using code [OF that(1)] that(3,4) by (simp add: peer_get_def)
  qed
  show "peer_get m y (equiv_code q) = 0" if "\<And>d. d \<in> set (debts db) \<Longrightarrow> me d = p \<Longrightarrow> peer d = y \<Longrightarrow> debt_equivalent d \<noteq> equiv_id q"
  proof -
    have "map_of m (y, equiv_code q) = None" using mem that by (auto simp: map_of_eq_None_iff)
    then show ?thesis by (simp add: peer_get_def)
  qed
qed

lemma peer_debts:
  assumes "references_ok db" and "q \<in> set (equivalents db)" and wf: "debts_wf db"
  shows "peer_get (debts_i_owe p db) y (equiv_code q) = owes db p y (equiv_id q)"
    and "peer_get (debts_others_owe p db) y (equiv_code q) = owes db y p (equiv_id q)"
    and "(y, equiv_code q) \<in> fst ` set (debts_i_owe p db) \<longleftrightarrow> 0 < owes db p y (equiv_id q)"
    and "(y, equiv_code q) \<in> fst ` set (debts_others_owe p db) \<longleftrightarrow> 0 < owes db y p (equiv_id q)"
proof -
  have dist: "distinct (map debt_key (debts db))" using wf by (simp add: debts_wf_def)
  note out = peer_get_owes [OF assms(1,2) dist _ debts_i_owe_def [of p db, unfolded debts_of_def], simplified]
  note inc = peer_get_owes [OF assms(1,2) dist _ debts_others_owe_def [of p db, unfolded debts_to_def], simplified]
  have row: "(0 < owes db x z e \<longleftrightarrow> (\<exists>d \<in> set (debts db). debtor_id d = x \<and> creditor_id d = z \<and> debt_equivalent d = e))
      \<and> (\<forall>d \<in> set (debts db). debtor_id d = x \<and> creditor_id d = z \<and> debt_equivalent d = e \<longrightarrow> owes db x z e = debt_amount d)" for x z e
  proof -
    have amount: "owes db x z e = debt_amount d" "0 < debt_amount d"
      if "d \<in> set (debts db)" "debtor_id d = x" "creditor_id d = z" "debt_equivalent d = e" for d
      using owes_row [OF wf that(1)] that wf by (auto simp: debts_wf_def)
    have "\<exists>d \<in> set (debts db). debtor_id d = x \<and> creditor_id d = z \<and> debt_equivalent d = e" if "0 < owes db x z e"
      using that by (rule owes_posD [OF wf]) (auto simp: get_debt_iff [OF wf] debt_key_def)
    then show ?thesis using amount by auto
  qed
  have zero: "owes db x z e = 0" if "\<not> 0 < owes db x z e" for x z e using owes_nonneg [OF wf, of x z e] that by simp
  show "peer_get (debts_i_owe p db) y (equiv_code q) = owes db p y (equiv_id q)"
    using out(1,2) [where y = y] row [of p y "equiv_id q"] zero [of p y "equiv_id q"] by (cases "0 < owes db p y (equiv_id q)") auto
  show "peer_get (debts_others_owe p db) y (equiv_code q) = owes db y p (equiv_id q)"
    using inc(1,2) [where y = y] row [of y p "equiv_id q"] zero [of y p "equiv_id q"] by (cases "0 < owes db y p (equiv_id q)") auto
  show "(y, equiv_code q) \<in> fst ` set (debts_i_owe p db) \<longleftrightarrow> 0 < owes db p y (equiv_id q)"
    using out(3) row [of p y "equiv_id q"] by auto
  show "(y, equiv_code q) \<in> fst ` set (debts_others_owe p db) \<longleftrightarrow> 0 < owes db y p (equiv_id q)"
    using inc(3) row [of y p "equiv_id q"] by auto
qed

section \<open>Capacities\<close>

text \<open>The lines towards the peers and the debts without a line together make up one sum over all peers.\<close>

lemma capacity_sum:
  fixes cap :: "uuid \<Rightarrow> amount"
  assumes "finite P" and "distinct ks" and "distinct (map peer (filter (\<lambda>t. ct t = c) ls))"
    and line: "\<And>t. t \<in> set ls \<Longrightarrow> ct t = c \<Longrightarrow> w t = cap (peer t) \<and> peer t \<in> P"
    and lineless: "\<And>y. (y, c) \<notin> (\<lambda>t. (peer t, ct t)) ` set ls \<Longrightarrow> (y, c) \<in> set ks \<Longrightarrow> v y = cap y \<and> y \<in> P"
    and rest: "\<And>y. y \<in> P \<Longrightarrow> (y, c) \<notin> (\<lambda>t. (peer t, ct t)) ` set ls \<Longrightarrow> (y, c) \<notin> set ks \<Longrightarrow> cap y = 0"
  shows "(\<Sum>t\<leftarrow>ls. if ct t = c then w t else 0)
    + (\<Sum>k\<leftarrow>ks. if k \<notin> (\<lambda>t. (peer t, ct t)) ` set ls \<and> snd k = c then v (fst k) else 0) = (\<Sum>y\<in>P. cap y)"
proof -
  let ?A = "peer ` {t \<in> set ls. ct t = c}" and ?proc = "(\<lambda>t. (peer t, ct t)) ` set ls"
  let ?K = "{k \<in> set ks. k \<notin> ?proc \<and> snd k = c}"
  have proc: "(y, c) \<in> ?proc \<longleftrightarrow> y \<in> ?A" for y by auto
  have "(\<Sum>t\<leftarrow>ls. if ct t = c then w t else 0) = (\<Sum>t\<leftarrow>filter (\<lambda>t. ct t = c) ls. cap (peer t))"
    using line by (simp add: sum_list_map_filter' cong: map_cong if_cong)
  also have "\<dots> = sum_list (map cap (map peer (filter (\<lambda>t. ct t = c) ls)))" by (simp add: comp_def)
  also have "\<dots> = sum cap ?A" using sum_list_distinct_conv_sum_set [OF assms(3), of cap] by simp
  finally have one: "(\<Sum>t\<leftarrow>ls. if ct t = c then w t else 0) = sum cap ?A" .
  have "(\<Sum>k\<leftarrow>ks. if k \<notin> ?proc \<and> snd k = c then v (fst k) else 0) = (\<Sum>k\<in>set ks. if k \<notin> ?proc \<and> snd k = c then v (fst k) else 0)"
    using sum_list_distinct_conv_sum_set [OF assms(2)] by simp
  also have "\<dots> = (\<Sum>k\<in>?K. v (fst k))" by (simp add: sum.inter_filter)
  also have "\<dots> = (\<Sum>k\<in>?K. cap (fst k))" using lineless by (intro sum.cong) auto
  also have "\<dots> = sum cap (fst ` ?K)" by (subst sum.reindex) (auto simp: inj_on_def)
  finally have two: "(\<Sum>k\<leftarrow>ks. if k \<notin> ?proc \<and> snd k = c then v (fst k) else 0) = sum cap (fst ` ?K)" .
  have "sum cap ?A + sum cap (fst ` ?K) = sum cap (?A \<union> fst ` ?K)" using proc by (intro sum.union_disjoint [symmetric]) auto
  also have "\<dots> = sum cap P"
  proof (rule sum.mono_neutral_left [OF assms(1)])
    show "?A \<union> fst ` ?K \<subseteq> P" using line lineless by fastforce
    show "\<forall>y \<in> P - (?A \<union> fst ` ?K). cap y = 0"
    proof
      fix y assume y: "y \<in> P - (?A \<union> fst ` ?K)"
      then have "(y, c) \<notin> ?proc" using proc by blast
      moreover from this y have "(y, c) \<notin> set ks" by force
      ultimately show "cap y = 0" using rest y by blast
    qed
  qed
  finally show ?thesis using one two by simp
qed

lemma line_capacity:
  assumes "references_ok db" and "ledger_inv db" and "q \<in> set (equivalents db)"
  shows "spend_capacity (entry_of (equivalents_map p db) (equiv_code q))
      = (\<Sum>y \<in> part_id ` set (participants db). segment_capacity p y (equiv_id q) db)"
    and "receive_capacity (entry_of (equivalents_map p db) (equiv_code q))
      = (\<Sum>y \<in> part_id ` set (participants db). segment_capacity y p (equiv_id q) db)"
proof -
  note tables = tables_wfD [OF ledger_invD(1) [OF assms(2)]]
  note peers = peer_debts [OF assms(1,3) tables(1)]
  let ?c = "equiv_code q" and ?e = "equiv_id q" and ?ct = "\<lambda>t. code_of (tl_equivalent t) db" and ?P = "part_id ` set (participants db)"
  have ct: "?ct t = ?c \<longleftrightarrow> tl_equivalent t = ?e" if "t \<in> set (trust_lines db)" for t
    using code_of_iff [OF assms(1) references_okD(1) [OF assms(1) that] assms(3)] .
  have lim: "active_limit (tl_from t) (tl_to t) ?e db = tl_limit t"
    if "t \<in> set (trust_lines db)" "tl_status t = Active" "tl_equivalent t = ?e" for t
    using get_active_line_iff [OF tables(2), of "tl_from t" "tl_to t" ?e t] that by (simp add: active_limit_def tl_key_def)
  have no_lim: "active_limit x y ?e db = 0" if "\<And>t. t \<in> set (trust_lines db) \<Longrightarrow> tl_key t = (x, y, ?e) \<Longrightarrow> tl_status t \<noteq> Active" for x y
    using that get_active_line_iff [OF tables(2), of x y ?e] by (auto simp: active_limit_def split: option.splits)
  have kept: "owes db x y ?e \<le> active_limit y x ?e db" for x y
    using ledger_invD(3) [OF assms(2)] by (simp add: limits_kept_def within_limit_def)
  have pos: "0 \<le> owes db x y ?e" for x y by (rule owes_nonneg [OF tables(1)])
  have in_P: "x \<in> ?P \<and> y \<in> ?P" if "0 < owes db x y ?e" for x y
    using that by (rule owes_posD [OF tables(1)]) (use references_okD(4) [OF assms(1)] in \<open>auto simp: get_debt_iff [OF tables(1)] debt_key_def\<close>)
  have live: "inj_on tl_key {t \<in> set (trust_lines db). tl_status t \<noteq> Closed}" "distinct (trust_lines db)"
    using tables(2) by (auto simp: trust_lines_wf_def distinct_map)
  have uniq: "x = y" if "x \<in> set (trust_lines db)" "y \<in> set (trust_lines db)" "tl_status x = Active" "tl_status y = Active"
    "tl_from x = tl_from y" "tl_to x = tl_to y" "tl_equivalent x = tl_equivalent y" for x y
    using inj_onD [OF live(1), of x y] that by (simp add: tl_key_def)
  have keys: "(y, ?c) \<in> set (all_peers_equivalents p db) \<longleftrightarrow> 0 < owes db p y ?e \<or> 0 < owes db y p ?e" for y
    using peers(3,4) by (auto simp: all_peers_equivalents_def)
  have vals: "spend_on p db l y ?c = l - owes db p y ?e + owes db y p ?e" "receive_on p db l y ?c = l - owes db y p ?e + owes db p y ?e" for l y
    by (simp_all add: spend_on_def receive_on_def peers)
  have "(\<Sum>t\<leftarrow>lines_in p db. if ?ct t = ?c then spend_on p db (tl_limit t) (tl_from t) (?ct t) else 0)
      + (\<Sum>k\<leftarrow>all_peers_equivalents p db. if k \<notin> (\<lambda>t. (tl_from t, ?ct t)) ` set (lines_in p db) \<and> snd k = ?c
           then max 0 (spend_on p db 0 (fst k) ?c) else 0) = (\<Sum>y \<in> ?P. segment_capacity p y ?e db)"
  proof (rule capacity_sum)
    show "distinct (map tl_from (filter (\<lambda>t. ?ct t = ?c) (lines_in p db)))"
      using live ct by (auto simp: distinct_map lines_in_def intro!: inj_onI uniq)
    show "spend_on p db (tl_limit t) (tl_from t) (?ct t) = (\<lambda>y. segment_capacity p y ?e db) (tl_from t) \<and> tl_from t \<in> ?P"
      if "t \<in> set (lines_in p db)" "?ct t = ?c" for t
      using that lim [of t] ct [of t] references_okD(2) [OF assms(1), of t] by (auto simp: lines_in_def vals segment_capacity_def)
    have none: "active_limit y p ?e db = 0" if "(y, ?c) \<notin> (\<lambda>t. (tl_from t, ?ct t)) ` set (lines_in p db)" for y
      using that code_of_equiv(2) [OF assms(1,3)] by (intro no_lim) (force simp: lines_in_def tl_key_def image_iff)
    show "max 0 (spend_on p db 0 y ?c) = segment_capacity p y ?e db \<and> y \<in> ?P"
      if "(y, ?c) \<notin> (\<lambda>t. (tl_from t, ?ct t)) ` set (lines_in p db)" "(y, ?c) \<in> set (all_peers_equivalents p db)" for y
      using none [OF that(1)] kept [of p y] pos [of y p] in_P that(2) keys [of y] by (auto simp: vals segment_capacity_def)
    show "segment_capacity p y ?e db = 0"
      if "(y, ?c) \<notin> (\<lambda>t. (tl_from t, ?ct t)) ` set (lines_in p db)" "(y, ?c) \<notin> set (all_peers_equivalents p db)" for y
      using none [OF that(1)] that(2) keys [of y] pos [of p y] pos [of y p] by (auto simp: segment_capacity_def not_less)
  qed (simp_all add: all_peers_equivalents_def)
  then show "spend_capacity (entry_of (equivalents_map p db) ?c) = (\<Sum>y \<in> ?P. segment_capacity p y ?e db)"
    by (simp add: equivalents_map_entry(3) processed_spend_def)
  have "(\<Sum>t\<leftarrow>lines_out p db. if ?ct t = ?c then receive_on p db (tl_limit t) (tl_to t) (?ct t) else 0)
      + (\<Sum>k\<leftarrow>all_peers_equivalents p db. if k \<notin> (\<lambda>t. (tl_to t, ?ct t)) ` set (lines_out p db) \<and> snd k = ?c
           then max 0 (receive_on p db 0 (fst k) ?c) else 0) = (\<Sum>y \<in> ?P. segment_capacity y p ?e db)"
  proof (rule capacity_sum)
    show "distinct (map tl_to (filter (\<lambda>t. ?ct t = ?c) (lines_out p db)))"
      using live ct by (auto simp: distinct_map lines_out_def intro!: inj_onI uniq)
    show "receive_on p db (tl_limit t) (tl_to t) (?ct t) = (\<lambda>y. segment_capacity y p ?e db) (tl_to t) \<and> tl_to t \<in> ?P"
      if "t \<in> set (lines_out p db)" "?ct t = ?c" for t
      using that lim [of t] ct [of t] references_okD(2) [OF assms(1), of t] by (auto simp: lines_out_def vals segment_capacity_def)
    have none: "active_limit p y ?e db = 0" if "(y, ?c) \<notin> (\<lambda>t. (tl_to t, ?ct t)) ` set (lines_out p db)" for y
      using that code_of_equiv(2) [OF assms(1,3)] by (intro no_lim) (force simp: lines_out_def tl_key_def image_iff)
    show "max 0 (receive_on p db 0 y ?c) = segment_capacity y p ?e db \<and> y \<in> ?P"
      if "(y, ?c) \<notin> (\<lambda>t. (tl_to t, ?ct t)) ` set (lines_out p db)" "(y, ?c) \<in> set (all_peers_equivalents p db)" for y
      using none [OF that(1)] kept [of y p] pos [of p y] in_P that(2) keys [of y] by (auto simp: vals segment_capacity_def)
    show "segment_capacity y p ?e db = 0"
      if "(y, ?c) \<notin> (\<lambda>t. (tl_to t, ?ct t)) ` set (lines_out p db)" "(y, ?c) \<notin> set (all_peers_equivalents p db)" for y
      using none [OF that(1)] that(2) keys [of y] pos [of p y] pos [of y p] by (auto simp: segment_capacity_def not_less)
  qed (simp_all add: all_peers_equivalents_def)
  then show "receive_capacity (entry_of (equivalents_map p db) ?c) = (\<Sum>y \<in> ?P. segment_capacity y p ?e db)"
    by (simp add: equivalents_map_entry(4) processed_receive_def)
qed

section \<open>The summary\<close>

lemma equivalents_map_keys:
  "fst ` set (equivalents_map p db) = (\<lambda>e. code_of e db) `
     (debt_equivalent ` set (debts_of p db @ debts_to p db) \<union> tl_equivalent ` set (lines_in p db @ lines_out p db))"
proof -
  let ?cd = "\<lambda>d. code_of (debt_equivalent d) db" and ?ct = "\<lambda>t. code_of (tl_equivalent t) db"
  have lineless: "fst ` set (fold (add_lineless p db) ks m) = fst ` set m" if "snd ` set ks \<subseteq> fst ` set m" for ks m
    using that
  proof (induction ks arbitrary: m)
    case (Cons k ks)
    then have "fst ` set (add_lineless p db k m) = fst ` set m" by (auto simp: add_lineless_def Let_def dom_add_to)
    then show ?case using Cons by simp
  qed simp
  have adds: "fst ` set (fold (\<lambda>x. add_to field (g x) (v x)) xs m) = g ` set xs \<union> fst ` set m" for field g v m and xs :: "'r list"
    by (induction xs arbitrary: m) (simp_all add: dom_add_to)
  have "snd ` set (all_peers_equivalents p db) = ?cd ` set (debts_of p db @ debts_to p db)"
    by (simp add: all_peers_equivalents_def debts_i_owe_def debts_others_owe_def fold_update_keys image_Un image_image)
  then show ?thesis
    unfolding equivalents_map_def Let_def by (subst lineless) (auto simp: adds)
qed

lemma distinct_equivalents_map: "distinct (map fst (equivalents_map p db))"
  unfolding equivalents_map_def Let_def
  by (intro fold_distinct distinct_add_to) (auto simp: add_lineless_def Let_def intro!: distinct_add_to)

lemma summary_totals:
  assumes "references_ok db" and "q \<in> set (equivalents db)"
  shows "total_debt (entry_of (equivalents_map p db) (equiv_code q)) = debt_total p (equiv_id q) db"
    and "total_credit (entry_of (equivalents_map p db) (equiv_code q)) = credit_total p (equiv_id q) db"
proof -
  have code: "code_of (debt_equivalent d) db = equiv_code q \<longleftrightarrow> debt_equivalent d = equiv_id q" if "d \<in> set (debts db)" for d
    using code_of_iff [OF assms(1) references_okD(3) [OF assms(1) that] assms(2)] .
  have "(\<Sum>d\<leftarrow>filter P (debts db). if code_of (debt_equivalent d) db = equiv_code q then debt_amount d else 0)
      = sql_sum (\<lambda>d. P d \<and> debt_equivalent d = equiv_id q) debt_amount (debts db)" for P
    unfolding sql_sum_def sum_list_map_filter' using code code_of_equiv(2) [OF assms] by (intro arg_cong [where f = sum_list] map_cong refl) auto
  then show "total_debt (entry_of (equivalents_map p db) (equiv_code q)) = debt_total p (equiv_id q) db"
    and "total_credit (entry_of (equivalents_map p db) (equiv_code q)) = credit_total p (equiv_id q) db"
    by (simp_all add: equivalents_map_entry debts_of_def debts_to_def debt_total_def credit_total_def)
qed

text \<open>The equivalents of the rows the summary reads.\<close>

definition summary_ids :: "uuid \<Rightarrow> db \<Rightarrow> uuid list" where
  "summary_ids p db = map debt_equivalent (debts_of p db @ debts_to p db) @ map tl_equivalent (lines_in p db @ lines_out p db)"

lemma summary_ids_known:
  assumes "references_ok db" and "e \<in> set (summary_ids p db)"
  shows "e \<in> equiv_id ` set (equivalents db)"
  using assms(2) references_okD(1,3) [OF assms(1)]
  by (auto simp: summary_ids_def debts_of_def debts_to_def lines_in_def lines_out_def)

lemma summary_codes: "fst ` set (equivalents_map p db) = (\<lambda>e. code_of e db) ` set (summary_ids p db)"
  by (simp add: equivalents_map_keys summary_ids_def image_Un Un_assoc)

lemma segment_capacity_nonneg:
  assumes "ledger_inv db"
  shows "0 \<le> segment_capacity x y e db"
proof -
  have "owes db x y e \<le> active_limit y x e db" using ledger_invD(3) [OF assms] by (simp add: limits_kept_def within_limit_def)
  then show ?thesis
    using owes_nonneg [OF tables_wfD(1) [OF ledger_invD(1) [OF assms]], of y x e] by (simp add: segment_capacity_def)
qed

lemma summary_row:
  assumes "references_ok db" and "ledger_inv db" and "x \<in> set (equivalents_map p db)"
  shows "\<exists>q \<in> set (equivalents db). be_code (balance_row x) = equiv_code q
       \<and> be_total_debt (balance_row x) = debt_total p (equiv_id q) db \<and> be_total_credit (balance_row x) = credit_total p (equiv_id q) db
       \<and> be_net_balance (balance_row x) = calculate_net_position p (equiv_id q) db
       \<and> be_available_to_spend (balance_row x) = (\<Sum>y \<in> part_id ` set (participants db). segment_capacity p y (equiv_id q) db)
       \<and> be_available_to_receive (balance_row x) = (\<Sum>y \<in> part_id ` set (participants db). segment_capacity y p (equiv_id q) db)"
proof -
  have "fst x \<in> (\<lambda>e. code_of e db) ` set (summary_ids p db)" unfolding summary_codes [symmetric] using assms(3) by (rule imageI)
  then obtain e where "e \<in> set (summary_ids p db)" "fst x = code_of e db" by blast
  then obtain q :: equivalent where q: "q \<in> set (equivalents db)" "fst x = equiv_code q"
    using summary_ids_known [OF assms(1), of e p] code_of_equiv(2) [OF assms(1)] by auto
  have entry: "entry_of (equivalents_map p db) (equiv_code q) = snd x"
    using distinct_equivalents_map [of p db] assms(3) q(2) by (cases x) (simp add: entry_of_def)
  then show ?thesis
    using q summary_totals [OF assms(1) q(1), of p] line_capacity [OF assms(1,2) q(1), of p] segment_capacity_nonneg [OF assms(2)]
    by (intro bexI [OF _ q(1)]) (auto simp: balance_row_def Let_def calculate_net_position_def intro!: max_absorb2 sum_nonneg)
qed

text \<open>
  C35. The balance summary agrees with the ledger and with the engine. On a ledger that keeps its
  invariant, the summary of a participant has one row for each equivalent in which they have a
  debt, a claim or an active trust line, and no other. The row shows what they owe, what they are
  owed, and their net position as the invariant checker computes it; what is available to spend is
  the sum of the engine's capacities of the segments from them to every participant, what is
  available to receive the sum of the capacities of the segments towards them. The line that counts
  for a segment from the participant to N is the one N gave to the participant, in the summary as
  in the engine. The docstring of \<^verbatim>\<open>get_summary\<close> says the opposite: it derives what is available to
  spend from the limits of the lines from the participant to the others, which are the lines the
  code adds to what is available to receive.
\<close>

theorem balance_summary_matches_engine:
  assumes "references_ok db" and "ledger_inv db"
  shows "\<exists>rows. compute_summary p db = Inr rows \<and> distinct (map be_code rows)
    \<and> (\<forall>q \<in> set (equivalents db). equiv_code q \<in> be_code ` set rows \<longleftrightarrow>
         (\<exists>d \<in> set (debts db). debt_equivalent d = equiv_id q \<and> p \<in> {debtor_id d, creditor_id d})
         \<or> (\<exists>t \<in> set (trust_lines db). tl_equivalent t = equiv_id q \<and> tl_status t = Active \<and> p \<in> {tl_from t, tl_to t}))
    \<and> (\<forall>r \<in> set rows. \<exists>q \<in> set (equivalents db). be_code r = equiv_code q
         \<and> be_total_debt r = debt_total p (equiv_id q) db \<and> be_total_credit r = credit_total p (equiv_id q) db
         \<and> be_net_balance r = calculate_net_position p (equiv_id q) db
         \<and> be_available_to_spend r = (\<Sum>y \<in> part_id ` set (participants db). segment_capacity p y (equiv_id q) db)
         \<and> be_available_to_receive r = (\<Sum>y \<in> part_id ` set (participants db). segment_capacity y p (equiv_id q) db))"
proof -
  let ?m = "equivalents_map p db"
  have "get_equivalent_by_id e db \<noteq> None" if "e \<in> set (summary_ids p db)" for e
    using summary_ids_known [OF assms(1) that] code_of_equiv(1) [OF assms(1)] by auto
  then have run: "compute_summary p db = Inr (map balance_row ?m)"
    by (auto simp: compute_summary_def list_ex_iff summary_ids_def)
  have keys: "equiv_code q \<in> fst ` set ?m \<longleftrightarrow> equiv_id q \<in> set (summary_ids p db)" if "q \<in> set (equivalents db)" for q
  proof -
    have "equiv_code q \<in> fst ` set ?m \<longleftrightarrow> (\<exists>e \<in> set (summary_ids p db). equiv_code q = code_of e db)"
      unfolding summary_codes image_iff ..
    then show ?thesis using code_of_iff [OF assms(1) summary_ids_known [OF assms(1)] that] by metis
  qed
  have codes: "map be_code (map balance_row ?m) = map fst ?m" by (simp add: balance_row_def Let_def comp_def)
  then have image: "be_code ` set (map balance_row ?m) = fst ` set ?m" by (metis set_map)
  have "equiv_id q \<in> set (summary_ids p db) \<longleftrightarrow> (\<exists>d \<in> set (debts db). debt_equivalent d = equiv_id q \<and> p \<in> {debtor_id d, creditor_id d})
         \<or> (\<exists>t \<in> set (trust_lines db). tl_equivalent t = equiv_id q \<and> tl_status t = Active \<and> p \<in> {tl_from t, tl_to t})" for q :: equivalent
    by (auto simp: summary_ids_def debts_of_def debts_to_def lines_in_def lines_out_def image_iff)
  then show ?thesis
    using run summary_row [OF assms] keys distinct_equivalents_map [of p db]
    by (intro exI [of _ "map balance_row ?m"] conjI ballI) (simp_all only: codes image, auto)
qed

theorem balance_summary_matches_engine_witness:
  "\<exists>rows r. compute_summary 5 sample_db = Inr rows \<and> r \<in> set rows \<and> be_code r = ''UAH''
    \<and> be_total_credit r = 4 \<and> be_net_balance r = 4 \<and> be_available_to_spend r = 104 \<and> be_available_to_receive r = 26"
proof -
  have refs: "references_ok sample_db" by (simp add: references_ok_def sample_line_def sample_debt_def)
  from balance_summary_matches_engine [OF refs sample_ledger_inv, of 5]
  obtain rows where rows: "compute_summary 5 sample_db = Inr rows"
    and some: "\<forall>q \<in> set (equivalents sample_db). equiv_code q \<in> be_code ` set rows \<longleftrightarrow>
         (\<exists>d \<in> set (debts sample_db). debt_equivalent d = equiv_id q \<and> 5 \<in> {debtor_id d, creditor_id d})
         \<or> (\<exists>t \<in> set (trust_lines sample_db). tl_equivalent t = equiv_id q \<and> tl_status t = Active \<and> 5 \<in> {tl_from t, tl_to t})"
    and all: "\<forall>r \<in> set rows. \<exists>q \<in> set (equivalents sample_db). be_code r = equiv_code q
         \<and> be_total_debt r = debt_total 5 (equiv_id q) sample_db \<and> be_total_credit r = credit_total 5 (equiv_id q) sample_db
         \<and> be_net_balance r = calculate_net_position 5 (equiv_id q) sample_db
         \<and> be_available_to_spend r = (\<Sum>y \<in> part_id ` set (participants sample_db). segment_capacity 5 y (equiv_id q) sample_db)
         \<and> be_available_to_receive r = (\<Sum>y \<in> part_id ` set (participants sample_db). segment_capacity y 5 (equiv_id q) sample_db)"
    by blast
  from some obtain r where r: "r \<in> set rows" "be_code r = ''UAH''" by (auto simp: sample_debt_def)
  with all have "be_total_credit r = 4 \<and> be_net_balance r = 4 \<and> be_available_to_spend r = 104 \<and> be_available_to_receive r = 26"
    by (auto simp: sample_capacity calculate_net_position_def credit_total_def debt_total_def sample_debt_def)
  with rows r show ?thesis by blast
qed

section \<open>The cache\<close>

text \<open>
  Every cached summary was true when it was stored: \<open>hist t\<close> is the database at time \<open>t\<close>.
\<close>

definition cache_holds :: "(timestamp \<Rightarrow> db) \<Rightarrow> timestamp \<Rightarrow> summary_cache \<Rightarrow> bool" where
  "cache_holds hist now c \<longleftrightarrow> distinct (map fst c) \<and> (\<forall>(p, t, s) \<in> set c. t \<le> now \<and> compute_summary p (hist t) = Inr s)"

lemma set_delete: "set (AList.delete k c) \<subseteq> set c"
  by (auto simp: AList.delete_eq)

lemma set_update: "set (AList.update k v c) \<subseteq> insert (k, v) (set c)"
  by (induction c) auto

lemma move_to_end_props:
  assumes "distinct (map fst c)"
  shows "distinct (map fst (move_to_end k c))" and "set (move_to_end k c) \<subseteq> set c" and "length (move_to_end k c) = length c"
proof -
  have "set (AList.delete k c @ [(k, v)]) \<subseteq> set c \<and> distinct (map fst (AList.delete k c @ [(k, v)])) \<and> length (AList.delete k c @ [(k, v)]) = length c"
    if "map_of c k = Some v" for v
  proof -
    have "length (AList.delete k c) + 1 = length c" using assms that by (induction c) (auto split: if_splits)
    then show ?thesis using assms that set_delete [of k c] by (auto simp: delete_keys distinct_removeAll dest: map_of_SomeD)
  qed
  then show "distinct (map fst (move_to_end k c))" "set (move_to_end k c) \<subseteq> set c" "length (move_to_end k c) = length c"
    using assms by (auto simp: move_to_end_def split: option.splits)
qed

lemma cache_holds_mono:
  assumes "cache_holds hist now c" and "set c' \<subseteq> set c" and "distinct (map fst c')"
  shows "cache_holds hist now c'"
  using assms by (auto simp: cache_holds_def)

lemma get_cached_cases:
  assumes "cache_holds hist now c"
  obtains (hit) s c1 t where "get_cached_summary cfg now p c = (Some s, c1)" and "compute_summary p (hist t) = Inr s"
      and "t \<le> now" and "now - summary_ttl cfg \<le> t" and "0 < summary_ttl cfg" and "cache_holds hist now c1" and "length c1 = length c"
  | (miss) c1 where "get_cached_summary cfg now p c = (None, c1)" and "cache_holds hist now c1" and "length c1 \<le> length c"
proof -
  have dist: "distinct (map fst c)" using assms by (simp add: cache_holds_def)
  note moved = move_to_end_props [OF dist, of p]
  show ?thesis
  proof (cases "0 < summary_ttl cfg \<and> map_of c p \<noteq> None")
    case True
    then obtain t s where found: "map_of c p = Some (t, s)" by auto
    then have old: "t \<le> now" "compute_summary p (hist t) = Inr s" using assms by (auto simp: cache_holds_def dest: map_of_SomeD)
    show ?thesis
    proof (cases "summary_ttl cfg < now - t")
      case True
      then show ?thesis
        using found \<open>0 < summary_ttl cfg \<and> map_of c p \<noteq> None\<close> cache_holds_mono [OF assms set_delete distinct_delete [OF dist], of p]
        by (intro miss [of "AList.delete p c"]) (auto simp: get_cached_summary_def length_delete_le)
    next
      case False
      then show ?thesis
        using found old True moved cache_holds_mono [OF assms moved(2,1)] by (intro hit [of s "move_to_end p c" t]) (auto simp: get_cached_summary_def)
    qed
  next
    case False
    then show ?thesis using assms by (intro miss [of c]) (auto simp: get_cached_summary_def split: option.splits)
  qed
qed

lemma set_cached_holds:
  fixes cfg :: balance_settings
  assumes "cache_holds hist now c" and "compute_summary p (hist now) = Inr s"
  defines "bound \<equiv> if summary_max_entries cfg = 0 then 1024 else summary_max_entries cfg"
  shows "cache_holds hist now (set_cached_summary cfg now p s c)"
    and "0 < bound \<Longrightarrow> int (length c) \<le> bound \<Longrightarrow> int (length (set_cached_summary cfg now p s c)) \<le> bound"
proof -
  let ?c0 = "AList.update p (now, s) c" and ?c1 = "move_to_end p (AList.update p (now, s) c)"
  have dist: "distinct (map fst ?c0)" using assms(1) by (simp add: cache_holds_def distinct_update)
  have "cache_holds hist now ?c0" using assms(1,2) dist set_update [of p "(now, s)" c] by (auto simp: cache_holds_def)
  then have held: "cache_holds hist now ?c1" by (rule cache_holds_mono) (use move_to_end_props [OF dist] in auto)
  then have "cache_holds hist now (drop n ?c1)" for n
    by (rule cache_holds_mono) (use held in \<open>auto simp: cache_holds_def distinct_drop simp flip: drop_map dest: in_set_dropD\<close>)
  then show "cache_holds hist now (set_cached_summary cfg now p s c)"
    using held assms(1) by (auto simp: set_cached_summary_def Let_def)
  show "int (length (set_cached_summary cfg now p s c)) \<le> bound" if "0 < bound" "int (length c) \<le> bound"
    using that by (auto simp: set_cached_summary_def Let_def bound_def split: if_splits)
qed

text \<open>
  C36. The summary cache never answers with something older than its time to live, and it never
  grows past its bound. If every cached summary is the one the service would have computed when it
  was stored, then \<^verbatim>\<open>get_summary\<close> answers with the summary of the database as it was at some moment of
  the last \<^verbatim>\<open>ttl\<close> seconds (right now, if the cache is off), the cache stays truthful, and a cache within
  the configured number of entries stays within it.
\<close>

theorem cached_summary_is_recent:
  assumes "cache_holds hist now c"
  shows "(\<exists>t. now - max 0 (summary_ttl cfg) \<le> t \<and> t \<le> now
      \<and> fst (get_summary cfg now p (hist now) c) = compute_summary p (hist t))
    \<and> cache_holds hist now (snd (get_summary cfg now p (hist now) c))
    \<and> (let bound = (if summary_max_entries cfg = 0 then 1024 else summary_max_entries cfg) in
        0 < bound \<and> int (length c) \<le> bound \<longrightarrow> int (length (snd (get_summary cfg now p (hist now) c))) \<le> bound)"
proof -
  let ?bound = "if summary_max_entries cfg = 0 then 1024 else summary_max_entries cfg"
  show ?thesis
    using assms
  proof (cases rule: get_cached_cases [where cfg = cfg and p = p])
    case (hit s c1 t)
    then show ?thesis by (intro conjI exI [of _ t]) (auto simp: get_summary_def Let_def)
  next
    case (miss c1)
    show ?thesis
    proof (cases "compute_summary p (hist now)")
      case (Inl x)
      then show ?thesis using miss by (intro conjI exI [of _ now]) (auto simp: get_summary_def Let_def)
    next
      case (Inr s)
      then show ?thesis
        using miss set_cached_holds [OF miss(2) Inr, of cfg] by (intro conjI exI [of _ now]) (auto simp: get_summary_def Let_def)
    qed
  qed
qed

text \<open>Five seconds after the summary was stored, when the debt has just been paid back.\<close>

theorem cached_summary_is_recent_witness:
  "\<exists>rows (t::timestamp). compute_summary 5 sample_db = Inr rows \<and> 990 \<le> t \<and> t \<le> 1000
    \<and> fst (get_summary \<lparr>summary_ttl = 10, summary_max_entries = 2\<rparr> 1000 5 (sample_db\<lparr>debts := []\<rparr>) [(5, 995, rows)])
       = compute_summary 5 (if t < 1000 then sample_db else sample_db\<lparr>debts := []\<rparr>)"
proof -
  let ?hist = "\<lambda>t::timestamp. if t < 1000 then sample_db else sample_db\<lparr>debts := []\<rparr>"
  obtain rows where rows: "compute_summary 5 sample_db = Inr rows"
    by (simp add: compute_summary_def get_equivalent_by_id_def debts_of_def debts_to_def lines_in_def lines_out_def sample_line_def sample_debt_def)
  then have "cache_holds ?hist 1000 [(5, 995, rows)]" by (simp add: cache_holds_def)
  from cached_summary_is_recent [OF this, of "\<lparr>summary_ttl = 10, summary_max_entries = 2\<rparr>" 5]
  obtain t where "990 \<le> t" "t \<le> 1000"
    and "fst (get_summary \<lparr>summary_ttl = 10, summary_max_entries = 2\<rparr> 1000 5 (?hist 1000) [(5, 995, rows)]) = compute_summary 5 (?hist t)"
    by (elim conjE exE) simp
  then show ?thesis by (intro exI [of _ rows] exI [of _ t] conjI) (simp_all add: rows)
qed

end
