(* ===== verification/Drift_Limits.thy ===== *)
theory Drift_Limits
  imports Trust_Drift Balance_Properties
begin

text \<open>
  The trust drift as an operation on the ledger: what writing a limit does to the hub's invariant,
  the bounds of a grown and of a decayed limit, and what the debt snapshot says of the debts.
\<close>

section \<open>Writing a limit\<close>

lemma active_between_iff: "active_between x y e t \<longleftrightarrow> tl_key t = (x, y, e) \<and> tl_status t = Active"
  by (auto simp: active_between_def tl_key_def)

lemma active_between_unique:
  assumes "trust_lines_wf db" and "t \<in> set (trust_lines db)" "active_between x y e t"
    and "r \<in> set (trust_lines db)" "active_between x y e r"
  shows "r = t"
proof -
  have "distinct (map tl_key (filter (\<lambda>t. tl_status t \<noteq> Closed) (trust_lines db)))"
    using assms(1) by (simp add: trust_lines_wf_def)
  then show ?thesis by (rule distinct_map_unique) (use assms in \<open>auto simp: active_between_iff\<close>)
qed

lemma set_active_limit_rows:
  assumes wf: "trust_lines_wf db" and t: "get_active_line x y e db = Some t"
    and set: "set_active_limit x y e v db = Inr db'"
  shows "db' = update_line (tl_id t) (\<lambda>r. r\<lparr>tl_limit := round8 v\<rparr>) db" and "0 \<le> round8 v" and "\<bar>round8 v\<bar> < 10 ^ 12"
proof -
  have mem: "t \<in> set (trust_lines db)" "active_between x y e t"
    using t by (auto simp: get_active_line_iff [OF wf] active_between_iff)
  have dist: "distinct (map tl_id (trust_lines db))" using wf by (simp add: trust_lines_wf_def)
  have same: "active_between x y e r \<longleftrightarrow> tl_id r = tl_id t" if "r \<in> set (trust_lines db)" for r
    using active_between_unique [OF wf mem that] distinct_map_unique [OF dist that mem(1)] mem(2) by auto
  have "list_ex (active_between x y e) (trust_lines db)" using mem by (auto simp: list_ex_iff)
  with set obtain w where w: "store_numeric ''UPDATE TRUST_LINES'' v = Inr w" "0 \<le> w"
    and db': "db' = db\<lparr>trust_lines := map (\<lambda>t. if active_between x y e t then t\<lparr>tl_limit := w\<rparr> else t) (trust_lines db)\<rparr>"
    by (auto simp: set_active_limit_def split: sum.splits if_splits)
  show "0 \<le> round8 v" "\<bar>round8 v\<bar> < 10 ^ 12" using w by (auto simp: store_numeric_def split: if_splits)
  have "map (\<lambda>t. if active_between x y e t then t\<lparr>tl_limit := w\<rparr> else t) (trust_lines db)
    = upd_row tl_id (tl_id t) (\<lambda>r. r\<lparr>tl_limit := w\<rparr>) (trust_lines db)"
    unfolding upd_row_def by (rule map_cong [OF refl]) (simp add: same)
  then show "db' = update_line (tl_id t) (\<lambda>r. r\<lparr>tl_limit := round8 v\<rparr>) db"
    using store_numeric_Inr(1) [OF w(1)] by (simp add: db' update_line_def)
qed

lemma set_active_limit_none:
  assumes "trust_lines_wf db" and "get_active_line x y e db = None"
  shows "set_active_limit x y e v db = Inr db"
  using assms(2) by (auto simp: set_active_limit_def list_ex_iff get_active_line_def find_None_iff active_between_def)

lemma set_active_limit_effect:
  assumes wf: "trust_lines_wf db" and t: "get_active_line x y e db = Some t"
    and set: "set_active_limit x y e v db = Inr db'"
  shows "trust_lines_wf db'"
    and "active_limit u w e' db' = (if (u, w, e') = (x, y, e) then round8 v else active_limit u w e' db)"
proof -
  note rows = set_active_limit_rows [OF assms]
  have mem: "t \<in> set (trust_lines db)" "tl_key t = (x, y, e)" "tl_status t = Active"
    using t by (auto simp: get_active_line_iff [OF wf])
  have dist: "distinct (map tl_id (trust_lines db))" using wf by (simp add: trust_lines_wf_def)
  have "get_trust_line (tl_id t) db = Some t"
  proof (cases "get_trust_line (tl_id t) db")
    case None
    then show ?thesis using mem(1) by (auto simp: get_trust_line_def find_None_iff)
  next
    case (Some r)
    then have "r \<in> set (trust_lines db)" "tl_id r = tl_id t" by (auto simp: get_trust_line_def dest: find_SomeD)
    then show ?thesis using Some distinct_map_unique [OF dist _ mem(1)] by simp
  qed
  note change = changed_line [OF wf this, of "\<lambda>r. r\<lparr>tl_limit := round8 v\<rparr>" "t\<lparr>tl_limit := round8 v\<rparr>" db']
  show "trust_lines_wf db'" by (rule change(1)) (use mem rows in \<open>simp_all add: tl_key_def update_line_def column_value_def\<close>)
  show "active_limit u w e' db' = (if (u, w, e') = (x, y, e) then round8 v else active_limit u w e' db)"
    by (subst change(2)) (use mem rows in \<open>simp_all add: tl_key_def update_line_def column_value_def\<close>)
qed

text \<open>A limit that covers the debt keeps the ledger.\<close>

lemma set_active_limit_keeps:
  assumes inv: "ledger_inv db" and set: "set_active_limit x y e v db = Inr db'" and v: "owes db y x e \<le> v"
  shows "ledger_inv db'" and "debts db' = debts db" and "equivalents db' = equivalents db"
proof -
  note wf = tables_wfD [OF ledger_invD(1) [OF inv]]
  have "ledger_inv db' \<and> debts db' = debts db \<and> equivalents db' = equivalents db"
  proof (cases "get_active_line x y e db")
    case None
    then show ?thesis using set set_active_limit_none [OF wf(2)] inv by simp
  next
    case (Some t)
    note eff = set_active_limit_effect [OF wf(2) Some set] and rows = set_active_limit_rows [OF wf(2) Some set]
    have owes: "0 \<le> owes db y x e" "on_grid (owes db y x e)" using owes_nonneg [OF wf(1)] ledger_invD(4) [OF inv] by (simp_all add: grid_debts_def)
    have "ledger_inv db'"
    proof (rule lines_change_keeps [OF inv eff(1)])
      show "no_self_lines db'"
        unfolding rows(1) by (rule no_self_upd [OF wf(3)]) (use wf(3) in \<open>auto simp: no_self_lines_def list_all_iff\<close>)
      show "owes db a b e' \<le> active_limit b a e' db'" for a b e'
        using ledger_invD(3) [OF inv] round8_above_grid [OF owes(2) v] v owes(1)
        by (auto simp: eff(2) limits_kept_def within_limit_def)
    qed (simp_all add: rows(1) update_line_def)
    then show ?thesis by (simp add: rows(1) update_line_def)
  qed
  then show "ledger_inv db'" and "debts db' = debts db" and "equivalents db' = equivalents db" by simp_all
qed

lemma cents_on_grid: "cents v \<Longrightarrow> on_grid v"
proof -
  assume "cents v"
  then obtain k where "v * 100 = of_int k" by (auto simp: cents_def elim: Ints_cases)
  then have "v * 10 ^ 8 = of_int (k * 10 ^ 6)" by simp
  then show "on_grid v" unfolding on_grid_def by (metis Ints_of_int)
qed

section \<open>Running over the edges\<close>

lemma run_edges_invariant:
  assumes "\<And>e s r s'. I s \<Longrightarrow> e \<in> set es \<Longrightarrow> f e s = (r, s') \<Longrightarrow> I s'" and "I s" and "run_edges f es s = (r, s')"
  shows "I s'"
  using assms
proof (induction es arbitrary: s r s')
  case (Cons e es)
  obtain r1 s1 where one: "f e s = (r1, s1)" by (cases "f e s")
  have I1: "I s1" using Cons.prems(1) [OF Cons.prems(2) _ one] by simp
  show ?case
  proof (cases r1)
    case (Inl x)
    then show ?thesis using Cons.prems(3) one I1 by simp
  next
    case (Inr u)
    obtain r2 s2 where two: "run_edges f es s1 = (r2, s2)" by (cases "run_edges f es s1")
    have step: "I b'" if "I a'" "x \<in> set es" "f x a' = (y, b')" for x a' y b'
      by (rule Cons.prems(1) [OF that(1) _ that(3)]) (use that(2) in simp)
    have "I s2" by (rule Cons.IH [OF step I1 two])
    moreover have "s' = s2" using Cons.prems(3) one two Inr by (cases r2) simp_all
    ultimately show ?thesis by simp
  qed
qed simp

section \<open>Bounds of the new limits\<close>

lemma cents_nonneg_gap:
  assumes "cents u" and "cents v" and "u < v"
  shows "u + 1 / 100 \<le> v"
proof -
  obtain k m where k: "u * 100 = of_int k" and m: "v * 100 = of_int m" using assms(1,2) by (auto simp: cents_def elim!: Ints_cases)
  have "k < m" using assms(3) k m by (metis mult_less_cancel_right_pos of_int_less_iff zero_less_numeral)
  then have "(of_int k :: rat) + 1 \<le> of_int m" by (metis of_int_1 of_int_add of_int_le_iff zless_imp_add1_zle)
  then show ?thesis unfolding k [symmetric] m [symmetric] by simp
qed

lemma quantize_down_above: "0 \<le> v \<Longrightarrow> quantize round_down 2 v = Inr w \<Longrightarrow> v < w + 1 / 100"
proof -
  assume v: "0 \<le> v" and w: "quantize round_down 2 v = Inr w"
  have "v * 100 < of_int (round_down (v * 100)) + 1" using v floor_correct [of "v * 100"] by (simp add: round_down_def)
  then show "v < w + 1 / 100" using w by (auto simp: quantize_def Let_def field_simps split: if_splits)
qed

text \<open>The cap of a line's limit, as the code computes it.\<close>

definition growth_cap :: "drift_config \<Rightarrow> amount \<Rightarrow> amount" where
  "growth_cap cfg original = sig28 (original * dc_max_growth cfg)"

lemma rate_mult_ge: "0 \<le> g \<Longrightarrow> quantize round_half_even 7 (1 + g) = Inr m \<Longrightarrow> 1 \<le> m"
proof -
  assume g: "0 \<le> g" and m: "quantize round_half_even 7 (1 + g) = Inr m"
  have "round_half_even (of_int (10 ^ 7)) \<le> round_half_even ((1 + g) * 10 ^ 7)" using g by (intro round_half_even_mono) simp
  then have "of_int (10 ^ 7) \<le> (of_int (round_half_even ((1 + g) * 10 ^ 7)) :: rat)" by (simp only: round_half_even_of_int of_int_le_iff)
  then show "1 \<le> m" using m by (auto simp: quantize_def Let_def split: if_splits)
qed

lemma grown_limit_bounds:
  assumes "grown_limit cfg original old = Inr (Some new)" and "0 \<le> dc_growth_rate cfg" and "0 \<le> old" and "old < 10 ^ 12"
    and room: "old \<le> growth_cap cfg original"
  shows "old < new" and "new \<le> growth_cap cfg original" and "cents new"
proof -
  obtain current mult where c: "quantize round_down 2 old = Inr current" and m: "quantize round_half_even 7 (1 + dc_growth_rate cfg) = Inr mult"
    and n: "quantize round_down 2 (min (sig28 (current * mult)) (growth_cap cfg original)) = Inr new" and ne: "new \<noteq> current"
    using assms(1) by (auto simp: grown_limit_def growth_cap_def split: sum.splits if_splits)
  have cur: "0 \<le> current" "current \<le> old" "cents current"
    using quantize_down_le [OF assms(3) c] quantize_cents [OF c] by simp_all
  have "sig28 current \<le> sig28 (current * mult)"
    using cur(1) rate_mult_ge [OF assms(2) m] by (intro sig28_mono) (simp_all add: mult_le_cancel_left1)
  then have low: "current \<le> min (sig28 (current * mult)) (growth_cap cfg original)"
    using sig28_cents [OF cur(3,1)] cur(2) assms(4) room by simp
  then have "0 \<le> min (sig28 (current * mult)) (growth_cap cfg original)" using cur(1) by linarith
  from quantize_down_le [OF this n] show "new \<le> growth_cap cfg original" by simp
  show new: "cents new" by (rule quantize_cents [OF n])
  have "current < new" using quantize_down_ge [OF cur(3,1) low n] ne by simp
  then show "old < new" using cents_nonneg_gap [OF cur(3) new] quantize_down_above [OF assms(3) c] by linarith
qed

lemma decayed_limit_ge:
  assumes "decayed_limit cfg original old debt = Inr (Some new)" and "0 \<le> debt" and "debt < 10 ^ 12"
  shows "debt \<le> new"
proof -
  have "round_up (debt * 10\<^sup>2) \<le> 10 ^ 14" using assms(2,3) by (simp add: round_up_def ceiling_le_iff)
  moreover have "0 \<le> round_up (debt * 10\<^sup>2)" using assms(2) by (simp add: round_up_def)
  ultimately have "quantize round_up 2 debt = Inr (of_int (round_up (debt * 10\<^sup>2)) / 10\<^sup>2)"
    by (simp only: quantize_def Let_def) simp
  then obtain v where v: "quantize round_up 2 debt = Inr v" by blast
  obtain a b where n: "quantize round_down 2 (max (max a b) v) = Inr new"
    using assms(1) v by (auto simp: decayed_limit_def Let_def split: sum.splits option.splits if_splits)
  have "debt \<le> v" by (rule quantize_up_ge [OF assms(2) v])
  moreover have "v \<le> new" by (rule quantize_down_ge [OF quantize_cents [OF v] _ _ n]) (use \<open>debt \<le> v\<close> assms(2) in simp_all)
  ultimately show ?thesis by linarith
qed

section \<open>The snapshot of the debts\<close>

definition put :: "('g \<Rightarrow> 'k option) \<Rightarrow> ('g \<Rightarrow> 'v) \<Rightarrow> 'g \<Rightarrow> ('k \<times> 'v) list \<Rightarrow> ('k \<times> 'v) list" where
  "put key val g m = (case key g of None \<Rightarrow> m | Some k \<Rightarrow> AList.update k (val g) m)"

lemma fold_put_none:
  assumes "\<forall>g \<in> set gs. key g \<noteq> Some k"
  shows "map_of (fold (put key val) gs m) k = map_of m k"
  using assms by (induction gs arbitrary: m) (auto simp: put_def update_conv' split: option.splits)

lemma fold_put_some:
  assumes "g \<in> set gs" and "key g = Some k" and "\<forall>g' \<in> set gs. key g' = Some k \<longrightarrow> g' = g"
  shows "map_of (fold (put key val) gs m) k = Some (val g)"
  using assms
proof (induction gs arbitrary: m)
  case (Cons h gs)
  show ?case
  proof (cases "g \<in> set gs")
    case True
    have "\<forall>g' \<in> set gs. key g' = Some k \<longrightarrow> g' = g" using Cons.prems(3) by (metis list.set_intros(2))
    from Cons.IH [OF True Cons.prems(2) this] show ?thesis by (simp only: fold.simps comp_apply)
  next
    case False
    then have h: "h = g" "\<forall>g' \<in> set gs. key g' \<noteq> Some k" using Cons.prems by auto
    have "map_of (put key val g m) k = Some (val g)" using Cons.prems(2) by (simp add: put_def update_conv')
    then show ?thesis using fold_put_none [OF h(2), of val "put key val g m"] h(1) by simp
  qed
qed simp

text \<open>The participants of a run are listed once, with distinct and non-empty pids; the equivalents are unique.\<close>

definition run_wf :: "(uuid \<times> pid) list \<Rightarrow> db \<Rightarrow> bool" where
  "run_wf ps db \<longleftrightarrow> distinct (map fst ps) \<and> distinct (map snd ps) \<and> [] \<notin> snd ` set ps
     \<and> distinct (map equiv_id (equivalents db)) \<and> distinct (map equiv_code (equivalents db))"

lemma pid_to_uuid_iff:
  assumes "distinct (map snd ps)"
  shows "pid_to_uuid ps p = Some u \<longleftrightarrow> (u, p) \<in> set ps"
proof -
  have "distinct (map fst (rev (map (\<lambda>(u, p). (p, u)) ps)))"
    using assms by (simp add: rev_map [symmetric] comp_def case_prod_unfold)
  then show ?thesis by (simp add: pid_to_uuid_def map_of_eq_Some_iff) force
qed

lemma sum_pair_owes:
  assumes "debts_wf db"
  shows "sql_sum (\<lambda>r. (debtor_id r, creditor_id r, debt_equivalent r) = (x, y, e)) debt_amount (debts db) = owes db x y e"
proof (cases "get_debt x y e db")
  case None
  then have "sql_sum (\<lambda>r. (debtor_id r, creditor_id r, debt_equivalent r) = (x, y, e)) debt_amount (debts db) = 0"
    by (intro sql_sum_none) (auto simp: get_debt_def find_None_iff)
  then show ?thesis using None by (simp add: owes_def)
next
  case (Some d)
  have d: "d \<in> set (debts db)" "debt_key d = (x, y, e)" using Some assms by (simp_all add: get_debt_iff)
  have "filter (\<lambda>r. debt_key r = debt_key d) (debts db) = [d]"
    by (rule distinct_filter_key [OF _ d(1)]) (use assms in \<open>simp add: debts_wf_def\<close>)
  then show ?thesis using Some d(2) by (simp add: sql_sum_def owes_def debt_key_def)
qed

lemma snapshot_debt_load:
  assumes run: "run_wf ps db" and wf: "debts_wf db" and x: "pid_to_uuid ps c = Some x" and y: "pid_to_uuid ps d = Some y"
    and q: "get_equivalent_by_code e db = Some q" and e: "e \<noteq> []" "e \<in> code_upper ` set codes"
  shows "snapshot_debt (load_debt_snapshot_by_pid ps codes db) d c e = owes db y x (equiv_id q)"
proof -
  define eqs where "eqs = filter (\<lambda>q. equiv_code q \<in> set (filter (\<lambda>c. c \<noteq> []) (map code_upper codes))) (equivalents db)"
  define code_of where "code_of = map_of (rev (map (\<lambda>q. (equiv_id q, equiv_code q)) eqs))"
  define relevant where "relevant = (\<lambda>r :: debt. debtor_id r \<in> fst ` set ps \<and> creditor_id r \<in> fst ` set ps \<and> debt_equivalent r \<in> equiv_id ` set eqs)"
  define groups where "groups = remdups (map (\<lambda>r. (debtor_id r, creditor_id r, debt_equivalent r)) (filter relevant (debts db)))"
  define key where "key = (\<lambda>(x, y, e). case (map_of (rev ps) x, map_of (rev ps) y, code_of e) of
      (Some d, Some c, Some code) \<Rightarrow> if d = [] \<or> c = [] \<or> code = [] then None else Some (d, c, code) | _ \<Rightarrow> None)"
  define val where "val = (\<lambda>(x, y, e). sql_sum (\<lambda>r. (debtor_id r, creditor_id r, debt_equivalent r) = (x, y, e)) debt_amount (debts db))"
  have "load_debt_snapshot_by_pid ps codes db = fold (put key val) groups []"
    unfolding load_debt_snapshot_by_pid_def Let_def eqs_def [symmetric] code_of_def [symmetric] relevant_def [symmetric] groups_def [symmetric]
    by (rule fold_cong [OF refl refl]) (auto simp: put_def key_def val_def fun_eq_iff split: option.splits)
  then have load: "snapshot_debt (load_debt_snapshot_by_pid ps codes db) d c e = get_or 0 (map_of (fold (put key val) groups []) (d, c, e))"
    by (simp add: snapshot_debt_def)
  have fst: "distinct (map fst (rev ps))" using run by (simp add: run_wf_def rev_map [symmetric])
  have pid: "map_of (rev ps) u = Some p \<longleftrightarrow> (u, p) \<in> set ps" for u p
    using map_of_eq_Some_iff [OF fst] by simp
  have snd: "distinct (map snd ps)" using run by (simp add: run_wf_def)
  have mem: "(x, c) \<in> set ps" "(y, d) \<in> set ps" using x y by (simp_all add: pid_to_uuid_iff [OF snd])
  have ne: "c \<noteq> []" "d \<noteq> []" using mem run by (force simp: run_wf_def)+
  have qmem: "q \<in> set eqs" "equiv_code q = e"
    using q e by (auto simp: get_equivalent_by_code_def eqs_def dest!: find_SomeD)
  have dist: "distinct (map equiv_id eqs)" "distinct (map equiv_code eqs)"
    using run by (simp_all add: run_wf_def eqs_def distinct_map_filter)
  have code: "code_of i = Some k \<longleftrightarrow> (\<exists>r \<in> set eqs. equiv_id r = i \<and> equiv_code r = k)" for i k
  proof -
    have "distinct (map fst (rev (map (\<lambda>q. (equiv_id q, equiv_code q)) eqs)))"
      using dist(1) by (simp add: rev_map [symmetric] comp_def)
    then show ?thesis by (simp add: code_of_def map_of_eq_Some_iff) force
  qed
  have keyq: "key (y, x, equiv_id q) = Some (d, c, e)"
  proof -
    have "map_of (rev ps) y = Some d" "map_of (rev ps) x = Some c" "code_of (equiv_id q) = Some e"
      using mem qmem by (auto simp: pid code)
    then show ?thesis using ne e(1) by (simp add: key_def)
  qed
  have only: "g = (y, x, equiv_id q)" if "key g = Some (d, c, e)" for g
  proof -
    obtain a b i where g: "g = (a, b, i)" by (cases g)
    have "map_of (rev ps) a = Some d" "map_of (rev ps) b = Some c" "code_of i = Some e"
      using that by (auto simp: g key_def split: option.splits if_splits)
    then have "(a, d) \<in> set ps" "(b, c) \<in> set ps" and r: "\<exists>r \<in> set eqs. equiv_id r = i \<and> equiv_code r = e" by (auto simp: pid code)
    then have "a = y" "b = x" using mem distinct_map_unique [OF snd] by fastforce+
    moreover have "i = equiv_id q" using r qmem distinct_map_unique [OF dist(2)] by metis
    ultimately show ?thesis by (simp add: g)
  qed
  show ?thesis
  proof (cases "(y, x, equiv_id q) \<in> set groups")
    case True
    have "map_of (fold (put key val) groups []) (d, c, e) = Some (val (y, x, equiv_id q))"
      by (rule fold_put_some [of _ groups key, OF True keyq]) (use only in blast)
    then show ?thesis using sum_pair_owes [OF wf] by (simp add: load get_or_def val_def)
  next
    case False
    have "map_of (fold (put key val) groups []) (d, c, e) = None"
      by (subst fold_put_none) (use only False in auto)
    moreover have "get_debt y x (equiv_id q) db = None"
    proof (rule ccontr)
      assume "get_debt y x (equiv_id q) db \<noteq> None"
      then obtain r where "r \<in> set (debts db)" "debt_key r = (y, x, equiv_id q)" using wf by (auto simp: get_debt_iff)
      then have "(y, x, equiv_id q) \<in> set groups"
        using mem qmem(1) by (force simp: groups_def relevant_def debt_key_def)
      then show False using False by simp
    qed
    ultimately show ?thesis by (simp add: load get_or_def owes_def)
  qed
qed


end
