(* ===== verification/Drift_Properties.thy ===== *)
theory Drift_Properties
  imports Drift_Limits
begin

text \<open>
  What the trust drift does to the hub: with a current snapshot, decay keeps every debt within its
  limit, and growth within the cap only raises limits; with the snapshot a tick really uses, decay may
  push a limit below a debt, and growth cuts a limit that its owner raised above the cap.
\<close>

section \<open>Decay\<close>

text \<open>The amounts a \<open>Numeric(20, 8)\<close> column holds.\<close>

definition numeric_tables :: "db \<Rightarrow> bool" where
  "numeric_tables db \<longleftrightarrow> (\<forall>d \<in> set (debts db). debt_amount d < 10 ^ 12) \<and> (\<forall>t \<in> set (trust_lines db). tl_limit t < 10 ^ 12)"

lemma owes_numeric: "numeric_tables db \<Longrightarrow> owes db x y e < 10 ^ 12"
  by (auto simp: numeric_tables_def owes_def get_debt_def split: option.splits dest: find_SomeD)

text \<open>A snapshot that is not behind the debts of the run.\<close>

definition snapshot_covers :: "(uuid \<times> pid) list \<Rightarrow> string set \<Rightarrow> debt_snapshot \<Rightarrow> db \<Rightarrow> bool" where
  "snapshot_covers ps codes snap db \<longleftrightarrow> (\<forall>c d e x y q. pid_to_uuid ps c = Some x \<and> pid_to_uuid ps d = Some y \<and> e \<noteq> [] \<and> e \<in> codes
     \<and> get_equivalent_by_code e db = Some q \<longrightarrow> owes db y x (equiv_id q) \<le> snapshot_debt snap d c e
     \<and> 0 \<le> snapshot_debt snap d c e \<and> snapshot_debt snap d c e < 10 ^ 12)"

lemma decay_line_keeps:
  assumes inv: "ledger_inv db" and cover: "snapshot_covers ps codes snap db" and code: "line_code sc l \<in> codes"
    and run: "decay_line cfg ps hist tick snap sc l db = (r, db')"
  shows "ledger_inv db' \<and> debts db' = debts db \<and> equivalents db' = equivalents db"
proof -
  define e c d where "e = line_code sc l" and "c = py_strip (sl_from l)" and "d = py_strip (sl_to l)"
  consider "db' = db"
    | (set) h :: edge_history and new x y and q :: equivalent where "e \<noteq> []" "decayed_limit cfg (eh_original_limit h) (sl_limit l) (snapshot_debt snap d c e) = Inr (Some new)"
        "pid_to_uuid ps c = Some x" "pid_to_uuid ps d = Some y" "get_equivalent_by_code e db = Some q"
        "set_active_limit x y (equiv_id q) new db = Inr db'"
    using run unfolding decay_line_def Let_def e_def [symmetric] c_def [symmetric] d_def [symmetric]
    by (auto split: if_splits option.splits sum.splits)
  then show ?thesis
  proof cases
    case set
    have "owes db y x (equiv_id q) \<le> snapshot_debt snap d c e" "0 \<le> snapshot_debt snap d c e" "snapshot_debt snap d c e < 10 ^ 12"
      using cover set(1,3-5) code by (auto simp: snapshot_covers_def e_def)
    with decayed_limit_ge [OF set(2)] have "owes db y x (equiv_id q) \<le> new" by linarith
    from set_active_limit_keeps [OF inv set(6) this] show ?thesis by simp
  qed (use inv in simp)
qed

lemma snapshot_covers_cong:
  assumes "debts db' = debts db" and "equivalents db' = equivalents db"
  shows "snapshot_covers ps codes snap db' = snapshot_covers ps codes snap db"
  using assms by (simp add: snapshot_covers_def owes_def get_debt_def get_equivalent_by_code_def)

lemma decay_keeps:
  assumes "ledger_inv db" and "snapshot_covers ps codes snap db" and "line_code sc ` set (sc_trustlines sc) \<subseteq> codes"
    and "apply_trust_decay cfg ps hist tick snap sc db = (r, db')"
  shows "ledger_inv db' \<and> debts db' = debts db"
proof -
  have run: "ledger_inv db1 \<and> debts db1 = debts db \<and> equivalents db1 = equivalents db"
    if "run_edges (decay_line cf ps hist tick snap sc) (sc_trustlines sc) db = (r1, db1)" for cf r1 db1
  proof (rule run_edges_invariant [OF _ _ that])
    fix l db2 r2 db3
    assume I: "ledger_inv db2 \<and> debts db2 = debts db \<and> equivalents db2 = equivalents db" and l: "l \<in> set (sc_trustlines sc)"
      and "decay_line cf ps hist tick snap sc l db2 = (r2, db3)"
    moreover have "snapshot_covers ps codes snap db2" using snapshot_covers_cong I assms(2) by blast
    ultimately show "ledger_inv db3 \<and> debts db3 = debts db \<and> equivalents db3 = equivalents db"
      using decay_line_keeps [of db2 ps codes snap sc l cf hist tick r2 db3] assms(3) by auto
  qed (use assms(1) in simp)
  then show ?thesis using assms(1,4)
    by (auto simp: apply_trust_decay_def split: option.splits if_splits prod.splits sum.splits)
qed

lemma load_covers:
  assumes "ledger_inv db0" and "run_wf ps db0" and "numeric_tables db0" and "equivalents db = equivalents db0"
    and "\<And>x y e. owes db x y e \<le> owes db0 x y e"
  shows "snapshot_covers ps (code_upper ` set codes) (load_debt_snapshot_by_pid ps codes db0) db"
  unfolding snapshot_covers_def
proof (intro allI impI, elim conjE)
  fix c d e x y q
  assume a: "pid_to_uuid ps c = Some x" "pid_to_uuid ps d = Some y" "e \<noteq> []" "e \<in> code_upper ` set codes" "get_equivalent_by_code e db = Some q"
  have q: "get_equivalent_by_code e db0 = Some q" using a(5) assms(4) by (simp add: get_equivalent_by_code_def)
  note wf = tables_wfD(1) [OF ledger_invD(1) [OF assms(1)]]
  show "owes db y x (equiv_id q) \<le> snapshot_debt (load_debt_snapshot_by_pid ps codes db0) d c e \<and> 0 \<le> snapshot_debt (load_debt_snapshot_by_pid ps codes db0) d c e
      \<and> snapshot_debt (load_debt_snapshot_by_pid ps codes db0) d c e < 10 ^ 12"
    unfolding snapshot_debt_load [OF assms(2) wf a(1,2) q a(3,4)]
    using assms(5) owes_nonneg [OF wf] owes_numeric [OF assms(3)] by simp
qed

text \<open>An empty snapshot lets nothing decay, unless the threshold is not above zero.\<close>

lemma decayed_limit_idle: "0 < dc_overload_threshold cfg \<Longrightarrow> decayed_limit cfg original l 0 \<noteq> Inr (Some new)"
  by (auto simp: decayed_limit_def sig28_def split: sum.splits option.splits if_splits)

lemma decay_line_idle:
  assumes "0 < dc_overload_threshold cfg" and "decay_line cfg ps hist tick [] sc l db = (r, db')"
  shows "db' = db"
  using assms(2) decayed_limit_idle [OF assms(1)]
  by (auto simp: decay_line_def Let_def snapshot_debt_def get_or_def split: if_splits option.splits sum.splits)

lemma empty_snapshot_idle:
  assumes "\<And>c. cfg = Some c \<Longrightarrow> 0 < dc_overload_threshold c" and "apply_trust_decay cfg ps hist tick [] sc db = (r, db')"
  shows "db' = db"
proof -
  have "db1 = db" if "0 < dc_overload_threshold c" "run_edges (decay_line c ps hist tick [] sc) ls db = (r1, db1)" for c ls r1 db1
    by (rule run_edges_invariant [OF _ _ that(2)]) (use decay_line_idle [OF that(1)] in auto)
  then show ?thesis using assms
    by (auto simp: apply_trust_decay_def split: option.splits if_splits prod.splits sum.splits)
qed

text \<open>
  C10. Decay on a current snapshot is safe. If nothing in the tick between the snapshot and the decay
  raises a debt, then the decay, whatever the settings, the history and the scenario say, leaves the
  hub's invariant intact: no debt is above its limit afterwards, no debt is touched. A tick whose
  snapshot query failed works with an empty snapshot; the same holds for it when the overload
  threshold is above zero, since nothing decays then.
\<close>

theorem decay_keeps_ledger:
  assumes "ledger_inv db" and "run_wf ps db" and "numeric_tables db" and "line_code sc ` set (sc_trustlines sc) \<subseteq> code_upper ` set codes"
    and "ledger_inv (activity db)" and "equivalents (activity db) = equivalents db"
    and "\<forall>x y e. owes (activity db) x y e \<le> owes db x y e"
    and "load_failed \<Longrightarrow> \<forall>c. cfg = Some c \<longrightarrow> 0 < dc_overload_threshold c"
    and "tick_drift load_failed cfg ps codes hist tick sc activity db = (r, db')"
  shows "ledger_inv db' \<and> debts db' = debts (activity db)"
proof (cases load_failed)
  case True
  then have "db' = activity db"
    using assms(8,9) by (intro empty_snapshot_idle [of cfg]) (auto simp: tick_drift_def tick_debt_snapshot_def)
  then show ?thesis using assms(5) by simp
next
  case False
  then show ?thesis
    using assms(9) decay_keeps [OF assms(5) load_covers [OF assms(1-3,6)] assms(4)] assms(7)
    by (simp add: tick_drift_def tick_debt_snapshot_def)
qed

section \<open>A run\<close>

definition drift_db :: "amount \<Rightarrow> db" where
  "drift_db owed = sample_db\<lparr>debts := [sample_debt\<lparr>debt_amount := owed\<rparr>]\<rparr>"

definition drift_scenario :: "amount \<Rightarrow> scenario" where
  "drift_scenario l = \<lparr>sc_base_equivalent = ''UAH'', sc_equivalent = [],
     sc_trustlines = [\<lparr>sl_from = ''A'', sl_to = ''B'', sl_equivalent = [], sl_status = [], sl_limit = Some (Fin l)\<rparr>],
     sc_trust_drift = Some \<lparr>ds_enabled = True, ds_growth_rate = None, ds_decay_mult = None, ds_max_growth = None,
       ds_min_limit_ratio = None, ds_overload_threshold = None\<rparr>\<rparr>"

definition drift_history :: "amount \<Rightarrow> history" where
  "drift_history l = [(''A:B:UAH'', \<lparr>eh_original_limit = l, eh_clearing_count = 0, eh_last_clearing_tick = -1, eh_cleared_volume = 0\<rparr>)]"

definition drift_on :: drift_config where
  "drift_on = default_drift_config\<lparr>dc_enabled := True\<rparr>"

definition drift_run :: "(uuid \<times> pid) list" where
  "drift_run = [(5, ''A''), (6, ''B''), (7, ''C'')]"

lemma drift_sel [simp]:
  "participants (drift_db v) = participants sample_db" "equivalents (drift_db v) = equivalents sample_db"
  "trust_lines (drift_db v) = trust_lines sample_db" "prepare_locks (drift_db v) = []" "next_uuid (drift_db v) = 100"
  "debts (drift_db v) = [sample_debt\<lparr>debt_amount := v\<rparr>]"
  by (simp_all add: drift_db_def)

lemma drift_owes: "owes (drift_db v) x y e = (if (x, y, e) = (6, 5, 9) then v else 0)"
  by (simp add: owes_def get_debt_def sample_debt_def)

lemma drift_active_limit: "active_limit x y e (drift_db v) = active_limit x y e sample_db"
  by (simp add: active_limit_def get_active_line_def)

lemma drift_ledger_inv:
  assumes "0 < v" and "v \<le> 30" and "on_grid v"
  shows "ledger_inv (drift_db v)"
proof -
  have "trust_lines_wf (drift_db v)" using sample_trust_lines_wf by (simp add: trust_lines_wf_def)
  moreover have "debts_wf (drift_db v)" using assms by (simp add: debts_wf_def debt_key_def sample_debt_def column_value_def)
  moreover have "no_self_lines (drift_db v)" "locks_wf (drift_db v)" by (simp_all add: no_self_lines_def locks_wf_def sample_line_def)
  moreover have "symmetric_ledger (drift_db v)" by (simp add: symmetric_ledger_def symmetric_pair_def drift_owes)
  moreover have "limits_kept (drift_db v)" using assms by (simp add: limits_kept_def within_limit_def drift_owes drift_active_limit sample_active_limit)
  moreover have "grid_debts (drift_db v)" "grid_locks (drift_db v)" using assms(3) by (simp_all add: grid_debts_def grid_locks_def drift_owes)
  ultimately show ?thesis by (simp add: ledger_inv_def tables_wf_def)
qed

lemma drift_run_wf: "run_wf drift_run (drift_db v)"
  by (simp add: run_wf_def drift_run_def)

lemma drift_codes: "line_code (drift_scenario l) x = ''UAH''" if "x \<in> set (sc_trustlines (drift_scenario l))"
  using that by (simp add: drift_scenario_def line_code_def effective_equivalent_def scenario_default_equivalent_def code_upper_def
      py_strip_def py_space_def upper_char_def Let_def)

lemma drift_init: "init_trust_drift (drift_scenario 30) [] = (None, drift_on, drift_history 30)"
  "init_trust_drift (drift_scenario 10) [] = (None, drift_on, drift_history 10)"
  using drift_codes [of _ 30] drift_codes [of _ 10]
  by (simp_all add: init_trust_drift_def drift_scenario_def drift_from_scenario_def get_or_def drift_on_def default_drift_config_def
      drift_history_def history_key_def cents_down_def quantize_def round_down_def py_strip_def py_space_def Let_def)

lemma drift_decayed: "decayed_limit drift_on 30 (Some (Fin 30)) 24 = Inr (Some (147 / 5))"
proof -
  have *: "sig28 (4 / 5) = 4 / 5" "sig28 (147 / 5) = 147 / 5" "sig28 9 = 9"
    by (simp_all add: sig28_cents cents_def)
  show ?thesis
    by (simp add: * decayed_limit_def cents_down_def quantize_def round_down_def round_up_def drift_on_def default_drift_config_def)
qed

lemma drift_store: "store_numeric stmt (147 / 5) = Inr (147 / 5)" "store_numeric stmt 20 = Inr 20"
  by (simp_all add: store_numeric_grid on_grid_def)

definition line_changed :: "amount \<Rightarrow> db \<Rightarrow> db" where
  "line_changed l db = db\<lparr>trust_lines := [sample_line 10 6 5 100, sample_line 11 7 6 50, sample_line 12 5 6 l]\<rparr>"

lemma drift_set: "set_active_limit 5 6 9 (147 / 5) (drift_db w) = Inr (line_changed (147 / 5) (drift_db w))"
  "set_active_limit 5 6 9 20 (drift_db w) = Inr (line_changed 20 (drift_db w))"
  by (simp_all add: set_active_limit_def drift_store active_between_def sample_line_def line_changed_def)

definition drift_update :: "amount \<Rightarrow> limit_update" where
  "drift_update l = \<lparr>lu_creditor = ''A'', lu_debtor = ''B'', lu_equivalent = ''UAH'', lu_limit = l\<rparr>"

lemma drift_decays:
  "tick_drift False (Some drift_on) drift_run [''UAH''] (drift_history 30) 1 (drift_scenario 30) (\<lambda>_. drift_db w) (drift_db 24)
    = (Inr (drift_result_of [drift_update (147 / 5)]), line_changed (147 / 5) (drift_db w))"
proof -
  have wf: "debts_wf (drift_db 24)" using tables_wfD(1) [OF ledger_invD(1) [OF drift_ledger_inv [of 24]]] by (simp add: on_grid_def)
  have pids: "pid_to_uuid drift_run ''A'' = Some 5" "pid_to_uuid drift_run ''B'' = Some 6" by (simp_all add: pid_to_uuid_def drift_run_def)
  have eq: "get_equivalent_by_code ''UAH'' (drift_db v) = Some \<lparr>equiv_id = 9, equiv_code = ''UAH''\<rparr>" for v by (simp add: get_equivalent_by_code_def)
  have code: "''UAH'' \<in> code_upper ` set [''UAH'']" by (simp add: code_upper_def py_strip_def py_space_def upper_char_def)
  have snap: "snapshot_debt (load_debt_snapshot_by_pid drift_run [''UAH''] (drift_db 24)) ''B'' ''A'' ''UAH'' = 24"
    using snapshot_debt_load [OF drift_run_wf wf pids eq _ code] by (simp add: drift_owes)
  define l where "l = hd (sc_trustlines (drift_scenario 30))"
  have l: "sc_trustlines (drift_scenario 30) = [l]" "line_code (drift_scenario 30) l = ''UAH''" "py_strip (sl_from l) = ''A''" "py_strip (sl_to l) = ''B''"
    "sl_status l = []" "py_lower (py_strip ''active'') = ''active''" "sl_limit l = Some (Fin 30)"
    using drift_codes [of l 30] by (simp_all add: l_def drift_scenario_def py_strip_def py_space_def py_lower_def lower_char_def)
  have "decay_line drift_on drift_run (drift_history 30) 1 (load_debt_snapshot_by_pid drift_run [''UAH''] (drift_db 24)) (drift_scenario 30) l (drift_db w)
    = (Inr (Some (drift_update (147 / 5))), line_changed (147 / 5) (drift_db w))"
    by (simp add: decay_line_def Let_def l drift_history_def history_key_def snap drift_decayed pids eq drift_set drift_update_def)
  then show ?thesis by (simp add: tick_drift_def tick_debt_snapshot_def Let_def apply_trust_decay_def l(1)) (simp add: drift_on_def)
qed


lemma drift_numeric: "v < 10 ^ 12 \<Longrightarrow> numeric_tables (drift_db v)"
  by (simp add: numeric_tables_def sample_line_def)

theorem decay_keeps_ledger_witness:
  "\<exists>db'. tick_drift False (Some drift_on) drift_run [''UAH''] (drift_history 30) 1 (drift_scenario 30) (\<lambda>_. drift_db 24) (drift_db 24)
      = (Inr (drift_result_of [drift_update (147 / 5)]), db') \<and> ledger_inv db'"
proof -
  have inv: "ledger_inv (drift_db 24)" by (rule drift_ledger_inv) (simp_all add: on_grid_def)
  have codes: "line_code (drift_scenario 30) ` set (sc_trustlines (drift_scenario 30)) \<subseteq> code_upper ` set [''UAH'']"
    using drift_codes [of _ 30] by (auto simp: code_upper_def py_strip_def py_space_def upper_char_def)
  from decay_keeps_ledger [OF inv drift_run_wf drift_numeric codes _ _ _ _ drift_decays] inv drift_decays show ?thesis by auto
qed

text \<open>
  C11. The decay of a real tick undercuts its own payments. The limit is 30, drift has its default
  settings, and 24 are owed when the snapshot is taken. The engine then applies a payment of 6, so the
  line is used in full, and the ledger is still in order. The decay computes its floor from the 24 of
  the snapshot and writes a limit of 29.40: a debt of 30 is above its limit, though the code means to
  rule this out.
\<close>

theorem decay_undercuts_tick_payments:
  "init_trust_drift (drift_scenario 30) [] = (None, drift_on, drift_history 30)
    \<and> ledger_inv (drift_db 24) \<and> apply_flow 6 5 6 9 (drift_db 24) = Inr (drift_db 30) \<and> ledger_inv (drift_db 30)
    \<and> (\<exists>res db'. tick_drift False (Some drift_on) drift_run [''UAH''] (drift_history 30) 1 (drift_scenario 30) (\<lambda>_. drift_db 30) (drift_db 24) = (Inr res, db')
        \<and> dr_updated_count res = 1 \<and> owes db' 6 5 9 = 30 \<and> active_limit 5 6 9 db' = 147 / 5 \<and> \<not> limits_kept db')"
proof -
  have "apply_flow 6 5 6 9 (drift_db 24) = Inr (drift_db 30)"
    by (simp add: apply_flow_def reduce_reverse_def increase_forward_def net_mutual_def session_debt_def get_debt_def
        update_debt_def write_amount_def store_debt_amount_exact sample_debt_def)
      (simp add: drift_db_def sample_debt_def)
  moreover have owes: "owes (line_changed (147 / 5) (drift_db 30)) 6 5 9 = 30" by (simp add: line_changed_def owes_def get_debt_def sample_debt_def)
  moreover have limit: "active_limit 5 6 9 (line_changed (147 / 5) (drift_db 30)) = 147 / 5"
    by (simp add: line_changed_def active_limit_def get_active_line_def sample_line_def)
  moreover have "\<not> limits_kept (line_changed (147 / 5) (drift_db 30))"
  proof
    assume "limits_kept (line_changed (147 / 5) (drift_db 30))"
    then have "owes (line_changed (147 / 5) (drift_db 30)) 6 5 9 \<le> active_limit 5 6 9 (line_changed (147 / 5) (drift_db 30))"
      by (simp add: limits_kept_def within_limit_def)
    then show False by (simp add: owes limit)
  qed
  ultimately show ?thesis
    using drift_ledger_inv [of 24] drift_ledger_inv [of 30] drift_init(1) drift_decays [of 30] by (simp add: on_grid_def drift_result_of_def)
qed

section \<open>Growth\<close>

text \<open>Every limit with a history is within its cap.\<close>

definition growth_room :: "drift_config \<Rightarrow> (uuid \<times> pid) list \<Rightarrow> string \<Rightarrow> uuid \<Rightarrow> history \<Rightarrow> db \<Rightarrow> bool" where
  "growth_room cfg ps code e hist db \<longleftrightarrow> (\<forall>c d h original x y. map_of hist (history_key c d code) = Some h
     \<and> quantize round_down 2 (eh_original_limit h) = Inr original \<and> pid_to_uuid ps c = Some x \<and> pid_to_uuid ps d = Some y
     \<longrightarrow> active_limit x y e db \<le> growth_cap cfg original)"

definition growth_state :: "drift_config \<Rightarrow> (uuid \<times> pid) list \<Rightarrow> string \<Rightarrow> uuid \<Rightarrow> db \<Rightarrow> history \<times> db \<Rightarrow> bool" where
  "growth_state cfg ps code e db0 s \<longleftrightarrow> ledger_inv (snd s) \<and> numeric_tables (snd s) \<and> growth_room cfg ps code e (fst s) (snd s)
     \<and> debts (snd s) = debts db0 \<and> (\<forall>x y e. active_limit x y e db0 \<le> active_limit x y e (snd s))"

lemma growth_room_history:
  assumes "growth_room cfg ps code e hist db" and "map_of hist k = Some h" and "eh_original_limit h' = eh_original_limit h"
  shows "growth_room cfg ps code e (AList.update k h' hist) db"
  using assms unfolding growth_room_def by (auto simp: update_conv' split: if_splits)

lemma growth_room_limit:
  assumes room: "growth_room cfg ps code e hist db" and ps: "distinct (map fst ps)" "distinct (map snd ps)"
    and h: "map_of hist (history_key c d code) = Some h" "quantize round_down 2 (eh_original_limit h) = Inr original"
    and xy: "pid_to_uuid ps c = Some x" "pid_to_uuid ps d = Some y"
    and db': "\<And>u w. active_limit u w e db' = (if (u, w) = (x, y) then new else active_limit u w e db)" and new: "new \<le> growth_cap cfg original"
  shows "growth_room cfg ps code e hist db'"
  unfolding growth_room_def
proof (intro allI impI, elim conjE)
  fix c' d' h' original' u w
  assume a: "map_of hist (history_key c' d' code) = Some h'" "quantize round_down 2 (eh_original_limit h') = Inr original'"
    "pid_to_uuid ps c' = Some u" "pid_to_uuid ps d' = Some w"
  have "active_limit u w e db \<le> growth_cap cfg original'" using room a unfolding growth_room_def by blast
  moreover have "original' = original" if "(u, w) = (x, y)"
  proof -
    have "(u, c') \<in> set ps" "(x, c) \<in> set ps" "(w, d') \<in> set ps" "(y, d) \<in> set ps"
      using a(3,4) xy by (simp_all add: pid_to_uuid_iff [OF ps(2)])
    then have "c' = c" "d' = d" using that distinct_map_unique [OF ps(1)] by fastforce+
    then show ?thesis using a(1,2) h by simp
  qed
  ultimately show "active_limit u w e db' \<le> growth_cap cfg original'" using new by (auto simp: db')
qed

lemma grow_edge_keeps:
  assumes inv: "growth_state cfg ps code e db0 s" and ps: "distinct (map fst ps)" "distinct (map snd ps)" and rate: "0 \<le> dc_growth_rate cfg"
    and run: "grow_edge cfg ps e code tick amounts edge s = (r, s')"
  shows "growth_state cfg ps code e db0 s'"
proof -
  obtain c d hist db where edge: "edge = (c, d)" "s = (hist, db)" by (cases edge, cases s)
  let ?k = "history_key c d code"
  have st: "ledger_inv db" "numeric_tables db" "growth_room cfg ps code e hist db" "debts db = debts db0"
    "\<And>x y e. active_limit x y e db0 \<le> active_limit x y e db" using inv by (simp_all add: growth_state_def edge)
  note wf = tables_wfD [OF ledger_invD(1) [OF st(1)]]
  consider "s' = s" | (hist) h where "map_of hist ?k = Some h" "s' = (AList.update ?k (record_clearing tick (amounts (c, d)) h) hist, db)"
    | (set) h original x y t new db' where "map_of hist ?k = Some h" "quantize round_down 2 (eh_original_limit h) = Inr original"
        "pid_to_uuid ps c = Some x" "pid_to_uuid ps d = Some y" "get_active_line x y e db = Some t"
        "grown_limit cfg original (tl_limit t) = Inr (Some new)" "set_active_limit x y e new db = Inr db'"
        "s' = (AList.update ?k (record_clearing tick (amounts (c, d)) h) hist, db')"
    using run unfolding grow_edge_def edge Let_def
    by (auto split: option.splits sum.splits)
  then show ?thesis
  proof cases
    case hist
    have "growth_room cfg ps code e (fst s') db"
      using growth_room_history [OF st(3) hist(1), of "record_clearing tick (amounts (c, d)) h"] by (simp add: hist(2) record_clearing_def)
    then show ?thesis using st by (simp add: growth_state_def hist(2))
  next
    case set
    have t: "t \<in> set (trust_lines db)" "active_limit x y e db = tl_limit t"
      using set(5) by (simp add: get_active_line_iff [OF wf(2)], simp add: active_limit_def)
    have "active_limit x y e db \<le> growth_cap cfg original" using st(3) set(1-4) unfolding growth_room_def by blast
    then have old: "0 \<le> tl_limit t" "tl_limit t < 10 ^ 12" "tl_limit t \<le> growth_cap cfg original"
      using t wf(2) st(2) by (auto simp: trust_lines_wf_def numeric_tables_def)
    note new = grown_limit_bounds [OF set(6) rate old]
    have round: "round8 new = new" by (rule round8_grid [OF cents_on_grid [OF new(3)]])
    note lim = set_active_limit_effect(2) [OF wf(2) set(5,7), unfolded round] and rows = set_active_limit_rows [OF wf(2) set(5,7), unfolded round]
    have "owes db y x e \<le> tl_limit t" using ledger_invD(3) [OF st(1)] t(2) by (simp add: limits_kept_def within_limit_def flip: t(2))
    then have keeps: "ledger_inv db'" "debts db' = debts db" using set_active_limit_keeps [OF st(1) set(7)] new(1) by simp_all
    have "numeric_tables db'"
      using st(2) rows(3) by (auto simp: numeric_tables_def rows(1) update_line_def set_upd_row)
    moreover have "growth_room cfg ps code e (fst s') db'"
    proof -
      have "growth_room cfg ps code e hist db'" by (rule growth_room_limit [OF st(3) ps set(1-4) _ new(2)]) (simp add: lim)
      from growth_room_history [OF this set(1), of "record_clearing tick (amounts (c, d)) h"] show ?thesis by (simp add: set(8) record_clearing_def)
    qed
    moreover have "active_limit u w e' db0 \<le> active_limit u w e' db'" for u w e'
      using st(5) [of u w e'] new(1) t(2) by (auto simp: lim)
    ultimately show ?thesis using keeps st(4) by (simp add: growth_state_def set(8))
  qed (use inv in simp)
qed

lemma growth_keeps:
  assumes "ledger_inv db" and "numeric_tables db" and "run_wf ps db" and "0 \<le> dc_growth_rate cfg"
    and "get_equivalent_by_code (code_upper eq_code) db = Some q" and "growth_room cfg ps (code_upper eq_code) (equiv_id q) hist db"
    and "apply_trust_growth (Some cfg) ps lookup_fails eq_code tick amounts touched (hist, db) = (r, hist', db')"
  shows "growth_state cfg ps (code_upper eq_code) (equiv_id q) db (hist', db')"
proof -
  let ?I = "growth_state cfg ps (code_upper eq_code) (equiv_id q) db"
  have start: "?I (hist, db)" using assms(1,2,6) by (simp add: growth_state_def)
  have ps: "distinct (map fst ps)" "distinct (map snd ps)" using assms(3) by (simp_all add: run_wf_def)
  have "?I s" if "run_edges (grow_edge cfg ps (equiv_id q) (code_upper eq_code) tick amounts) touched (hist, db) = (r1, s)" for r1 s
    by (rule run_edges_invariant [of ?I, OF _ start that]) (rule grow_edge_keeps [OF _ ps assms(4)])
  then show ?thesis
    using assms(5,7) start by (auto simp: apply_trust_growth_def split: if_splits prod.splits sum.splits)
qed

text \<open>
  C12. Growth within the cap. If no limit with a history is above its cap, the original limit times the
  maximal growth, then growing the cleared lines, in any order and with any rate that is not
  negative, raises limits or leaves them, keeps all of them within their caps, touches no debt and
  keeps the hub's invariant, whether the call succeeds or raises half way.
\<close>

theorem growth_keeps_ledger:
  assumes "ledger_inv db" and "numeric_tables db" and "run_wf ps db" and "0 \<le> dc_growth_rate cfg"
    and "get_equivalent_by_code (code_upper eq_code) db = Some q" and "growth_room cfg ps (code_upper eq_code) (equiv_id q) hist db"
    and "apply_trust_growth (Some cfg) ps lookup_fails eq_code tick amounts touched (hist, db) = (r, hist', db')"
  shows "ledger_inv db' \<and> debts db' = debts db \<and> (\<forall>x y e. active_limit x y e db \<le> active_limit x y e db')
    \<and> growth_room cfg ps (code_upper eq_code) (equiv_id q) hist' db'"
  using growth_keeps [OF assms] by (simp add: growth_state_def)

section \<open>Drift as an operation of the hub\<close>

text \<open>The drift within its conditions: a snapshot that is not behind, limits that are not above their caps.\<close>

inductive drift_step :: "db \<Rightarrow> db \<Rightarrow> bool" where
  step_decay: "snapshot_covers ps codes snap db \<Longrightarrow> line_code sc ` set (sc_trustlines sc) \<subseteq> codes
    \<Longrightarrow> apply_trust_decay cfg ps hist tick snap sc db = (r, db') \<Longrightarrow> drift_step db db'"
| step_growth: "numeric_tables db \<Longrightarrow> run_wf ps db \<Longrightarrow> 0 \<le> dc_growth_rate cfg \<Longrightarrow> get_equivalent_by_code (code_upper eq_code) db = Some q
    \<Longrightarrow> growth_room cfg ps (code_upper eq_code) (equiv_id q) hist db
    \<Longrightarrow> apply_trust_growth (Some cfg) ps lookup_fails eq_code tick amounts touched (hist, db) = (r, hist', db') \<Longrightarrow> drift_step db db'"

interpretation drift_op: ledger_operation drift_step
proof unfold_locales
  fix db db' assume inv: "ledger_inv db" and "drift_step db db'"
  from this(2) show "ledger_inv db'"
  proof cases
    case (step_decay ps codes snap sc cfg hist tick r)
    from decay_keeps [OF inv step_decay] show ?thesis by simp
  next
    case (step_growth ps cfg eq_code q hist lookup_fails tick amounts touched r hist')
    from growth_keeps [OF inv step_growth] show ?thesis by (simp add: growth_state_def)
  qed
qed

lemma drift_pids:
  "pid_to_uuid drift_run p = Some u \<longleftrightarrow> (p, u) \<in> {(''A'', 5), (''B'', 6), (''C'', 7)}"
  by (auto simp: pid_to_uuid_def drift_run_def)

lemma drift_room: "growth_room drift_on drift_run ''UAH'' 9 (drift_history 30) (drift_db 24)"
proof -
  have "quantize round_down 2 30 = Inr 30" "growth_cap drift_on 30 = 60"
    by (simp_all add: quantize_def round_down_def growth_cap_def drift_on_def default_drift_config_def sig28_cents cents_def)
  then show ?thesis
    by (auto simp: growth_room_def drift_pids drift_history_def history_key_def drift_active_limit sample_active_limit)
qed

theorem growth_keeps_ledger_witness:
  "\<exists>r hist' db'. apply_trust_growth (Some drift_on) drift_run False ''UAH'' 1 (\<lambda>_. 3) [(''A'', ''B'')] (drift_history 30, drift_db 24) = (r, hist', db')
    \<and> ledger_inv db' \<and> 30 \<le> active_limit 5 6 9 db'"
proof -
  obtain r hist' db' where run: "apply_trust_growth (Some drift_on) drift_run False ''UAH'' 1 (\<lambda>_. 3) [(''A'', ''B'')] (drift_history 30, drift_db 24) = (r, hist', db')"
    by (metis prod_cases3)
  have inv: "ledger_inv (drift_db 24)" by (rule drift_ledger_inv) (simp_all add: on_grid_def)
  have code: "code_upper ''UAH'' = ''UAH''" by (simp add: code_upper_def py_strip_def py_space_def upper_char_def)
  have q: "get_equivalent_by_code (code_upper ''UAH'') (drift_db 24) = Some \<lparr>equiv_id = 9, equiv_code = ''UAH''\<rparr>"
    by (simp add: code get_equivalent_by_code_def)
  have room: "growth_room drift_on drift_run (code_upper ''UAH'') (equiv_id \<lparr>equiv_id = 9, equiv_code = ''UAH''\<rparr>) (drift_history 30) (drift_db 24)"
    using drift_room by (simp add: code)
  have grown: "ledger_inv db' \<and> (\<forall>x y e. active_limit x y e (drift_db 24) \<le> active_limit x y e db')"
    using growth_keeps_ledger [OF inv drift_numeric drift_run_wf _ q room run] by (simp add: drift_on_def default_drift_config_def)
  have "active_limit 5 6 9 (drift_db 24) = 30" by (simp add: drift_active_limit sample_active_limit)
  then have "30 \<le> active_limit 5 6 9 db'" using grown by metis
  then show ?thesis using run grown by (intro exI conjI) simp_all
qed

text \<open>
  C13. Growth cuts a limit that was raised. The history of the run has 10 as the original limit, the
  owner has since raised the line to 30, and 24 are owed on it. A clearing of the line, with default
  settings, writes twice the original limit: growth lowers the limit to 20, below the debt.
\<close>

theorem growth_cuts_raised_limit:
  "init_trust_drift (drift_scenario 10) [] = (None, drift_on, drift_history 10) \<and> ledger_inv (drift_db 24) \<and> active_limit 5 6 9 (drift_db 24) = 30
    \<and> (\<exists>hist' db'. apply_trust_growth (Some drift_on) drift_run False ''UAH'' 1 (\<lambda>_. 3) [(''A'', ''B'')] (drift_history 10, drift_db 24)
          = (Inr (drift_result_of [drift_update 20]), hist', db')
        \<and> owes db' 6 5 9 = 24 \<and> active_limit 5 6 9 db' = 20 \<and> \<not> limits_kept db')"
proof -
  have code: "code_upper ''UAH'' = ''UAH''" by (simp add: code_upper_def py_strip_def py_space_def upper_char_def)
  have pids: "pid_to_uuid drift_run ''A'' = Some 5" "pid_to_uuid drift_run ''B'' = Some 6" by (simp_all add: drift_pids)
  have line: "get_active_line 5 6 9 (drift_db 24) = Some (sample_line 12 5 6 30)" by (simp add: get_active_line_def sample_line_def)
  have *: "sig28 (63 / 2) = 63 / 2" "sig28 20 = 20" by (simp_all add: sig28_cents cents_def)
  have "round_half_even 10500000 = 10500000" using round_half_even_of_int [of 10500000] by (simp only: of_int_numeral)
  then have grown: "grown_limit drift_on 10 30 = Inr (Some 20)"
    by (simp add: grown_limit_def quantize_def round_down_def drift_on_def default_drift_config_def *)
  have "\<exists>hist'. apply_trust_growth (Some drift_on) drift_run False ''UAH'' 1 (\<lambda>_. 3) [(''A'', ''B'')] (drift_history 10, drift_db 24)
      = (Inr (drift_result_of [drift_update 20]), hist', line_changed 20 (drift_db 24))"
    by (simp add: apply_trust_growth_def code get_equivalent_by_code_def grow_edge_def drift_history_def history_key_def Let_def pids line grown
        drift_set drift_update_def sample_line_def quantize_def round_down_def) (simp add: drift_on_def)
  moreover have owes: "owes (line_changed 20 (drift_db 24)) 6 5 9 = 24" by (simp add: line_changed_def owes_def get_debt_def sample_debt_def)
  moreover have limit: "active_limit 5 6 9 (line_changed 20 (drift_db 24)) = 20"
    by (simp add: line_changed_def active_limit_def get_active_line_def sample_line_def)
  moreover have "\<not> limits_kept (line_changed 20 (drift_db 24))"
  proof
    assume "limits_kept (line_changed 20 (drift_db 24))"
    then have "owes (line_changed 20 (drift_db 24)) 6 5 9 \<le> active_limit 5 6 9 (line_changed 20 (drift_db 24))"
      by (simp add: limits_kept_def within_limit_def)
    then show False by (simp add: owes limit)
  qed
  ultimately show ?thesis
    using drift_ledger_inv [of 24] drift_init(2) by (auto simp: on_grid_def drift_active_limit sample_active_limit)
qed

end
