(* ===== verification/Adaptive_Clearing.thy ===== *)
theory Adaptive_Clearing
  imports Decimal_Context "HOL-Library.AList"
begin

text \<open>
  The cadence of clearing: \<^verbatim>\<open>app/core/simulator/adaptive_clearing_policy.py\<close> and its coordinator
  \<^verbatim>\<open>app/core/simulator/real_tick_clearing_coordinator.py\<close>. Every tick feeds the rate of payments rejected for lack of
  capacity into a window per equivalent; a policy with hysteresis, a minimal interval and an
  exponential backoff decides which equivalents are cleared, and with what budget.
\<close>

section \<open>Floats\<close>

text \<open>
  Arithmetic on floats is exact arithmetic rounded to 53 bits, half to even. Rates, thresholds and
  budgets are far from the range in which exponents run out.
\<close>

function bit_scale :: "rat \<Rightarrow> nat" where
  "bit_scale q = (if q \<le> 1 then 0 else Suc (bit_scale (q / 2)))"
  by pat_completeness auto
termination
proof (relation "measure (\<lambda>q. nat \<lceil>q\<rceil>)")
  fix q :: rat assume "\<not> q \<le> 1"
  then have two: "2 \<le> \<lceil>q\<rceil>" by (simp add: le_ceiling_iff)
  then have "(2 :: rat) \<le> of_int \<lceil>q\<rceil>" by (metis of_int_le_iff of_int_numeral)
  then have "q / 2 \<le> of_int (\<lceil>q\<rceil> - 1)" using le_of_int_ceiling [of q] unfolding of_int_diff of_int_1 by linarith
  then have "\<lceil>q / 2\<rceil> \<le> \<lceil>q\<rceil> - 1" by (simp only: ceiling_le_iff)
  with two show "(q / 2, q) \<in> measure (\<lambda>q. nat \<lceil>q\<rceil>)" by simp
qed simp

declare bit_scale.simps [simp del]

definition float64 :: "rat \<Rightarrow> rat" where
  "float64 v = (if v = 0 then 0 else
     let up = bit_scale (2 ^ 52 / \<bar>v\<bar>); down = bit_scale (\<bar>v\<bar> / 2 ^ 53)
     in of_int (round_half_even (v * 2 ^ up / 2 ^ down)) * 2 ^ down / 2 ^ up)"

section \<open>Configuration, signals and decisions\<close>

record policy_config =
  window_ticks :: int
  no_capacity_high :: rat
  no_capacity_low :: rat
  min_interval_ticks :: int
  backoff_max_interval_ticks :: int
  inflight_threshold :: int
  queue_depth_threshold :: int
  max_depth_min :: int
  max_depth_max :: int
  time_budget_ms_min :: int
  time_budget_ms_max :: int
  global_max_depth_ceiling :: int
  global_time_budget_ms_ceiling :: int
  warmup_fallback_cadence :: int

text \<open>The other checks of \<open>__post_init__\<close> only log.\<close>

definition config_post_init :: "policy_config \<Rightarrow> policy_config" where
  "config_post_init cfg = (if window_ticks cfg < 1 then cfg\<lparr>window_ticks := 1\<rparr> else cfg)"

datatype decision_reason = WARMUP_RUN | WARMUP_SKIP | WARMUP_DISABLED | RATE_HIGH_ENTER | RATE_LOW_EXIT | RUN_ACTIVE
  | SKIP_NOT_ACTIVE | SKIP_MIN_INTERVAL | SKIP_BACKOFF

record clearing_decision =
  should_run :: bool
  decision_reason :: decision_reason
  decision_budget :: "int option"
  decision_depth :: "int option"

definition skip_decision :: "decision_reason \<Rightarrow> clearing_decision" where
  "skip_decision r = \<lparr>should_run = False, decision_reason = r, decision_budget = None, decision_depth = None\<rparr>"

definition run_with :: "decision_reason \<Rightarrow> int \<Rightarrow> int \<Rightarrow> clearing_decision" where
  "run_with r budget depth = \<lparr>should_run = True, decision_reason = r, decision_budget = Some budget, decision_depth = Some depth\<rparr>"

section \<open>State per equivalent\<close>

text \<open>The cost of the last clearing is stored but never read; it is left out.\<close>

record eq_state =
  es_window :: "(int \<times> int) list"
  es_last_volume :: rat
  es_last_tick :: int
  es_backoff :: int
  es_zero_yield :: int
  es_active :: bool

definition fresh_eq_state :: eq_state where
  "fresh_eq_state = \<lparr>es_window = [], es_last_volume = 0, es_last_tick = -1, es_backoff = 0, es_zero_yield = 0, es_active = False\<rparr>"

type_synonym adaptive_state = "(string \<times> eq_state) list"

definition get_eq :: "string \<Rightarrow> adaptive_state \<Rightarrow> eq_state" where
  "get_eq eq st = (case map_of st eq of None \<Rightarrow> fresh_eq_state | Some s \<Rightarrow> s)"

definition record_tick_signals :: "policy_config \<Rightarrow> string \<Rightarrow> int \<Rightarrow> int \<Rightarrow> adaptive_state \<Rightarrow> adaptive_state" where
  "record_tick_signals cfg eq attempted rejected st =
     (let s = get_eq eq st; w = es_window s @ [(max 0 attempted, max 0 rejected)]
      in AList.update eq (s\<lparr>es_window := drop (length w - nat (window_ticks cfg)) w\<rparr>) st)"

definition zero_volume_eps :: rat where
  "zero_volume_eps = float64 (1 / 10 ^ 9)"

definition backoff_after :: "policy_config \<Rightarrow> int \<Rightarrow> int" where
  "backoff_after cfg streak =
     (let min_interval = max 1 (min_interval_ticks cfg); max_interval = max min_interval (backoff_max_interval_ticks cfg);
          e = max 0 (streak - 1); interval = min max_interval (min_interval * 2 ^ nat e)
      in max min_interval interval)"

definition update_clearing_result :: "policy_config \<Rightarrow> string \<Rightarrow> rat \<Rightarrow> int \<Rightarrow> adaptive_state \<Rightarrow> adaptive_state" where
  "update_clearing_result cfg eq volume tick st =
     (let s = (get_eq eq st)\<lparr>es_last_volume := volume, es_last_tick := tick\<rparr>
      in AList.update eq (if volume < zero_volume_eps
           then let n = es_zero_yield s + 1 in s\<lparr>es_zero_yield := n, es_backoff := backoff_after cfg n\<rparr>
           else s\<lparr>es_zero_yield := 0, es_backoff := 0\<rparr>) st)"

definition no_capacity_rate :: "eq_state \<Rightarrow> rat" where
  "no_capacity_rate s =
     (let attempted = sum_list (map fst (es_window s)); rejected = sum_list (map snd (es_window s))
      in if es_window s = [] \<or> attempted = 0 then 0 else float64 (of_int rejected / of_int attempted))"

section \<open>The policy\<close>

definition clamp_int :: "int \<Rightarrow> int \<Rightarrow> int \<Rightarrow> int" where
  "clamp_int v lo hi = max lo (min hi v)"

definition normalize_pressure :: "rat \<Rightarrow> rat \<Rightarrow> rat \<Rightarrow> rat" where
  "normalize_pressure v lo hi = (if hi \<le> lo then 1 else max 0 (min 1 (float64 (float64 (v - lo) / float64 (hi - lo)))))"

definition scaled_int :: "rat \<Rightarrow> int \<Rightarrow> int \<Rightarrow> int" where
  "scaled_int pressure lo hi = round_down (float64 (float64 (of_int lo) + float64 (pressure * float64 (of_int (hi - lo)))))"

definition check_interval_limits :: "policy_config \<Rightarrow> eq_state \<Rightarrow> int \<Rightarrow> clearing_decision option" where
  "check_interval_limits cfg s tick =
     (if es_last_tick s < 0 then None
      else let since = tick - es_last_tick s in
        if since < min_interval_ticks cfg then Some (skip_decision SKIP_MIN_INTERVAL)
        else if 0 < es_backoff s \<and> since < es_backoff s then Some (skip_decision SKIP_BACKOFF)
        else None)"

definition make_run_decision :: "policy_config \<Rightarrow> rat \<Rightarrow> decision_reason \<Rightarrow> clearing_decision" where
  "make_run_decision cfg rate r =
     (let pressure = normalize_pressure rate (no_capacity_low cfg) (no_capacity_high cfg)
      in run_with r
           (clamp_int (scaled_int pressure (time_budget_ms_min cfg) (time_budget_ms_max cfg)) (time_budget_ms_min cfg)
              (min (time_budget_ms_max cfg) (global_time_budget_ms_ceiling cfg)))
           (clamp_int (scaled_int pressure (max_depth_min cfg) (max_depth_max cfg)) (max_depth_min cfg)
              (min (max_depth_max cfg) (global_max_depth_ceiling cfg))))"

definition make_min_budget_decision :: "policy_config \<Rightarrow> decision_reason \<Rightarrow> clearing_decision" where
  "make_min_budget_decision cfg r = run_with r
     (max 1 (min (min (time_budget_ms_min cfg) (time_budget_ms_max cfg)) (global_time_budget_ms_ceiling cfg)))
     (max 1 (min (min (max_depth_min cfg) (max_depth_max cfg)) (global_max_depth_ceiling cfg)))"

definition evaluate :: "policy_config \<Rightarrow> string \<Rightarrow> int \<Rightarrow> adaptive_state \<Rightarrow> clearing_decision \<times> adaptive_state" where
  "evaluate cfg eq tick st =
     (let s = get_eq eq st; rate = no_capacity_rate s in
      if int (length (es_window s)) < window_ticks cfg then
        (if warmup_fallback_cadence cfg \<le> 0 then skip_decision WARMUP_DISABLED
         else if tick mod warmup_fallback_cadence cfg \<noteq> 0 then skip_decision WARMUP_SKIP
         else (case check_interval_limits cfg s tick of Some blocked \<Rightarrow> blocked
           | None \<Rightarrow> make_min_budget_decision cfg WARMUP_RUN), st)
      else
        let active = (if no_capacity_high cfg \<le> rate then True else if rate < no_capacity_low cfg then False else es_active s);
            s' = s\<lparr>es_active := active\<rparr>
        in (if es_active s \<and> \<not> active then skip_decision RATE_LOW_EXIT
            else if \<not> active then skip_decision SKIP_NOT_ACTIVE
            else (case check_interval_limits cfg s' tick of Some blocked \<Rightarrow> blocked
              | None \<Rightarrow> make_run_decision cfg rate (if \<not> es_active s then RATE_HIGH_ENTER else RUN_ACTIVE)),
            AList.update eq s' st))"

section \<open>The coordinator\<close>

definition resolve_effective_int :: "int option \<Rightarrow> int \<Rightarrow> int \<Rightarrow> int \<Rightarrow> int" where
  "resolve_effective_int raw cfg_min cfg_max hard_ceiling =
     (let lo = max 1 cfg_min; hi = max lo (min cfg_max hard_ceiling)
      in clamp_int (case raw of None \<Rightarrow> lo | Some v \<Rightarrow> v) lo hi)"

text \<open>What one tick brings: the payments per equivalent, the load, the caps, and how clearing and the clock behave.\<close>

datatype clearing_outcome = Cleared rat | ClearingTimedOut | ClearingFailed | ClearingCancelled

record tick_input =
  ti_equivalents :: "string list"
  ti_attempted :: "string \<Rightarrow> int"
  ti_rejected :: "string \<Rightarrow> int"
  ti_in_flight :: int
  ti_queue_depth :: int
  ti_has_runner :: bool
  ti_commit_error :: "exc option"
  ti_max_eq_per_tick :: int
  ti_tick_budget_spent :: "nat \<Rightarrow> bool"
  ti_clear :: "string \<Rightarrow> int \<Rightarrow> int \<Rightarrow> clearing_outcome"

text \<open>The settings of the coordinator, and an executed clearing as it is passed on.\<close>

record coordinator_config =
  co_policy :: policy_config
  co_time_budget_ms :: int

record executed_clearing =
  ex_eq :: string
  ex_budget :: int
  ex_depth :: int
  ex_outcome :: clearing_outcome

fun evaluate_all :: "policy_config \<Rightarrow> int \<Rightarrow> string list \<Rightarrow> adaptive_state \<Rightarrow> (string \<times> int option \<times> int option) list \<times> adaptive_state" where
  "evaluate_all cfg tick [] st = ([], st)"
| "evaluate_all cfg tick (eq # eqs) st = (case evaluate cfg eq tick st of (d, st1) \<Rightarrow>
     (case evaluate_all cfg tick eqs st1 of (rest, st2) \<Rightarrow>
        ((if should_run d then [(eq, decision_budget d, decision_depth d)] else []) @ rest, st2)))"

definition outcome_volume :: "clearing_outcome \<Rightarrow> rat" where
  "outcome_volume r = (case r of Cleared v \<Rightarrow> float64 v | _ \<Rightarrow> 0)"

fun execute_clearings ::
    "coordinator_config \<Rightarrow> tick_input \<Rightarrow> int \<Rightarrow> nat \<Rightarrow> (string \<times> int option \<times> int option) list \<Rightarrow> adaptive_state
      \<Rightarrow> executed_clearing list \<times> exc option \<times> adaptive_state" where
  "execute_clearings co inp tick i [] st = ([], None, st)"
| "execute_clearings co inp tick i ((eq, budget, depth) # rest) st =
     (if 0 < ti_max_eq_per_tick inp \<and> ti_max_eq_per_tick inp \<le> int i then ([], None, st)
      else if ti_tick_budget_spent inp i then ([], None, st)
      else let cfg = co_policy co;
               b = resolve_effective_int budget (time_budget_ms_min cfg) (time_budget_ms_max cfg)
                     (min (global_time_budget_ms_ceiling cfg) (co_time_budget_ms co));
               d = resolve_effective_int depth (max_depth_min cfg) (max_depth_max cfg) (global_max_depth_ceiling cfg);
               r = ti_clear inp eq b d;
               st1 = update_clearing_result cfg eq (outcome_volume r) tick st;
               x = \<lparr>ex_eq = eq, ex_budget = b, ex_depth = d, ex_outcome = r\<rparr>
        in if r = ClearingCancelled then ([x], Some CancelledError, st1)
           else (case execute_clearings co inp tick (Suc i) rest st1 of (xs, e, st2) \<Rightarrow> (x # xs, e, st2)))"

definition feed_signals :: "policy_config \<Rightarrow> tick_input \<Rightarrow> string list \<Rightarrow> adaptive_state \<Rightarrow> adaptive_state" where
  "feed_signals cfg inp eqs st = fold (\<lambda>eq. record_tick_signals cfg eq (ti_attempted inp eq) (ti_rejected inp eq)) eqs st"

definition guarded :: "policy_config \<Rightarrow> tick_input \<Rightarrow> bool" where
  "guarded cfg inp \<longleftrightarrow> (0 < inflight_threshold cfg \<and> inflight_threshold cfg < ti_in_flight inp)
     \<or> (0 < queue_depth_threshold cfg \<and> queue_depth_threshold cfg < ti_queue_depth inp)"

definition maybe_run_adaptive ::
    "coordinator_config \<Rightarrow> tick_input \<Rightarrow> int \<Rightarrow> adaptive_state \<Rightarrow> executed_clearing list \<times> exc option \<times> adaptive_state" where
  "maybe_run_adaptive co inp tick st =
     (let cfg = co_policy co; eqs = sort (ti_equivalents inp); st1 = feed_signals cfg inp eqs st in
      if guarded cfg inp then ([], None, st1)
      else case evaluate_all cfg tick eqs st1 of (todo, st2) \<Rightarrow>
        if todo = [] \<or> \<not> ti_has_runner inp then ([], None, st2)
        else case ti_commit_error inp of Some x \<Rightarrow> ([], Some x, st2)
          | None \<Rightarrow> execute_clearings co inp tick 0 todo st2)"

definition clearing_volumes :: "string list \<Rightarrow> executed_clearing list \<Rightarrow> (string \<times> rat) list" where
  "clearing_volumes eqs xs = fold (\<lambda>x m. case ex_outcome x of Cleared v \<Rightarrow> AList.update (ex_eq x) v m | _ \<Rightarrow> m) xs
     (fold (\<lambda>eq. AList.update eq 0) (sort eqs) [])"

section \<open>The static cadence\<close>

text \<open>
  Without the adaptive policy, clearing runs on every \<open>n\<close>-th tick as a background task that the tick
  awaits up to a timeout; a task that is still running is awaited instead of starting another one.
  The result tells the exception or the volumes, whether a task is still registered, and whether a
  new one was started.
\<close>

definition static_hard_timeout :: "int \<Rightarrow> int \<Rightarrow> rat" where
  "static_hard_timeout budget_ms env_cap =
     (let t = max 2 (float64 (float64 (float64 (of_int budget_ms) / 1000) * 4));
          capped = (if 0 < env_cap then min t (float64 (of_int env_cap)) else t)
      in max (float64 (1 / 10)) capped)"

datatype awaited_clearing = AwaitReturned "(string \<times> rat) list" | AwaitTimedOut | AwaitFailed | AwaitCancelled

definition zero_volumes :: "string list \<Rightarrow> (string \<times> rat) list" where
  "zero_volumes eqs = fold (\<lambda>eq. AList.update eq 0) eqs []"

definition execute_clearing_with_timeout ::
    "exc option \<Rightarrow> awaited_clearing \<Rightarrow> string list \<Rightarrow> bool \<Rightarrow> (exc + (string \<times> rat) list) \<times> bool \<times> bool" where
  "execute_clearing_with_timeout commit_error outcome eqs running = (case commit_error of
      Some x \<Rightarrow> (Inl x, running, False)
    | None \<Rightarrow> (case outcome of
        AwaitReturned volumes \<Rightarrow> (Inr volumes, False, \<not> running)
      | AwaitTimedOut \<Rightarrow> (Inr (zero_volumes eqs), False, \<not> running)
      | AwaitFailed \<Rightarrow> (Inr (zero_volumes eqs), False, \<not> running)
      | AwaitCancelled \<Rightarrow> (Inl CancelledError, True, \<not> running)))"

definition maybe_run_static ::
    "bool \<Rightarrow> int \<Rightarrow> int \<Rightarrow> exc option \<Rightarrow> awaited_clearing \<Rightarrow> string list \<Rightarrow> bool \<Rightarrow> (exc + (string \<times> rat) list) \<times> bool \<times> bool" where
  "maybe_run_static enabled every_n tick commit_error outcome eqs running =
     (if \<not> enabled \<or> every_n \<le> 0 \<or> tick mod every_n \<noteq> 0 then (Inr (zero_volumes eqs), running, False)
      else execute_clearing_with_timeout commit_error outcome eqs running)"

lemma static_starts_once:
  "maybe_run_static enabled every_n tick commit_error outcome eqs running = (r, registered, True) \<Longrightarrow> \<not> running"
  by (auto simp: maybe_run_static_def execute_clearing_with_timeout_def split: if_splits option.splits awaited_clearing.splits)

end
