(* ===== verification/Adaptive_Properties.thy ===== *)
theory Adaptive_Properties
  imports Adaptive_Clearing
begin

text \<open>
  The adaptive cadence over many ticks: clearings of one equivalent keep the minimal interval and the
  exponential backoff, and every clearing gets a budget within the bounds.
\<close>

section \<open>What the steps change\<close>

text \<open>The fields the intervals depend on.\<close>

definition pace :: "eq_state \<Rightarrow> int \<times> int \<times> int" where
  "pace s = (es_last_tick s, es_backoff s, es_zero_yield s)"

lemma get_eq_update: "get_eq eq' (AList.update eq s st) = (if eq' = eq then s else get_eq eq' st)"
  by (simp add: get_eq_def update_conv')

lemma record_tick_signals_pace: "pace (get_eq eq' (record_tick_signals cfg eq a r st)) = pace (get_eq eq' st)"
  by (simp add: record_tick_signals_def Let_def get_eq_update pace_def)

lemma feed_signals_pace: "pace (get_eq eq (feed_signals cfg inp eqs st)) = pace (get_eq eq st)"
  unfolding feed_signals_def by (induction eqs arbitrary: st) (simp_all add: record_tick_signals_pace)

lemma evaluate_pace: "pace (get_eq eq' (snd (evaluate cfg eq tick st))) = pace (get_eq eq' st)"
  by (simp add: evaluate_def Let_def get_eq_update pace_def)

lemma check_interval_limits_pace: "pace s' = pace s \<Longrightarrow> check_interval_limits cfg s' tick = check_interval_limits cfg s tick"
  by (simp add: check_interval_limits_def pace_def Let_def)

lemma check_blocks: "check_interval_limits cfg s tick = Some d \<Longrightarrow> \<not> should_run d"
  by (auto simp: check_interval_limits_def skip_decision_def Let_def split: if_splits)

lemma evaluate_run:
  assumes "should_run (fst (evaluate cfg eq tick st))"
  shows "check_interval_limits cfg (get_eq eq st) tick = None"
proof -
  have "pace (get_eq eq st\<lparr>es_active := a\<rparr>) = pace (get_eq eq st)" for a by (simp add: pace_def)
  note active = check_interval_limits_pace [OF this]
  show ?thesis
    using assms by (auto simp: evaluate_def Let_def skip_decision_def active dest: check_blocks split: if_splits option.splits)
qed

lemma evaluate_all_Cons:
  assumes "evaluate_all cfg tick (q # eqs) st = (todo, st')"
  obtains d :: clearing_decision and st1 rest where "evaluate cfg q tick st = (d, st1)" and "evaluate_all cfg tick eqs st1 = (rest, st')"
    and "todo = (if should_run d then [(q, decision_budget d, decision_depth d)] else []) @ rest"
  using assms by (auto split: prod.splits)

lemma evaluate_all_todo:
  assumes "evaluate_all cfg tick eqs st = (todo, st')"
  shows "(distinct eqs \<longrightarrow> distinct (map fst todo)) \<and> fst ` set todo \<subseteq> set eqs \<and> pace (get_eq eq st') = pace (get_eq eq st)
    \<and> (eq \<in> fst ` set todo \<longrightarrow> check_interval_limits cfg (get_eq eq st) tick = None)"
  using assms
proof (induction eqs arbitrary: st todo)
  case (Cons q eqs)
  from Cons.prems obtain d :: clearing_decision and st1 rest where d: "evaluate cfg q tick st = (d, st1)"
    and r: "evaluate_all cfg tick eqs st1 = (rest, st')"
    and todo: "todo = (if should_run d then [(q, decision_budget d, decision_depth d)] else []) @ rest" by (rule evaluate_all_Cons)
  have p1: "pace (get_eq eq st1) = pace (get_eq eq st)" using evaluate_pace [of eq cfg q tick st] d by simp
  show ?case
    using Cons.IH [OF r] p1 check_interval_limits_pace [OF p1] evaluate_run [of cfg q tick st] d by (auto simp: todo)
qed simp

lemma execute_clearings_effect:
  assumes "execute_clearings co inp tick i todo st = (xs, e, st')" and "distinct (map fst todo)"
  shows "filter (\<lambda>x. ex_eq x = eq) xs = [] \<and> get_eq eq st' = get_eq eq st
    \<or> (\<exists>x. filter (\<lambda>x. ex_eq x = eq) xs = [x] \<and> eq \<in> fst ` set todo
        \<and> get_eq eq st' = get_eq eq (update_clearing_result (co_policy co) eq (outcome_volume (ex_outcome x)) tick st))"
  using assms
proof (induction todo arbitrary: i st xs e st')
  case (Cons t rest)
  obtain q budget depth where t: "t = (q, budget, depth)" by (cases t)
  show ?case
  proof (cases "0 < ti_max_eq_per_tick inp \<and> ti_max_eq_per_tick inp \<le> int i \<or> ti_tick_budget_spent inp i")
    case True
    then have "execute_clearings co inp tick i (t # rest) st = ([], None, st)" by (simp only: t execute_clearings.simps) auto
    then show ?thesis using Cons.prems(1) by simp
  next
    case False
    define b d where "b = resolve_effective_int budget (time_budget_ms_min (co_policy co)) (time_budget_ms_max (co_policy co))
        (min (global_time_budget_ms_ceiling (co_policy co)) (co_time_budget_ms co))"
      and "d = resolve_effective_int depth (max_depth_min (co_policy co)) (max_depth_max (co_policy co)) (global_max_depth_ceiling (co_policy co))"
    define r where "r = ti_clear inp q b d"
    define st1 where "st1 = update_clearing_result (co_policy co) q (outcome_volume r) tick st"
    define x :: executed_clearing where "x = \<lparr>ex_eq = q, ex_budget = b, ex_depth = d, ex_outcome = r\<rparr>"
    obtain ys e2 st2 where rec: "execute_clearings co inp tick (Suc i) rest st1 = (ys, e2, st2)" by (metis prod_cases3)
    have run: "execute_clearings co inp tick i (t # rest) st
        = (if r = ClearingCancelled then ([x], Some CancelledError, st1) else (x # ys, e2, st2))"
      using False rec by (simp add: t Let_def b_def d_def r_def st1_def x_def)
    have other: "get_eq eq st1 = get_eq eq st" if "eq \<noteq> q" using that by (simp add: st1_def update_clearing_result_def Let_def get_eq_update)
    note IH = Cons.IH [OF rec]
    show ?thesis
    proof (cases "eq = q")
      case True
      have "eq \<notin> fst ` set rest" using Cons.prems(2) True by (simp add: t)
      with IH have "filter (\<lambda>x. ex_eq x = eq) ys = []" "get_eq eq st2 = get_eq eq st1" using Cons.prems(2) by auto
      then show ?thesis using Cons.prems(1) True unfolding run by (auto simp: x_def st1_def t split: if_splits)
    next
      case False
      have "get_eq eq (update_clearing_result (co_policy co) eq v tick st1) = get_eq eq (update_clearing_result (co_policy co) eq v tick st)" for v
        by (simp add: update_clearing_result_def Let_def get_eq_update other [OF False])
      then show ?thesis using IH Cons.prems other [OF False] False unfolding run by (auto simp: x_def t split: if_splits)
    qed
  qed
qed simp

section \<open>Runs\<close>

text \<open>
  A run of ticks, with the log of the clearings of one equivalent: the tick, and whether the clearing
  yielded nothing. A clearing that timed out, failed or was cancelled yields nothing.
\<close>

definition log_entries :: "string \<Rightarrow> int \<Rightarrow> executed_clearing list \<Rightarrow> (int \<times> bool) list" where
  "log_entries eq tick xs = map (\<lambda>x. (tick, outcome_volume (ex_outcome x) < zero_volume_eps)) (filter (\<lambda>x. ex_eq x = eq) xs)"

inductive adaptive_run :: "coordinator_config \<Rightarrow> string \<Rightarrow> adaptive_state \<Rightarrow> (int \<times> bool) list \<Rightarrow> int \<Rightarrow> bool" for co eq where
  start: "adaptive_run co eq [] [] (-1)"
| tick: "adaptive_run co eq st runs now \<Longrightarrow> now < tick \<Longrightarrow> distinct (ti_equivalents inp) \<Longrightarrow> maybe_run_adaptive co inp tick st = (xs, e, st')
    \<Longrightarrow> adaptive_run co eq st' (runs @ log_entries eq tick xs) tick"

definition streak :: "(int \<times> bool) list \<Rightarrow> nat" where
  "streak runs = length (takeWhile snd (rev runs))"

lemma streak_append [simp]: "streak (runs @ [(t, z)]) = (if z then Suc (streak runs) else 0)" "streak [] = 0"
  by (simp_all add: streak_def)

text \<open>How long to wait after a log: the minimal interval, and the backoff after clearings without yield.\<close>

definition wait_after :: "policy_config \<Rightarrow> (int \<times> bool) list \<Rightarrow> int" where
  "wait_after cfg runs = (if streak runs = 0 then min_interval_ticks cfg else max (min_interval_ticks cfg) (backoff_after cfg (int (streak runs))))"

definition spaced :: "policy_config \<Rightarrow> (int \<times> bool) list \<Rightarrow> bool" where
  "spaced cfg runs \<longleftrightarrow> (\<forall>i. Suc i < length runs \<longrightarrow> fst (runs ! i) + wait_after cfg (take (Suc i) runs) \<le> fst (runs ! Suc i))"

lemma spaced_append:
  assumes "spaced cfg runs" and "runs \<noteq> [] \<Longrightarrow> fst (last runs) + wait_after cfg runs \<le> t"
  shows "spaced cfg (runs @ [(t, z)])"
  unfolding spaced_def
proof (intro allI impI)
  fix i assume i: "Suc i < length (runs @ [(t, z)])"
  show "fst ((runs @ [(t, z)]) ! i) + wait_after cfg (take (Suc i) (runs @ [(t, z)])) \<le> fst ((runs @ [(t, z)]) ! Suc i)"
  proof (cases "Suc i < length runs")
    case True
    then show ?thesis using assms(1) by (simp add: spaced_def nth_append)
  next
    case False
    with i have len: "length runs = Suc i" by simp
    then have "runs \<noteq> []" "last runs = runs ! i" by (cases runs rule: rev_cases; simp add: nth_append)+
    then show ?thesis using assms(2) len by (simp add: nth_append)
  qed
qed

definition log_pace :: "policy_config \<Rightarrow> (int \<times> bool) list \<Rightarrow> int \<times> int \<times> int" where
  "log_pace cfg runs = (if runs = [] then -1 else fst (last runs), if streak runs = 0 then 0 else backoff_after cfg (int (streak runs)), int (streak runs))"

lemma backoff_after_ge: "1 \<le> backoff_after cfg n" "min_interval_ticks cfg \<le> backoff_after cfg n"
  by (simp_all add: backoff_after_def Let_def le_max_iff_disj)

lemma interval_limits_wait:
  assumes "pace s = log_pace cfg runs" and "check_interval_limits cfg s tick = None" and "runs \<noteq> []" and "0 \<le> fst (last runs)"
  shows "fst (last runs) + wait_after cfg runs \<le> tick"
  using assms backoff_after_ge(1) [of cfg "int (streak runs)"]
  by (auto simp: pace_def log_pace_def check_interval_limits_def wait_after_def Let_def split: if_splits)

lemma update_result_pace:
  assumes "pace (get_eq eq st) = log_pace cfg runs"
  shows "pace (get_eq eq (update_clearing_result cfg eq v tick st)) = log_pace cfg (runs @ [(tick, v < zero_volume_eps)])"
  using assms by (auto simp: pace_def log_pace_def update_clearing_result_def get_eq_update Let_def add.commute)

lemma adaptive_tick_cases:
  assumes "maybe_run_adaptive co inp tick st = (xs, e, st')" and "distinct (ti_equivalents inp)"
  obtains (idle) "log_entries eq tick xs = []" "pace (get_eq eq st') = pace (get_eq eq st)"
    | (ran) s v where "log_entries eq tick xs = [(tick, v < zero_volume_eps)]" "pace (get_eq eq s) = pace (get_eq eq st)"
        "check_interval_limits (co_policy co) (get_eq eq st) tick = None" "get_eq eq st' = get_eq eq (update_clearing_result (co_policy co) eq v tick s)"
proof -
  define st1 where "st1 = feed_signals (co_policy co) inp (sort (ti_equivalents inp)) st"
  obtain todo st2 where todo: "evaluate_all (co_policy co) tick (sort (ti_equivalents inp)) st1 = (todo, st2)"
    by (cases "evaluate_all (co_policy co) tick (sort (ti_equivalents inp)) st1")
  have p1: "pace (get_eq eq st1) = pace (get_eq eq st)" unfolding st1_def by (rule feed_signals_pace)
  note all = evaluate_all_todo [OF todo, of eq]
  have p2: "pace (get_eq eq st2) = pace (get_eq eq st)" using all p1 by simp
  consider "xs = []" "st' = st1" | "xs = []" "st' = st2" | "execute_clearings co inp tick 0 todo st2 = (xs, e, st')"
    using assms(1) todo unfolding maybe_run_adaptive_def Let_def st1_def [symmetric] by (auto split: if_splits option.splits)
  then show ?thesis
  proof cases
    case 3
    have "distinct (map fst todo)" using all assms(2) by simp
    from execute_clearings_effect [OF 3 this, of eq] show ?thesis
    proof (elim disjE exE conjE)
      assume "filter (\<lambda>x. ex_eq x = eq) xs = []" "get_eq eq st' = get_eq eq st2"
      then show ?thesis using idle p2 by (simp add: log_entries_def)
    next
      fix x assume x: "filter (\<lambda>x. ex_eq x = eq) xs = [x]" "eq \<in> fst ` set todo"
        "get_eq eq st' = get_eq eq (update_clearing_result (co_policy co) eq (outcome_volume (ex_outcome x)) tick st2)"
      show ?thesis
        by (rule ran [OF _ p2 _ x(3)]) (use x(1,2) all check_interval_limits_pace [OF p1] in \<open>simp_all add: log_entries_def\<close>)
    qed
  qed (use idle p1 p2 in \<open>simp_all add: log_entries_def\<close>)
qed

lemma adaptive_run_paced:
  assumes "adaptive_run co eq st runs now"
  shows "pace (get_eq eq st) = log_pace (co_policy co) runs \<and> spaced (co_policy co) runs \<and> -1 \<le> now \<and> (\<forall>x \<in> set runs. 0 \<le> fst x \<and> fst x \<le> now)"
  using assms
proof induction
  case start
  show ?case by (simp add: pace_def log_pace_def get_eq_def fresh_eq_state_def spaced_def)
next
  case (tick st runs now tick inp xs e st')
  note IH = tick.IH
  from tick.hyps(4,3) show ?case
  proof (cases rule: adaptive_tick_cases [where eq = eq])
    case idle
    then show ?thesis using IH tick.hyps(2) by force
  next
    case (ran s v)
    have last: "0 \<le> fst (last runs)" if "runs \<noteq> []" using IH that by simp
    have "spaced (co_policy co) (runs @ [(tick, v < zero_volume_eps)])"
      by (rule spaced_append) (use IH interval_limits_wait [OF _ ran(3)] last in auto)
    moreover have "pace (get_eq eq st') = log_pace (co_policy co) (runs @ [(tick, v < zero_volume_eps)])"
      using update_result_pace [of eq s "co_policy co" runs v tick] ran(2,4) IH by simp
    ultimately show ?thesis using IH tick.hyps(2) ran(1) by force
  qed
qed

lemma backoff_after_formula:
  assumes "0 < k"
  shows "backoff_after cfg (int k) = min (max (max 1 (min_interval_ticks cfg)) (backoff_max_interval_ticks cfg)) (max 1 (min_interval_ticks cfg) * 2 ^ (k - 1))"
proof -
  let ?m = "max 1 (min_interval_ticks cfg)"
  have "?m * 1 \<le> ?m * 2 ^ (k - 1)" by (rule mult_left_mono) simp_all
  moreover have "nat (max 0 (int k - 1)) = k - 1" using assms by (simp add: of_nat_diff)
  ultimately show ?thesis by (simp add: backoff_after_def Let_def)
qed

text \<open>
  C15. Clearings keep their distance. Over any sequence of ticks, whatever the payments, the load, the
  caps and the outcomes, two consecutive clearings of an equivalent are at least the minimal interval
  apart; and after \<open>k\<close> clearings in a row that yielded nothing, timed out, failed or were cancelled, the
  next one waits at least the minimal interval doubled \<open>k - 1\<close> times, up to the maximal backoff.
\<close>

theorem clearings_are_spaced:
  assumes "adaptive_run co eq st runs now" and "Suc i < length runs"
  shows "fst (runs ! i) + min_interval_ticks (co_policy co) \<le> fst (runs ! Suc i)
    \<and> (let m = max 1 (min_interval_ticks (co_policy co)); k = streak (take (Suc i) runs) in
        0 < k \<longrightarrow> fst (runs ! i) + min (max m (backoff_max_interval_ticks (co_policy co))) (m * 2 ^ (k - 1)) \<le> fst (runs ! Suc i))"
proof -
  have "fst (runs ! i) + wait_after (co_policy co) (take (Suc i) runs) \<le> fst (runs ! Suc i)"
    using adaptive_run_paced [OF assms(1)] assms(2) by (simp add: spaced_def)
  moreover have "min_interval_ticks (co_policy co) \<le> wait_after (co_policy co) (take (Suc i) runs)" by (simp add: wait_after_def)
  moreover have "backoff_after (co_policy co) (int (streak (take (Suc i) runs))) \<le> wait_after (co_policy co) (take (Suc i) runs)"
    if "0 < streak (take (Suc i) runs)" using that by (simp add: wait_after_def)
  ultimately show ?thesis unfolding Let_def using backoff_after_formula [of "streak (take (Suc i) runs)" "co_policy co"] by linarith
qed

section \<open>A run\<close>

definition sample_policy :: policy_config where
  "sample_policy = \<lparr>window_ticks = 30, no_capacity_high = 6 / 10, no_capacity_low = 3 / 10, min_interval_ticks = 2, backoff_max_interval_ticks = 60,
     inflight_threshold = 0, queue_depth_threshold = 0, max_depth_min = 3, max_depth_max = 6, time_budget_ms_min = 50, time_budget_ms_max = 250,
     global_max_depth_ceiling = 6, global_time_budget_ms_ceiling = 250, warmup_fallback_cadence = 2\<rparr>"

definition sample_coordinator :: coordinator_config where
  "sample_coordinator = \<lparr>co_policy = sample_policy, co_time_budget_ms = 250\<rparr>"

definition sample_tick :: tick_input where
  "sample_tick = \<lparr>ti_equivalents = [''UAH''], ti_attempted = (\<lambda>_. 4), ti_rejected = (\<lambda>_. 3), ti_in_flight = 0, ti_queue_depth = 0, ti_has_runner = True,
     ti_commit_error = None, ti_max_eq_per_tick = 0, ti_tick_budget_spent = (\<lambda>_. False), ti_clear = (\<lambda>_ _ _. ClearingTimedOut)\<rparr>"

lemma bit_scale_ge: "q \<le> 2 ^ bit_scale q"
proof (induction q rule: bit_scale.induct)
  case (1 q)
  then show ?case by (cases "q \<le> 1") (simp_all add: bit_scale.simps [of q])
qed

lemma zero_volume_eps_pos: "0 < zero_volume_eps"
proof -
  define v :: rat where "v = 1 / 10 ^ 9"
  define up where "up = bit_scale (2 ^ 52 / v)"
  have down: "bit_scale (v / 2 ^ 53) = 0" by (simp add: v_def bit_scale.simps)
  have "2 ^ 52 / v \<le> 2 ^ up" unfolding up_def by (rule bit_scale_ge)
  then have "of_int 1 \<le> v * 2 ^ up" by (simp add: v_def)
  from round_half_even_mono [OF this] have "1 \<le> round_half_even (v * 2 ^ up)" by (simp only: round_half_even_of_int)
  then have "0 < float64 v" using down by (simp add: float64_def up_def Let_def) (simp add: v_def)
  then show ?thesis by (simp add: zero_volume_eps_def v_def)
qed

lemma sample_tick_runs:
  assumes "tick mod 2 = 0" and "length (es_window (get_eq ''UAH'' st)) < 29" and "check_interval_limits sample_policy (get_eq ''UAH'' st) tick = None"
  shows "\<exists>xs st'. maybe_run_adaptive sample_coordinator sample_tick tick st = (xs, None, st') \<and> log_entries ''UAH'' tick xs = [(tick, True)]
    \<and> length (es_window (get_eq ''UAH'' st')) = Suc (length (es_window (get_eq ''UAH'' st)))"
proof -
  define st1 where "st1 = feed_signals sample_policy sample_tick [''UAH''] st"
  have w: "length (es_window (get_eq ''UAH'' st1)) = Suc (length (es_window (get_eq ''UAH'' st)))"
    using assms(2) by (simp add: st1_def feed_signals_def record_tick_signals_def get_eq_update Let_def sample_policy_def)
  have "check_interval_limits sample_policy (get_eq ''UAH'' st1) tick = None"
    using assms(3) check_interval_limits_pace [OF feed_signals_pace] by (simp add: st1_def)
  then have "evaluate sample_policy ''UAH'' tick st1 = (make_min_budget_decision sample_policy WARMUP_RUN, st1)"
    using w assms(1,2) by (simp add: evaluate_def Let_def) (simp add: sample_policy_def)
  then have all: "evaluate_all sample_policy tick [''UAH''] st1 = ([(''UAH'', Some 50, Some 3)], st1)"
    by (simp add: make_min_budget_decision_def run_with_def sample_policy_def)
  define st2 where "st2 = update_clearing_result sample_policy ''UAH'' (outcome_volume ClearingTimedOut) tick st1"
  have "maybe_run_adaptive sample_coordinator sample_tick tick st
    = ([\<lparr>ex_eq = ''UAH'', ex_budget = 50, ex_depth = 3, ex_outcome = ClearingTimedOut\<rparr>], None, st2)"
  proof -
    have inp: "ti_equivalents sample_tick = [''UAH'']" "co_policy sample_coordinator = sample_policy" "\<not> guarded sample_policy sample_tick"
      "ti_has_runner sample_tick" "ti_commit_error sample_tick = None" by (simp_all add: sample_tick_def sample_coordinator_def sample_policy_def guarded_def)
    have "execute_clearings sample_coordinator sample_tick tick 0 [(''UAH'', Some 50, Some 3)] st1
      = ([\<lparr>ex_eq = ''UAH'', ex_budget = 50, ex_depth = 3, ex_outcome = ClearingTimedOut\<rparr>], None, st2)"
      by (simp add: Let_def inp(2) st2_def sample_tick_def) (simp add: sample_policy_def sample_coordinator_def resolve_effective_int_def clamp_int_def)
    then show ?thesis using all unfolding st1_def by (simp add: maybe_run_adaptive_def Let_def inp)
  qed
  moreover have "length (es_window (get_eq ''UAH'' st2)) = length (es_window (get_eq ''UAH'' st1))"
    by (simp add: st2_def update_clearing_result_def Let_def get_eq_update)
  ultimately show ?thesis using w zero_volume_eps_pos by (simp add: log_entries_def outcome_volume_def)
qed

theorem clearings_are_spaced_witness:
  "\<exists>st. adaptive_run sample_coordinator ''UAH'' st [(0, True), (2, True)] 2 \<and> streak (take 1 [(0, True), (2 :: int, True)]) = 1
    \<and> fst ((0 :: int, True)) + min_interval_ticks (co_policy sample_coordinator) \<le> 2"
proof -
  obtain xs st1 where one: "maybe_run_adaptive sample_coordinator sample_tick 0 [] = (xs, None, st1)" "log_entries ''UAH'' 0 xs = [(0, True)]"
    "length (es_window (get_eq ''UAH'' st1)) = 1"
    using sample_tick_runs [of 0 "[]"] by (auto simp: get_eq_def fresh_eq_state_def check_interval_limits_def)
  have run1: "adaptive_run sample_coordinator ''UAH'' st1 [(0, True)] 0"
    using adaptive_run.tick [OF adaptive_run.start _ _ one(1), of "''UAH''"] one(2) by (simp add: sample_tick_def)
  have "pace (get_eq ''UAH'' st1) = log_pace sample_policy [(0, True)]"
    using adaptive_run_paced [OF run1] by (simp add: sample_coordinator_def)
  then have "check_interval_limits sample_policy (get_eq ''UAH'' st1) 2 = None"
    by (simp add: pace_def log_pace_def streak_def check_interval_limits_def backoff_after_def sample_policy_def)
  then obtain ys st2 where two: "maybe_run_adaptive sample_coordinator sample_tick 2 st1 = (ys, None, st2)" "log_entries ''UAH'' 2 ys = [(2, True)]"
    using sample_tick_runs [of 2 st1] one(3) by auto
  have run2: "adaptive_run sample_coordinator ''UAH'' st2 [(0, True), (2, True)] 2"
    using adaptive_run.tick [OF run1 _ _ two(1)] two(2) by (simp add: sample_tick_def)
  from clearings_are_spaced [OF run2, of 0] run2 show ?thesis by (auto simp: streak_def)
qed

section \<open>Budgets\<close>

lemma execute_clearings_budgets:
  assumes "execute_clearings co inp tick i todo st = (xs, e, st')" and "x \<in> set xs"
  shows "\<exists>b d. ex_budget x = resolve_effective_int b (time_budget_ms_min (co_policy co)) (time_budget_ms_max (co_policy co))
        (min (global_time_budget_ms_ceiling (co_policy co)) (co_time_budget_ms co))
    \<and> ex_depth x = resolve_effective_int d (max_depth_min (co_policy co)) (max_depth_max (co_policy co)) (global_max_depth_ceiling (co_policy co))"
  using assms
proof (induction todo arbitrary: i st xs)
  case (Cons t rest)
  obtain q b d where t: "t = (q, b, d)" by (cases t)
  show ?case using Cons.prems Cons.IH by (fastforce simp: t Let_def split: if_splits prod.splits)
qed simp

lemma resolve_effective_int_bounds:
  "max 1 lo \<le> resolve_effective_int raw lo hi bnd
    \<and> (if max 1 lo \<le> min hi bnd then resolve_effective_int raw lo hi bnd \<le> min hi bnd else resolve_effective_int raw lo hi bnd = max 1 lo)"
  by (auto simp: resolve_effective_int_def clamp_int_def Let_def)

text \<open>
  The budget of every clearing is at least the configured minimum and at least 1. It respects the
  configured maximum and the global ceilings only if the minimum does: a minimum above a ceiling
  wins, and the clearing runs above the ceiling.
\<close>

theorem clearing_budgets_bounded:
  assumes "maybe_run_adaptive co inp tick st = (xs, e, st')" and "x \<in> set xs"
  shows "(let cfg = co_policy co; lo = max 1 (time_budget_ms_min cfg);
        hi = min (time_budget_ms_max cfg) (min (global_time_budget_ms_ceiling cfg) (co_time_budget_ms co))
      in lo \<le> ex_budget x \<and> (if lo \<le> hi then ex_budget x \<le> hi else ex_budget x = lo))
    \<and> (let cfg = co_policy co; lo = max 1 (max_depth_min cfg); hi = min (max_depth_max cfg) (global_max_depth_ceiling cfg)
      in lo \<le> ex_depth x \<and> (if lo \<le> hi then ex_depth x \<le> hi else ex_depth x = lo))"
proof -
  obtain todo st2 where "execute_clearings co inp tick 0 todo st2 = (xs, e, st')"
    using assms by (auto simp: maybe_run_adaptive_def Let_def split: if_splits prod.splits option.splits)
  from execute_clearings_budgets [OF this assms(2)] obtain b d where
    x: "ex_budget x = resolve_effective_int b (time_budget_ms_min (co_policy co)) (time_budget_ms_max (co_policy co))
        (min (global_time_budget_ms_ceiling (co_policy co)) (co_time_budget_ms co))"
      "ex_depth x = resolve_effective_int d (max_depth_min (co_policy co)) (max_depth_max (co_policy co)) (global_max_depth_ceiling (co_policy co))"
    by blast
  show ?thesis
    unfolding Let_def x by (intro conjI resolve_effective_int_bounds [THEN conjunct1] resolve_effective_int_bounds [THEN conjunct2])
qed

end
