(* ===== verification/Spec2Isabelle.thy ===== *)
theory Spec2Isabelle
  imports Ledger_Properties Network_Properties Policy_Types Payment_Replay
    Recovery_Properties Account_Properties Drift_Properties Adaptive_Properties
begin

text \<open>
  \<^bold>\<open>The GEO hub.\<close> Participants extend trust lines to each other; a trust line from A to B with a limit
  means that B may owe A up to the limit, in one equivalent (a unit of account). A payment travels
  along a chain of trust lines and leaves a debt on every segment; a cycle of debts is cleared by
  reducing all of them by the same amount. The program is the Python package under \<^verbatim>\<open>src/app\<close>, on
  SQLAlchemy and PostgreSQL (SQLite in tests). This development models the services of
  \<^verbatim>\<open>src/app/core\<close> that carry this logic and states what makes them correct.

  \<^bold>\<open>How the code is modelled.\<close> A table is a list of records, a row of the ORM a record with the
  columns the code uses (\<^verbatim>\<open>Domain\<close>, after \<^verbatim>\<open>app/db/models\<close>); the database is the record \<open>db\<close>. Amounts are
  rationals. Limits and debts are stored through \<open>store_numeric\<close>, which rounds to the eight decimals of
  the \<^verbatim>\<open>Numeric(20, 8)\<close> columns and raises beyond twelve integer digits, and debts then meet the check
  constraint on their amount; within one flow the objects of the session still have the unrounded
  value (\<open>session_debt\<close>), between flows they are read again. Arithmetic in memory is exact: engine,
  router and clearing compute with the 28 digits of the decimal context, which amounts of the size of
  the columns do not exceed (the parser admits 50 digits; such amounts are outside the model). Drift
  multiplies and divides, so there the context is written out.
  Texts of amounts are parsed digit by digit. A method is a function of its arguments and the
  database that returns the new database, or an exception of the datatype \<open>exc\<close>, one constructor for
  each class the code raises or catches. Where a coroutine waits, other sessions can commit in
  between: the unit of work of the payment engine and of a clearing reads a snapshot for each lock it waits for
  (\<open>commit_env\<close>, \<open>abort_env\<close>), the payment service has the stages of \<open>pay_stage\<close> with the function
  \<open>pe_others\<close> for the other sessions and \<open>pe_stop\<close> for an exception from outside (a timeout, a
  cancellation, a database error whose effect on the database is unknown), the recovery has \<open>recovery_env\<close>.
  Third-party code is a parameter: \<open>verify\<close> (Ed25519), \<open>sha256\<close>, \<open>uuid5\<close>, \<open>pid_of_key\<close>, \<open>jwt_encode\<close> and
  \<open>jwt_decode\<close>. The deadline of the route search is a number of clock readings (\<open>ticks\<close>);
  \<open>find_flow_routes_within_bound\<close> says how many are enough. The loops that may not end return an option;
  every other loop is a terminating function, the retry wrapper by a measure.

  \<^bold>\<open>Theories, components and sources.\<close>
  \<^item> \<^verbatim>\<open>Geo_Prelude\<close>, \<^verbatim>\<open>Domain\<close>: tables of rows, sums, folds that may raise; error codes, exceptions
    (\<^verbatim>\<open>app/utils/exceptions.py\<close>), decimals, the data model.
  \<^item> \<^verbatim>\<open>Ledger\<close>, \<^verbatim>\<open>Ledger_Properties\<close>: debts and net positions, the invariant checker
    (\<^verbatim>\<open>app/core/invariants.py\<close>) and the integrity checkpoint (\<^verbatim>\<open>app/core/integrity.py\<close>). When the checks pass.
  \<^item> \<^verbatim>\<open>Payment_Engine\<close>, \<^verbatim>\<open>Flow_Application\<close>, \<^verbatim>\<open>Two_Phase_Commit\<close>, \<^verbatim>\<open>Reservations\<close>, \<^verbatim>\<open>Engine_Properties\<close>,
    \<^verbatim>\<open>Engine_Outcomes\<close>, \<^verbatim>\<open>Sample_Hub\<close>: the two-phase commit of \<^verbatim>\<open>app/core/payments/engine.py\<close>. Reservations never
    exceed the capacity of a segment over any interleaving, what is prepared can be committed, a
    payment moves its endpoints only, terminal states are final, a failed commit leaves no trace.
  \<^item> \<^verbatim>\<open>Router\<close>, \<^verbatim>\<open>Route_Search\<close>, \<^verbatim>\<open>Path_Search\<close>, \<^verbatim>\<open>Route_Graph\<close>, \<^verbatim>\<open>Route_Flow\<close>, \<^verbatim>\<open>Route_Build\<close>, \<^verbatim>\<open>Routed_Payment\<close>,
    \<^verbatim>\<open>Route_Properties\<close>, \<^verbatim>\<open>Max_Flow\<close>, \<^verbatim>\<open>Topology\<close>, \<^verbatim>\<open>Network_Properties\<close>: \<^verbatim>\<open>app/core/payments/router.py\<close>. The graph has
    the capacities of the engine, the search finds shortest paths, routes found are accepted by the
    engine, and the maximum flow is optimal where its hop limit does not bind.
  \<^item> \<^verbatim>\<open>Clearing\<close>, \<^verbatim>\<open>Cycle_Detection\<close>, \<^verbatim>\<open>Clearing_Effect\<close>, \<^verbatim>\<open>Clearing_Properties\<close>: \<^verbatim>\<open>app/core/clearing/service.py\<close>.
    Candidates are genuine cycles of consenting debts, a clearing is neutral, the automatic loop ends.
  \<^item> \<^verbatim>\<open>Validation\<close>, \<^verbatim>\<open>Amounts\<close>, \<^verbatim>\<open>Canonical_Json\<close>, \<^verbatim>\<open>Policies\<close>, \<^verbatim>\<open>Policy_Types\<close>: \<^verbatim>\<open>app/utils/validation.py\<close> and
    \<^verbatim>\<open>app/core/auth/canonical.py\<close>. The canonical JSON binds a payload whatever the order of its keys.
  \<^item> \<^verbatim>\<open>Trust_Lines\<close>, \<^verbatim>\<open>Line_Operations\<close>, \<^verbatim>\<open>Line_Properties\<close>: \<^verbatim>\<open>app/core/trustlines/service.py\<close>.
  \<^item> \<^verbatim>\<open>Payment_Service\<close>, \<^verbatim>\<open>Sample_Payment\<close>, \<^verbatim>\<open>Payment_Outcomes\<close>, \<^verbatim>\<open>Payment_Properties\<close>, \<^verbatim>\<open>Payment_Replay\<close>:
    \<^verbatim>\<open>app/core/payments/service.py\<close>. A payment with routes commits, a failed one moves nothing, a repeated
    request gets the same answer, a reused identifier is a conflict, a scoped payment stays inside.
  \<^item> \<^verbatim>\<open>Recovery\<close>, \<^verbatim>\<open>Recovery_Properties\<close>: \<^verbatim>\<open>app/core/recovery.py\<close>.
  \<^item> \<^verbatim>\<open>Balance\<close>, \<^verbatim>\<open>Balance_Properties\<close>: \<^verbatim>\<open>app/core/balance/service.py\<close>.
  \<^item> \<^verbatim>\<open>Accounts\<close>, \<^verbatim>\<open>Account_Properties\<close>: \<^verbatim>\<open>app/core/participants/service.py\<close>, \<^verbatim>\<open>app/core/auth/service.py\<close> and
    \<^verbatim>\<open>app/utils/security.py\<close>. Identities stay unique, a challenge logs in once, a refresh token is
    exchanged once, unless two calls overlap.
  \<^item> \<^verbatim>\<open>Decimal_Context\<close>: rounding to 28 digits and \<open>quantize\<close>, where a result of \<^verbatim>\<open>decimal\<close> is not exact.
  \<^item> \<^verbatim>\<open>Commit_Resolution\<close>: \<^verbatim>\<open>app/core/simulator/commit_resolution.py\<close>, a commit that is waited for through
    cancellations.
  \<^item> \<^verbatim>\<open>Trust_Drift\<close>, \<^verbatim>\<open>Drift_Limits\<close>, \<^verbatim>\<open>Drift_Properties\<close>: \<^verbatim>\<open>app/core/simulator/trust_drift_engine.py\<close> and its
    coordinator, the part of the simulator that writes the hub's own trust lines. When drift keeps the
    ledger in order, and two ways in which it does not.
  \<^item> \<^verbatim>\<open>Adaptive_Clearing\<close>, \<^verbatim>\<open>Adaptive_Properties\<close>: \<^verbatim>\<open>app/core/simulator/adaptive_clearing_policy.py\<close> and
    \<^verbatim>\<open>real_tick_clearing_coordinator.py\<close>. Clearings keep their intervals, budgets their bounds.
  \<^item> \<^verbatim>\<open>Hub_Invariant\<close> and this theory: the invariant \<open>ledger_inv\<close> of the whole hub, the interface
    \<open>ledger_operation\<close> that every component implements, and the theorems over all of them.

  \<^bold>\<open>Interfaces.\<close> A locale states what one component promises to the others: \<open>ledger_operation\<close> (a step
  relation that keeps \<open>ledger_inv\<close>) is interpreted by the engine, the clearing, the trust-line service,
  the trust drift and the hub as a whole; \<open>additive_run\<close> (an operation that, when it
  succeeds, adds a delta to a measure of the state) by the net positions and the pair balances under
  payments; its extension \<open>total_run\<close>, for operations that never raise, by the flow along an augmenting
  path and the capacities of the router's graph; \<open>prefix_code\<close> by the escapes of JSON and by UTF-8; \<open>revocation_store\<close> by the revoked
  tokens in memory.

  \<^bold>\<open>Assumptions worth knowing.\<close> The unique and foreign keys of the schema are invariants, not
  assumptions, except in the balance summary (\<open>references_ok\<close>). The properties that promise a commit
  or a capacity, and the ledger invariant, need amounts of at most eight decimals in the prepare
  locks (\<open>grid_locks\<close>, \<open>on_grid\<close>): the parser accepts eighteen, nothing on the way to the debts rounds, and
  the columns do (\<open>off_grid_flows\<close> shows both consequences). Stored debts and limits are values of their
  column (\<open>column_value\<close>, part of \<open>debts_wf\<close> and \<open>trust_lines_wf\<close>). The properties of a repeated request
  and of a payment's perimeter hold for calls during which no other session commits; with other
  sessions the timeout path breaks both.

  \<^bold>\<open>Not modelled.\<close> The HTTP and WebSocket API and the request schemas translate and forward; the
  metrics, the logging, the event bus, the Redis locks and caches are calls of other libraries; the
  administration pages read statistics. Of the simulator, a load generator on top of the services,
  only the parts above are modelled: the rest draws random plans, streams events and writes
  artifacts. Seeds, fixtures, scripts and
  migrations are outside the running hub. Within the components: the cancellation of a clearing,
  the interruption of a payment's cleanup by the overall deadline, and commits of other sessions
  between the read and the write of a trust-line update, and the revocation of tokens in Redis.
\<close>

section \<open>The hub as a whole\<close>

text \<open>
  One step of the hub: a step of the payment engine whose locks carry amounts of at most eight
  decimals, a clearing, a change of a trust line, or a drift of limits under its conditions. Steps of
  the first three that raise leave nothing behind.
\<close>

inductive hub_step :: "db \<Rightarrow> db \<Rightarrow> bool" where
  hub_engine: "engine_step db db' \<Longrightarrow> grid_locks db' \<Longrightarrow> hub_step db db'"
| hub_clearing: "clearing_step db db' \<Longrightarrow> hub_step db db'"
| hub_line: "line_step db db' \<Longrightarrow> hub_step db db'"
| hub_drift: "drift_step db db' \<Longrightarrow> hub_step db db'"

inductive_cases hub_stepE: "hub_step db db'"

interpretation hub_op: ledger_operation hub_step
  by unfold_locales (auto elim!: hub_stepE intro: engine_op.keeps clearing_op.keeps line_op.keeps drift_op.keeps)

text \<open>
  C1. The hub never lets anyone owe more than was trusted. From a state that keeps the ledger's
  invariant, after any sequence of prepares, commits, aborts, clearings, created, updated and closed
  trust lines, and limits that drift on a current snapshot and within their caps, by any number of
  sessions in any order, every debt is within the limit of the active trust line from its creditor
  to its debtor, no two participants owe each other, the net positions of every equivalent sum to
  zero, and the integrity checkpoint of every equivalent passes.
\<close>

theorem hub_keeps_ledger:
  assumes "ledger_inv db" and "hub_step\<^sup>*\<^sup>* db db'"
  shows "owes db' x y e \<le> active_limit y x e db' \<and> \<not> (0 < owes db' x y e \<and> 0 < owes db' y x e)
    \<and> check_zero_sum (Some e) db' = Inr () \<and> cp_passed (compute_integrity_checkpoint e db')"
proof -
  have inv: "ledger_inv db'" by (rule hub_op.run_keeps [OF assms(2,1)])
  note wf = tables_wfD [OF ledger_invD(1) [OF inv]]
  have lim: "owes db' u v w \<le> active_limit v u w db'" for u v w
    using ledger_invD(3) [OF inv] by (simp add: limits_kept_def within_limit_def)
  have sym: "\<not> (0 < owes db' u v w \<and> 0 < owes db' v u w)" for u v w
    using ledger_invD(2) [OF inv] by (simp add: symmetric_ledger_def symmetric_pair_def)
  have "debt_amount d \<le> active_limit (creditor_id d) (debtor_id d) (debt_equivalent d) db'" if "d \<in> set (debts db')" for d
    using lim [of "debtor_id d" "creditor_id d" "debt_equivalent d"] owes_row [OF wf(1) that] by simp
  then have "cp_passed (compute_integrity_checkpoint e db')"
    unfolding checkpoint_passed_iff [OF wf(1,2)] using sym by blast
  then show ?thesis using lim sym zero_sum_check by blast
qed

theorem hub_keeps_ledger_witness:
  "\<exists>resp db1 cache'. prepare 1000 60 ''t1'' [''A'', ''B'', ''C''] 10 9 sample_db = Inr prepared_db
    \<and> update (\<lambda>_ _ _. True) 10 6 lower_limit prepared_db \<lparr>graph_cache = [], topology_cache = []\<rparr> = Inr (resp, db1, cache')
    \<and> owes db1 6 5 9 \<le> active_limit 5 6 9 db1 \<and> cp_passed (compute_integrity_checkpoint 9 db1)"
proof -
  obtain resp db1 cache' where
    up: "update (\<lambda>_ _ _. True) 10 6 lower_limit prepared_db \<lparr>graph_cache = [], topology_cache = []\<rparr> = Inr (resp, db1, cache')"
    using lower_limit_update [OF signature_ok_any [OF lower_limit_signable]] by blast
  have "hub_step sample_db prepared_db" by (rule hub_engine [OF sample_prepare_step prepared_grid_locks])
  moreover have "hub_step prepared_db db1" by (rule hub_line [OF step_update [OF up]])
  ultimately have "hub_step\<^sup>*\<^sup>* sample_db db1" by (meson r_into_rtranclp rtranclp_trans)
  from hub_keeps_ledger [OF sample_ledger_inv this] show ?thesis using up sample_prepares by blast
qed

end
